(* ===== verification/Kernel_Prelude.thy ===== *)
theory Kernel_Prelude
  imports Main "HOL-Library.Word" "HOL-Library.Monad_Syntax"
begin

text \<open>
  Shared vocabulary of the development: the C integer types of \<open>include/types.h\<close> as words,
  the undefined-behaviour convention, byte-array slices, the little-endian layout of packed
  structs, and the generic lemmas the component theories use.

  Convention: an operation whose C body can index an array out of its bounds, overflow a signed
  integer or loop for ever returns an \<open>option\<close>, and \<open>None\<close> stands for exactly those outcomes.
  A theorem that a result is \<open>Some\<close> is therefore a memory-safety and termination statement.
\<close>

unbundle bit_operations_syntax

type_synonym u8 = "8 word"
type_synonym u16 = "16 word"
type_synonym u32 = "32 word"

named_theorems pmm_simps \<open>facts about the physical page bitmap\<close>
named_theorems heap_simps \<open>facts about the kernel heap layout\<close>
named_theorems fs_simps \<open>facts about the on-disk structures\<close>

section \<open>Machine words\<close>

lemma unat_of_nat_u32 [simp]: "n < 4294967296 \<Longrightarrow> unat (of_nat n :: u32) = n"
  by (simp add: unat_of_nat take_bit_nat_eq_self_iff)

lemma of_nat_u32_eq_iff:
  "m < 4294967296 \<Longrightarrow> n < 4294967296 \<Longrightarrow> (of_nat m :: u32) = of_nat n \<longleftrightarrow> m = n"
  by (metis unat_of_nat_u32)

lemma unat_u32_less [simp]: "unat (x :: u32) < 4294967296"
  using unsigned_less [of x, where ?'a = nat] by simp

lemma unat_add_u32: "unat a + unat b < 4294967296 \<Longrightarrow> unat (a + b :: u32) = unat a + unat b"
  by (simp add: unat_word_ariths)

lemma unat_sub_u32: "unat b \<le> unat a \<Longrightarrow> unat (a - b :: u32) = unat a - unat b"
  by (simp add: unat_sub word_le_nat_alt)

lemma unat_mult_u32: "unat a * unat b < 4294967296 \<Longrightarrow> unat (a * b :: u32) = unat a * unat b"
  by (simp add: unat_word_ariths)

lemma sint_small: "unat (x :: u32) < 2147483648 \<Longrightarrow> sint x = int (unat x)"
proof -
  assume "unat x < 2147483648"
  then have "int (unat x) < int 2147483648" by (simp only: of_nat_less_iff)
  then have lt: "int (unat x) < 2 ^ 31" by simp
  have "(0 :: int) \<le> int (unat x)" by (rule of_nat_0_le_iff)
  then have "- (2 ^ 31) \<le> int (unat x)" by (rule order.trans [rotated]) simp
  from signed_take_bit_int_eq_self [OF this lt] show ?thesis by (simp add: sint_uint)
qed

lemma bit_pow2_word_iff [simp]: "bit ((2::'a::len word) ^ n) k \<longleftrightarrow> k = n \<and> n < LENGTH('a)"
  by (auto simp: bit_exp_iff possible_bit_word)

lemma and_pow2_iff [simp]:
  fixes w :: "'a::len word"
  assumes "n < LENGTH('a)"
  shows "w AND 2 ^ n = 0 \<longleftrightarrow> \<not> bit w n"
proof
  assume "w AND 2 ^ n = 0"
  then have "\<not> bit (w AND 2 ^ n) n" by simp
  then show "\<not> bit w n" using assms by (simp add: bit_and_iff)
next
  assume "\<not> bit w n"
  then show "w AND 2 ^ n = 0"
    by (intro bit_word_eqI) (auto simp: bit_and_iff)
qed

lemma bit_or_pow2 [simp]:
  fixes w :: "'a::len word"
  shows "bit (w OR 2 ^ n) k \<longleftrightarrow> bit w k \<or> (k = n \<and> n < LENGTH('a))"
  by (auto simp: bit_or_iff)

lemma bit_and_not_pow2 [simp]:
  fixes w :: "'a::len word"
  shows "bit (w AND NOT (2 ^ n)) k \<longleftrightarrow> bit w k \<and> k \<noteq> n"
  by (auto simp: bit_and_iff bit_not_iff dest: bit_imp_le_length)

text \<open>What a linear search returns.\<close>

lemma find_SomeD: "List.find P xs = Some x \<Longrightarrow> x \<in> set xs \<and> P x"
  by (induction xs) (auto split: if_splits)

section \<open>Bounded queues\<close>

text \<open>The interface shared by the message queues of the processes and the keyboard buffer.\<close>

locale bounded_queue =
  fixes put :: "'m \<Rightarrow> 'q \<Rightarrow> 'q option"
    and get :: "'q \<Rightarrow> ('m \<times> 'q) option"
    and abs :: "'q \<Rightarrow> 'm list"
    and inv :: "'q \<Rightarrow> bool"
    and ok :: "'m \<Rightarrow> bool"
    and cap :: nat
  assumes put_law: "inv q \<Longrightarrow> ok m \<Longrightarrow> length (abs q) < cap \<Longrightarrow> \<exists>q'. put m q = Some q' \<and> inv q' \<and> abs q' = abs q @ [m]"
    and get_law: "inv q \<Longrightarrow> abs q = m # ms \<Longrightarrow> \<exists>q'. get q = Some (m, q') \<and> inv q' \<and> abs q' = ms"
begin

fun put_all :: "'m list \<Rightarrow> 'q \<Rightarrow> 'q option" where
  "put_all [] q = Some q"
| "put_all (m # ms) q = Option.bind (put m q) (put_all ms)"

fun get_n :: "nat \<Rightarrow> 'q \<Rightarrow> ('m list \<times> 'q) option" where
  "get_n 0 q = Some ([], q)"
| "get_n (Suc n) q = Option.bind (get q) (\<lambda>(m, q'). Option.bind (get_n n q') (\<lambda>(ms, q''). Some (m # ms, q'')))"

lemma put_all_law:
  "inv q \<Longrightarrow> \<forall>m\<in>set ms. ok m \<Longrightarrow> length (abs q) + length ms \<le> cap \<Longrightarrow>
     \<exists>q'. put_all ms q = Some q' \<and> inv q' \<and> abs q' = abs q @ ms"
proof (induction ms arbitrary: q)
  case (Cons m ms)
  then obtain q1 where "put m q = Some q1" "inv q1" "abs q1 = abs q @ [m]" using put_law [of q m] by auto
  then show ?case using Cons by fastforce
qed simp

lemma get_n_law:
  "inv q \<Longrightarrow> n \<le> length (abs q) \<Longrightarrow> \<exists>q'. get_n n q = Some (take n (abs q), q') \<and> inv q' \<and> abs q' = drop n (abs q)"
proof (induction n arbitrary: q)
  case (Suc n)
  then obtain m ms where m: "abs q = m # ms" by (cases "abs q") auto
  from get_law [OF Suc.prems(1) this] obtain q1 where "get q = Some (m, q1)" "inv q1" "abs q1 = ms" by blast
  then show ?case using Suc m by fastforce
qed simp

text \<open>What is put into an empty queue comes out in the same order.\<close>

lemma fifo:
  assumes "inv q" and "abs q = []" and "\<forall>m\<in>set ms. ok m" and "length ms \<le> cap"
  shows "\<exists>q1 q2. put_all ms q = Some q1 \<and> get_n (length ms) q1 = Some (ms, q2) \<and> abs q2 = []"
proof -
  from put_all_law [OF assms(1,3)] assms(2,4) obtain q1 where "put_all ms q = Some q1" "inv q1" "abs q1 = ms" by auto
  with get_n_law [of q1 "length ms"] show ?thesis by fastforce
qed

end

end
