(* ===== verification/Pmm.thy ===== *)
theory Pmm
  imports Kernel_Prelude
begin

text \<open>
  The physical page allocator of \<open>kernel/pmm.c\<close>: a bitmap of 4096 page bits in 128 words and a
  counter of used pages. Page indices are natural numbers (every index the code computes is
  bounded before use), addresses, counts and the counter are 32-bit words. \<open>None\<close> is an access
  outside \<open>page_bitmap\<close>.
\<close>

section \<open>Constants and state (pmm.h, pmm.c)\<close>

abbreviation PAGE_SIZE :: u32 where "PAGE_SIZE \<equiv> 4096"
abbreviation MEMORY_SIZE :: u32 where "MEMORY_SIZE \<equiv> 16777216"
abbreviation TOTAL_PAGES :: nat where "TOTAL_PAGES \<equiv> 4096"
abbreviation KERNEL_END :: u32 where "KERNEL_END \<equiv> 0x200000"
abbreviation NO_PAGE :: u32 where "NO_PAGE \<equiv> 0xFFFFFFFF"

record pmm_state =
  page_bitmap :: "u32 list"
  used_pages :: u32

section \<open>Bitmap primitives\<close>

definition pmm_bitmap_set :: "nat \<Rightarrow> pmm_state \<Rightarrow> pmm_state option" where
  "pmm_bitmap_set page_index s =
     (let index = page_index div 32; b = page_index mod 32 in
      if index < length (page_bitmap s)
      then Some (s\<lparr>page_bitmap := (page_bitmap s)[index := page_bitmap s ! index OR push_bit b 1]\<rparr>)
      else None)"

definition pmm_bitmap_clear :: "nat \<Rightarrow> pmm_state \<Rightarrow> pmm_state option" where
  "pmm_bitmap_clear page_index s =
     (let index = page_index div 32; b = page_index mod 32 in
      if index < length (page_bitmap s)
      then Some (s\<lparr>page_bitmap :=
             (page_bitmap s)[index := page_bitmap s ! index AND NOT (push_bit b 1)]\<rparr>)
      else None)"

definition pmm_bitmap_test :: "nat \<Rightarrow> pmm_state \<Rightarrow> bool option" where
  "pmm_bitmap_test page_index s =
     (let index = page_index div 32; b = page_index mod 32 in
      if index < length (page_bitmap s)
      then Some (page_bitmap s ! index AND push_bit b 1 \<noteq> 0)
      else None)"

section \<open>Searching for free pages\<close>

text \<open>The loop of \<open>find_free_page\<close>, from index \<open>i\<close>.\<close>

function find_free_page_from :: "nat \<Rightarrow> pmm_state \<Rightarrow> u32 option" where
  "find_free_page_from i s =
     (if i < TOTAL_PAGES then
        do { used \<leftarrow> pmm_bitmap_test i s;
             if \<not> used then Some (of_nat i) else find_free_page_from (Suc i) s }
      else Some NO_PAGE)"
  by pat_completeness auto
termination
  by (relation "measure (\<lambda>(i, s). TOTAL_PAGES - i)") auto

declare find_free_page_from.simps [simp del]

definition find_free_page :: "pmm_state \<Rightarrow> u32 option" where
  "find_free_page s = find_free_page_from 0 s"

text \<open>
  The inner loop of \<open>find_free_pages\<close>: the number \<open>j\<close> of free pages from \<open>i\<close> before the first
  used one (\<open>Some (Some j)\<close>, the \<open>break\<close>), or \<open>Some None\<close> when all \<open>count\<close> pages are free.
\<close>

function first_used_in :: "nat \<Rightarrow> nat \<Rightarrow> nat \<Rightarrow> pmm_state \<Rightarrow> nat option option" where
  "first_used_in i j count s =
     (if j < count then
        do { used \<leftarrow> pmm_bitmap_test (i + j) s;
             if used then Some (Some j) else first_used_in i (Suc j) count s }
      else Some None)"
  by pat_completeness auto
termination
  by (relation "measure (\<lambda>(i, j, count, s). count - j)") auto

declare first_used_in.simps [simp del]

lemma pmm_bitmap_test_Some_bound:
  "pmm_bitmap_test p s = Some b \<Longrightarrow> p < 32 * length (page_bitmap s)"
  by (auto simp: pmm_bitmap_test_def Let_def split: if_splits)

lemma first_used_in_Some_bound:
  "first_used_in i j count s = Some (Some k) \<Longrightarrow> i + k < 32 * length (page_bitmap s) \<and> j \<le> k"
proof (induction i j count s rule: first_used_in.induct)
  case (1 i j count s)
  from "1.prems" have j: "j < count"
    by (auto simp: first_used_in.simps [of i j] split: if_splits)
  from j "1.prems" obtain b where b: "pmm_bitmap_test (i + j) s = Some b"
    by (auto simp: first_used_in.simps [of i j] bind_eq_Some_conv)
  show ?case
  proof (cases b)
    case True
    with j b "1.prems" have "k = j" by (simp add: first_used_in.simps [of i j])
    with b show ?thesis by (simp add: pmm_bitmap_test_Some_bound)
  next
    case False
    with j b "1.prems" have "first_used_in i (Suc j) count s = Some (Some k)"
      by (simp add: first_used_in.simps [of i j])
    from "1.IH" [OF j b _ this] False show ?thesis by simp
  qed
qed

text \<open>
  The outer loop: \<open>limit\<close> is \<open>TOTAL_PAGES - count\<close> in 32-bit arithmetic, and after a used page
  at offset \<open>j\<close> the search goes on at \<open>i + j + 1\<close> (\<open>i += j\<close> and the loop's \<open>i++\<close>).
\<close>

function find_free_pages_from :: "nat \<Rightarrow> nat \<Rightarrow> nat \<Rightarrow> pmm_state \<Rightarrow> u32 option" where
  "find_free_pages_from i limit count s =
     (if i \<le> limit then
        (case first_used_in i 0 count s of
           None \<Rightarrow> None
         | Some None \<Rightarrow> Some (of_nat i)
         | Some (Some j) \<Rightarrow> find_free_pages_from (Suc (i + j)) limit count s)
      else Some NO_PAGE)"
  by pat_completeness auto
termination
  by (relation "measure (\<lambda>(i, limit, count, s). 32 * length (page_bitmap s) - i)")
    (auto dest: first_used_in_Some_bound)

declare find_free_pages_from.simps [simp del]

definition find_free_pages :: "u32 \<Rightarrow> pmm_state \<Rightarrow> u32 option" where
  "find_free_pages count s =
     (if count = 0 then Some NO_PAGE
      else find_free_pages_from 0 (unat (of_nat TOTAL_PAGES - count)) (unat count) s)"

section \<open>Operations\<close>

text \<open>The marking loop shared by \<open>pmm_init\<close> and \<open>pmm_alloc_pages\<close>.\<close>

fun mark_pages :: "nat \<Rightarrow> nat \<Rightarrow> pmm_state \<Rightarrow> pmm_state option" where
  "mark_pages i 0 s = Some s"
| "mark_pages i (Suc n) s =
     do { s' \<leftarrow> pmm_bitmap_set i s;
          mark_pages (Suc i) n (s'\<lparr>used_pages := used_pages s' + 1\<rparr>) }"

definition pmm_init :: "pmm_state option" where
  "pmm_init =
     (let kernel_pages = unat (KERNEL_END div PAGE_SIZE) in
      mark_pages 0 kernel_pages \<lparr>page_bitmap = replicate 128 0, used_pages = 0\<rparr>)"

definition pmm_alloc_page :: "pmm_state \<Rightarrow> (u32 \<times> pmm_state) option" where
  "pmm_alloc_page s =
     do { page_index \<leftarrow> find_free_page s;
          if page_index = NO_PAGE then Some (0, s)
          else do { s' \<leftarrow> pmm_bitmap_set (unat page_index) s;
                    Some (page_index * PAGE_SIZE, s'\<lparr>used_pages := used_pages s' + 1\<rparr>) } }"

definition pmm_free_page :: "u32 \<Rightarrow> pmm_state \<Rightarrow> pmm_state option" where
  "pmm_free_page page_addr s =
     (if page_addr \<ge> MEMORY_SIZE \<or> page_addr mod PAGE_SIZE \<noteq> 0 then Some s
      else if page_addr < KERNEL_END then Some s
      else
        let page_index = unat (page_addr div PAGE_SIZE) in
        do { used \<leftarrow> pmm_bitmap_test page_index s;
             if used then
               do { s' \<leftarrow> pmm_bitmap_clear page_index s;
                    Some (s'\<lparr>used_pages := used_pages s' - 1\<rparr>) }
             else Some s })"

definition pmm_alloc_pages :: "u32 \<Rightarrow> pmm_state \<Rightarrow> (u32 \<times> pmm_state) option" where
  "pmm_alloc_pages count s =
     (if count = 0 then Some (0, s)
      else
        do { page_index \<leftarrow> find_free_pages count s;
             if page_index = NO_PAGE then Some (0, s)
             else do { s' \<leftarrow> mark_pages (unat page_index) (unat count) s;
                       Some (page_index * PAGE_SIZE, s') } })"

fun free_pages_loop :: "u32 \<Rightarrow> nat \<Rightarrow> nat \<Rightarrow> pmm_state \<Rightarrow> pmm_state option" where
  "free_pages_loop page_addr i 0 s = Some s"
| "free_pages_loop page_addr i (Suc n) s =
     do { s' \<leftarrow> pmm_free_page (page_addr + of_nat i * PAGE_SIZE) s;
          free_pages_loop page_addr (Suc i) n s' }"

definition pmm_free_pages :: "u32 \<Rightarrow> u32 \<Rightarrow> pmm_state \<Rightarrow> pmm_state option" where
  "pmm_free_pages page_addr count s = free_pages_loop page_addr 0 (unat count) s"

definition pmm_get_total_memory :: "pmm_state \<Rightarrow> u32" where
  "pmm_get_total_memory s = MEMORY_SIZE"

definition pmm_get_used_memory :: "pmm_state \<Rightarrow> u32" where
  "pmm_get_used_memory s = used_pages s * PAGE_SIZE"

definition pmm_get_free_memory :: "pmm_state \<Rightarrow> u32" where
  "pmm_get_free_memory s = (of_nat TOTAL_PAGES - used_pages s) * PAGE_SIZE"

definition pmm_get_total_pages :: "pmm_state \<Rightarrow> u32" where
  "pmm_get_total_pages s = of_nat TOTAL_PAGES"

definition pmm_get_used_pages :: "pmm_state \<Rightarrow> u32" where
  "pmm_get_used_pages s = used_pages s"

definition pmm_get_free_pages :: "pmm_state \<Rightarrow> u32" where
  "pmm_get_free_pages s = of_nat TOTAL_PAGES - used_pages s"

section \<open>Abstract view: the set of used pages\<close>

definition used_set :: "pmm_state \<Rightarrow> nat set" where
  "used_set s = {p. p < TOTAL_PAGES \<and> bit (page_bitmap s ! (p div 32)) (p mod 32)}"

definition pmm_shape :: "pmm_state \<Rightarrow> bool" where
  "pmm_shape s \<longleftrightarrow> length (page_bitmap s) = 128"

definition pmm_inv :: "pmm_state \<Rightarrow> bool" where
  "pmm_inv s \<longleftrightarrow> pmm_shape s \<and> used_pages s = of_nat (card (used_set s)) \<and> {0..<512} \<subseteq> used_set s"

lemma used_set_bound: "p \<in> used_set s \<Longrightarrow> p < TOTAL_PAGES"
  by (simp add: used_set_def)

lemma finite_used_set [simp]: "finite (used_set s)"
  by (simp add: used_set_def)

lemma used_set_used_pages [simp]: "used_set (s\<lparr>used_pages := n\<rparr>) = used_set s"
  by (simp add: used_set_def)

lemma pmm_shape_used_pages [simp]: "pmm_shape (s\<lparr>used_pages := n\<rparr>) = pmm_shape s"
  by (simp add: pmm_shape_def)

lemma card_used_set: "card (used_set s) \<le> 4096"
proof -
  have "used_set s \<subseteq> {0..<4096}" by (auto simp: used_set_def)
  then show ?thesis by (rule subset_eq_atLeast0_lessThan_card)
qed

lemma pmm_inv_shape [simp]: "pmm_inv s \<Longrightarrow> pmm_shape s"
  by (simp add: pmm_inv_def)

lemma page_index_split: "p div 32 = q div 32 \<Longrightarrow> p mod 32 = q mod 32 \<Longrightarrow> p = (q::nat)"
  by (metis div_mult_mod_eq)

lemma nth_update_page_bit:
  fixes v :: u32
  assumes "p div 32 < length xs"
    and "\<And>k. bit v k \<longleftrightarrow> (if k = p mod 32 then b else bit (xs ! (p div 32)) k)"
  shows "bit (xs[p div 32 := v] ! (q div 32)) (q mod 32) \<longleftrightarrow>
    (if q = p then b else bit (xs ! (q div 32)) (q mod 32))"
  using assms page_index_split [of q p] by (cases "q div 32 = p div 32") auto

lemma pmm_bitmap_test_eq [pmm_simps]:
  "pmm_shape s \<Longrightarrow> pmm_bitmap_test p s = (if p < 4096 then Some (p \<in> used_set s) else None)"
  by (simp add: pmm_bitmap_test_def pmm_shape_def used_set_def Let_def div_less_iff_less_mult)

lemma pmm_bitmap_set_spec:
  assumes "pmm_shape s" and "p < 4096"
  obtains s' where "pmm_bitmap_set p s = Some s'" and "pmm_shape s'"
    and "used_set s' = insert p (used_set s)" and "used_pages s' = used_pages s"
proof -
  let ?i = "p div 32"
  let ?s = "s\<lparr>page_bitmap := (page_bitmap s)[?i := page_bitmap s ! ?i OR push_bit (p mod 32) 1]\<rparr>"
  have i: "?i < length (page_bitmap s)" using assms by (simp add: pmm_shape_def)
  then have "pmm_bitmap_set p s = Some ?s" by (simp add: pmm_bitmap_set_def Let_def)
  moreover have "used_set ?s = insert p (used_set s)"
    using i assms(2) nth_update_page_bit [where b = True, OF i]
    by (auto simp: used_set_def)
  ultimately show thesis using that assms by (simp add: pmm_shape_def)
qed

lemma pmm_bitmap_clear_spec:
  assumes "pmm_shape s" and "p < 4096"
  obtains s' where "pmm_bitmap_clear p s = Some s'" and "pmm_shape s'"
    and "used_set s' = used_set s - {p}" and "used_pages s' = used_pages s"
proof -
  let ?i = "p div 32"
  let ?s = "s\<lparr>page_bitmap := (page_bitmap s)[?i := page_bitmap s ! ?i AND NOT (push_bit (p mod 32) 1)]\<rparr>"
  have i: "?i < length (page_bitmap s)" using assms by (simp add: pmm_shape_def)
  then have "pmm_bitmap_clear p s = Some ?s" by (simp add: pmm_bitmap_clear_def Let_def)
  moreover have "used_set ?s = used_set s - {p}"
    using i assms(2) nth_update_page_bit [where b = False, OF i]
    by (auto simp: used_set_def)
  ultimately show thesis using that assms by (simp add: pmm_shape_def)
qed

section \<open>The single-page search\<close>

lemma find_free_page_from_found:
  assumes "pmm_shape s" and "i \<le> p" and "p < 4096" and "p \<notin> used_set s"
    and "\<And>q. i \<le> q \<Longrightarrow> q < p \<Longrightarrow> q \<in> used_set s"
  shows "find_free_page_from i s = Some (of_nat p)"
  using assms
proof (induction i s rule: find_free_page_from.induct)
  case (1 i s)
  show ?case
  proof (cases "i = p")
    case True
    with "1.prems" show ?thesis
      by (simp add: find_free_page_from.simps [of p] pmm_bitmap_test_eq)
  next
    case False
    with "1.prems" have used: "i \<in> used_set s" and lt: "i < 4096" by auto
    with "1.prems"(1) have t: "pmm_bitmap_test i s = Some True" by (simp add: pmm_bitmap_test_eq)
    have "find_free_page_from (Suc i) s = Some (of_nat p)"
      using "1.IH" [OF lt t] "1.prems" False by auto
    with t lt show ?thesis by (simp add: find_free_page_from.simps [of i])
  qed
qed

lemma find_free_page_from_none:
  assumes "pmm_shape s" and "\<And>q. i \<le> q \<Longrightarrow> q < 4096 \<Longrightarrow> q \<in> used_set s"
  shows "find_free_page_from i s = Some NO_PAGE"
  using assms
proof (induction i s rule: find_free_page_from.induct)
  case (1 i s)
  show ?case
  proof (cases "i < 4096")
    case True
    with "1.prems" have t: "pmm_bitmap_test i s = Some True" by (simp add: pmm_bitmap_test_eq)
    with "1.IH" [OF True t] "1.prems" True show ?thesis
      by (simp add: find_free_page_from.simps [of i])
  qed (simp add: find_free_page_from.simps)
qed

lemma Least_free:
  assumes "\<not> {0..<4096} \<subseteq> (U :: nat set)"
  obtains p where "p < 4096" and "p \<notin> U" and "\<And>q. q < p \<Longrightarrow> q \<in> U"
proof -
  from assms obtain r where r: "r < 4096 \<and> r \<notin> U"
    by (metis atLeastLessThan_iff subsetI)
  let ?p = "LEAST p. p < 4096 \<and> p \<notin> U"
  from r have "?p < 4096 \<and> ?p \<notin> U" by (rule LeastI)
  moreover have "q \<in> U" if "q < ?p" for q
    using that not_less_Least [OF that] calculation by auto
  ultimately show thesis using that by blast
qed

lemma of_nat_neq_NO_PAGE: "p < 4096 \<Longrightarrow> (of_nat p :: u32) \<noteq> NO_PAGE"
proof
  assume p: "p < 4096" and eq: "(of_nat p :: u32) = NO_PAGE"
  from arg_cong [OF eq, of unat] p show False by simp
qed

lemma pmm_alloc_page_free:
  assumes "pmm_shape s" and "p < 4096" and "p \<notin> used_set s" and "\<And>q. q < p \<Longrightarrow> q \<in> used_set s"
  obtains s' where "pmm_alloc_page s = Some (of_nat p * PAGE_SIZE, s')" and "pmm_shape s'"
    and "used_set s' = insert p (used_set s)" and "used_pages s' = used_pages s + 1"
proof -
  have f: "find_free_page s = Some (of_nat p)"
    unfolding find_free_page_def using assms by (intro find_free_page_from_found) auto
  have ne: "(of_nat p :: u32) \<noteq> NO_PAGE"
    using assms(2) by (rule of_nat_neq_NO_PAGE)
  obtain s1 where s1: "pmm_bitmap_set p s = Some s1" "pmm_shape s1"
    "used_set s1 = insert p (used_set s)" "used_pages s1 = used_pages s"
    using pmm_bitmap_set_spec assms by metis
  have "pmm_alloc_page s = Some (of_nat p * PAGE_SIZE, s1\<lparr>used_pages := used_pages s1 + 1\<rparr>)"
    using f ne s1 assms(2) by (simp add: pmm_alloc_page_def)
  then show thesis using that s1 by simp
qed

lemma pmm_alloc_page_full:
  "pmm_shape s \<Longrightarrow> {0..<4096} \<subseteq> used_set s \<Longrightarrow> pmm_alloc_page s = Some (0, s)"
  by (simp add: pmm_alloc_page_def find_free_page_def find_free_page_from_none subset_eq)

section \<open>Every operation keeps the invariant\<close>

lemma mark_pages_spec:
  assumes "pmm_shape s" and "i + n \<le> 4096"
  shows "\<exists>s'. mark_pages i n s = Some s' \<and> pmm_shape s' \<and>
    used_set s' = used_set s \<union> {i..<i + n} \<and> used_pages s' = used_pages s + of_nat n"
  using assms
proof (induction n arbitrary: i s)
  case 0
  then show ?case by simp
next
  case (Suc n)
  from Suc.prems have "i < 4096" by simp
  with Suc.prems(1) obtain s1 where s1: "pmm_bitmap_set i s = Some s1" "pmm_shape s1"
    "used_set s1 = insert i (used_set s)" "used_pages s1 = used_pages s"
    by (rule pmm_bitmap_set_spec)
  have "\<exists>s'. mark_pages (Suc i) n (s1\<lparr>used_pages := used_pages s1 + 1\<rparr>) = Some s' \<and> pmm_shape s' \<and>
      used_set s' = used_set (s1\<lparr>used_pages := used_pages s1 + 1\<rparr>) \<union> {Suc i..<Suc i + n} \<and>
      used_pages s' = used_pages (s1\<lparr>used_pages := used_pages s1 + 1\<rparr>) + of_nat n"
    using s1(2) Suc.prems(2) by (intro Suc.IH) simp_all
  moreover have "insert i {Suc i..<Suc i + n} = {i..<i + Suc n}" by auto
  ultimately show ?case using s1 by (auto simp: algebra_simps)
qed

lemma pmm_init_spec: "\<exists>s. pmm_init = Some s \<and> pmm_inv s \<and> used_set s = {0..<512}"
proof -
  let ?z = "\<lparr>page_bitmap = replicate 128 0, used_pages = 0\<rparr>"
  have e: "used_set ?z = {}" by (auto simp: used_set_def)
  have "unat (KERNEL_END div PAGE_SIZE) = 512" by simp
  moreover have "pmm_shape ?z" by (simp add: pmm_shape_def)
  ultimately show ?thesis
    using mark_pages_spec [of ?z 0 512] e by (auto simp: pmm_init_def pmm_inv_def Let_def)
qed

lemma pmm_inv_used_insert:
  assumes "pmm_inv s" and "p \<notin> used_set s" and "pmm_shape s'"
    and "used_set s' = insert p (used_set s)" and "used_pages s' = used_pages s + 1"
  shows "pmm_inv s'"
  using assms by (auto simp: pmm_inv_def)

lemma pmm_alloc_page_inv:
  assumes "pmm_inv s"
  shows "\<exists>a s'. pmm_alloc_page s = Some (a, s') \<and> pmm_inv s'"
proof (cases "{0..<4096} \<subseteq> used_set s")
  case True
  then show ?thesis using assms by (simp add: pmm_alloc_page_full)
next
  case False
  then obtain p where p: "p < 4096" "p \<notin> used_set s" "\<And>q. q < p \<Longrightarrow> q \<in> used_set s"
    by (rule Least_free) blast
  from pmm_inv_shape [OF assms] p obtain s' where
    "pmm_alloc_page s = Some (of_nat p * PAGE_SIZE, s')" "pmm_shape s'"
    "used_set s' = insert p (used_set s)" "used_pages s' = used_pages s + 1"
    by (rule pmm_alloc_page_free)
  then show ?thesis using pmm_inv_used_insert [OF assms p(2)] by blast
qed

lemma page_addr_index:
  fixes a :: u32
  assumes "a < MEMORY_SIZE"
  shows "unat (a div PAGE_SIZE) < 4096"
proof -
  have "unat a < 16777216" using assms by (simp add: word_less_nat_alt)
  then show ?thesis by (simp add: unat_div)
qed

lemma kernel_addr_index:
  fixes a :: u32
  shows "\<not> a < KERNEL_END \<Longrightarrow> 512 \<le> unat (a div PAGE_SIZE)"
  by (simp add: word_less_nat_alt unat_div)

definition freeable :: "u32 \<Rightarrow> bool" where
  "freeable a \<longleftrightarrow> a < MEMORY_SIZE \<and> a mod PAGE_SIZE = 0 \<and> KERNEL_END \<le> a"

lemma pmm_free_page_ignored: "\<not> freeable a \<Longrightarrow> pmm_free_page a s = Some s"
  by (auto simp: pmm_free_page_def freeable_def not_less)

lemma pmm_free_page_spec:
  assumes "pmm_inv s" and "freeable a"
  shows "\<exists>s'. pmm_free_page a s = Some s' \<and> pmm_inv s' \<and>
    used_set s' = used_set s - {unat (a div PAGE_SIZE)}"
proof -
  let ?p = "unat (a div PAGE_SIZE)"
  from assms(2) have a: "a < MEMORY_SIZE" "a mod PAGE_SIZE = 0" "\<not> a < KERNEL_END"
    "\<not> MEMORY_SIZE \<le> a"
    by (auto simp: freeable_def)
  have p: "?p < 4096" "512 \<le> ?p" using page_addr_index kernel_addr_index a by blast+
  have unfold: "pmm_free_page a s =
      (if ?p \<in> used_set s then do { s' \<leftarrow> pmm_bitmap_clear ?p s; Some (s'\<lparr>used_pages := used_pages s' - 1\<rparr>) }
       else Some s)"
    using a p assms(1) by (simp add: pmm_free_page_def pmm_bitmap_test_eq Let_def)
  show ?thesis
  proof (cases "?p \<in> used_set s")
    case True
    obtain s1 where s1: "pmm_bitmap_clear ?p s = Some s1" "pmm_shape s1"
      "used_set s1 = used_set s - {?p}" "used_pages s1 = used_pages s"
      using pmm_bitmap_clear_spec [OF pmm_inv_shape [OF assms(1)] p(1)] .
    have c: "card (used_set s) = Suc (card (used_set s - {?p}))"
      using card_Suc_Diff1 [OF finite_used_set True] by simp
    have "{0..<512} \<subseteq> used_set s - {?p}"
      using assms(1) p(2) by (auto simp: pmm_inv_def)
    then have "pmm_inv (s1\<lparr>used_pages := used_pages s1 - 1\<rparr>)"
      using assms(1) s1 c unfolding pmm_inv_def by simp
    then show ?thesis using True s1 by (simp add: unfold)
  qed (use assms unfold in auto)
qed

lemma pmm_free_page_inv: "pmm_inv s \<Longrightarrow> \<exists>s'. pmm_free_page a s = Some s' \<and> pmm_inv s'"
  using pmm_free_page_spec [of s a] pmm_free_page_ignored [of a s] by (cases "freeable a") auto

lemma free_pages_loop_inv: "pmm_inv s \<Longrightarrow> \<exists>s'. free_pages_loop a i n s = Some s' \<and> pmm_inv s'"
proof (induction n arbitrary: i s)
  case (Suc n)
  then obtain s1 where "pmm_free_page (a + of_nat i * PAGE_SIZE) s = Some s1" "pmm_inv s1"
    using pmm_free_page_inv by blast
  with Suc.IH [of s1] show ?case by simp
qed simp

lemma pmm_free_pages_inv: "pmm_inv s \<Longrightarrow> \<exists>s'. pmm_free_pages a n s = Some s' \<and> pmm_inv s'"
  by (simp add: pmm_free_pages_def free_pages_loop_inv)

section \<open>The contiguous search\<close>

definition run_free :: "pmm_state \<Rightarrow> nat \<Rightarrow> nat \<Rightarrow> bool" where
  "run_free s i n \<longleftrightarrow> {i..<i + n} \<inter> used_set s = {}"

text \<open>The reference search: the first start index whose whole run is free, tried one by one.\<close>

fun first_run :: "nat \<Rightarrow> nat \<Rightarrow> nat \<Rightarrow> pmm_state \<Rightarrow> nat option" where
  "first_run i 0 count s = None"
| "first_run i (Suc n) count s = (if run_free s i count then Some i else first_run (Suc i) n count s)"

lemma first_used_in_total:
  assumes "pmm_shape s" and "i + count \<le> 4096"
  shows "first_used_in i j count s =
    Some (if {i + j..<i + count} \<inter> used_set s = {} then None
          else Some (LEAST k. j \<le> k \<and> i + k \<in> used_set s))"
  using assms
proof (induction i j count s rule: first_used_in.induct)
  case (1 i j count s)
  show ?case
  proof (cases "j < count")
    case True
    with "1.prems" have t: "pmm_bitmap_test (i + j) s = Some (i + j \<in> used_set s)"
      by (simp add: pmm_bitmap_test_eq)
    show ?thesis
    proof (cases "i + j \<in> used_set s")
      case used: True
      have "(LEAST k. j \<le> k \<and> i + k \<in> used_set s) = j"
        using used by (intro Least_equality) auto
      moreover have "i + j \<in> {i + j..<i + count} \<inter> used_set s" using used True by simp
      then have "{i + j..<i + count} \<inter> used_set s \<noteq> {}" by blast
      ultimately show ?thesis using used t True by (simp add: first_used_in.simps [of i j])
    next
      case free: False
      have sets: "{i + j..<i + count} = insert (i + j) {i + Suc j..<i + count}" using True by auto
      have least: "(\<lambda>k. Suc j \<le> k \<and> i + k \<in> used_set s) = (\<lambda>k. j \<le> k \<and> i + k \<in> used_set s)"
        using free by (auto simp: fun_eq_iff Suc_le_eq le_less)
      show ?thesis
        using "1.IH" [OF True t] "1.prems" free True t
        by (simp add: first_used_in.simps [of i j] sets least)
    qed
  qed (simp add: first_used_in.simps)
qed

lemma first_run_skip:
  assumes "k \<in> used_set s" and "i \<le> k" and "k < i + count"
  shows "first_run i n count s = first_run (Suc k) (n - (Suc k - i)) count s"
  using assms(2,3)
proof (induction n arbitrary: i)
  case (Suc n)
  have "\<not> run_free s i count" using Suc.prems assms(1) by (auto simp: run_free_def)
  then show ?case using Suc by (cases "i = k") (auto simp: Suc_diff_le)
qed simp

lemma find_free_pages_from_eq:
  assumes "pmm_shape s" and "count \<le> 4096" and "limit = 4096 - count"
  shows "find_free_pages_from i limit count s =
    Some (case first_run i (Suc limit - i) count s of None \<Rightarrow> NO_PAGE | Some p \<Rightarrow> of_nat p)"
  using assms
proof (induction i limit count s rule: find_free_pages_from.induct)
  case (1 i limit count s)
  show ?case
  proof (cases "i \<le> limit")
    case True
    then have fuel: "Suc limit - i = Suc (limit - i)" by simp
    have "i + count \<le> 4096" using True "1.prems" by simp
    from first_used_in_total [OF "1.prems"(1) this, of 0] have
      f: "first_used_in i 0 count s = Some (if run_free s i count then None
         else Some (LEAST k. i + k \<in> used_set s))"
      by (simp add: run_free_def)
    show ?thesis
    proof (cases "run_free s i count")
      case True
      then show ?thesis using f fuel \<open>i \<le> limit\<close> by (simp add: find_free_pages_from.simps [of i])
    next
      case False
      let ?j = "LEAST k. i + k \<in> used_set s"
      from False obtain q where q: "i \<le> q" "q < i + count" "q \<in> used_set s"
        by (auto simp: run_free_def)
      then have "i + (q - i) \<in> used_set s" by simp
      then have j: "i + ?j \<in> used_set s" and le: "?j \<le> q - i" by (rule LeastI, rule Least_le)
      with q have "i + ?j < i + count" by simp
      from first_run_skip [OF j _ this] have
        "first_run i (Suc limit - i) count s = first_run (Suc (i + ?j)) (Suc limit - Suc (i + ?j)) count s"
        by (simp add: add.commute)
      moreover have "find_free_pages_from (Suc (i + ?j)) limit count s =
          Some (case first_run (Suc (i + ?j)) (Suc limit - Suc (i + ?j)) count s of
            None \<Rightarrow> NO_PAGE | Some p \<Rightarrow> of_nat p)"
        using "1.IH" [OF True] f False "1.prems" by simp
      ultimately show ?thesis using f False True by (simp add: find_free_pages_from.simps [of i])
    qed
  qed (simp add: find_free_pages_from.simps)
qed

lemma first_run_Some:
  "first_run i n count s = Some p \<Longrightarrow>
     i \<le> p \<and> p < i + n \<and> run_free s p count \<and> (\<forall>q. i \<le> q \<and> q < p \<longrightarrow> \<not> run_free s q count)"
proof (induction n arbitrary: i)
  case (Suc n)
  show ?case
  proof (cases "run_free s i count")
    case False
    with Suc.prems have "first_run (Suc i) n count s = Some p" by simp
    from Suc.IH [OF this] False show ?thesis by (metis Suc_leI add_Suc_right add_Suc_shift le_less Suc_leD)
  qed (use Suc.prems in auto)
qed simp

lemma first_run_None:
  "first_run i n count s = None \<longleftrightarrow> (\<forall>q. i \<le> q \<and> q < i + n \<longrightarrow> \<not> run_free s q count)"
proof (induction n arbitrary: i)
  case (Suc n)
  have "(\<forall>q. i \<le> q \<and> q < i + Suc n \<longrightarrow> P q) \<longleftrightarrow> P i \<and> (\<forall>q. Suc i \<le> q \<and> q < Suc i + n \<longrightarrow> P q)"
    for P :: "nat \<Rightarrow> bool" by (metis Suc_leI add_Suc_right add_Suc_shift le_less Suc_leD less_add_Suc1)
  then show ?case using Suc by simp
qed auto

lemma find_free_pages_eq:
  assumes "pmm_shape s" and "count \<noteq> 0" and "count \<le> 4096"
  shows "find_free_pages count s =
    Some (case first_run 0 (Suc (4096 - unat count)) (unat count) s of None \<Rightarrow> NO_PAGE | Some p \<Rightarrow> of_nat p)"
proof -
  have "unat count \<le> 4096" using assms(3) by (simp add: word_le_nat_alt)
  moreover from this have "unat (4096 - count) = 4096 - unat count"
    by (simp add: unat_sub_u32)
  ultimately show ?thesis
    using assms find_free_pages_from_eq [of s "unat count" "4096 - unat count" 0]
    by (simp add: find_free_pages_def)
qed

lemma first_run_exists:
  assumes "p + c \<le> 4096" and "run_free s p c" and "0 < c"
  obtains q where "first_run 0 (Suc (4096 - c)) c s = Some q"
  using assms first_run_None [of 0 "Suc (4096 - c)" c s] by fastforce

text \<open>The contiguous allocation: the first free run, all of it, or nothing when there is none.\<close>

lemma pmm_alloc_pages_found:
  assumes "pmm_shape s" and "count \<noteq> 0" and "count \<le> 4096"
    and "first_run 0 (Suc (4096 - unat count)) (unat count) s = Some p"
  obtains s' where "pmm_alloc_pages count s = Some (of_nat p * PAGE_SIZE, s')" and "pmm_shape s'"
    and "used_set s' = used_set s \<union> {p..<p + unat count}"
    and "used_pages s' = used_pages s + count" and "p + unat count \<le> 4096"
proof -
  have c: "unat count \<le> 4096" "0 < unat count"
    using assms(2,3) by (auto simp: word_le_nat_alt unat_gt_0)
  with first_run_Some [OF assms(4)] have p: "p + unat count \<le> 4096" "p < 4096" by auto
  from mark_pages_spec [OF assms(1) p(1)] obtain s' where
    s': "mark_pages p (unat count) s = Some s'" "pmm_shape s'"
    "used_set s' = used_set s \<union> {p..<p + unat count}" "used_pages s' = used_pages s + count"
    by auto
  have "pmm_alloc_pages count s = Some (of_nat p * PAGE_SIZE, s')"
    using assms p s' of_nat_neq_NO_PAGE [OF p(2)]
    by (simp add: pmm_alloc_pages_def find_free_pages_eq)
  then show thesis using that s' p by blast
qed

lemma pmm_alloc_pages_none:
  assumes "pmm_shape s" and "count \<noteq> 0" and "count \<le> 4096"
    and "first_run 0 (Suc (4096 - unat count)) (unat count) s = None"
  shows "pmm_alloc_pages count s = Some (0, s)"
  using assms by (simp add: pmm_alloc_pages_def find_free_pages_eq)

lemma pmm_alloc_pages_inv:
  assumes "pmm_inv s" and "count \<le> 4096"
  shows "\<exists>a s'. pmm_alloc_pages count s = Some (a, s') \<and> pmm_inv s'"
proof (cases "count = 0")
  case False
  show ?thesis
  proof (cases "first_run 0 (Suc (4096 - unat count)) (unat count) s")
    case None
    then show ?thesis using assms False by (simp add: pmm_alloc_pages_none)
  next
    case (Some p)
    from pmm_alloc_pages_found [OF pmm_inv_shape [OF assms(1)] False assms(2) Some] obtain s' where
      s': "pmm_alloc_pages count s = Some (of_nat p * PAGE_SIZE, s')" "pmm_shape s'"
      "used_set s' = used_set s \<union> {p..<p + unat count}" "used_pages s' = used_pages s + count" .
    have "used_set s \<inter> {p..<p + unat count} = {}"
      using first_run_Some [OF Some] by (auto simp: run_free_def)
    then have "card (used_set s') = card (used_set s) + unat count"
      using s'(3) by (simp add: card_Un_disjoint)
    then have "pmm_inv s'" using assms(1) s' by (auto simp: pmm_inv_def)
    then show ?thesis using s' by blast
  qed
qed (use assms in \<open>simp add: pmm_alloc_pages_def\<close>)

section \<open>Requests larger than memory\<close>

text \<open>
  With \<open>count > TOTAL_PAGES\<close> the bound \<open>TOTAL_PAGES - count\<close> wraps around to a large number and
  the scan runs off the end of \<open>page_bitmap\<close>, whatever the state.
\<close>

lemma first_used_in_overrun:
  assumes "pmm_shape s" and "i + j \<le> 4096" and "4096 < i + count"
  shows "first_used_in i j count s \<noteq> Some None"
  using assms
proof (induction i j count s rule: first_used_in.induct)
  case (1 i j count s)
  then have j: "j < count" by simp
  show ?case
  proof (cases "i + j < 4096")
    case True
    with "1.prems"(1) have t: "pmm_bitmap_test (i + j) s = Some (i + j \<in> used_set s)"
      by (simp add: pmm_bitmap_test_eq)
    show ?thesis
      using "1.IH" [OF j t] "1.prems" True t j
      by (cases "i + j \<in> used_set s") (simp_all add: first_used_in.simps [of i j])
  next
    case False
    then have "pmm_bitmap_test (i + j) s = None" using "1.prems" by (simp add: pmm_bitmap_test_eq)
    then show ?thesis using j by (simp add: first_used_in.simps [of i j])
  qed
qed

lemma find_free_pages_from_overrun:
  assumes "pmm_shape s" and "4096 < count" and "4096 \<le> limit" and "i \<le> 4096"
  shows "find_free_pages_from i limit count s = None"
  using assms
proof (induction i limit count s rule: find_free_pages_from.induct)
  case (1 i limit count s)
  from "1.prems" have i: "i \<le> limit" by simp
  show ?case
  proof (cases "first_used_in i 0 count s")
    case None
    then show ?thesis using i by (simp add: find_free_pages_from.simps [of i])
  next
    case (Some r)
    with first_used_in_overrun [of s i 0 count] "1.prems" obtain j where j: "r = Some j" by auto
    with Some have "Suc (i + j) \<le> 4096"
      using first_used_in_Some_bound [of i 0 count s j] "1.prems"(1) by (simp add: pmm_shape_def)
    with "1.IH" [OF i Some j] "1.prems" Some j i show ?thesis
      by (simp add: find_free_pages_from.simps [of i])
  qed
qed

lemma oversize_limit:
  assumes "4096 < (count :: u32)"
  shows "4096 \<le> unat (4096 - count)"
proof -
  have c: "4096 < uint count" "uint count < 4294967296"
    using assms uint_lt2p [of count] by (simp_all add: word_less_def)
  have "(4096 - uint count + 4294967296) mod 4294967296 = 4096 - uint count + 4294967296"
    using c by (intro mod_pos_pos_trivial) simp_all
  then have "uint (4096 - count) = 4096 - uint count + 4294967296"
    unfolding mod_add_self2 by (simp add: uint_word_ariths)
  with c have "(4096 :: u32) \<le> 4096 - count" by (simp add: word_le_def)
  then show ?thesis by (simp add: word_le_nat_alt)
qed

section \<open>The interface the paging code relies on\<close>

text \<open>
  A page allocator as its clients see it: \<open>alloc\<close> returns the address of a page of the pool that
  was free and is now used, or 0 when the pool is exhausted; \<open>release\<close> gives a page back.
\<close>

locale page_allocator =
  fixes alloc :: "'s \<Rightarrow> (u32 \<times> 's) option"
    and release :: "u32 \<Rightarrow> 's \<Rightarrow> 's option"
    and used :: "'s \<Rightarrow> nat set"
    and pool :: "nat set"
    and inv :: "'s \<Rightarrow> bool"
  assumes pool_bound: "p \<in> pool \<Longrightarrow> 0 < p \<and> p < 1048576"
    and alloc_free: "inv s \<Longrightarrow> \<not> pool \<subseteq> used s \<Longrightarrow>
      \<exists>p s'. alloc s = Some (of_nat p * 4096, s') \<and> p \<in> pool \<and> p \<notin> used s \<and>
        (\<forall>q \<in> pool. q < p \<longrightarrow> q \<in> used s) \<and> used s' = insert p (used s) \<and> inv s'"
    and alloc_full: "inv s \<Longrightarrow> pool \<subseteq> used s \<Longrightarrow> alloc s = Some (0, s)"
    and release_page: "inv s \<Longrightarrow> p \<in> pool \<Longrightarrow>
      \<exists>s'. release (of_nat p * 4096) s = Some s' \<and> used s' = used s - {p} \<and> inv s'"
begin

lemma page_addr_unat: "p \<in> pool \<Longrightarrow> unat (of_nat p * 4096 :: u32) = p * 4096"
  using pool_bound [of p] by (simp add: unat_mult_u32)

lemma page_addr_inj:
  "p \<in> pool \<Longrightarrow> q \<in> pool \<Longrightarrow> (of_nat p * 4096 :: u32) = of_nat q * 4096 \<Longrightarrow> p = q"
  by (metis mult_cancel2 page_addr_unat zero_neq_numeral)

lemma page_addr_nonzero: "p \<in> pool \<Longrightarrow> (of_nat p * 4096 :: u32) \<noteq> 0"
  using pool_bound [of p] page_addr_unat [of p] by (metis mult_is_0 nat_neq_iff unat_0 zero_neq_numeral)

lemma alloc_total: "inv s \<Longrightarrow> \<exists>a s'. alloc s = Some (a, s') \<and> inv s'"
  using alloc_free [of s] alloc_full [of s] by blast

lemma alloc_cases:
  assumes "inv s" and "alloc s = Some (a, s')"
  obtains "a = 0" "s' = s" "pool \<subseteq> used s"
  | p where "a = of_nat p * 4096" "a \<noteq> 0" "p \<in> pool" "p \<notin> used s" "used s' = insert p (used s)" "inv s'"
proof (cases "pool \<subseteq> used s")
  case True
  then show thesis using that(1) alloc_full [OF assms(1)] assms(2) by simp
next
  case False
  from alloc_free [OF assms(1) this] assms(2) obtain p where
    "a = of_nat p * 4096" "p \<in> pool" "p \<notin> used s" "used s' = insert p (used s)" "inv s'"
    by auto
  then show thesis using that(2) page_addr_nonzero by blast
qed

lemma alloc_release_roundtrip:
  assumes "inv s" and "alloc s = Some (a, s')" and "a \<noteq> 0"
  shows "\<exists>s''. release a s' = Some s'' \<and> used s'' = used s \<and> inv s''"
  using assms(1,2)
proof (cases rule: alloc_cases)
  case (2 p)
  with release_page [of s' p] show ?thesis by auto
qed (use assms(3) in simp)

lemma allocs_distinct:
  assumes "inv s" and "alloc s = Some (a, s1)" and "a \<noteq> 0"
    and "alloc s1 = Some (b, s2)" and "b \<noteq> 0"
  shows "a \<noteq> b"
  using assms(1,2)
proof (cases rule: alloc_cases)
  case (2 p)
  note p = this
  from \<open>inv s1\<close> assms(4) show ?thesis
  proof (cases rule: alloc_cases)
    case (2 q)
    with p show ?thesis using page_addr_inj [of p q] by auto
  qed (use assms(5) in simp)
qed (use assms(3) in simp)

end

lemma pool_page_addr:
  assumes "p \<in> {512..<4096}"
  shows "freeable (of_nat p * PAGE_SIZE)" and "unat (of_nat p * PAGE_SIZE div PAGE_SIZE :: u32) = p"
proof -
  have u: "unat (of_nat p * PAGE_SIZE) = p * 4096" using assms by (simp add: unat_mult_u32)
  then show "unat (of_nat p * PAGE_SIZE div PAGE_SIZE :: u32) = p" by (simp add: unat_div)
  have "unat (of_nat p * PAGE_SIZE mod PAGE_SIZE :: u32) = 0" using u by (simp add: unat_mod)
  then show "freeable (of_nat p * PAGE_SIZE)"
    using assms u by (simp add: freeable_def word_less_nat_alt word_le_nat_alt unat_eq_zero)
qed

lemma kernel_pages_used: "pmm_inv s \<Longrightarrow> p < 512 \<Longrightarrow> p \<in> used_set s"
  by (auto simp: pmm_inv_def)

interpretation pages: page_allocator pmm_alloc_page pmm_free_page used_set "{512..<4096}" pmm_inv
proof (unfold_locales, goal_cases)
  case (1 p)
  then show ?case by simp
next
  case (2 s)
  then have "\<not> {0..<4096} \<subseteq> used_set s" by auto
  then obtain p where p: "p < 4096" "p \<notin> used_set s" "\<And>q. q < p \<Longrightarrow> q \<in> used_set s"
    by (rule Least_free) blast
  have ge: "512 \<le> p" using p kernel_pages_used [OF 2(1)] not_le by blast
  from pmm_inv_shape [OF 2(1)] p obtain s' where s': "pmm_alloc_page s = Some (of_nat p * PAGE_SIZE, s')"
    "pmm_shape s'" "used_set s' = insert p (used_set s)" "used_pages s' = used_pages s + 1"
    by (rule pmm_alloc_page_free)
  with pmm_inv_used_insert [OF 2(1) p(2)] have "pmm_inv s'" by blast
  then show ?case using s' p ge by auto
next
  case (3 s)
  have "{0..<4096} \<subseteq> used_set s" using 3 kernel_pages_used [OF 3(1)] by (meson atLeastLessThan_iff not_le subset_eq)
  then show ?case using 3 by (simp add: pmm_alloc_page_full)
next
  case (4 s p)
  then show ?case using pmm_free_page_spec [of s "of_nat p * PAGE_SIZE"] pool_page_addr [of p] by auto
qed

section \<open>Reachable states and the properties of the allocator\<close>

text \<open>
  The states the kernel can be in: after \<open>pmm_init\<close>, any sequence of the four operations with any
  arguments, except contiguous requests larger than memory.
\<close>

inductive pmm_reachable :: "pmm_state \<Rightarrow> bool" where
  init: "pmm_init = Some s \<Longrightarrow> pmm_reachable s"
| alloc: "pmm_reachable s \<Longrightarrow> pmm_alloc_page s = Some (a, s') \<Longrightarrow> pmm_reachable s'"
| free: "pmm_reachable s \<Longrightarrow> pmm_free_page a s = Some s' \<Longrightarrow> pmm_reachable s'"
| alloc_run: "pmm_reachable s \<Longrightarrow> n \<le> 4096 \<Longrightarrow> pmm_alloc_pages n s = Some (a, s') \<Longrightarrow> pmm_reachable s'"
| free_run: "pmm_reachable s \<Longrightarrow> pmm_free_pages a n s = Some s' \<Longrightarrow> pmm_reachable s'"

lemma pmm_reachable_inv: "pmm_reachable s \<Longrightarrow> pmm_inv s"
proof (induction rule: pmm_reachable.induct)
  case (init s)
  then show ?case using pmm_init_spec by (metis option.inject)
next
  case (alloc s a s')
  then show ?case using pmm_alloc_page_inv [of s] by auto
next
  case (free s a s')
  then show ?case using pmm_free_page_inv [of s a] by auto
next
  case (alloc_run s n a s')
  then show ?case using pmm_alloc_pages_inv [of s n] by auto
next
  case (free_run s a n s')
  then show ?case using pmm_free_pages_inv [of s a n] by auto
qed

lemma pmm_init_obtain:
  obtains s where "pmm_init = Some s" and "pmm_reachable s" and "pmm_inv s" and "used_set s = {0..<512}"
  using pmm_init_spec pmm_reachable.init by blast

text \<open>The statistics functions of the code, in terms of the pages whose bit is set.\<close>

lemma pmm_statistics:
  assumes "pmm_inv s"
  shows "unat (pmm_get_used_pages s) = card (used_set s)"
    and "unat (pmm_get_free_pages s) = 4096 - card (used_set s)"
    and "unat (pmm_get_used_memory s) = card (used_set s) * 4096"
    and "unat (pmm_get_free_memory s) = (4096 - card (used_set s)) * 4096"
proof -
  have u: "unat (used_pages s) = card (used_set s)" using assms card_used_set [of s] by (simp add: pmm_inv_def)
  have le: "unat (used_pages s) \<le> 4096" using u card_used_set [of s] by simp
  have f: "unat (4096 - used_pages s) = 4096 - card (used_set s)"
    using u le by (simp add: unat_sub_u32)
  show "unat (pmm_get_used_pages s) = card (used_set s)" using u by (simp add: pmm_get_used_pages_def)
  show "unat (pmm_get_free_pages s) = 4096 - card (used_set s)" using f by (simp add: pmm_get_free_pages_def)
  show "unat (pmm_get_used_memory s) = card (used_set s) * 4096"
    using u le by (simp add: pmm_get_used_memory_def unat_mult_u32)
  show "unat (pmm_get_free_memory s) = (4096 - card (used_set s)) * 4096"
    unfolding pmm_get_free_memory_def using f by (subst unat_mult_u32) simp_all
qed

text \<open>
  C1: In every state the kernel can reach, the 512 kernel pages are marked used, and the statistics add
  up: the used and free page counts are the numbers of set and clear bits, the used and free memory are
  4096 bytes for each, and together they are the total. Each operation runs without leaving the bitmap:
  single-page allocation, freeing any address at all, freeing any run, and allocating a contiguous run
  of at most 4096 pages.
\<close>

theorem pmm_safe_and_consistent:
  assumes "pmm_reachable s"
  shows "{0..<512} \<subseteq> used_set s \<and>
    unat (pmm_get_used_pages s) = card (used_set s) \<and>
    unat (pmm_get_free_pages s) = card ({0..<4096} - used_set s) \<and>
    pmm_get_used_pages s + pmm_get_free_pages s = pmm_get_total_pages s \<and>
    unat (pmm_get_used_memory s) = card (used_set s) * 4096 \<and>
    unat (pmm_get_free_memory s) = card ({0..<4096} - used_set s) * 4096 \<and>
    pmm_get_used_memory s + pmm_get_free_memory s = pmm_get_total_memory s \<and>
    pmm_alloc_page s \<noteq> None \<and> pmm_free_page a s \<noteq> None \<and> pmm_free_pages a n s \<noteq> None \<and>
    (m \<le> 4096 \<longrightarrow> pmm_alloc_pages m s \<noteq> None)"
proof -
  have inv: "pmm_inv s" using assms by (rule pmm_reachable_inv)
  have "used_set s \<subseteq> {0..<4096}" using used_set_bound by auto
  then have "card ({0..<4096} - used_set s) = 4096 - card (used_set s)"
    by (simp add: card_Diff_subset finite_used_set)
  moreover have "pmm_get_used_pages s + pmm_get_free_pages s = pmm_get_total_pages s"
    "pmm_get_used_memory s + pmm_get_free_memory s = pmm_get_total_memory s"
    by (simp_all add: pmm_get_used_pages_def pmm_get_free_pages_def pmm_get_total_pages_def
        pmm_get_used_memory_def pmm_get_free_memory_def pmm_get_total_memory_def algebra_simps)
  ultimately show ?thesis
    using inv pmm_statistics [OF inv] pmm_alloc_page_inv [OF inv] pmm_free_page_inv [OF inv, of a]
      pmm_free_pages_inv [OF inv, of a n] pmm_alloc_pages_inv [OF inv, of m] kernel_pages_used [OF inv]
    by auto
qed

theorem pmm_safe_and_consistent_witness:
  "\<exists>s. pmm_reachable s \<and> unat (pmm_get_used_pages s) = 512 \<and> unat (pmm_get_free_memory s) = 3584 * 4096 \<and>
     pmm_alloc_pages 4096 s \<noteq> None"
proof -
  obtain s where s: "pmm_init = Some s" "pmm_reachable s" "used_set s = {0..<512}"
    by (rule pmm_init_obtain)
  have "card ({0..<4096} - {0..<512::nat}) = 3584" by (simp add: card_Diff_subset)
  then have "unat (pmm_get_used_pages s) = 512 \<and> unat (pmm_get_free_memory s) = 3584 * 4096 \<and>
    pmm_alloc_pages 4096 s \<noteq> None"
    using pmm_safe_and_consistent [OF s(2), of _ _ 4096] s(3) by simp
  with s(2) show ?thesis by blast
qed

text \<open>
  C2: \<open>pmm_alloc_page\<close> returns the address of the lowest free page, a page above the kernel and
  inside memory, and marks exactly that page; it returns 0 and changes nothing exactly when no
  page is free.
\<close>

theorem pmm_alloc_page_lowest:
  assumes "pmm_reachable s" and "pmm_alloc_page s = Some (a, s')"
  shows "if {0..<4096} \<subseteq> used_set s then a = 0 \<and> s' = s
    else \<exists>p. 512 \<le> p \<and> p < 4096 \<and> p \<notin> used_set s \<and> (\<forall>q<p. q \<in> used_set s) \<and>
      unat a = p * 4096 \<and> used_set s' = insert p (used_set s)"
proof -
  have inv: "pmm_inv s" using assms(1) by (rule pmm_reachable_inv)
  show ?thesis
  proof (cases "{512..<4096} \<subseteq> used_set s")
    case True
    then have "{0..<4096} \<subseteq> used_set s"
      using kernel_pages_used [OF inv] by (meson atLeastLessThan_iff not_le subset_eq)
    then show ?thesis using pages.alloc_full [OF inv True] assms(2) by simp
  next
    case False
    from pages.alloc_free [OF inv False] assms(2) obtain p where
      p: "p \<in> {512..<4096}" "p \<notin> used_set s" "\<forall>q\<in>{512..<4096}. q < p \<longrightarrow> q \<in> used_set s"
      "a = of_nat p * 4096" "used_set s' = insert p (used_set s)" by auto
    have "unat a = p * 4096" using pages.page_addr_unat [OF p(1)] p(4) by simp
    moreover have "\<forall>q<p. q \<in> used_set s"
      using p kernel_pages_used [OF inv] by (metis atLeastLessThan_iff less_trans not_le)
    moreover have "\<not> {0..<4096} \<subseteq> used_set s" using False by auto
    ultimately show ?thesis using p by auto
  qed
qed

theorem pmm_alloc_page_lowest_witness:
  "\<exists>s a s'. pmm_reachable s \<and> pmm_alloc_page s = Some (a, s') \<and> unat a = 512 * 4096"
proof -
  obtain s where s: "pmm_init = Some s" "pmm_reachable s" "pmm_inv s" "used_set s = {0..<512}"
    by (rule pmm_init_obtain)
  from pmm_alloc_page_inv [OF s(3)] obtain a s' where a: "pmm_alloc_page s = Some (a, s')" by blast
  have nfull: "\<not> {0..<4096} \<subseteq> used_set s" using s(4) by auto
  from pmm_alloc_page_lowest [OF s(2) a] nfull obtain p where
    p: "512 \<le> p" "\<forall>q<p. q \<in> used_set s" "unat a = p * 4096" by auto
  with s(4) have "p = 512" by (metis atLeastLessThan_iff le_neq_implies_less less_irrefl)
  with p(3) s(2) a show ?thesis by auto
qed

text \<open>
  C3: The skip-ahead search of \<open>pmm_alloc_pages\<close> is the plain first-fit search: for a request of 1
  to 4096 pages it takes the lowest run of that many free pages and marks exactly that run, and it
  fails (0, nothing changed) exactly when no such run exists.
\<close>

theorem pmm_alloc_pages_first_fit:
  assumes "pmm_reachable s" and "0 < count" and "count \<le> 4096"
  shows "case first_run 0 (Suc (4096 - unat count)) (unat count) s of
      None \<Rightarrow> pmm_alloc_pages count s = Some (0, s) \<and>
        (\<forall>q. q + unat count \<le> 4096 \<longrightarrow> \<not> run_free s q (unat count))
    | Some p \<Rightarrow> run_free s p (unat count) \<and> (\<forall>q<p. \<not> run_free s q (unat count)) \<and>
        (\<exists>s'. pmm_alloc_pages count s = Some (of_nat p * PAGE_SIZE, s') \<and>
          used_set s' = used_set s \<union> {p..<p + unat count})"
proof -
  have shape: "pmm_shape s" using pmm_reachable_inv [OF assms(1)] by simp
  have nz: "count \<noteq> 0" using assms(2) by auto
  have c: "unat count \<le> 4096" using assms(3) by (simp add: word_le_nat_alt)
  show ?thesis
  proof (cases "first_run 0 (Suc (4096 - unat count)) (unat count) s")
    case None
    then have "\<forall>q. q + unat count \<le> 4096 \<longrightarrow> \<not> run_free s q (unat count)"
      unfolding first_run_None using c by auto
    then show ?thesis using None pmm_alloc_pages_none [OF shape nz assms(3) None] by simp
  next
    case (Some p)
    from pmm_alloc_pages_found [OF shape nz assms(3) Some] have
      "\<exists>s'. pmm_alloc_pages count s = Some (of_nat p * PAGE_SIZE, s') \<and>
         used_set s' = used_set s \<union> {p..<p + unat count}" by blast
    then show ?thesis unfolding Some using first_run_Some [OF Some] by auto
  qed
qed

theorem pmm_alloc_pages_first_fit_witness:
  "\<exists>s s'. pmm_reachable s \<and> pmm_alloc_pages 3 s = Some (of_nat 512 * PAGE_SIZE, s') \<and>
     used_set s' = used_set s \<union> {512..<515}"
proof -
  obtain s where s: "pmm_init = Some s" "pmm_reachable s" "used_set s = {0..<512}"
    by (rule pmm_init_obtain)
  have free: "run_free s q 3 \<longleftrightarrow> 512 \<le> q" for q
    using s(3) by (auto simp: run_free_def disjoint_iff)
  have "first_run 0 (Suc (4096 - unat (3 :: u32))) (unat (3 :: u32)) s \<noteq> None"
    unfolding first_run_None by (auto simp: free intro!: exI [of _ 512])
  then obtain p where p: "first_run 0 (Suc (4096 - unat (3 :: u32))) (unat (3 :: u32)) s = Some p" by blast
  with pmm_alloc_pages_first_fit [OF s(2), of 3] have
    r: "run_free s p 3" "\<forall>q<p. \<not> run_free s q 3"
    "\<exists>s'. pmm_alloc_pages 3 s = Some (of_nat p * PAGE_SIZE, s') \<and> used_set s' = used_set s \<union> {p..<p + 3}"
    by simp_all
  have "p = 512" using r(1,2) free by (metis le_neq_implies_less order_refl)
  with r(3) s(2) show ?thesis by auto
qed

text \<open>
  A contiguous request of more than 4096 pages never returns an answer: the loop bound wraps
  around in 32-bit arithmetic and the search reads past the end of \<open>page_bitmap\<close>.
\<close>

theorem pmm_alloc_pages_oversize_overrun:
  assumes "pmm_reachable s" and "4096 < count"
  shows "pmm_alloc_pages count s = None"
proof -
  have "pmm_shape s" using pmm_reachable_inv [OF assms(1)] by simp
  moreover have "4096 < unat count" using assms(2) by (simp add: word_less_nat_alt)
  ultimately have "find_free_pages count s = None"
    using find_free_pages_from_overrun [of s "unat count" "unat (4096 - count)" 0]
      oversize_limit [OF assms(2)] by (auto simp: find_free_pages_def)
  moreover have "count \<noteq> 0" using assms(2) by auto
  ultimately show ?thesis by (simp add: pmm_alloc_pages_def)
qed

theorem pmm_alloc_pages_oversize_overrun_witness:
  "\<exists>s. pmm_reachable s \<and> pmm_alloc_pages 4097 s = None"
proof -
  obtain s where s: "pmm_reachable s" by (rule pmm_init_obtain)
  then show ?thesis using pmm_alloc_pages_oversize_overrun [OF s, of 4097] by auto
qed

text \<open>
  Freeing what was just allocated restores the set of used pages, and two allocations in a row
  never return the same page.
\<close>

theorem pmm_alloc_free_roundtrip:
  assumes "pmm_reachable s" and "pmm_alloc_page s = Some (a, s1)" and "a \<noteq> 0"
  shows "(\<exists>s2. pmm_free_page a s1 = Some s2 \<and> used_set s2 = used_set s \<and> used_pages s2 = used_pages s) \<and>
    (\<forall>b s3. pmm_alloc_page s1 = Some (b, s3) \<longrightarrow> b \<noteq> a)"
proof
  have inv: "pmm_inv s" using assms(1) by (rule pmm_reachable_inv)
  from pages.alloc_release_roundtrip [OF inv assms(2,3)] inv show
    "\<exists>s2. pmm_free_page a s1 = Some s2 \<and> used_set s2 = used_set s \<and> used_pages s2 = used_pages s"
    by (auto simp: pmm_inv_def)
  show "\<forall>b s3. pmm_alloc_page s1 = Some (b, s3) \<longrightarrow> b \<noteq> a"
    using pages.allocs_distinct [OF inv assms(2,3)] assms(3) by metis
qed

theorem pmm_alloc_free_roundtrip_witness:
  "\<exists>s a s1 s2. pmm_reachable s \<and> pmm_alloc_page s = Some (a, s1) \<and> a \<noteq> 0 \<and>
     pmm_free_page a s1 = Some s2 \<and> used_set s2 = used_set s"
proof -
  obtain s where s: "pmm_reachable s" "pmm_inv s" "used_set s = {0..<512}" by (rule pmm_init_obtain)
  have "\<not> {512..<4096} \<subseteq> used_set s" using s(3) by auto
  from pages.alloc_free [OF s(2) this] obtain p s1 where
    p: "pmm_alloc_page s = Some (of_nat p * 4096, s1)" "p \<in> {512..<4096}" by blast
  have nz: "(of_nat p * 4096 :: u32) \<noteq> 0" using pages.page_addr_nonzero [OF p(2)] .
  from pmm_alloc_free_roundtrip [OF s(1) p(1) nz] show ?thesis using s(1) p(1) nz by blast
qed

end
