(* ===== verification/Heap.thy ===== *)
theory Heap
  imports Kernel_Prelude
begin

text \<open>
  The kernel heap of \<open>kernel/heap.c\<close>: a singly linked list of block headers kept inside the 4 MB
  heap area. The state is an explicit store: \<open>hmem\<close> gives the header found at an address and
  \<open>hbytes\<close> the byte at an address, two typed views of memory. Every store of bytes is checked: it
  must lie in the payload of the block it was computed from, where it touches no header (lemma
  \<open>payload_no_header\<close>), and a store that leaves the payload is \<open>None\<close>. The list walks of the code
  follow \<open>next\<close> pointers in the store, so they are partial functions whose \<open>None\<close> is a walk that
  never ends.

  The first half is the code. The second half is the abstract heap, a list of tiles covering the
  area, and the refinement: each operation of the code computes the tile-list operation.
\<close>

section \<open>Constants and state (heap.h)\<close>

abbreviation HEAP_START :: u32 where "HEAP_START \<equiv> 0x200000"
abbreviation HEAP_SIZE :: u32 where "HEAP_SIZE \<equiv> 0x400000"
abbreviation HEAP_END :: u32 where "HEAP_END \<equiv> 0x600000"
abbreviation HEAP_MAGIC :: u32 where "HEAP_MAGIC \<equiv> 0xDEADBEEF"
abbreviation MIN_BLOCK_SIZE :: u32 where "MIN_BLOCK_SIZE \<equiv> 32"
abbreviation SIZEOF_BLOCK :: u32 where "SIZEOF_BLOCK \<equiv> 16"

record heap_block_t =
  hb_size :: u32
  hb_is_free :: u32
  hb_magic :: u32
  hb_next :: u32

record heap_state =
  heap_head :: u32
  hmem :: "u32 \<Rightarrow> heap_block_t"
  hbytes :: "u32 \<Rightarrow> u8"

section \<open>Operations (heap.c)\<close>

definition align_size :: "u32 \<Rightarrow> u32" where
  "align_size n = (n + 3) AND NOT 3"

partial_function (option) coalesce_loop :: "heap_state \<Rightarrow> u32 \<Rightarrow> heap_state option" where
  "coalesce_loop s current =
     (if current = 0 \<or> hb_next (hmem s current) = 0 then Some s
      else
        let c = hmem s current; n = hmem s (hb_next c) in
        if hb_is_free c \<noteq> 0 \<and> hb_is_free n \<noteq> 0 \<and> current + hb_size c = hb_next c
        then coalesce_loop
               (s\<lparr>hmem := (hmem s)(current := c\<lparr>hb_size := hb_size c + hb_size n, hb_next := hb_next n\<rparr>)\<rparr>)
               current
        else coalesce_loop s (hb_next c))"

definition coalesce_free_blocks :: "heap_state \<Rightarrow> heap_state option" where
  "coalesce_free_blocks s = coalesce_loop s (heap_head s)"

definition heap_init :: "heap_state \<Rightarrow> heap_state" where
  "heap_init s = s\<lparr>heap_head := HEAP_START,
     hmem := (hmem s)(HEAP_START :=
       \<lparr>hb_size = HEAP_SIZE, hb_is_free = 1, hb_magic = HEAP_MAGIC, hb_next = 0\<rparr>)\<rparr>"

text \<open>Taking the block \<open>current\<close>: split off the remainder when it is large enough, mark allocated.\<close>

definition take_block :: "heap_state \<Rightarrow> u32 \<Rightarrow> u32 \<Rightarrow> heap_state" where
  "take_block s current total_size =
     (let c = hmem s current in
      if hb_size c \<ge> total_size + MIN_BLOCK_SIZE then
        let new_block = current + total_size in
        s\<lparr>hmem := (hmem s)
            (new_block := \<lparr>hb_size = hb_size c - total_size, hb_is_free = 1,
                           hb_magic = HEAP_MAGIC, hb_next = hb_next c\<rparr>,
             current := c\<lparr>hb_size := total_size, hb_next := new_block, hb_is_free := 0\<rparr>)\<rparr>
      else s\<lparr>hmem := (hmem s)(current := c\<lparr>hb_is_free := 0\<rparr>)\<rparr>)"

partial_function (option) kmalloc_loop :: "heap_state \<Rightarrow> u32 \<Rightarrow> u32 \<Rightarrow> (u32 \<times> heap_state) option" where
  "kmalloc_loop s current total_size =
     (if current = 0 then Some (0, s)
      else if hb_magic (hmem s current) \<noteq> HEAP_MAGIC then Some (0, s)
      else if hb_is_free (hmem s current) \<noteq> 0 \<and> hb_size (hmem s current) \<ge> total_size
      then Some (current + SIZEOF_BLOCK, take_block s current total_size)
      else kmalloc_loop s (hb_next (hmem s current)) total_size)"

definition block_total :: "u32 \<Rightarrow> u32" where
  "block_total n =
     (let aligned_size = align_size n; total_size = aligned_size + SIZEOF_BLOCK in
      if total_size < MIN_BLOCK_SIZE then MIN_BLOCK_SIZE else total_size)"

definition kmalloc :: "u32 \<Rightarrow> heap_state \<Rightarrow> (u32 \<times> heap_state) option" where
  "kmalloc n s = (if n = 0 then Some (0, s) else kmalloc_loop s (heap_head s) (block_total n))"

definition kfree :: "u32 \<Rightarrow> heap_state \<Rightarrow> heap_state option" where
  "kfree p s =
     (if p = 0 then Some s
      else
        let block = p - SIZEOF_BLOCK in
        if hb_magic (hmem s block) \<noteq> HEAP_MAGIC then Some s
        else if block < HEAP_START \<or> block \<ge> HEAP_END then Some s
        else if hb_is_free (hmem s block) \<noteq> 0 then Some s
        else coalesce_free_blocks
               (s\<lparr>hmem := (hmem s)(block := (hmem s block)\<lparr>hb_is_free := 1\<rparr>)\<rparr>))"

text \<open>\<open>memcpy\<close> and \<open>memset\<close> on the byte view, byte by byte upwards as in \<open>string.c\<close>.\<close>

fun memcpy_bytes :: "u32 \<Rightarrow> u32 \<Rightarrow> nat \<Rightarrow> nat \<Rightarrow> (u32 \<Rightarrow> u8) \<Rightarrow> (u32 \<Rightarrow> u8)" where
  "memcpy_bytes d src i 0 m = m"
| "memcpy_bytes d src i (Suc n) m =
     memcpy_bytes d src (Suc i) n (m(d + of_nat i := m (src + of_nat i)))"

fun memset_bytes :: "u32 \<Rightarrow> u8 \<Rightarrow> nat \<Rightarrow> nat \<Rightarrow> (u32 \<Rightarrow> u8) \<Rightarrow> (u32 \<Rightarrow> u8)" where
  "memset_bytes p v i 0 m = m"
| "memset_bytes p v i (Suc n) m = memset_bytes p v (Suc i) n (m(p + of_nat i := v))"

text \<open>
  A store through a pointer got from \<open>kmalloc\<close>: \<open>k\<close> bytes at \<open>a\<close> must lie in the payload of the block
  at \<open>p\<close>, by the size its header gives. Where \<open>p\<close> is the NULL of a failed \<open>kmalloc\<close> there is no block,
  and the store may only reach memory below the heap.
\<close>

definition in_block :: "u32 \<Rightarrow> u32 \<Rightarrow> nat \<Rightarrow> heap_state \<Rightarrow> bool" where
  "in_block p a k s \<longleftrightarrow>
     (if p = 0 then unat a + k \<le> unat HEAP_START
      else unat (a - p) + k \<le> unat (hb_size (hmem s (p - SIZEOF_BLOCK)) - SIZEOF_BLOCK))"

definition heap_memcpy :: "u32 \<Rightarrow> u32 \<Rightarrow> nat \<Rightarrow> heap_state \<Rightarrow> heap_state option" where
  "heap_memcpy d src n s =
     (if in_block d d n s \<and> in_block src src n s
      then Some (s\<lparr>hbytes := memcpy_bytes d src 0 n (hbytes s)\<rparr>) else None)"

definition heap_memset :: "u32 \<Rightarrow> u8 \<Rightarrow> nat \<Rightarrow> heap_state \<Rightarrow> heap_state option" where
  "heap_memset p v n s =
     (if in_block p p n s then Some (s\<lparr>hbytes := memset_bytes p v 0 n (hbytes s)\<rparr>) else None)"

fun store_bytes :: "u32 \<Rightarrow> u8 list \<Rightarrow> (u32 \<Rightarrow> u8) \<Rightarrow> (u32 \<Rightarrow> u8)" where
  "store_bytes a [] m = m"
| "store_bytes a (c # cs) m = store_bytes (a + 1) cs (m(a := c))"

definition heap_store :: "u32 \<Rightarrow> u32 \<Rightarrow> u8 list \<Rightarrow> heap_state \<Rightarrow> heap_state option" where
  "heap_store p a cs s =
     (if in_block p a (length cs) s then Some (s\<lparr>hbytes := store_bytes a cs (hbytes s)\<rparr>) else None)"

definition krealloc :: "u32 \<Rightarrow> u32 \<Rightarrow> heap_state \<Rightarrow> (u32 \<times> heap_state) option" where
  "krealloc p new_size s =
     (if p = 0 then kmalloc new_size s
      else if new_size = 0 then do { s' \<leftarrow> kfree p s; Some (0, s') }
      else
        let block = p - SIZEOF_BLOCK in
        if hb_magic (hmem s block) \<noteq> HEAP_MAGIC then Some (0, s)
        else
          let current_size = hb_size (hmem s block) - SIZEOF_BLOCK in
          if new_size \<le> current_size then Some (p, s)
          else
            do { (new_ptr, s1) \<leftarrow> kmalloc new_size s;
                 if new_ptr = 0 then Some (0, s1)
                 else do { s2 \<leftarrow> heap_memcpy new_ptr p (unat current_size) s1;
                           s3 \<leftarrow> kfree p s2;
                           Some (new_ptr, s3) } })"

definition kcalloc :: "u32 \<Rightarrow> u32 \<Rightarrow> heap_state \<Rightarrow> (u32 \<times> heap_state) option" where
  "kcalloc num n s =
     (let total = num * n in
      do { (p, s1) \<leftarrow> kmalloc total s;
           s2 \<leftarrow> (if p \<noteq> 0 then heap_memset p 0 (unat total) s1 else Some s1);
           Some (p, s2) })"

text \<open>The statistics walk the list and add up one word per block.\<close>

partial_function (option) heap_walk ::
  "(heap_block_t \<Rightarrow> u32) \<Rightarrow> heap_state \<Rightarrow> u32 \<Rightarrow> u32 \<Rightarrow> u32 option" where
  "heap_walk f s current acc =
     (if current = 0 then Some acc
      else heap_walk f s (hb_next (hmem s current)) (acc + f (hmem s current)))"

definition heap_get_total_size :: "heap_state \<Rightarrow> u32" where
  "heap_get_total_size s = HEAP_SIZE"

definition heap_get_used_size :: "heap_state \<Rightarrow> u32 option" where
  "heap_get_used_size s = heap_walk (\<lambda>b. if hb_is_free b = 0 then hb_size b else 0) s (heap_head s) 0"

definition heap_get_free_size :: "heap_state \<Rightarrow> u32 option" where
  "heap_get_free_size s = heap_walk (\<lambda>b. if hb_is_free b \<noteq> 0 then hb_size b else 0) s (heap_head s) 0"

definition heap_get_block_count :: "heap_state \<Rightarrow> u32 option" where
  "heap_get_block_count s = heap_walk (\<lambda>b. 1) s (heap_head s) 0"

definition heap_get_free_block_count :: "heap_state \<Rightarrow> u32 option" where
  "heap_get_free_block_count s = heap_walk (\<lambda>b. if hb_is_free b \<noteq> 0 then 1 else 0) s (heap_head s) 0"

section \<open>The abstract heap: a list of tiles\<close>

type_synonym tile = "u32 \<times> u32 \<times> bool" \<comment> \<open>address, size with header, free\<close>

abbreviation taddr :: "tile \<Rightarrow> u32" where "taddr t \<equiv> fst t"
abbreviation tsize :: "tile \<Rightarrow> u32" where "tsize t \<equiv> fst (snd t)"
abbreviation tfree :: "tile \<Rightarrow> bool" where "tfree t \<equiv> snd (snd t)"

fun a_alloc :: "u32 \<Rightarrow> tile list \<Rightarrow> (u32 \<times> tile list) option" where
  "a_alloc t [] = None"
| "a_alloc t ((b, n, f) # bs) =
     (if f \<and> t \<le> n then
        Some (b, if t + 32 \<le> n then (b, t, False) # (b + t, n - t, True) # bs else (b, n, False) # bs)
      else map_option (\<lambda>(p, bs'). (p, (b, n, f) # bs')) (a_alloc t bs))"

fun a_coalesce :: "tile list \<Rightarrow> tile list" where
  "a_coalesce ((b, n, True) # (c, m, True) # bs) = a_coalesce ((b, n + m, True) # bs)"
| "a_coalesce (x # bs) = x # a_coalesce bs"
| "a_coalesce [] = []"

lemmas a_coalesce_cases = a_coalesce.induct [case_names merge used lone before_used empty]

definition a_free :: "u32 \<Rightarrow> tile list \<Rightarrow> tile list" where
  "a_free p bs = map (\<lambda>(b, n, f). (b, n, f \<or> b = p)) bs"

fun tiles :: "nat \<Rightarrow> tile list \<Rightarrow> nat \<Rightarrow> bool" where
  "tiles e [] e' \<longleftrightarrow> e = e'"
| "tiles e ((b, n, f) # bs) e' \<longleftrightarrow> unat b = e \<and> 32 \<le> unat n \<and> 4 dvd unat n \<and> tiles (e + unat n) bs e'"

fun coalesced :: "tile list \<Rightarrow> bool" where
  "coalesced (x # y # bs) \<longleftrightarrow> \<not> (tfree x \<and> tfree y) \<and> coalesced (y # bs)"
| "coalesced _ \<longleftrightarrow> True"

fun heap_rep :: "(u32 \<Rightarrow> heap_block_t) \<Rightarrow> u32 \<Rightarrow> tile list \<Rightarrow> bool" where
  "heap_rep m a [] \<longleftrightarrow> a = 0"
| "heap_rep m a ((b, n, f) # bs) \<longleftrightarrow> a = b \<and> hb_size (m b) = n \<and>
     hb_is_free (m b) = (if f then 1 else 0) \<and> hb_magic (m b) = HEAP_MAGIC \<and>
     heap_rep m (hb_next (m b)) bs"

definition heap_ok :: "heap_state \<Rightarrow> tile list \<Rightarrow> bool" where
  "heap_ok s bs \<longleftrightarrow> heap_rep (hmem s) (heap_head s) bs \<and>
     tiles (unat HEAP_START) bs (unat HEAP_END) \<and> coalesced bs"

section \<open>Laws of the tile list\<close>

lemma tiles_le: "tiles e bs E \<Longrightarrow> e \<le> E"
  by (induction e bs E rule: tiles.induct) auto

lemma tiles_mem:
  "tiles e bs E \<Longrightarrow> x \<in> set bs \<Longrightarrow>
     e \<le> unat (taddr x) \<and> unat (taddr x) + unat (tsize x) \<le> E \<and> 32 \<le> unat (tsize x) \<and> 4 dvd unat (tsize x)"
proof (induction e bs E rule: tiles.induct)
  case (2 e b n f bs E)
  then show ?case using tiles_le [of "e + unat n" bs E] by auto
qed simp

lemma tiles_Cons_mem: "tiles e ((b, n, f) # bs) E \<Longrightarrow> x \<in> set bs \<Longrightarrow> unat b + unat n \<le> unat (taddr x)"
  using tiles_mem [of "e + unat n" bs E x] by simp

lemma tiles_disjoint:
  assumes "tiles e bs E" and "x \<in> set bs" and "y \<in> set bs" and "x \<noteq> y"
  shows "unat (taddr x) + unat (tsize x) \<le> unat (taddr y) \<or> unat (taddr y) + unat (tsize y) \<le> unat (taddr x)"
  using assms
proof (induction e bs E rule: tiles.induct)
  case (2 e b n f bs E)
  consider "x = (b, n, f)" "y \<in> set bs" | "y = (b, n, f)" "x \<in> set bs" | "x \<in> set bs" "y \<in> set bs"
    using "2.prems" by auto
  then show ?case
    using tiles_Cons_mem [OF "2.prems"(1)] "2.IH" "2.prems" by cases auto
qed simp

lemma tiles_addr_inj:
  "tiles e bs E \<Longrightarrow> x \<in> set bs \<Longrightarrow> y \<in> set bs \<Longrightarrow> taddr x = taddr y \<Longrightarrow> x = y"
  using tiles_disjoint [of e bs E x y] tiles_mem [of e bs E x] tiles_mem [of e bs E y] by fastforce

lemma tiles_sum: "tiles e bs E \<Longrightarrow> (\<Sum>x\<leftarrow>bs. unat (tsize x)) = E - e"
proof (induction e bs E rule: tiles.induct)
  case (2 e b n f bs E)
  then show ?case using tiles_le [of "e + unat n" bs E] by simp
qed simp

text \<open>The word comparison that decides a split, on a tile of the heap.\<close>

lemma split_arith:
  fixes b n t :: u32
  assumes "unat b + unat n \<le> 6291456" and "t \<le> n"
  shows "t + 32 \<le> n \<longleftrightarrow> unat t + 32 \<le> unat n"
    and "unat (b + t) = unat b + unat t" and "unat (n - t) = unat n - unat t"
proof -
  have t: "unat t \<le> unat n" using assms(2) by (simp add: word_le_nat_alt)
  have "unat (t + 32) = unat t + 32" using assms(1) t by (simp add: unat_add_u32)
  then show "t + 32 \<le> n \<longleftrightarrow> unat t + 32 \<le> unat n" by (simp add: word_le_nat_alt)
  show "unat (b + t) = unat b + unat t" using assms(1) t by (simp add: unat_add_u32)
  show "unat (n - t) = unat n - unat t" using t by (simp add: unat_sub_u32)
qed

lemma a_alloc_tiles:
  assumes "tiles e bs E" and "E \<le> 6291456" and "32 \<le> unat t" and "4 dvd unat t"
    and "a_alloc t bs = Some (p, bs')"
  shows "tiles e bs' E"
  using assms
proof (induction e bs E arbitrary: bs' rule: tiles.induct)
  case (2 e b n f bs E)
  show ?case
  proof (cases "f \<and> t \<le> n")
    case True
    have "unat b + unat n \<le> 6291456" using "2.prems"(1,2) tiles_le [of "e + unat n" bs E] by simp
    note ar = split_arith [OF this] 
    have t: "t \<le> n" using True by simp
    show ?thesis
    proof (cases "t + 32 \<le> n")
      case split: True
      then have u: "unat t + 32 \<le> unat n" using ar(1) [OF t] by simp
      moreover have "4 dvd unat n - unat t" using "2.prems"(1,4) by (simp add: dvd_diff_nat)
      ultimately show ?thesis using "2.prems" True split ar(2,3) [OF t] by auto
    next
      case False
      then show ?thesis using "2.prems" True by auto
    qed
  next
    case False
    with "2.prems"(5) obtain bs1 where "a_alloc t bs = Some (p, bs1)" "bs' = (b, n, f) # bs1" by auto
    then show ?thesis using "2.IH" "2.prems" by auto
  qed
qed simp

lemma a_alloc_mem:
  assumes "a_alloc t bs = Some (p, bs')"
  shows "\<exists>n. (p, n, True) \<in> set bs \<and> t \<le> n"
  using assms by (induction t bs arbitrary: bs' rule: a_alloc.induct) (auto split: if_splits)

text \<open>Live allocations: the tiles in use.\<close>

definition live :: "tile list \<Rightarrow> (u32 \<times> u32) set" where
  "live bs = {(b, n). (b, n, False) \<in> set bs}"

lemma live_simps [simp]:
  "live [] = {}"
  "live ((b, n, True) # bs) = live bs"
  "live ((b, n, False) # bs) = insert (b, n) (live bs)"
  by (auto simp: live_def)

lemma a_alloc_taken:
  assumes "a_alloc t bs = Some (p, bs')"
  shows "\<exists>n. t \<le> n \<and> (n = t \<or> n < t + 32) \<and> live bs' = insert (p, n) (live bs)"
  using assms
proof (induction t bs arbitrary: bs' rule: a_alloc.induct)
  case (2 t b n f bs)
  show ?case
  proof (cases "f \<and> t \<le> n")
    case True
    then show ?thesis using "2.prems" by (auto split: if_splits simp: not_le)
  next
    case False
    with "2.prems" obtain bs1 where bs1: "a_alloc t bs = Some (p, bs1)" "bs' = (b, n, f) # bs1" by auto
    with "2.IH" [OF False bs1(1)] show ?thesis by (cases f) auto
  qed
qed simp

lemma a_alloc_live:
  assumes "tiles e bs E" and "E \<le> 6291456" and "a_alloc t bs = Some (p, bs')"
  shows "\<exists>n. t \<le> n \<and> live bs' = insert (p, n) (live bs) \<and> (\<forall>m. (p, m) \<notin> live bs)"
proof -
  from a_alloc_mem [OF assms(3)] obtain k where k: "(p, k, True) \<in> set bs" by blast
  have "\<forall>m. (p, m) \<notin> live bs"
    using tiles_addr_inj [OF assms(1) k] by (fastforce simp: live_def)
  with a_alloc_taken [OF assms(3)] show ?thesis by blast
qed

lemma a_alloc_head:
  "a_alloc t bs = Some (p, bs') \<Longrightarrow>
     bs \<noteq> [] \<and> bs' \<noteq> [] \<and> taddr (hd bs') = taddr (hd bs) \<and> (tfree (hd bs') \<longrightarrow> tfree (hd bs))"
  by (cases "(t, bs)" rule: a_alloc.cases) (auto split: if_splits)

lemma coalesced_Cons:
  "coalesced (x # bs) \<longleftrightarrow> coalesced bs \<and> (bs \<noteq> [] \<longrightarrow> \<not> (tfree x \<and> tfree (hd bs)))"
  by (cases bs) auto

lemma a_alloc_coalesced:
  "coalesced bs \<Longrightarrow> a_alloc t bs = Some (p, bs') \<Longrightarrow> coalesced bs'"
proof (induction t bs arbitrary: bs' rule: a_alloc.induct)
  case (2 t b n f bs)
  show ?case
  proof (cases "f \<and> t \<le> n")
    case True
    then show ?thesis using "2.prems" by (auto simp: coalesced_Cons split: if_splits)
  next
    case False
    with "2.prems" obtain bs1 where bs1: "a_alloc t bs = Some (p, bs1)" "bs' = (b, n, f) # bs1" by auto
    then show ?thesis
      using "2.IH" [OF False] "2.prems"(1) a_alloc_head [OF bs1(1)] by (auto simp: coalesced_Cons)
  qed
qed simp

lemma a_alloc_None_iff: "a_alloc t bs = None \<longleftrightarrow> (\<forall>x\<in>set bs. tfree x \<longrightarrow> \<not> t \<le> tsize x)"
  by (induction t bs rule: a_alloc.induct) auto

lemma a_alloc_first:
  "a_alloc t bs = Some (p, bs') \<Longrightarrow>
     \<exists>xs n ys. bs = xs @ (p, n, True) # ys \<and> t \<le> n \<and> (\<forall>x\<in>set xs. tfree x \<longrightarrow> \<not> t \<le> tsize x)"
proof (induction t bs arbitrary: bs' rule: a_alloc.induct)
  case (2 t b n f bs)
  show ?case
  proof (cases "f \<and> t \<le> n")
    case True
    then show ?thesis using "2.prems" by (intro exI [of _ "[]"]) auto
  next
    case False
    with "2.prems" obtain bs1 where "a_alloc t bs = Some (p, bs1)" by auto
    from "2.IH" [OF False this] obtain xs k ys where
      "bs = xs @ (p, k, True) # ys" "t \<le> k" "\<forall>x\<in>set xs. tfree x \<longrightarrow> \<not> t \<le> tsize x" by blast
    with False show ?thesis by (intro exI [of _ "(b, n, f) # xs"]) auto
  qed
qed simp

text \<open>Coalescing.\<close>

lemma a_coalesce_tiles: "tiles e bs E \<Longrightarrow> E \<le> 6291456 \<Longrightarrow> tiles e (a_coalesce bs) E"
proof (induction bs arbitrary: e rule: a_coalesce.induct)
  case (1 b n c m bs)
  have "e + unat n + unat m \<le> E" using "1.prems"(1) tiles_le [of "e + unat n + unat m" bs E] by simp
  then have "unat (n + m) = unat n + unat m" using "1.prems"(2) by (simp add: unat_add_u32)
  then show ?case using "1.prems" "1.IH" [of e] by (simp add: add.assoc)
qed auto

lemma live_Cons: "live (x # bs) = (if tfree x then {} else {(taddr x, tsize x)}) \<union> live bs"
  by (cases x; cases "tfree x") (auto simp: live_def)

lemma a_coalesce_live [simp]: "live (a_coalesce bs) = live bs"
  by (induction bs rule: a_coalesce.induct) (simp_all add: live_Cons)

lemma a_coalesce_head:
  "bs \<noteq> [] \<Longrightarrow> a_coalesce bs \<noteq> [] \<and> taddr (hd (a_coalesce bs)) = taddr (hd bs) \<and>
     tfree (hd (a_coalesce bs)) = tfree (hd bs)"
  by (induction bs rule: a_coalesce.induct) auto

lemma coalesced_a_coalesce: "coalesced (a_coalesce bs)"
proof (induction bs rule: a_coalesce_cases)
  case (before_used x b n bs)
  then show ?case using a_coalesce_head [of "(b, n, False) # bs"] by (simp add: coalesced_Cons)
qed (simp_all add: coalesced_Cons)

lemma a_coalesce_id: "coalesced bs \<Longrightarrow> a_coalesce bs = bs"
  by (induction bs rule: a_coalesce.induct) (simp_all add: coalesced_Cons)

lemma a_coalesce_Cons:
  "bs \<noteq> [] \<Longrightarrow> \<not> (tfree x \<and> tfree (hd bs)) \<Longrightarrow> a_coalesce (x # bs) = x # a_coalesce bs"
  by (cases "x # bs" rule: a_coalesce.cases) auto

text \<open>Freeing.\<close>

lemma a_free_simps [simp]:
  "a_free p [] = []"
  "a_free p ((b, n, f) # bs) = (b, n, f \<or> b = p) # a_free p bs"
  by (auto simp: a_free_def)

lemma a_free_tiles [simp]: "tiles e (a_free p bs) E = tiles e bs E"
  by (induction e bs E rule: tiles.induct) auto

lemma a_free_live: "live (a_free p bs) = {(b, n) \<in> live bs. b \<noteq> p}"
  by (induction bs) (auto simp: live_Cons split: if_splits)

lemma a_free_id: "\<forall>x\<in>set bs. taddr x \<noteq> p \<Longrightarrow> a_free p bs = bs"
  by (induction bs) auto

lemma a_free_alloc:
  assumes "tiles e bs E" and "E \<le> 6291456" and "coalesced bs" and "a_alloc t bs = Some (p, bs')"
    and "32 \<le> unat t"
  shows "a_coalesce (a_free p bs') = bs"
  using assms
proof (induction e bs E arbitrary: bs' rule: tiles.induct)
  case (2 e b n f bs E)
  show ?case
  proof (cases "f \<and> t \<le> n")
    case True
    have bound: "unat b + unat n \<le> 6291456" using "2.prems"(1,2) tiles_le [of "e + unat n" bs E] by simp
    have rest: "a_free b bs = bs"
      using tiles_Cons_mem [OF "2.prems"(1)] "2.prems"(1) by (intro a_free_id) fastforce
    have co: "a_coalesce ((b, n, True) # bs) = (b, n, True) # bs"
      using "2.prems"(3) True by (intro a_coalesce_id) simp
    have "b + t \<noteq> b" using "2.prems"(5) by auto
    then show ?thesis using "2.prems"(4) True rest co by (auto simp: Let_def)
  next
    case False
    with "2.prems"(4) obtain bs1 where bs1: "a_alloc t bs = Some (p, bs1)" "bs' = (b, n, f) # bs1" by auto
    from a_alloc_mem [OF bs1(1)] obtain k where k: "(p, k, True) \<in> set bs" by blast
    have "b \<noteq> p" using tiles_Cons_mem [OF "2.prems"(1) k] "2.prems"(1) by auto
    moreover have IH: "a_coalesce (a_free p bs1) = bs"
      using "2.IH" "2.prems" bs1 by (simp add: coalesced_Cons)
    moreover have "a_free p bs1 \<noteq> []" using a_alloc_head [OF bs1(1)] by (simp add: a_free_def)
    moreover from this have "tfree (hd (a_free p bs1)) = tfree (hd bs)"
      using a_coalesce_head [of "a_free p bs1"] IH by simp
    ultimately show ?thesis
      using bs1(2) "2.prems"(3) a_alloc_head [OF bs1(1)] by (simp add: a_coalesce_Cons coalesced_Cons)
  qed
qed simp

section \<open>Refinement: the pointer code computes the tile-list operations\<close>

lemma heap_rep_cong:
  "\<forall>x\<in>set bs. m' (taddr x) = m (taddr x) \<Longrightarrow> heap_rep m' a bs = heap_rep m a bs"
  by (induction m a bs rule: heap_rep.induct) auto

lemma heap_rep_head: "heap_rep m a bs \<Longrightarrow> a = (if bs = [] then 0 else taddr (hd bs))"
  by (cases "(m, a, bs)" rule: heap_rep.cases) auto

lemma tiles_nonzero: "tiles e bs E \<Longrightarrow> 0 < e \<Longrightarrow> x \<in> set bs \<Longrightarrow> taddr x \<noteq> 0"
  using tiles_mem [of e bs E x] by auto

lemma take_block_simps [simp]:
  "heap_head (take_block s c t) = heap_head s" "hbytes (take_block s c t) = hbytes s"
  by (simp_all add: take_block_def Let_def)

lemma kmalloc_loop_refines:
  assumes "heap_rep (hmem s) a bs" and "tiles e bs E" and "0 < e" and "E \<le> 6291456" and "32 \<le> unat t"
  shows "case a_alloc t bs of
      None \<Rightarrow> kmalloc_loop s a t = Some (0, s)
    | Some (p, bs') \<Rightarrow> kmalloc_loop s a t = Some (p + 16, take_block s p t) \<and>
        heap_rep (hmem (take_block s p t)) a bs' \<and>
        (\<forall>x. unat x < e \<longrightarrow> hmem (take_block s p t) x = hmem s x)"
  using assms
proof (induction e bs E arbitrary: a rule: tiles.induct)
  case (1 e E)
  then show ?case by (simp add: kmalloc_loop.simps)
next
  case (2 e b n f bs E)
  have a: "a = b" "b \<noteq> 0" using "2.prems"(1,2,3) by auto
  show ?case
  proof (cases "f \<and> t \<le> n")
    case True
    have loop: "kmalloc_loop s a t = Some (b + 16, take_block s b t)"
      using "2.prems"(1) True a by (subst kmalloc_loop.simps) simp
    have bound: "unat b + unat n \<le> 6291456" using "2.prems"(2,4) tiles_le [of "e + unat n" bs E] by simp
    have t: "t \<le> n" using True by simp
    note ar = split_arith [OF bound t]
    have later: "unat b + unat n \<le> unat (taddr x)" if "x \<in> set bs" for x
      using tiles_Cons_mem [OF "2.prems"(2) that] .
    have tn: "unat t \<le> unat n" "0 < unat n" using t "2.prems"(2) by (auto simp: word_le_nat_alt)
    have neq: "taddr x \<noteq> b" "unat t < unat n \<Longrightarrow> taddr x \<noteq> b + t" if "x \<in> set bs" for x
      using later [OF that] tn ar(2) by auto
    have bt: "b + t \<noteq> b" using "2.prems"(5) by auto
    show ?thesis
    proof (cases "t + 32 \<le> n")
      case split: True
      then have lt: "unat t < unat n" using ar(1) by simp
      have size: "hb_size (hmem s b) = n" using "2.prems"(1) by simp
      have mem: "hmem (take_block s b t) = (hmem s)
          (b + t := \<lparr>hb_size = n - t, hb_is_free = 1, hb_magic = HEAP_MAGIC, hb_next = hb_next (hmem s b)\<rparr>,
           b := (hmem s b)\<lparr>hb_size := t, hb_next := b + t, hb_is_free := 0\<rparr>)"
        using split size by (simp add: take_block_def Let_def)
      have "heap_rep (hmem (take_block s b t)) (hb_next (hmem s b)) bs"
        using "2.prems"(1) neq lt heap_rep_cong [of bs "hmem (take_block s b t)" "hmem s"] by (simp add: mem)
      moreover have "\<forall>x. unat x < e \<longrightarrow> hmem (take_block s b t) x = hmem s x"
        using "2.prems"(2) ar(2) by (auto simp: mem)
      ultimately show ?thesis using True split loop a bt "2.prems"(1) by (simp add: mem)
    next
      case False
      then have mem: "hmem (take_block s b t) = (hmem s)(b := (hmem s b)\<lparr>hb_is_free := 0\<rparr>)"
        using "2.prems"(1) by (simp add: take_block_def Let_def)
      have "heap_rep (hmem (take_block s b t)) (hb_next (hmem s b)) bs"
        using "2.prems"(1) neq heap_rep_cong [of bs "hmem (take_block s b t)" "hmem s"] by (simp add: mem)
      moreover have "\<forall>x. unat x < e \<longrightarrow> hmem (take_block s b t) x = hmem s x"
        using "2.prems"(2) by (auto simp: mem)
      ultimately show ?thesis using True False loop a "2.prems"(1) by (simp add: mem)
    qed
  next
    case False
    have step: "kmalloc_loop s a t = kmalloc_loop s (hb_next (hmem s b)) t"
      using "2.prems"(1) False a by (subst kmalloc_loop.simps) auto
    have IH: "case a_alloc t bs of
        None \<Rightarrow> kmalloc_loop s (hb_next (hmem s b)) t = Some (0, s)
      | Some (p, bs') \<Rightarrow> kmalloc_loop s (hb_next (hmem s b)) t = Some (p + 16, take_block s p t) \<and>
          heap_rep (hmem (take_block s p t)) (hb_next (hmem s b)) bs' \<and>
          (\<forall>x. unat x < e + unat n \<longrightarrow> hmem (take_block s p t) x = hmem s x)"
      using "2.prems" by (intro "2.IH") auto
    have "unat b < e + unat n" using "2.prems"(2) by simp
    then show ?thesis using IH step False a "2.prems"(1) by (auto split: option.splits prod.splits)
  qed
qed

definition coalesce_frame :: "heap_state \<Rightarrow> heap_state \<Rightarrow> nat \<Rightarrow> bool" where
  "coalesce_frame s s' e \<longleftrightarrow> heap_head s' = heap_head s \<and> hbytes s' = hbytes s \<and>
     (\<forall>x. unat x < e \<longrightarrow> hmem s' x = hmem s x) \<and>
     (\<forall>x. hb_is_free (hmem s' x) = hb_is_free (hmem s x) \<and> hb_magic (hmem s' x) = hb_magic (hmem s x))"

lemma coalesce_frame_refl [simp]: "coalesce_frame s s e"
  by (simp add: coalesce_frame_def)

lemma coalesce_frame_mono: "coalesce_frame s s' e' \<Longrightarrow> e \<le> e' \<Longrightarrow> coalesce_frame s s' e"
  by (auto simp: coalesce_frame_def)

lemma coalesce_loop_refines:
  assumes "heap_rep (hmem s) a bs" and "tiles e bs E" and "0 < e" and "E \<le> 6291456"
  shows "\<exists>s'. coalesce_loop s a = Some s' \<and> heap_rep (hmem s') a (a_coalesce bs) \<and> coalesce_frame s s' e"
  using assms
proof (induction bs arbitrary: s a e rule: a_coalesce_cases)
  case (merge b n c m bs)
  from merge.prems(1) have h: "a = b" "hb_size (hmem s b) = n" "hb_is_free (hmem s b) = 1"
    "hb_magic (hmem s b) = HEAP_MAGIC" "hb_next (hmem s b) = c" "hb_size (hmem s c) = m"
    "hb_is_free (hmem s c) = 1" "heap_rep (hmem s) (hb_next (hmem s c)) bs" by auto
  from merge.prems(2) have t: "unat b = e" "unat c = e + unat n" by auto
  have bound: "e + unat n + unat m \<le> E" using merge.prems(2) tiles_le [of "e + unat n + unat m" bs E] by simp
  have nz: "b \<noteq> 0" "c \<noteq> 0" using t merge.prems(3) by auto
  have "unat (b + n) = unat b + unat n" using bound t merge.prems(4) by (simp add: unat_add_u32)
  then have adj: "b + n = c" using t by (metis word_unat_eq_iff)
  let ?s = "s\<lparr>hmem := (hmem s)(b := (hmem s b)\<lparr>hb_size := n + m, hb_next := hb_next (hmem s c)\<rparr>)\<rparr>"
  have step: "coalesce_loop s a = coalesce_loop ?s b"
    by (subst coalesce_loop.simps) (simp add: h nz adj Let_def)
  have "\<forall>x\<in>set bs. taddr x \<noteq> b"
    using tiles_Cons_mem [OF merge.prems(2)] t merge.prems(2) by fastforce
  then have "heap_rep (hmem ?s) (hb_next (hmem s c)) bs"
    using h(8) heap_rep_cong [of bs "hmem ?s" "hmem s"] by simp
  then have rep: "heap_rep (hmem ?s) b ((b, n + m, True) # bs)" using h by simp
  have "unat (n + m) = unat n + unat m" using bound merge.prems(4) by (simp add: unat_add_u32)
  then have "tiles e ((b, n + m, True) # bs) E" using merge.prems(2) by (simp add: add.assoc)
  from merge.IH [OF rep this merge.prems(3,4)] obtain s' where
    s': "coalesce_loop ?s b = Some s'" "heap_rep (hmem s') b (a_coalesce ((b, n + m, True) # bs))"
    "coalesce_frame ?s s' e" by blast
  have "coalesce_frame s s' e" using s'(3) t(1) by (auto simp: coalesce_frame_def)
  then show ?case using s' step h(1) by simp
next
  case (used b n bs)
  then have nz: "b \<noteq> 0" by auto
  from used.prems have r: "heap_rep (hmem s) (hb_next (hmem s b)) bs" "tiles (e + unat n) bs E" by auto
  from used.IH [OF this] used.prems(3,4) obtain s' where
    s': "coalesce_loop s (hb_next (hmem s b)) = Some s'"
    "heap_rep (hmem s') (hb_next (hmem s b)) (a_coalesce bs)" "coalesce_frame s s' (e + unat n)" by auto
  have "hmem s' b = hmem s b" using s'(3) used.prems(2) by (auto simp: coalesce_frame_def)
  moreover have "coalesce_loop s a = Some s'"
  proof (cases "hb_next (hmem s b) = 0")
    case True
    then have "coalesce_loop s 0 = Some s'" using s'(1) by simp
    then have "s' = s" by (simp add: coalesce_loop.simps)
    then show ?thesis using True used.prems(1) by (subst coalesce_loop.simps) simp
  next
    case False
    then show ?thesis using s'(1) used.prems(1) nz by (subst coalesce_loop.simps) (simp add: Let_def)
  qed
  ultimately show ?case
    using s' used.prems(1) coalesce_frame_mono [OF s'(3), of e] by auto
next
  case (lone x)
  then show ?case by (cases x) (subst coalesce_loop.simps, auto)
next
  case (before_used x c m bs)
  obtain b n f where x: "x = (b, n, f)" by (cases x)
  from before_used.prems x have nz: "b \<noteq> 0" "c \<noteq> 0" by auto
  from before_used.prems x have r: "heap_rep (hmem s) (hb_next (hmem s b)) ((c, m, False) # bs)"
    "tiles (e + unat n) ((c, m, False) # bs) E" by auto
  from before_used.IH [OF this] before_used.prems(3,4) obtain s' where
    s': "coalesce_loop s (hb_next (hmem s b)) = Some s'"
    "heap_rep (hmem s') (hb_next (hmem s b)) (a_coalesce ((c, m, False) # bs))"
    "coalesce_frame s s' (e + unat n)" by auto
  have "hmem s' b = hmem s b" using s'(3) before_used.prems(2) x by (auto simp: coalesce_frame_def)
  moreover have "coalesce_loop s a = Some s'"
    using s'(1) before_used.prems(1) x nz by (subst coalesce_loop.simps) (auto simp: Let_def)
  ultimately show ?case
    using s' before_used.prems(1) x coalesce_frame_mono [OF s'(3), of e] by auto
next
  case empty
  then show ?case by (simp add: coalesce_loop.simps)
qed

lemma heap_rep_a_free:
  assumes "heap_rep m a bs" and "tiles e bs E"
    and "m' p = (m p)\<lparr>hb_is_free := 1\<rparr>" and "\<forall>x. x \<noteq> p \<longrightarrow> m' x = m x"
  shows "heap_rep m' a (a_free p bs)"
  using assms
proof (induction e bs E arbitrary: a rule: tiles.induct)
  case (2 e b k g bs E)
  show ?case
  proof (cases "b = p")
    case True
    have "\<forall>x\<in>set bs. taddr x \<noteq> p"
      using tiles_Cons_mem [OF "2.prems"(2)] True "2.prems"(2) by fastforce
    then have "a_free p bs = bs" and "heap_rep m' (hb_next (m p)) bs = heap_rep m (hb_next (m p)) bs"
      using a_free_id [of bs p] "2.prems"(4) by (auto intro!: heap_rep_cong)
    then show ?thesis using True "2.prems"(1,3) by simp
  next
    case False
    then show ?thesis using "2.IH" "2.prems" by simp
  qed
qed simp

lemma tile_in_heap:
  assumes "tiles (unat HEAP_START) bs (unat HEAP_END)" and "(b, n, f) \<in> set bs"
  shows "\<not> b < HEAP_START" and "\<not> b \<ge> HEAP_END" and "unat (b + 16) = unat b + 16" and "b + 16 \<noteq> 0"
proof -
  have u: "2097152 \<le> unat b" "unat b + 32 \<le> 6291456" using tiles_mem [OF assms] by auto
  then show "\<not> b < HEAP_START" "\<not> b \<ge> HEAP_END"
    by (simp_all add: word_less_nat_alt word_le_nat_alt)
  from u show un: "unat (b + 16) = unat b + 16" by (simp add: unat_add_u32)
  then show "b + 16 \<noteq> 0" by (metis add_is_0 unat_0 zero_neq_numeral)
qed

lemma heap_rep_mem:
  "heap_rep m a bs \<Longrightarrow> (b, n, f) \<in> set bs \<Longrightarrow>
     hb_size (m b) = n \<and> hb_is_free (m b) = (if f then 1 else 0) \<and> hb_magic (m b) = HEAP_MAGIC"
  by (induction m a bs rule: heap_rep.induct) auto

text \<open>\<open>kfree\<close> on a live pointer, on a pointer whose block is already free, and on NULL.\<close>

lemma kfree_live:
  assumes "heap_ok s bs" and "(b, n) \<in> live bs"
  shows "\<exists>s'. kfree (b + 16) s = Some s' \<and> heap_ok s' (a_coalesce (a_free b bs)) \<and>
    hbytes s' = hbytes s \<and> hb_is_free (hmem s' b) = 1 \<and> hb_magic (hmem s' b) = HEAP_MAGIC"
proof -
  from assms have ok: "heap_rep (hmem s) (heap_head s) bs" "tiles (unat HEAP_START) bs (unat HEAP_END)"
    "(b, n, False) \<in> set bs" by (auto simp: heap_ok_def live_def)
  note h = heap_rep_mem [OF ok(1,3)] and r = tile_in_heap [OF ok(2,3)]
  let ?s = "s\<lparr>hmem := (hmem s)(b := (hmem s b)\<lparr>hb_is_free := 1\<rparr>)\<rparr>"
  have k: "kfree (b + 16) s = coalesce_loop ?s (heap_head s)"
    using h r by (simp add: kfree_def coalesce_free_blocks_def Let_def)
  have "heap_rep (hmem ?s) (heap_head s) (a_free b bs)"
    by (rule heap_rep_a_free [OF ok(1,2)]) simp_all
  from coalesce_loop_refines [OF this, of "unat HEAP_START" "unat HEAP_END"] ok(2) obtain s' where
    s': "coalesce_loop ?s (heap_head s) = Some s'" "heap_rep (hmem s') (heap_head s) (a_coalesce (a_free b bs))"
    "coalesce_frame ?s s' (unat HEAP_START)" by auto
  have "tiles (unat HEAP_START) (a_coalesce (a_free b bs)) (unat HEAP_END)"
    using ok(2) by (intro a_coalesce_tiles) auto
  then show ?thesis
    using k s' h by (auto simp: heap_ok_def coalesced_a_coalesce coalesce_frame_def)
qed

lemma kfree_restores:
  assumes "tiles (unat HEAP_START) bs (unat HEAP_END)" and "coalesced bs" and "a_alloc t bs = Some (b, bs')"
    and "32 \<le> unat t" and "heap_ok h bs'"
  shows "\<exists>h'. kfree (b + 16) h = Some h' \<and> heap_ok h' bs \<and> hbytes h' = hbytes h"
proof -
  from a_alloc_live [OF assms(1) _ assms(3)] obtain k where "(b, k) \<in> live bs'" by auto
  from kfree_live [OF assms(5) this] a_free_alloc [OF assms(1) _ assms(2,3,4)] show ?thesis by auto
qed

lemma kfree_null [simp]: "kfree 0 s = Some s"
  by (simp add: kfree_def)

lemma kfree_already_free:
  "hb_is_free (hmem s b) \<noteq> 0 \<Longrightarrow> kfree (b + 16) s = Some s"
  by (simp add: kfree_def Let_def)

section \<open>The heap as its clients see it\<close>

text \<open>The block size that \<open>kmalloc\<close> asks for, as a number.\<close>

lemma unat_align_size: "unat (align_size n) = unat (n + 3) - unat (n + 3) mod 4"
proof -
  have "(n + 3) AND NOT 3 = (n + 3) - take_bit 2 (n + 3)"
  proof -
    have "push_bit 2 (drop_bit 2 (n + 3)) = (n + 3) AND NOT (mask 2)"
      by (rule bit_word_eqI) (auto simp: bit_simps not_less elim!: nat_le_iff_add [THEN iffD1, THEN exE])
    then have "((n + 3) AND NOT (mask 2)) + take_bit 2 (n + 3) = n + 3"
      using bits_ident [of 2 "n + 3"] by simp
    then show ?thesis by (simp add: mask_eq_exp_minus_1 eq_diff_eq)
  qed
  moreover have t: "unat (take_bit 2 (n + 3)) = unat (n + 3) mod 4"
    by (simp only: unsigned_take_bit_eq) (simp add: take_bit_eq_mod)
  ultimately show ?thesis
    by (simp add: align_size_def unat_sub_u32)
qed

lemma align_size_dvd: "4 dvd unat (align_size n)"
  by (simp add: unat_align_size dvd_minus_mod)

lemma block_total_ge: "32 \<le> unat (block_total n)"
  by (simp add: block_total_def Let_def word_less_nat_alt)

lemma block_total_dvd: "4 dvd unat (block_total n)"
proof -
  have "4 dvd unat (align_size n + 16)"
  proof -
    have "unat (align_size n + 16) = (unat (align_size n) + 16) mod 4294967296"
      by (simp add: unat_word_ariths)
    then show ?thesis using align_size_dvd [of n] by (simp add: dvd_mod_iff)
  qed
  then show ?thesis by (simp add: block_total_def Let_def)
qed

lemma block_total_fits:
  assumes "n \<le> 0xFFFFFFEC"
  shows "unat n + 16 \<le> unat (block_total n)"
proof -
  from assms have n: "unat n \<le> 4294967276" by (simp add: word_le_nat_alt)
  then have n3: "unat (n + 3) = unat n + 3" by (simp add: unat_add_u32)
  have "unat n \<le> unat n + 3 - (unat n + 3) mod 4" by presburger
  moreover have "unat (align_size n + 16) = unat (align_size n) + 16"
    using n n3 by (simp add: unat_add_u32 unat_align_size)
  ultimately show ?thesis
    using n3 by (auto simp: block_total_def Let_def unat_align_size word_less_nat_alt)
qed

lemma kmalloc_ok:
  assumes "heap_ok s bs"
  shows "case (if n = 0 then None else a_alloc (block_total n) bs) of
      None \<Rightarrow> kmalloc n s = Some (0, s)
    | Some (b, bs') \<Rightarrow> \<exists>s'. kmalloc n s = Some (b + 16, s') \<and> heap_ok s' bs' \<and> hbytes s' = hbytes s"
proof (cases "n = 0 \<or> a_alloc (block_total n) bs = None")
  case True
  with assms show ?thesis
    using kmalloc_loop_refines [of s "heap_head s" bs "unat HEAP_START" "unat HEAP_END" "block_total n"]
    by (auto simp: kmalloc_def heap_ok_def block_total_ge)
next
  case False
  then obtain b bs' where b: "n \<noteq> 0" "a_alloc (block_total n) bs = Some (b, bs')" by auto
  have ok: "heap_rep (hmem s) (heap_head s) bs" "tiles (unat HEAP_START) bs (unat HEAP_END)" "coalesced bs"
    using assms by (auto simp: heap_ok_def)
  have "kmalloc_loop s (heap_head s) (block_total n) = Some (b + 16, take_block s b (block_total n)) \<and>
      heap_rep (hmem (take_block s b (block_total n))) (heap_head s) bs'"
    using kmalloc_loop_refines [OF ok(1,2), of "block_total n"] b by (auto simp: block_total_ge)
  moreover have "tiles (unat HEAP_START) bs' (unat HEAP_END)"
    using a_alloc_tiles [OF ok(2) _ block_total_ge block_total_dvd b(2)] by simp
  ultimately show ?thesis
    using b a_alloc_coalesced [OF ok(3) b(2)] by (simp add: kmalloc_def heap_ok_def)
qed

lemma heap_init_ok: "heap_ok (heap_init s) [(HEAP_START, HEAP_SIZE, True)]"
  by (simp add: heap_ok_def heap_init_def)

text \<open>A state has one layout, so the live pointers are a function of the state.\<close>

lemma heap_rep_unique:
  "heap_rep m a bs \<Longrightarrow> heap_rep m a cs \<Longrightarrow> tiles e bs E \<Longrightarrow> tiles e' cs E' \<Longrightarrow> 0 < e \<Longrightarrow> 0 < e' \<Longrightarrow> bs = cs"
proof (induction m a bs arbitrary: cs e e' rule: heap_rep.induct)
  case (1 m a)
  then show ?case by (cases cs) auto
next
  case (2 m a b n f bs)
  from "2.prems"(1,3,5) have "a = b" "b \<noteq> 0" by auto
  with "2.prems"(2) obtain n' f' cs' where cs: "cs = (b, n', f') # cs'" by (cases cs) auto
  have "n' = n" "f' = f" using "2.prems"(1,2) cs by (auto split: if_splits)
  then show ?case
    using "2.IH" [of cs' "e + unat n" "e' + unat n"] "2.prems" cs by auto
qed

lemma heap_ok_unique: "heap_ok s bs \<Longrightarrow> heap_ok s cs \<Longrightarrow> bs = cs"
  unfolding heap_ok_def by (rule heap_rep_unique [of "hmem s" "heap_head s" bs cs]) auto

definition heap_inv :: "heap_state \<Rightarrow> bool" where
  "heap_inv s \<longleftrightarrow> (\<exists>bs. heap_ok s bs)"

definition owned :: "heap_state \<Rightarrow> u32 set" where
  "owned s = {p. \<exists>bs n. heap_ok s bs \<and> (p - 16, n) \<in> live bs}"

definition room :: "heap_state \<Rightarrow> u32 \<Rightarrow> nat" where
  "room s p = unat (hb_size (hmem s (p - 16))) - 16"

lemma owned_ok: "heap_ok s bs \<Longrightarrow> p \<in> owned s \<longleftrightarrow> (\<exists>n. (p - 16, n) \<in> live bs)"
  by (auto simp: owned_def dest: heap_ok_unique)

lemma room_ok: "heap_ok s bs \<Longrightarrow> (p - 16, n) \<in> live bs \<Longrightarrow> room s p = unat n - 16"
  using heap_rep_mem [of "hmem s" "heap_head s" bs "p - 16" n False]
  by (auto simp: heap_ok_def live_def room_def)

lemma heap_init_inv [simp]: "heap_inv (heap_init s)" "owned (heap_init s) = {}"
  using heap_init_ok [of s] owned_ok [OF heap_init_ok [of s]] by (auto simp: heap_inv_def)

lemma hbytes_update_ok [simp]: "heap_ok (s\<lparr>hbytes := f\<rparr>) bs = heap_ok s bs"
  by (simp add: heap_ok_def)

lemma hbytes_update_inv [simp]:
  "heap_inv (s\<lparr>hbytes := f\<rparr>) = heap_inv s" "owned (s\<lparr>hbytes := f\<rparr>) = owned s" "room (s\<lparr>hbytes := f\<rparr>) p = room s p"
  by (simp_all add: heap_inv_def owned_def room_def)

section \<open>The allocator interface\<close>

text \<open>
  What the file system, the RAM disk and the process manager rely on: an allocation returns NULL
  and changes nothing, or a pointer that nobody owns with room for the request; every call returns;
  freeing an owned pointer gives up exactly that pointer.
\<close>

locale allocator =
  fixes alloc :: "u32 \<Rightarrow> 's \<Rightarrow> (u32 \<times> 's) option"
    and release :: "u32 \<Rightarrow> 's \<Rightarrow> 's option"
    and inv :: "'s \<Rightarrow> bool"
    and owns :: "'s \<Rightarrow> u32 set"
    and space :: "'s \<Rightarrow> u32 \<Rightarrow> nat"
    and limit :: u32
  assumes alloc_law: "inv s \<Longrightarrow> \<exists>p s'. alloc n s = Some (p, s') \<and> inv s' \<and>
      (if p = 0 then s' = s
       else p \<notin> owns s \<and> owns s' = insert p (owns s) \<and> (n \<le> limit \<longrightarrow> unat n \<le> space s' p) \<and>
            (\<forall>q\<in>owns s. space s' q = space s q))"
    and release_law: "inv s \<Longrightarrow> p \<in> owns s \<Longrightarrow> \<exists>s'. release p s = Some s' \<and> inv s' \<and>
      owns s' = owns s - {p} \<and> (\<forall>q\<in>owns s - {p}. space s' q = space s q)"
    and release_null: "release 0 s = Some s"
    and owns_nonnull: "inv s \<Longrightarrow> p \<in> owns s \<Longrightarrow> p \<noteq> 0"
begin

text \<open>The temporary-buffer idiom of \<open>fs.c\<close>: allocate, use, free on every path.\<close>

definition with_buffer :: "u32 \<Rightarrow> 's \<Rightarrow> (bool \<times> 's) option" where
  "with_buffer n s = Option.bind (alloc n s) (\<lambda>(p, s').
     if p = 0 then Some (False, s') else Option.bind (release p s') (\<lambda>s''. Some (True, s'')))"

lemma with_buffer_no_leak:
  assumes "inv s"
  shows "\<exists>ok s'. with_buffer n s = Some (ok, s') \<and> inv s' \<and> owns s' = owns s \<and>
    (\<forall>q\<in>owns s. space s' q = space s q)"
proof -
  from alloc_law [OF assms, of n] obtain p s1 where
    s1: "alloc n s = Some (p, s1)" "inv s1" "p = 0 \<Longrightarrow> s1 = s"
      "p \<noteq> 0 \<Longrightarrow> p \<notin> owns s \<and> owns s1 = insert p (owns s) \<and> (\<forall>q\<in>owns s. space s1 q = space s q)"
    by (auto split: if_splits)
  show ?thesis
  proof (cases "p = 0")
    case True
    then show ?thesis using s1 assms by (intro exI [of _ False] exI [of _ s]) (simp add: with_buffer_def)
  next
    case False
    with s1(4) release_law [OF s1(2), of p] obtain s2 where
      "release p s1 = Some s2" "inv s2" "owns s2 = owns s1 - {p}" "\<forall>q\<in>owns s1 - {p}. space s2 q = space s1 q"
      by auto
    then show ?thesis using s1 False by (auto simp: with_buffer_def)
  qed
qed

end

lemma kmalloc_law:
  assumes "heap_inv s"
  shows "\<exists>p s'. kmalloc n s = Some (p, s') \<and> heap_inv s' \<and>
      (if p = 0 then s' = s
       else p \<notin> owned s \<and> owned s' = insert p (owned s) \<and> (n \<le> 0xFFFFFFEC \<longrightarrow> unat n \<le> room s' p) \<and>
            (\<forall>q\<in>owned s. room s' q = room s q))"
proof -
  from assms obtain bs where bs: "heap_ok s bs" by (auto simp: heap_inv_def)
  then have t: "tiles (unat HEAP_START) bs (unat HEAP_END)" by (simp add: heap_ok_def)
  show ?thesis
  proof (cases "if n = 0 then None else a_alloc (block_total n) bs")
    case None
    then show ?thesis using kmalloc_ok [OF bs, of n] assms by simp
  next
    case (Some r)
    obtain b bs' where r: "r = (b, bs')" by (cases r)
    then have al: "a_alloc (block_total n) bs = Some (b, bs')" using Some by (simp split: if_splits)
    from kmalloc_ok [OF bs, of n] Some r obtain s' where
      s': "kmalloc n s = Some (b + 16, s')" "heap_ok s' bs'" by auto
    from a_alloc_live [OF t _ al] obtain k where
      k: "block_total n \<le> k" "live bs' = insert (b, k) (live bs)" "\<forall>m. (b, m) \<notin> live bs" by auto
    obtain m f where "(b, m, f) \<in> set bs" using a_alloc_mem [OF al] by blast
    then have nz: "b + 16 \<noteq> 0" using tile_in_heap(4) [OF t] by blast
    have own: "q \<in> owned s' \<longleftrightarrow> q = b + 16 \<or> q \<in> owned s" for q
      using k(2) by (auto simp: owned_ok [OF s'(2)] owned_ok [OF bs])
    have new: "b + 16 \<notin> owned s" using k(3) by (simp add: owned_ok [OF bs])
    have "room s' (b + 16) = unat k - 16" using k(2) by (intro room_ok [OF s'(2)]) simp
    then have fits: "n \<le> 0xFFFFFFEC \<longrightarrow> unat n \<le> room s' (b + 16)"
      using k(1) block_total_fits [of n] by (auto simp: word_le_nat_alt)
    have keep: "room s' q = room s q" if "q \<in> owned s" for q
    proof -
      from that obtain m where "(q - 16, m) \<in> live bs" by (auto simp: owned_ok [OF bs])
      then show ?thesis using room_ok [OF bs] room_ok [OF s'(2)] k(2) by simp
    qed
    have "owned s' = insert (b + 16) (owned s)" using own by auto
    moreover have "heap_inv s'" using s'(2) by (auto simp: heap_inv_def)
    ultimately show ?thesis using s'(1) nz new fits keep by auto
  qed
qed

lemma kfree_law:
  assumes "heap_inv s" and "p \<in> owned s"
  shows "\<exists>s'. kfree p s = Some s' \<and> heap_inv s' \<and> owned s' = owned s - {p} \<and>
    (\<forall>q\<in>owned s - {p}. room s' q = room s q)"
proof -
  from assms(1) obtain bs where bs: "heap_ok s bs" by (auto simp: heap_inv_def)
  from assms(2) obtain n where n: "(p - 16, n) \<in> live bs" by (auto simp: owned_ok [OF bs])
  from kfree_live [OF bs n] obtain s' where
    s': "kfree p s = Some s'" "heap_ok s' (a_coalesce (a_free (p - 16) bs))" by auto
  have "q \<in> owned s' \<longleftrightarrow> q \<in> owned s - {p}" for q
    by (auto simp: owned_ok [OF s'(2)] owned_ok [OF bs] a_free_live)
  moreover have "room s' q = room s q" if q: "q \<in> owned s - {p}" for q
  proof -
    from q obtain m where "(q - 16, m) \<in> live bs" by (auto simp: owned_ok [OF bs])
    then show ?thesis using room_ok [OF bs] room_ok [OF s'(2)] q by (simp add: a_free_live)
  qed
  ultimately show ?thesis using s' by (auto simp: heap_inv_def)
qed

lemma owned_nonnull: "heap_inv s \<Longrightarrow> p \<in> owned s \<Longrightarrow> p \<noteq> 0"
proof -
  assume "heap_inv s" "p \<in> owned s"
  then obtain bs n where "heap_ok s bs" "(p - 16, n, False) \<in> set bs"
    by (auto simp: owned_def live_def)
  then have "p - 16 + 16 \<noteq> 0" by (intro tile_in_heap(4)) (auto simp: heap_ok_def)
  then show "p \<noteq> 0" by simp
qed

interpretation kheap: allocator kmalloc kfree heap_inv owned room "0xFFFFFFEC"
  by unfold_locales (simp_all add: kmalloc_law kfree_law owned_nonnull)

section \<open>Payloads\<close>

lemma owned_obtain:
  assumes "heap_inv s" and "p \<in> owned s"
  obtains bs n where "heap_ok s bs" and "(p - 16, n, False) \<in> set bs" and "room s p = unat n - 16"
    and "unat p = unat (p - 16) + 16" and "32 \<le> unat n"
proof -
  from assms obtain bs n where bs: "heap_ok s bs" "(p - 16, n, False) \<in> set bs"
    by (auto simp: owned_def live_def)
  then have t: "tiles (unat HEAP_START) bs (unat HEAP_END)" by (simp add: heap_ok_def)
  show ?thesis
    using that [OF bs] room_ok [OF bs(1), of p n] bs(2) tile_in_heap(3) [OF t bs(2)] tiles_mem [OF t bs(2)]
    by (simp add: live_def)
qed

lemma owned_bounds:
  assumes "heap_inv s" and "p \<in> owned s"
  shows "unat HEAP_START + 16 \<le> unat p" and "unat p + room s p \<le> unat HEAP_END" and "16 \<le> room s p"
  using assms
  by (rule owned_obtain; use tiles_mem in \<open>fastforce simp: heap_ok_def\<close>)+

lemma tiles_aligned: "tiles e bs E \<Longrightarrow> 4 dvd e \<Longrightarrow> x \<in> set bs \<Longrightarrow> 4 dvd unat (taddr x)"
  by (induction e bs E rule: tiles.induct) auto

lemma owned_aligned:
  assumes "heap_inv s" and "p \<in> owned s"
  shows "4 dvd unat p"
proof -
  from assms obtain bs n where "heap_ok s bs" "(p - 16, n, False) \<in> set bs" and u: "unat p = unat (p - 16) + 16"
    by (rule owned_obtain)
  then have "4 dvd unat (p - 16)"
    using tiles_aligned [of "unat HEAP_START" bs "unat HEAP_END" "(p - 16, n, False)"] by (simp add: heap_ok_def)
  then show ?thesis unfolding u by simp
qed

lemma owned_disjoint:
  assumes "heap_inv s" and "p \<in> owned s" and "q \<in> owned s" and "p \<noteq> q"
  shows "unat p + room s p + 16 \<le> unat q \<or> unat q + room s q + 16 \<le> unat p"
proof -
  from assms(1,2) obtain bs n where p: "heap_ok s bs" "(p - 16, n, False) \<in> set bs" "room s p = unat n - 16"
    "unat p = unat (p - 16) + 16" "32 \<le> unat n" by (rule owned_obtain)
  from assms(1,3) obtain cs m where q: "heap_ok s cs" "(q - 16, m, False) \<in> set cs" "room s q = unat m - 16"
    "unat q = unat (q - 16) + 16" "32 \<le> unat m" by (rule owned_obtain)
  have "cs = bs" using heap_ok_unique p(1) q(1) by blast
  moreover have "p - 16 \<noteq> q - 16" using assms(4) by simp
  ultimately show ?thesis
    using tiles_disjoint [of "unat HEAP_START" bs "unat HEAP_END" "(p - 16, n, False)" "(q - 16, m, False)"] p q
    by (auto simp: heap_ok_def)
qed

definition payload :: "heap_state \<Rightarrow> u32 \<Rightarrow> u32 set" where
  "payload s p = {p + of_nat i |i. i < room s p}"

lemma payload_unat:
  assumes "heap_inv s" and "p \<in> owned s" and "i < room s p"
  shows "unat (p + of_nat i) = unat p + i"
  using owned_bounds [OF assms(1,2)] assms(3) by (simp add: unat_add_u32 unat_of_nat_u32)

lemma payload_disjoint:
  assumes "heap_inv s" and "p \<in> owned s" and "q \<in> owned s" and "p \<noteq> q"
  shows "payload s p \<inter> payload s q = {}"
proof -
  have "p + of_nat i \<noteq> q + of_nat j" if "i < room s p" "j < room s q" for i j
  proof
    assume "p + of_nat i = q + of_nat j"
    then have "unat p + i = unat q + j"
      using payload_unat [OF assms(1,2) that(1)] payload_unat [OF assms(1,3) that(2)] by simp
    then show False using owned_disjoint [OF assms] that by auto
  qed
  then show ?thesis by (auto simp: payload_def)
qed

text \<open>No header lies in a payload, so the two views of memory do not interfere.\<close>

lemma payload_no_header:
  assumes "heap_ok s bs" and "p \<in> owned s" and "x \<in> set bs" and "j < 16"
  shows "taddr x + of_nat j \<notin> payload s p"
proof
  assume "taddr x + of_nat j \<in> payload s p"
  then obtain i where i: "i < room s p" "taddr x + of_nat j = p + of_nat i" by (auto simp: payload_def)
  have inv: "heap_inv s" using assms(1) by (auto simp: heap_inv_def)
  from inv assms(2) obtain cs n where p: "heap_ok s cs" "(p - 16, n, False) \<in> set cs" "room s p = unat n - 16"
    "unat p = unat (p - 16) + 16" "32 \<le> unat n" by (rule owned_obtain)
  then have "cs = bs" using heap_ok_unique assms(1) by blast
  with p have m: "(p - 16, n, False) \<in> set bs" by simp
  have t: "tiles (unat HEAP_START) bs (unat HEAP_END)" using assms(1) by (simp add: heap_ok_def)
  have "unat (taddr x + of_nat j) = unat (taddr x) + j"
    using tiles_mem [OF t assms(3)] assms(4) by (simp add: unat_add_u32 unat_of_nat_u32)
  then have eq: "unat (taddr x) + j = unat p + i" using i payload_unat [OF inv assms(2)] by simp
  show False
  proof (cases "x = (p - 16, n, False)")
    case True
    then show False using eq p(4) assms(4) by simp
  next
    case False
    then show False using tiles_disjoint [OF t assms(3) m] eq p i assms(4) tiles_mem [OF t assms(3)] by auto
  qed
qed

text \<open>\<open>memcpy\<close> between disjoint areas and \<open>memset\<close>.\<close>

lemma memcpy_frame:
  "\<forall>j. i \<le> j \<and> j < i + n \<longrightarrow> x \<noteq> d + of_nat j \<Longrightarrow> memcpy_bytes d src i n m x = m x"
  by (induction d src i n m rule: memcpy_bytes.induct) (auto simp: Suc_le_eq)

lemma memcpy_copied:
  assumes "\<forall>j k. j < i + n \<longrightarrow> k < i + n \<longrightarrow> src + of_nat j \<noteq> d + of_nat k"
    and "i + n \<le> 4294967296" and "i \<le> j" and "j < i + n"
  shows "memcpy_bytes d src i n m (d + of_nat j) = m (src + of_nat j)"
  using assms
proof (induction d src i n m rule: memcpy_bytes.induct)
  case (2 d src i n m)
  show ?case
  proof (cases "j = i")
    case True
    have "\<forall>k. Suc i \<le> k \<and> k < Suc i + n \<longrightarrow> d + of_nat j \<noteq> d + of_nat k"
      using True "2.prems"(2) by (auto simp: of_nat_u32_eq_iff)
    then show ?thesis using True memcpy_frame [of "Suc i" n "d + of_nat j" d src] by simp
  next
    case False
    have "src + of_nat j \<noteq> d + of_nat i" using "2.prems" by auto
    then show ?thesis using "2.IH" "2.prems" False by (simp add: fun_upd_def)
  qed
qed simp

lemma memset_frame:
  "\<forall>j. i \<le> j \<and> j < i + n \<longrightarrow> x \<noteq> p + of_nat j \<Longrightarrow> memset_bytes p v i n m x = m x"
  by (induction p v i n m rule: memset_bytes.induct) (auto simp: Suc_le_eq)

lemma memset_set:
  assumes "i + n \<le> 4294967296" and "i \<le> j" and "j < i + n"
  shows "memset_bytes p v i n m (p + of_nat j) = v"
  using assms
proof (induction p v i n m rule: memset_bytes.induct)
  case (2 p v i n m)
  show ?case
  proof (cases "j = i")
    case True
    have "\<forall>k. Suc i \<le> k \<and> k < Suc i + n \<longrightarrow> p + of_nat j \<noteq> p + of_nat k"
      using True "2.prems"(1) by (auto simp: of_nat_u32_eq_iff)
    then show ?thesis using True memset_frame [of "Suc i" n "p + of_nat j" p v] by simp
  next
    case False
    then show ?thesis using "2.IH" "2.prems" by (simp add: fun_upd_def)
  qed
qed simp

section \<open>krealloc and kcalloc\<close>

lemma kmalloc_hbytes:
  assumes "heap_inv s" and "kmalloc n s = Some (p, s')"
  shows "hbytes s' = hbytes s"
proof -
  from assms(1) obtain bs where "heap_ok s bs" by (auto simp: heap_inv_def)
  from kmalloc_ok [OF this, of n] assms(2) show ?thesis by (auto split: option.splits if_splits)
qed

lemma kfree_hbytes:
  assumes "heap_inv s" and "p \<in> owned s" and "kfree p s = Some s'"
  shows "hbytes s' = hbytes s"
proof -
  from assms(1,2) obtain bs n where "heap_ok s bs" "(p - 16, n) \<in> live bs"
    by (auto simp: owned_def)
  from kfree_live [OF this] assms(3) show ?thesis by auto
qed

lemma kmalloc_nonnull:
  assumes "heap_inv s" and "kmalloc n s = Some (p, s')" and "p \<noteq> 0"
  shows "heap_inv s'" and "p \<notin> owned s" and "owned s' = insert p (owned s)"
    and "n \<le> 0xFFFFFFEC \<Longrightarrow> unat n \<le> room s' p" and "\<forall>q\<in>owned s. room s' q = room s q"
  using kmalloc_law [OF assms(1), of n] assms(2,3) by auto

lemma owned_magic:
  assumes "heap_inv s" and "p \<in> owned s"
  shows "hb_magic (hmem s (p - 16)) = HEAP_MAGIC" and "hb_is_free (hmem s (p - 16)) = 0"
    and "unat (hb_size (hmem s (p - 16)) - 16) = room s p"
proof -
  from assms obtain bs n where bs: "heap_ok s bs" "(p - 16, n, False) \<in> set bs" "32 \<le> unat n"
    by (rule owned_obtain)
  from heap_rep_mem [of "hmem s" "heap_head s" bs, OF _ bs(2)] bs(1)
  have "hb_size (hmem s (p - 16)) = n" "hb_magic (hmem s (p - 16)) = HEAP_MAGIC"
    "hb_is_free (hmem s (p - 16)) = 0" by (auto simp: heap_ok_def)
  then show "hb_magic (hmem s (p - 16)) = HEAP_MAGIC" "hb_is_free (hmem s (p - 16)) = 0"
    "unat (hb_size (hmem s (p - 16)) - 16) = room s p"
    using bs(3) by (auto simp: room_def unat_sub_u32)
qed

text \<open>Stores inside a held payload are accepted, and every accepted store is one.\<close>

lemma in_block_owned:
  assumes "heap_inv s" and "p \<in> owned s"
  shows "in_block p a k s \<longleftrightarrow> unat (a - p) + k \<le> room s p"
  using owned_magic(3) [OF assms] owned_nonnull [OF assms] by (simp add: in_block_def)

lemma store_bytes_frame:
  "\<forall>i < length cs. x \<noteq> a + of_nat i \<Longrightarrow> store_bytes a cs m x = m x"
proof (induction a cs m rule: store_bytes.induct)
  case (2 a c cs m)
  have "x \<noteq> a + 1 + of_nat i" if "i < length cs" for i
    using "2.prems" [rule_format, of "Suc i"] that by (simp add: algebra_simps)
  moreover have "x \<noteq> a" using "2.prems" [rule_format, of 0] by simp
  ultimately show ?case using "2.IH" by (simp add: fun_upd_def)
qed simp

lemma heap_store_ok:
  assumes "heap_inv s" and "p \<in> owned s" and "unat (a - p) + length cs \<le> room s p"
  shows "heap_store p a cs s = Some (s\<lparr>hbytes := store_bytes a cs (hbytes s)\<rparr>)"
  using assms by (simp add: heap_store_def in_block_owned)

lemma heap_store_inv:
  "heap_store p a cs s = Some s' \<Longrightarrow> heap_inv s' = heap_inv s \<and> owned s' = owned s \<and> room s' = room s"
  by (auto simp: heap_store_def room_def split: if_splits)

lemma krealloc_grow:
  assumes inv: "heap_inv s" and p: "p \<in> owned s" and n: "room s p < unat n" "n \<le> 0xFFFFFFEC"
    and m: "kmalloc n s = Some (q, s1)"
  shows "if q = 0 then krealloc p n s = Some (0, s)
    else \<exists>s'. krealloc p n s = Some (q, s') \<and> heap_inv s' \<and> owned s' = insert q (owned s - {p}) \<and>
      (\<forall>i < room s p. hbytes s' (q + of_nat i) = hbytes s (p + of_nat i)) \<and>
      (\<forall>r\<in>owned s - {p}. \<forall>x\<in>payload s r. hbytes s' x = hbytes s x) \<and>
      unat n \<le> room s' q"
proof -
  note mag = owned_magic [OF inv p]
  have nz: "p \<noteq> 0" "n \<noteq> 0" using owned_nonnull [OF inv p] n by auto
  have big: "\<not> n \<le> hb_size (hmem s (p - 16)) - 16" using n mag(3) by (simp add: word_le_nat_alt)
  show ?thesis
  proof (cases "q = 0")
    case True
    then have "s1 = s" using kmalloc_law [OF inv, of n] m by auto
    then show ?thesis using True nz big mag(1) m by (simp add: krealloc_def Let_def)
  next
    case False
    note k = kmalloc_nonnull [OF inv m False]
    define b where "b = memcpy_bytes q p 0 (room s p) (hbytes s1)"
    let ?s = "s1\<lparr>hbytes := b\<rparr>"
    have po: "p \<in> owned ?s" "heap_inv ?s" using k p by auto
    from kfree_law [OF po(2,1)] obtain s2 where
      s2: "kfree p ?s = Some s2" "heap_inv s2" "owned s2 = owned s1 - {p}" "\<forall>r\<in>owned s1 - {p}. room s2 r = room s1 r"
      by auto
    have qp: "q \<noteq> p" using k(2) p by auto
    have bytes: "hbytes s2 = b" using kfree_hbytes [OF po(2,1) s2(1)] by simp
    have own1: "p \<in> owned s1" "q \<in> owned s1" using k p by auto
    have rp: "room s1 p = room s p" using k(5) p by simp
    have fit: "room s p \<le> room s1 q" "unat n \<le> room s1 q" using k(4) n by auto
    have "heap_memcpy q p (room s p) s1 = Some ?s"
      using fit(1) rp own1 k(1) by (simp add: heap_memcpy_def in_block_owned b_def)
    then have res: "krealloc p n s = Some (q, s2)"
      using nz big mag m False s2(1) by (simp add: krealloc_def Let_def)
    have apart: "payload s1 r \<inter> payload s1 q = {}" if "r \<in> owned s" for r
      using payload_disjoint [OF k(1)] k(2,3) that by blast
    have pl: "payload s1 r = payload s r" if "r \<in> owned s" for r
      using k(5) that by (simp add: payload_def)
    have q_in: "q + of_nat j \<in> payload s1 q" if "j < room s p" for j
      using that fit by (auto simp: payload_def)
    have copied: "b (q + of_nat i) = hbytes s (p + of_nat i)" if "i < room s p" for i
    proof -
      have "p + of_nat j \<noteq> q + of_nat k" if "j < room s p" "k < room s p" for j k
      proof -
        have "p + of_nat j \<in> payload s1 p" using that pl [OF p] by (auto simp: payload_def)
        then show ?thesis using apart [OF p] q_in [OF that(2)] by auto
      qed
      then have "\<forall>j k. j < 0 + room s p \<longrightarrow> k < 0 + room s p \<longrightarrow> p + of_nat j \<noteq> q + of_nat k"
        by simp
      then show ?thesis
        using memcpy_copied [of 0 "room s p" p q i "hbytes s1"] that owned_bounds [OF inv p]
          kmalloc_hbytes [OF inv m] by (simp add: b_def)
    qed
    have kept: "b x = hbytes s x" if "r \<in> owned s" "x \<in> payload s r" for r x
    proof -
      have "x \<notin> payload s1 q" using apart [OF that(1)] pl [OF that(1)] that(2) by auto
      then have "\<forall>j. 0 \<le> j \<and> j < 0 + room s p \<longrightarrow> x \<noteq> q + of_nat j" using q_in by auto
      then show ?thesis
        using memcpy_frame [of 0 "room s p" x q p "hbytes s1"] kmalloc_hbytes [OF inv m] by (simp add: b_def)
    qed
    show ?thesis
      using False res s2 bytes copied kept k(3) own1 qp fit(2) by auto
  qed
qed

lemma kcalloc_eq:
  assumes "heap_inv s" and "num * n \<le> 0xFFFFFFEC"
  shows "\<exists>p s1. kmalloc (num * n) s = Some (p, s1) \<and> kcalloc num n s =
    Some (p, if p = 0 then s else s1\<lparr>hbytes := memset_bytes p 0 0 (unat (num * n)) (hbytes s1)\<rparr>)"
proof -
  obtain p s1 where m: "kmalloc (num * n) s = Some (p, s1)" using kmalloc_law [OF assms(1)] by blast
  show ?thesis
  proof (cases "p = 0")
    case True
    then have "s1 = s" using kmalloc_law [OF assms(1), of "num * n"] m by auto
    then show ?thesis using m True by (simp add: kcalloc_def Let_def)
  next
    case False
    note k = kmalloc_nonnull [OF assms(1) m False]
    then show ?thesis
      using m False assms(2) by (simp add: kcalloc_def Let_def heap_memset_def in_block_owned)
  qed
qed

lemma kcalloc_zeroed:
  assumes "heap_inv s" and "kcalloc num n s = Some (p, s')" and "p \<noteq> 0"
  shows "heap_inv s'" and "owned s' = insert p (owned s)" and "p \<notin> owned s"
    and "\<forall>i < unat (num * n). hbytes s' (p + of_nat i) = 0" and "unat (num * n) \<le> room s' p"
    and "\<forall>r\<in>owned s. \<forall>x\<in>payload s r. hbytes s' x = hbytes s x"
proof -
  from assms(2,3) obtain s1 where s1: "kmalloc (num * n) s = Some (p, s1)"
    "s' = s1\<lparr>hbytes := memset_bytes p 0 0 (unat (num * n)) (hbytes s1)\<rparr>" "in_block p p (unat (num * n)) s1"
    by (auto simp: kcalloc_def Let_def bind_eq_Some_conv heap_memset_def split: if_splits)
  note k = kmalloc_nonnull [OF assms(1) s1(1) assms(3)]
  show "heap_inv s'" "owned s' = insert p (owned s)" "p \<notin> owned s" using k s1(2) by auto
  have fit: "unat (num * n) \<le> room s1 p" using s1(3) k by (simp add: in_block_owned)
  then show "unat (num * n) \<le> room s' p" using s1(2) by (simp add: room_def)
  have "unat (num * n) \<le> 4294967296" by (rule less_imp_le [OF unat_u32_less])
  then show "\<forall>i < unat (num * n). hbytes s' (p + of_nat i) = 0"
    using memset_set [of 0 "unat (num * n)"] s1(2) by simp
  show "\<forall>r\<in>owned s. \<forall>x\<in>payload s r. hbytes s' x = hbytes s x"
  proof (intro ballI)
    fix r x assume r: "r \<in> owned s" and x: "x \<in> payload s r"
    have "payload s1 r \<inter> payload s1 p = {}" using payload_disjoint [OF k(1)] k(2,3) r by blast
    moreover have "payload s1 r = payload s r" using k(5) r by (simp add: payload_def)
    ultimately have "x \<notin> payload s1 p" using x by auto
    then have "\<forall>j. 0 \<le> j \<and> j < 0 + unat (num * n) \<longrightarrow> x \<noteq> p + of_nat j" using fit by (auto simp: payload_def)
    then show "hbytes s' x = hbytes s x"
      using memset_frame [of 0 "unat (num * n)" x p 0 "hbytes s1"] s1(2) kmalloc_hbytes [OF assms(1) s1(1)] by simp
  qed
qed

text \<open>The rounding in \<open>kmalloc\<close> wraps: every request above 0xFFFFFFEC bytes is served like a
  request for one byte, with a 16-byte payload, instead of failing.\<close>

lemma kmalloc_size_wraps:
  assumes "0xFFFFFFEC < n"
  shows "kmalloc n s = kmalloc 1 s"
proof -
  from assms have n: "4294967276 < unat n" by (simp add: word_less_nat_alt)
  have n3: "unat (n + 3) = (unat n + 3) mod 4294967296" by (simp add: unat_word_ariths)
  have wrap_once: "k mod 4294967296 = k - 4294967296" if "4294967296 \<le> k" "k < 8589934592" for k :: nat
    using that by (simp add: le_mod_geq)
  have wrap: "unat (align_size n + 16) = (unat (align_size n) + 16) mod 4294967296"
    by (simp add: unat_word_ariths)
  have "unat (align_size n + 16) < 32"
  proof (cases "unat n \<ge> 4294967293")
    case True
    then have "unat (n + 3) = unat n + 3 - 4294967296"
      using n3 unat_u32_less [of n] wrap_once [of "unat n + 3"] by linarith
    then have "unat (n + 3) < 4" using unat_u32_less [of n] by linarith
    then show ?thesis using wrap by (simp add: unat_align_size)
  next
    case False
    then have "unat (n + 3) = unat n + 3" using n3 by simp
    moreover have "k - k mod 4 \<ge> 4294967280" if "k \<ge> 4294967280" for k :: nat using that by presburger
    ultimately have "4294967280 \<le> unat (align_size n)" using n by (simp add: unat_align_size)
    then have "unat (align_size n + 16) = unat (align_size n) + 16 - 4294967296"
      using wrap unat_u32_less [of "align_size n"] wrap_once [of "unat (align_size n) + 16"] by linarith
    then show ?thesis using unat_u32_less [of "align_size n"] by linarith
  qed
  then have "block_total n = 32" by (simp add: block_total_def Let_def word_less_nat_alt)
  moreover have "block_total 1 = 32" by (simp add: block_total_def align_size_def Let_def)
  moreover have "n \<noteq> 0" using assms by auto
  ultimately show ?thesis by (simp add: kmalloc_def)
qed

text \<open>The block taken for such a request has at most 47 bytes, so \<open>kcalloc\<close> would clear memory far beyond
  it: exactly these calls of \<open>kcalloc\<close> have no result.\<close>

lemma kmalloc_small_room:
  assumes "heap_inv s" and "kmalloc 1 s = Some (p, s1)" and "p \<noteq> 0"
  shows "room s1 p < 48"
proof -
  from assms(1) obtain bs where bs: "heap_ok s bs" by (auto simp: heap_inv_def)
  have t: "block_total 1 = 32" by (simp add: block_total_def align_size_def Let_def)
  from kmalloc_ok [OF bs, of 1] assms(2,3) t obtain b bs' where
    b: "a_alloc 32 bs = Some (b, bs')" "p = b + 16" "heap_ok s1 bs'" by (auto split: option.splits if_splits)
  from a_alloc_taken [OF b(1)] obtain n where n: "n = 32 \<or> n < 32 + 32" "(b, n) \<in> live bs'" by auto
  have "unat n < 64" using n(1) by (auto simp: word_less_nat_alt)
  then show ?thesis using room_ok [OF b(3), of p n] n(2) b(2) by simp
qed

lemma kcalloc_None_iff:
  assumes "heap_inv s"
  shows "kcalloc num n s = None \<longleftrightarrow> 0xFFFFFFEC < num * n \<and> kmalloc 1 s \<noteq> Some (0, s)"
proof (cases "num * n \<le> 0xFFFFFFEC")
  case True
  then show ?thesis using kcalloc_eq [OF assms True] by auto
next
  case False
  then have w: "0xFFFFFFEC < num * n" by simp
  obtain p s1 where m: "kmalloc 1 s = Some (p, s1)" using kmalloc_law [OF assms] by blast
  show ?thesis
  proof (cases "p = 0")
    case True
    then have "s1 = s" using kmalloc_law [OF assms, of 1] m by auto
    then show ?thesis using m True by (simp add: kcalloc_def Let_def kmalloc_size_wraps [OF w])
  next
    case p: False
    have "48 \<le> unat (num * n)" using w by (simp add: word_less_nat_alt)
    then have "\<not> in_block p p (unat (num * n)) s1"
      using kmalloc_small_room [OF assms m p] kmalloc_nonnull [OF assms m p] by (simp add: in_block_owned)
    then show ?thesis using m p w by (simp add: kcalloc_def Let_def kmalloc_size_wraps [OF w] heap_memset_def)
  qed
qed

section \<open>Reachable heaps\<close>

text \<open>
  The states reached from \<open>heap_init\<close> by any sequence of calls, with the set of pointers the clients
  hold. Clients free only what they hold (or NULL) and write bytes inside payloads they hold; sizes are
  arbitrary, up to the 0xFFFFFFEC bytes beyond which the rounding wraps for \<open>krealloc\<close>. A \<open>kcalloc\<close>
  that would clear memory beyond its block has no result, so no state is reached through it.
\<close>

inductive heap_reachable :: "heap_state \<Rightarrow> u32 set \<Rightarrow> bool" where
  hr_init: "heap_reachable (heap_init s) {}"
| hr_write: "heap_reachable s H \<Longrightarrow> p \<in> H \<Longrightarrow> heap_store p a cs s = Some s' \<Longrightarrow> heap_reachable s' H"
| hr_kmalloc: "heap_reachable s H \<Longrightarrow> kmalloc n s = Some (p, s') \<Longrightarrow>
    heap_reachable s' (if p = 0 then H else insert p H)"
| hr_kcalloc: "heap_reachable s H \<Longrightarrow> kcalloc num n s = Some (p, s') \<Longrightarrow>
    heap_reachable s' (if p = 0 then H else insert p H)"
| hr_kfree: "heap_reachable s H \<Longrightarrow> p = 0 \<or> p \<in> H \<Longrightarrow> kfree p s = Some s' \<Longrightarrow>
    heap_reachable s' (H - {p})"
| hr_krealloc: "heap_reachable s H \<Longrightarrow> p \<in> H \<Longrightarrow> n \<le> 0xFFFFFFEC \<Longrightarrow> krealloc p n s = Some (q, s') \<Longrightarrow>
    heap_reachable s' (if n = 0 then H - {p} else if q = 0 then H else insert q (H - {p}))"

lemma krealloc_law:
  assumes inv: "heap_inv s" and p: "p \<in> owned s" and n: "n \<le> 0xFFFFFFEC"
  shows "\<exists>q s'. krealloc p n s = Some (q, s') \<and> heap_inv s' \<and>
    owned s' = (if n = 0 then owned s - {p} else if q = 0 then owned s else insert q (owned s - {p}))"
proof -
  consider (zero) "n = 0" | (shrink) "n \<noteq> 0" "unat n \<le> room s p" | (grow) "room s p < unat n" by linarith
  then show ?thesis
  proof cases
    case zero
    then show ?thesis using kfree_law [OF inv p] owned_nonnull [OF inv p] by (auto simp: krealloc_def)
  next
    case shrink
    then have "krealloc p n s = Some (p, s)"
      using owned_magic [OF inv p] owned_nonnull [OF inv p] by (simp add: krealloc_def Let_def word_le_nat_alt)
    then show ?thesis using inv p shrink owned_nonnull [OF inv p] by auto
  next
    case grow
    obtain q s1 where "kmalloc n s = Some (q, s1)" using kmalloc_law [OF inv] by blast
    from krealloc_grow [OF inv p grow n this] grow inv show ?thesis by (auto split: if_splits)
  qed
qed

lemma heap_reachable_inv: "heap_reachable s H \<Longrightarrow> heap_inv s \<and> H = owned s"
proof (induction rule: heap_reachable.induct)
  case (hr_kmalloc s H n p s')
  then show ?case using kmalloc_law [of s n] by (auto split: if_splits)
next
  case (hr_kcalloc s H num n p s')
  then show ?case
  proof (cases "p = 0")
    case True
    then have "kmalloc (num * n) s = Some (0, s')" using hr_kcalloc.hyps(2)
      by (auto simp: kcalloc_def Let_def bind_eq_Some_conv split: if_splits)
    then show ?thesis using True kmalloc_law [of s "num * n"] hr_kcalloc.IH by auto
  next
    case False
    then show ?thesis using kcalloc_zeroed(1,2) [of s num n p s'] hr_kcalloc by auto
  qed
next
  case (hr_kfree s H p s')
  then show ?case
    using kfree_law [of s p] owned_nonnull [of s p] by (cases "p = 0") (auto dest: owned_nonnull)
next
  case (hr_krealloc s H p n q s')
  then show ?case using krealloc_law [of s p n] by auto
next
  case (hr_write s H p a cs s')
  then show ?case using heap_store_inv by blast
qed simp

text \<open>C4: In every heap reached by calls that return and by writes inside held payloads, the pointers held
  by clients are exactly the allocated blocks; each payload lies inside the heap area, is 4-byte aligned,
  overlaps no other held payload and no block header; the headers tile the area and no two neighbouring
  blocks are both free.\<close>

theorem heap_reachable_safe:
  assumes "heap_reachable s H"
  shows "H = owned s \<and> (\<exists>bs. heap_ok s bs \<and>
    (\<forall>p\<in>H. 4 dvd unat p \<and> unat HEAP_START + 16 \<le> unat p \<and> unat p + room s p \<le> unat HEAP_END \<and>
       (\<forall>q\<in>H. q \<noteq> p \<longrightarrow> payload s p \<inter> payload s q = {}) \<and>
       (\<forall>x\<in>set bs. \<forall>j < 16. taddr x + of_nat j \<notin> payload s p)))"
proof -
  from heap_reachable_inv [OF assms] have i: "heap_inv s" "H = owned s" by auto
  then obtain bs where "heap_ok s bs" by (auto simp: heap_inv_def)
  then show ?thesis
    using i owned_aligned [OF i(1)] owned_bounds [OF i(1)] payload_disjoint [OF i(1)] payload_no_header by metis
qed

definition zero_heap :: heap_state where
  "zero_heap = heap_init \<lparr>heap_head = 0,
     hmem = (\<lambda>_. \<lparr>hb_size = 0, hb_is_free = 0, hb_magic = 0, hb_next = 0\<rparr>), hbytes = (\<lambda>_. 0)\<rparr>"

lemma zero_heap_ok: "heap_ok zero_heap [(HEAP_START, HEAP_SIZE, True)]"
  unfolding zero_heap_def by (rule heap_init_ok)

lemma zero_heap_reachable: "heap_reachable zero_heap {}"
  unfolding zero_heap_def by (rule hr_init)

lemma fresh_kmalloc_heap:
  "\<exists>s'. kmalloc 100 zero_heap = Some (0x200010, s') \<and>
     heap_ok s' [(0x200000, 116, False), (0x200074, 0x3FFF8C, True)]"
proof -
  have "block_total 100 = 116" by (simp add: block_total_def align_size_def Let_def)
  then show ?thesis using kmalloc_ok [OF zero_heap_ok, of 100] by auto
qed

lemma heap_reachable_safe_witness:
  "\<exists>s. heap_reachable s {0x200010} \<and> owned s = {0x200010}"
proof -
  obtain s where s: "kmalloc 100 zero_heap = Some (0x200010, s)"
    using fresh_kmalloc_heap by blast
  have r: "heap_reachable s {0x200010}"
    using hr_kmalloc [OF zero_heap_reachable s] by simp
  have "{0x200010} = owned s" using heap_reachable_safe [OF r] by (rule conjunct1)
  with r show ?thesis by auto
qed

text \<open>C5: Which allocator calls return, in every reachable heap: \<open>kmalloc\<close> of any size, \<open>kfree\<close> of a held
  pointer or NULL and \<open>krealloc\<close> of a held pointer to at most 0xFFFFFFEC bytes always do. \<open>kcalloc\<close> does
  exactly when its product (modulo 2^32) is at most 0xFFFFFFEC or no block is left; above that the size
  wraps, a block of at most 47 bytes is taken and the clearing runs over the headers behind it.\<close>

theorem heap_calls_return:
  assumes "heap_reachable s H"
  shows "kmalloc n s \<noteq> None \<and> kfree 0 s \<noteq> None \<and>
    (kcalloc k n s = None \<longleftrightarrow> 0xFFFFFFEC < k * n \<and> kmalloc 1 s \<noteq> Some (0, s)) \<and>
    (\<forall>p\<in>H. kfree p s \<noteq> None \<and> (n \<le> 0xFFFFFFEC \<longrightarrow> krealloc p n s \<noteq> None))"
proof -
  from heap_reachable_inv [OF assms] have i: "heap_inv s" "H = owned s" by auto
  obtain p s1 where m: "kmalloc n s = Some (p, s1)" using kmalloc_law [OF i(1)] by blast
  have "kfree p s \<noteq> None" if "p \<in> H" for p using kfree_law [OF i(1)] that i(2) by fastforce
  moreover have "krealloc p n s \<noteq> None" if "p \<in> H" "n \<le> 0xFFFFFFEC" for p
    using krealloc_law [OF i(1) _ that(2)] that(1) i(2) by fastforce
  moreover have "kfree 0 s \<noteq> None" by (simp add: kfree_def)
  ultimately show ?thesis using m kcalloc_None_iff [OF i(1)] by simp
qed

lemma heap_calls_return_witness:
  "\<exists>s. heap_reachable s {0x200010} \<and> kmalloc 100 s \<noteq> None \<and> kcalloc 4 25 s \<noteq> None \<and>
     krealloc 0x200010 100 s \<noteq> None \<and> kcalloc 1 0xFFFFFFF0 s = None"
proof -
  obtain s where s: "kmalloc 100 zero_heap = Some (0x200010, s)"
    "heap_ok s [(0x200000, 116, False), (0x200074, 0x3FFF8C, True)]" using fresh_kmalloc_heap by blast
  have r: "heap_reachable s {0x200010}" using hr_kmalloc [OF zero_heap_reachable s(1)] by simp
  have "block_total 1 = 32" by (simp add: block_total_def align_size_def Let_def)
  then have "kmalloc 1 s \<noteq> Some (0, s)" using kmalloc_ok [OF s(2), of 1] by auto
  moreover have "kcalloc 4 25 s \<noteq> None" "kcalloc 1 0xFFFFFFF0 s = None \<longleftrightarrow> kmalloc 1 s \<noteq> Some (0, s)"
    using heap_calls_return [OF r, of 25 4] heap_calls_return [OF r, of "0xFFFFFFF0" 1] by auto
  moreover have "kmalloc 100 s \<noteq> None" "krealloc 0x200010 100 s \<noteq> None"
    using heap_calls_return [OF r, of 100 1] by auto
  ultimately show ?thesis using r by blast
qed

section \<open>Behaviour of each operation\<close>

text \<open>C6: First fit. \<open>kmalloc\<close> returns NULL and changes nothing exactly when no free block has the
  rounded size; otherwise it takes the lowest free block that fits, and the payload has room for the
  requested size.\<close>

theorem kmalloc_first_fit:
  assumes "heap_ok s bs" and "n \<noteq> 0" and "n \<le> 0xFFFFFFEC"
  shows "\<exists>p s'. kmalloc n s = Some (p, s') \<and>
    (if \<forall>x\<in>set bs. tfree x \<longrightarrow> tsize x < block_total n then p = 0 \<and> s' = s
     else \<exists>xs k ys bs'. bs = xs @ (p - 16, k, True) # ys \<and> block_total n \<le> k \<and>
       (\<forall>x\<in>set xs. tfree x \<longrightarrow> tsize x < block_total n) \<and>
       heap_ok s' bs' \<and> a_alloc (block_total n) bs = Some (p - 16, bs') \<and> unat n \<le> room s' p)"
proof (cases "a_alloc (block_total n) bs")
  case None
  then have "\<forall>x\<in>set bs. tfree x \<longrightarrow> tsize x < block_total n" by (simp add: a_alloc_None_iff not_le)
  then show ?thesis using kmalloc_ok [OF assms(1), of n] None assms(2) by simp
next
  case (Some r)
  then obtain b bs' where al: "a_alloc (block_total n) bs = Some (b, bs')" by (cases r) auto
  from kmalloc_ok [OF assms(1), of n] al assms(2) obtain s' where
    s': "kmalloc n s = Some (b + 16, s')" "heap_ok s' bs'" by auto
  have inv: "heap_inv s" using assms(1) by (auto simp: heap_inv_def)
  obtain k where k: "(b, k, True) \<in> set bs" "block_total n \<le> k" using a_alloc_mem [OF al] by blast
  then have nz: "b + 16 \<noteq> 0" using tile_in_heap(4) assms(1) by (auto simp: heap_ok_def)
  from k have nall: "\<not> (\<forall>x\<in>set bs. tfree x \<longrightarrow> tsize x < block_total n)" by force
  show ?thesis
    using s' a_alloc_first [OF al] nall al kmalloc_nonnull(4) [OF inv s'(1) nz assms(3)] by (auto simp: not_le)
qed

lemma kmalloc_first_fit_witness:
  "\<exists>p s'. kmalloc 100 zero_heap = Some (p, s') \<and> 100 \<le> room s' p"
  using kmalloc_first_fit [OF zero_heap_ok, of 100] by (auto simp: block_total_def align_size_def)

text \<open>C7: Allocating a block and freeing it again gives back the layout the heap had before, so the
  pair neither leaks nor fragments the heap.\<close>

theorem kmalloc_kfree_roundtrip:
  assumes "heap_ok s bs" and "kmalloc n s = Some (p, s')" and "p \<noteq> 0"
  shows "\<exists>s''. kfree p s' = Some s'' \<and> heap_ok s'' bs \<and> hbytes s'' = hbytes s"
proof -
  from kmalloc_ok [OF assms(1), of n] assms(2,3) obtain b bs' where
    b: "a_alloc (block_total n) bs = Some (b, bs')" "p = b + 16" "heap_ok s' bs'" "hbytes s' = hbytes s"
    by (auto split: option.splits if_splits)
  with kfree_restores [OF _ _ b(1) block_total_ge b(3)] assms(1) show ?thesis by (auto simp: heap_ok_def)
qed

lemma kmalloc_kfree_roundtrip_witness:
  "\<exists>s' s''. kmalloc 100 zero_heap = Some (0x200010, s') \<and> kfree 0x200010 s' = Some s'' \<and>
     heap_ok s'' [(HEAP_START, HEAP_SIZE, True)]"
proof -
  obtain s' where s': "kmalloc 100 zero_heap = Some (0x200010, s')" using fresh_kmalloc_heap by blast
  from kmalloc_kfree_roundtrip [OF zero_heap_ok s'] s' show ?thesis by auto
qed

text \<open>A double free is detected: after \<open>kfree p\<close> a second \<open>kfree p\<close> changes nothing.\<close>

theorem kfree_twice:
  assumes "heap_inv s" and "p \<in> owned s"
  shows "\<exists>s'. kfree p s = Some s' \<and> p \<notin> owned s' \<and> kfree p s' = Some s'"
proof -
  from assms obtain bs n where bs: "heap_ok s bs" "(p - 16, n) \<in> live bs" by (auto simp: owned_def)
  from kfree_live [OF this] obtain s' where s': "kfree p s = Some s'" "hb_is_free (hmem s' (p - 16)) = 1" by auto
  with kfree_law [OF assms] kfree_already_free [of s' "p - 16"] show ?thesis by auto
qed

lemma owned_fresh: "\<exists>s. kmalloc 100 zero_heap = Some (0x200010, s) \<and> heap_inv s \<and> owned s = {0x200010} \<and> room s 0x200010 = 100"
proof -
  obtain s where s: "kmalloc 100 zero_heap = Some (0x200010, s)"
    "heap_ok s [(0x200000, 116, False), (0x200074, 0x3FFF8C, True)]" using fresh_kmalloc_heap by blast
  have "owned s = {0x200010}"
    by (auto simp: owned_ok [OF s(2)] eq_diff_eq diff_eq_eq)
  moreover have "room s 0x200010 = 100" using room_ok [OF s(2), of "0x200010" 116] by simp
  ultimately show ?thesis using s by (auto simp: heap_inv_def)
qed

lemma kfree_twice_witness:
  "\<exists>s s'. owned s = {0x200010} \<and> kfree 0x200010 s = Some s' \<and> kfree 0x200010 s' = Some s'"
proof -
  obtain s where "heap_inv s" "owned s = {0x200010}" using owned_fresh by blast
  then show ?thesis using kfree_twice [of s "0x200010"] by auto
qed

text \<open>C8: \<open>krealloc\<close> of a held block to a larger size, in a heap of blocks \<open>bs\<close>. It returns NULL, and then
  changes nothing, exactly when no free block has the rounded new size. Otherwise it returns a new block,
  the one first fit gives, with room for the new size, which holds every byte of the old payload; the old
  block is given up and no byte of any other held block changes.\<close>

theorem krealloc_preserves:
  assumes "heap_ok s bs" and "p \<in> owned s" and "room s p < unat n" and "n \<le> 0xFFFFFFEC"
  shows "if \<forall>x\<in>set bs. tfree x \<longrightarrow> tsize x < block_total n then krealloc p n s = Some (0, s)
    else \<exists>q s' bs'. krealloc p n s = Some (q, s') \<and> q \<noteq> 0 \<and> q \<notin> owned s \<and>
      a_alloc (block_total n) bs = Some (q - 16, bs') \<and>
      heap_inv s' \<and> owned s' = insert q (owned s - {p}) \<and> unat n \<le> room s' q \<and>
      (\<forall>i < room s p. hbytes s' (q + of_nat i) = hbytes s (p + of_nat i)) \<and>
      (\<forall>r\<in>owned s - {p}. \<forall>x\<in>payload s r. hbytes s' x = hbytes s x)"
proof -
  have inv: "heap_inv s" using assms(1) by (auto simp: heap_inv_def)
  have nz: "n \<noteq> 0" using assms(3) by auto
  show ?thesis
  proof (cases "a_alloc (block_total n) bs")
    case None
    then have "kmalloc n s = Some (0, s)" using kmalloc_ok [OF assms(1), of n] nz by simp
    then show ?thesis using krealloc_grow [OF inv assms(2-4)] None by (simp add: a_alloc_None_iff not_le)
  next
    case (Some r)
    then obtain b bs' where al: "a_alloc (block_total n) bs = Some (b, bs')" by (cases r) auto
    then obtain s1 where m: "kmalloc n s = Some (b + 16, s1)" using kmalloc_ok [OF assms(1), of n] nz by auto
    obtain k where k: "(b, k, True) \<in> set bs" "block_total n \<le> k" using a_alloc_mem [OF al] by blast
    then have b: "b + 16 \<noteq> 0" using tile_in_heap(4) assms(1) by (auto simp: heap_ok_def)
    from k have some: "\<not> (\<forall>x\<in>set bs. tfree x \<longrightarrow> tsize x < block_total n)" by force
    have new: "b + 16 \<notin> owned s" by (rule kmalloc_nonnull(2) [OF inv m b])
    from krealloc_grow [OF inv assms(2-4) m] b obtain s' where
      "krealloc p n s = Some (b + 16, s')" "heap_inv s'" "owned s' = insert (b + 16) (owned s - {p})"
      "\<forall>i < room s p. hbytes s' (b + 16 + of_nat i) = hbytes s (p + of_nat i)"
      "\<forall>r\<in>owned s - {p}. \<forall>x\<in>payload s r. hbytes s' x = hbytes s x" "unat n \<le> room s' (b + 16)" by auto
    then show ?thesis unfolding if_not_P [OF some]
      by (intro exI [of _ "b + 16"] exI [of _ s'] exI [of _ bs']) (use b new al in simp)
  qed
qed

lemma krealloc_preserves_witness:
  "\<exists>s q s'. owned s = {0x200010} \<and> room s 0x200010 = 100 \<and> krealloc 0x200010 200 s = Some (q, s') \<and>
     q \<noteq> 0 \<and> q \<noteq> 0x200010 \<and> owned s' = {q} \<and> 200 \<le> room s' q \<and>
     (\<forall>i < 100. hbytes s' (q + of_nat i) = hbytes s (0x200010 + of_nat i))"
proof -
  obtain s where s: "kmalloc 100 zero_heap = Some (0x200010, s)" "heap_inv s" "owned s = {0x200010}"
    "room s 0x200010 = 100" using owned_fresh by blast
  obtain s1 where "kmalloc 100 zero_heap = Some (0x200010, s1)"
    "heap_ok s1 [(0x200000, 116, False), (0x200074, 0x3FFF8C, True)]" using fresh_kmalloc_heap by blast
  then have ok: "heap_ok s [(0x200000, 116, False), (0x200074, 0x3FFF8C, True)]" using s(1) by simp
  have "block_total 200 = 216" by (simp add: block_total_def align_size_def Let_def)
  with krealloc_preserves [OF ok, of "0x200010" 200] s show ?thesis by auto
qed

text \<open>\<open>kcalloc\<close> of at most 0xFFFFFFEC bytes returns NULL or a fresh block whose first \<open>num * size\<close> bytes
  (the product taken modulo 2^32, as the code computes it) are zero, and changes no held payload.\<close>

theorem kcalloc_zeroes:
  assumes "heap_inv s" and "num * n \<le> 0xFFFFFFEC"
  shows "\<exists>p s'. kcalloc num n s = Some (p, s') \<and> heap_inv s' \<and>
    (p = 0 \<and> s' = s \<or> p \<notin> owned s \<and> owned s' = insert p (owned s) \<and> unat (num * n) \<le> room s' p \<and>
       (\<forall>i < unat (num * n). hbytes s' (p + of_nat i) = 0) \<and>
       (\<forall>r\<in>owned s. \<forall>x\<in>payload s r. hbytes s' x = hbytes s x))"
proof -
  from kcalloc_eq [OF assms] obtain p s' where k: "kcalloc num n s = Some (p, s')" "p = 0 \<Longrightarrow> s' = s" by auto
  show ?thesis
  proof (cases "p = 0")
    case True
    then show ?thesis using k assms by simp
  next
    case False
    then show ?thesis using k(1) kcalloc_zeroed [OF assms(1) k(1) False] by blast
  qed
qed

lemma kcalloc_zeroes_witness:
  "heap_inv zero_heap \<and> kcalloc 4 25 zero_heap \<noteq> None"
proof -
  have inv: "heap_inv zero_heap" using zero_heap_ok by (auto simp: heap_inv_def)
  then show ?thesis using kcalloc_zeroes [OF inv, of 4 25] by auto
qed

section \<open>Statistics\<close>

lemma heap_walk_sum:
  "heap_rep (hmem s) a bs \<Longrightarrow> \<forall>x\<in>set bs. taddr x \<noteq> 0 \<Longrightarrow>
     heap_walk f s a acc = Some (acc + (\<Sum>x\<leftarrow>bs. f (hmem s (taddr x))))"
proof (induction "hmem s" a bs arbitrary: acc rule: heap_rep.induct)
  case (1 a)
  then show ?case by (simp add: heap_walk.simps)
next
  case (2 a b n g bs)
  then show ?case by (subst heap_walk.simps) (simp add: add.assoc)
qed

lemma heap_walk_ok:
  assumes "heap_ok s bs"
  shows "heap_walk f s (heap_head s) 0 = Some (\<Sum>x\<leftarrow>bs. f (hmem s (taddr x)))"
proof -
  have "\<forall>x\<in>set bs. taddr x \<noteq> 0"
    using assms tiles_nonzero [of "unat HEAP_START" bs "unat HEAP_END"] by (auto simp: heap_ok_def)
  then show ?thesis using heap_walk_sum [of s "heap_head s" bs f 0] assms by (simp add: heap_ok_def)
qed

lemma heap_rep_sizes:
  "heap_rep m a bs \<Longrightarrow> (\<Sum>x\<leftarrow>bs. if hb_is_free (m (taddr x)) = 0 then hb_size (m (taddr x)) else 0) +
     (\<Sum>x\<leftarrow>bs. if hb_is_free (m (taddr x)) \<noteq> 0 then hb_size (m (taddr x)) else 0) = (\<Sum>x\<leftarrow>bs. tsize x)"
  by (induction m a bs rule: heap_rep.induct) (auto simp: algebra_simps)

lemma tiles_word_sum: "tiles e bs E \<Longrightarrow> (\<Sum>x\<leftarrow>bs. tsize x) = of_nat E - of_nat e"
  by (induction e bs E rule: tiles.induct) (auto simp: algebra_simps)

text \<open>The statistics walks return, and used plus free bytes are the whole heap.\<close>

theorem heap_stats_conserve:
  assumes "heap_inv s"
  shows "\<exists>u f. heap_get_used_size s = Some u \<and> heap_get_free_size s = Some f \<and> u + f = heap_get_total_size s"
proof -
  from assms obtain bs where bs: "heap_ok s bs" by (auto simp: heap_inv_def)
  then show ?thesis
    using heap_rep_sizes [of "hmem s" "heap_head s" bs] tiles_word_sum [of "unat HEAP_START" bs "unat HEAP_END"]
    by (simp add: heap_get_used_size_def heap_get_free_size_def heap_walk_ok heap_get_total_size_def heap_ok_def)
qed

lemma heap_stats_conserve_witness:
  "heap_inv zero_heap \<and> (\<exists>u f. heap_get_used_size zero_heap = Some u \<and>
     heap_get_free_size zero_heap = Some f \<and> u + f = HEAP_SIZE)"
  using heap_stats_conserve [of zero_heap] zero_heap_ok by (auto simp: heap_inv_def heap_get_total_size_def)

end
