(* ===== verification/CString.thy ===== *)
theory CString
  imports Kernel_Prelude "HOL-Library.Signed_Division"
begin

text \<open>
  The string library of \<open>kernel/string.c\<close>. A \<open>char *\<close> into a buffer is the rest of that buffer as a
  list of bytes, so \<open>*p\<close> is the head, \<open>p++\<close> the tail, and a read or write past the end of the buffer
  is \<open>None\<close>. Functions that index their buffer (\<open>str_trim\<close>, \<open>str_split\<close>, \<open>itoa\<close>) keep the index.
  A C \<open>int\<close> is an \<open>int\<close> whose overflow, undefined in C, is \<open>None\<close>; a length counter cannot overflow,
  since memory has 16 MB. Range checks on \<open>char\<close> name both bounds below 128, so the signedness of
  \<open>char\<close> does not matter.
\<close>

text \<open>The bytes of a string literal.\<close>

definition lit :: "string \<Rightarrow> u8 list" where
  "lit s = map of_char s @ [0]"

section \<open>Length, comparison, copying\<close>

fun strlen_loop :: "u8 list \<Rightarrow> nat \<Rightarrow> nat option" where
  "strlen_loop [] len = None"
| "strlen_loop (c # str) len = (if c \<noteq> 0 then strlen_loop str (len + 1) else Some len)"

definition strlen :: "u8 list \<Rightarrow> nat option" where
  "strlen str = strlen_loop str 0"

fun strcmp :: "u8 list \<Rightarrow> u8 list \<Rightarrow> int option" where
  "strcmp (a # str1) (b # str2) =
     (if a \<noteq> 0 \<and> a = b then strcmp str1 str2 else Some (uint a - uint b))"
| "strcmp _ _ = None"

fun strncmp :: "u8 list \<Rightarrow> u8 list \<Rightarrow> int \<Rightarrow> int option" where
  "strncmp (a # str1) (b # str2) n =
     (if n > 0 \<and> a \<noteq> 0 \<and> a = b then strncmp str1 str2 (n - 1)
      else if n = 0 then Some 0 else Some (uint a - uint b))"
| "strncmp _ _ n = (if n = 0 then Some 0 else None)"

text \<open>The copying functions return the destination buffer after the call.\<close>

fun strcpy :: "u8 list \<Rightarrow> u8 list \<Rightarrow> u8 list option" where
  "strcpy (d # dest) (c # src) =
     (if c \<noteq> 0 then do { r \<leftarrow> strcpy dest src; Some (c # r) } else Some (0 # dest))"
| "strcpy _ _ = None"

fun zero_fill :: "u8 list \<Rightarrow> nat \<Rightarrow> u8 list option" where
  "zero_fill dest 0 = Some dest"
| "zero_fill [] (Suc n) = None"
| "zero_fill (d # dest) (Suc n) = do { r \<leftarrow> zero_fill dest n; Some (0 # r) }"

text \<open>The first loop stores the terminator, leaves without \<open>n--\<close>, and the second loop stores \<open>n\<close> more
  zeros. A negative \<open>n\<close> behaves as 0.\<close>

fun strncpy_loop :: "u8 list \<Rightarrow> u8 list \<Rightarrow> nat \<Rightarrow> u8 list option" where
  "strncpy_loop dest src 0 = Some dest"
| "strncpy_loop (d # dest) (c # src) (Suc n) =
     (if c \<noteq> 0 then do { r \<leftarrow> strncpy_loop dest src n; Some (c # r) }
      else do { r \<leftarrow> zero_fill dest (Suc n); Some (0 # r) })"
| "strncpy_loop _ _ (Suc n) = None"

definition strncpy :: "u8 list \<Rightarrow> u8 list \<Rightarrow> int \<Rightarrow> u8 list option" where
  "strncpy dest src n = strncpy_loop dest src (nat n)"

fun strcat :: "u8 list \<Rightarrow> u8 list \<Rightarrow> u8 list option" where
  "strcat [] src = None"
| "strcat (d # dest) src =
     (if d \<noteq> 0 then do { r \<leftarrow> strcat dest src; Some (d # r) } else strcpy (d # dest) src)"

text \<open>\<open>strchr\<close> returns the offset of the match, or NULL as the inner \<open>None\<close>.\<close>

fun strchr_loop :: "u8 list \<Rightarrow> u8 \<Rightarrow> nat \<Rightarrow> nat option option" where
  "strchr_loop [] c i = None"
| "strchr_loop (x # str) c i =
     (if x = 0 then Some None else if x = c then Some (Some i) else strchr_loop str c (i + 1))"

definition strchr :: "u8 list \<Rightarrow> u8 \<Rightarrow> nat option option" where
  "strchr str c = strchr_loop str c 0"

fun str_starts_with :: "u8 list \<Rightarrow> u8 list \<Rightarrow> bool option" where
  "str_starts_with str [] = None"
| "str_starts_with str (p # prefix) =
     (if p = 0 then Some True
      else case str of [] \<Rightarrow> None
           | x # str' \<Rightarrow> if x \<noteq> p then Some False else str_starts_with str' prefix)"

section \<open>Case conversion, trimming, splitting\<close>

definition is_ws :: "u8 \<Rightarrow> bool" where
  "is_ws c \<longleftrightarrow> c = 32 \<or> c = 9 \<or> c = 10 \<or> c = 13"

fun str_to_upper :: "u8 list \<Rightarrow> u8 list option" where
  "str_to_upper [] = None"
| "str_to_upper (c # str) =
     (if c = 0 then Some (c # str)
      else do { r \<leftarrow> str_to_upper str; Some ((if 97 \<le> c \<and> c \<le> 122 then c - 97 + 65 else c) # r) })"

fun str_to_lower :: "u8 list \<Rightarrow> u8 list option" where
  "str_to_lower [] = None"
| "str_to_lower (c # str) =
     (if c = 0 then Some (c # str)
      else do { r \<leftarrow> str_to_lower str; Some ((if 65 \<le> c \<and> c \<le> 90 then c - 65 + 97 else c) # r) })"

fun skip_ws :: "u8 list \<Rightarrow> nat \<Rightarrow> nat option" where
  "skip_ws [] start = None"
| "skip_ws (c # str) start = (if is_ws c then skip_ws str (start + 1) else Some start)"

text \<open>\<open>trim_end str start e\<close> is \<open>end + 1\<close> of the trailing loop; \<open>e\<close> starts at \<open>start + strlen start\<close>.\<close>

fun trim_end :: "u8 list \<Rightarrow> nat \<Rightarrow> nat \<Rightarrow> nat" where
  "trim_end str start 0 = 0"
| "trim_end str start (Suc e) = (if start < e \<and> is_ws (str ! e) then trim_end str start e else Suc e)"

fun copy_down :: "u8 list \<Rightarrow> nat \<Rightarrow> nat \<Rightarrow> nat \<Rightarrow> u8 list" where
  "copy_down str start i 0 = str"
| "copy_down str start i (Suc n) = copy_down (str[i := str ! (start + i)]) start (Suc i) n"

definition str_trim :: "u8 list \<Rightarrow> u8 list option" where
  "str_trim str =
     do { start \<leftarrow> skip_ws str 0;
          n \<leftarrow> strlen (drop start str);
          let e = trim_end str start (start + n);
              len = e - start;
              str' = (if start \<noteq> 0 then copy_down str start 0 len else str)
          in if len < length str' then Some (str'[len := 0]) else None }"

text \<open>\<open>str_split\<close> returns the token offsets in order and the buffer with the delimiters overwritten.\<close>

fun skip_while :: "(u8 \<Rightarrow> bool) \<Rightarrow> u8 list \<Rightarrow> nat \<Rightarrow> nat option" where
  "skip_while P [] i = None"
| "skip_while P (c # str) i = (if P c then skip_while P str (i + 1) else Some i)"

lemma skip_while_bounds:
  "skip_while P str i = Some j \<Longrightarrow> i \<le> j \<and> j < i + length str \<and> \<not> P (str ! (j - i))"
proof (induction P str i rule: skip_while.induct)
  case (2 P c str i)
  then show ?case
  proof (cases "P c")
    case True
    then have "Suc i \<le> j \<and> j < Suc i + length str \<and> \<not> P (str ! (j - Suc i))" using 2 by simp
    then show ?thesis by (simp add: nth_Cons')
  qed simp
qed simp

function str_split_loop :: "u8 list \<Rightarrow> u8 \<Rightarrow> nat \<Rightarrow> nat list \<Rightarrow> int \<Rightarrow> (nat list \<times> u8 list) option" where
  "str_split_loop str delim current tokens max_tokens =
     (if \<not> current < length str then None
      else if str ! current \<noteq> 0 \<and> int (length tokens) < max_tokens then
        (case skip_while (\<lambda>c. c = delim) (drop current str) current of
           None \<Rightarrow> None
         | Some b \<Rightarrow>
             if str ! b = 0 then Some (tokens, str)
             else (case skip_while (\<lambda>c. c \<noteq> 0 \<and> c \<noteq> delim) (drop b str) b of
                     None \<Rightarrow> None
                   | Some e \<Rightarrow>
                       if str ! e \<noteq> 0 then str_split_loop (str[e := 0]) delim (e + 1) (tokens @ [b]) max_tokens
                       else str_split_loop str delim e (tokens @ [b]) max_tokens))
      else Some (tokens, str))"
  by pat_completeness auto
termination
proof (relation "measure (\<lambda>(str, delim, current, tokens, m). 2 * (length str - current) + (if str ! current = 0 then 0 else 1))",
    goal_cases)
  case (2 str delim current tokens max_tokens b e)
  then show ?case
    using skip_while_bounds [OF "2"(3)] skip_while_bounds [OF "2"(5)] by auto
next
  case (3 str delim current tokens max_tokens b e)
  then show ?case
    using skip_while_bounds [OF "3"(3)] skip_while_bounds [OF "3"(5)] by auto
qed simp

definition str_split :: "u8 list \<Rightarrow> u8 \<Rightarrow> int \<Rightarrow> (nat list \<times> u8 list) option" where
  "str_split str delim max_tokens = str_split_loop str delim 0 [] max_tokens"

section \<open>Memory blocks\<close>

fun memset :: "u8 list \<Rightarrow> u8 \<Rightarrow> nat \<Rightarrow> u8 list option" where
  "memset p v 0 = Some p"
| "memset [] v (Suc n) = None"
| "memset (x # p) v (Suc n) = do { r \<leftarrow> memset p v n; Some (v # r) }"

fun memcpy :: "u8 list \<Rightarrow> u8 list \<Rightarrow> nat \<Rightarrow> u8 list option" where
  "memcpy d s 0 = Some d"
| "memcpy (x # d) (c # s) (Suc n) = do { r \<leftarrow> memcpy d s n; Some (c # r) }"
| "memcpy _ _ (Suc n) = None"

fun memcmp :: "u8 list \<Rightarrow> u8 list \<Rightarrow> nat \<Rightarrow> int option" where
  "memcmp p1 p2 0 = Some 0"
| "memcmp (a # p1) (b # p2) (Suc n) = (if a \<noteq> b then Some (uint a - uint b) else memcmp p1 p2 n)"
| "memcmp _ _ (Suc n) = None"

section \<open>Numbers\<close>

definition s32 :: "int \<Rightarrow> int option" where
  "s32 i = (if - 2147483648 \<le> i \<and> i \<le> 2147483647 then Some i else None)"

definition is_digit :: "u8 \<Rightarrow> bool" where
  "is_digit c \<longleftrightarrow> 48 \<le> c \<and> c \<le> 57"

fun skip_blank :: "u8 list \<Rightarrow> u8 list" where
  "skip_blank (c # str) = (if c = 32 \<or> c = 9 then skip_blank str else c # str)"
| "skip_blank [] = []"

fun atoi_digits :: "u8 list \<Rightarrow> int \<Rightarrow> int option" where
  "atoi_digits [] result = None"
| "atoi_digits (c # str) result =
     (if is_digit c
      then do { r10 \<leftarrow> s32 (result * 10); r \<leftarrow> s32 (r10 + (uint c - 48)); atoi_digits str r }
      else Some result)"

definition atoi :: "u8 list \<Rightarrow> int option" where
  "atoi str =
     (case skip_blank str of
        [] \<Rightarrow> None
      | c # rest \<Rightarrow>
          if c = 45 then do { r \<leftarrow> atoi_digits rest 0; s32 (r * - 1) }
          else if c = 43 then atoi_digits rest 0
          else atoi_digits (c # rest) 0)"

text \<open>The byte \<open>itoa\<close> stores for a digit: C's \<open>%\<close> truncates, so a negative value in a base other than 10
  has a negative digit; the conversion to \<open>char\<close> keeps the low byte.\<close>

definition digit_char :: "int \<Rightarrow> u8" where
  "digit_char d = (if d < 10 then word_of_int (d + 48) else word_of_int (d - 10 + 97))"

definition store :: "u8 list \<Rightarrow> nat \<Rightarrow> u8 \<Rightarrow> u8 list option" where
  "store buf i v = (if i < length buf then Some (buf[i := v]) else None)"

function itoa_loop :: "int \<Rightarrow> int \<Rightarrow> u8 list \<Rightarrow> nat \<Rightarrow> (u8 list \<times> nat) option" where
  "itoa_loop value base ptr i =
     (case store ptr i (digit_char (value smod base)) of
        None \<Rightarrow> None
      | Some ptr' \<Rightarrow>
          if value sdiv base > 0 then itoa_loop (value sdiv base) base ptr' (i + 1)
          else Some (ptr', i + 1))"
  by pat_completeness auto
termination
proof (relation "measure (\<lambda>(value, base, ptr, i). length ptr - i)", goal_cases)
  case 1
  then show ?case by simp
next
  case 2
  then show ?case by (auto simp: store_def split: if_splits)
qed

function reverse_loop :: "u8 list \<Rightarrow> nat \<Rightarrow> nat \<Rightarrow> u8 list" where
  "reverse_loop ptr start e =
     (if start < e then reverse_loop (ptr[start := ptr ! e, e := ptr ! start]) (start + 1) (e - 1) else ptr)"
  by pat_completeness auto
termination by (relation "measure (\<lambda>(ptr, start, e). e - start)") auto

definition itoa :: "int \<Rightarrow> u8 list \<Rightarrow> int \<Rightarrow> u8 list option" where
  "itoa value str base =
     (if base < 2 \<or> base > 36 then store str 0 0
      else do { let is_negative = (value < 0 \<and> base = 10);
                v \<leftarrow> (if is_negative then s32 (- value) else Some value);
                (ptr, i) \<leftarrow> itoa_loop v base str 0;
                (ptr, i) \<leftarrow> (if is_negative then do { p \<leftarrow> store ptr i 45; Some (p, i + 1) } else Some (ptr, i));
                ptr \<leftarrow> store ptr i 0;
                Some (reverse_loop ptr 0 (i - 1)) })"

section \<open>The C string in a buffer\<close>

definition cstr :: "u8 list \<Rightarrow> u8 list" where
  "cstr buf = takeWhile (\<lambda>c. c \<noteq> 0) buf"

lemma cstr_simps [simp]:
  "cstr [] = []" "cstr (c # buf) = (if c = 0 then [] else c # cstr buf)"
  by (simp_all add: cstr_def)

lemma cstr_append_nul [simp]: "0 \<notin> set xs \<Longrightarrow> cstr (xs @ 0 # ys) = xs"
  by (induction xs) auto

lemma cstr_no_nul [simp]: "0 \<notin> set (cstr buf)"
  by (auto simp: cstr_def dest: set_takeWhileD)

lemma terminated_split: "0 \<in> set buf \<Longrightarrow> \<exists>rest. buf = cstr buf @ 0 # rest"
  by (induction buf) auto

lemma strlen_loop_eq: "strlen_loop buf n = (if 0 \<in> set buf then Some (n + length (cstr buf)) else None)"
  by (induction buf n rule: strlen_loop.induct) auto

lemma strlen_eq: "strlen buf = (if 0 \<in> set buf then Some (length (cstr buf)) else None)"
  by (simp add: strlen_def strlen_loop_eq)

lemma strcmp_terminated:
  "0 \<in> set s \<Longrightarrow> 0 \<in> set t \<Longrightarrow> \<exists>d. strcmp s t = Some d \<and> (d = 0 \<longleftrightarrow> cstr s = cstr t) \<and>
     (d < 0 \<longleftrightarrow> ord_class.lexordp (cstr s) (cstr t))"
proof (induction s t rule: strcmp.induct)
  case (1 a s b t)
  show ?case
  proof (cases "a \<noteq> 0 \<and> a = b")
    case True
    then show ?thesis using 1 by auto
  next
    case False
    have lt: "uint a - uint b < 0 \<longleftrightarrow> a < b" by (simp add: word_less_def)
    have eq: "uint a - uint b = 0 \<longleftrightarrow> a = b" by (simp add: uint_word_of_int_eq word_uint_eq_iff)
    have "0 < b \<longleftrightarrow> b \<noteq> 0" by (simp add: word_neq_0_conv)
    then show ?thesis using False lt eq by auto
  qed
qed auto

lemma zero_fill_eq:
  "zero_fill dest n = (if n \<le> length dest then Some (replicate n 0 @ drop n dest) else None)"
  by (induction dest n rule: zero_fill.induct) auto

lemma strncpy_loop_eq:
  "0 \<in> set src \<Longrightarrow> strncpy_loop dest src n =
     (if n \<le> length (cstr src)
      then if n \<le> length dest then Some (take n (cstr src) @ drop n dest) else None
      else if n < length dest
      then Some (cstr src @ replicate (Suc n - length (cstr src)) 0 @ drop (Suc n) dest) else None)"
proof (induction dest src n rule: strncpy_loop.induct)
  case (2 d dest c src n)
  show ?case
  proof (cases "c = 0")
    case True
    then show ?thesis by (auto simp: zero_fill_eq)
  next
    case False
    then have "0 \<in> set src" using "2.prems" by auto
    then show ?thesis using "2.IH" False by auto
  qed
qed auto

section \<open>Decimal printing and reading\<close>

text \<open>The decimal digits of a number, least significant first, as \<open>itoa\<close> stores them.\<close>

fun rdigits :: "nat \<Rightarrow> u8 list" where
  "rdigits n = digit_char (int (n mod 10)) # (if n div 10 > 0 then rdigits (n div 10) else [])"

declare rdigits.simps [simp del]
declare reverse_loop.simps [simp del]
declare itoa_loop.simps [simp del]
declare str_split_loop.simps [simp del]

lemma rdigits_length: "n < 10 ^ Suc k \<Longrightarrow> length (rdigits n) \<le> Suc k"
proof (induction k arbitrary: n)
  case 0
  then show ?case by (simp add: rdigits.simps)
next
  case (Suc k)
  then have "n div 10 < 10 ^ Suc k" by (simp add: less_mult_imp_div_less mult.commute)
  then show ?case using Suc.IH by (subst rdigits.simps) simp
qed

lemma digit_char_uint: "0 \<le> d \<Longrightarrow> d < 10 \<Longrightarrow> uint (digit_char d) = d + 48"
  by (simp add: digit_char_def uint_word_of_int del: of_int_add)

lemma digit_char_digit: "0 \<le> d \<Longrightarrow> d < 10 \<Longrightarrow> is_digit (digit_char d)"
  by (simp add: is_digit_def word_le_def digit_char_uint)

lemma rdigits_digits: "c \<in> set (rdigits n) \<Longrightarrow> is_digit c"
proof (induction n rule: rdigits.induct)
  case (1 n)
  then show ?case using digit_char_digit [of "int (n mod 10)"] by (subst (asm) rdigits.simps) (auto split: if_splits)
qed

lemma is_digit_neq: "is_digit c \<Longrightarrow> c \<noteq> 0 \<and> c \<noteq> 32 \<and> c \<noteq> 9 \<and> c \<noteq> 45 \<and> c \<noteq> 43"
  by (auto simp: is_digit_def)

lemma itoa_loop_digits:
  "i + length (rdigits n) \<le> length ptr \<Longrightarrow>
     itoa_loop (int n) 10 ptr i =
       Some (take i ptr @ rdigits n @ drop (i + length (rdigits n)) ptr, i + length (rdigits n))"
proof (induction n arbitrary: ptr i rule: rdigits.induct)
  case (1 n)
  let ?p = "ptr[i := digit_char (int (n mod 10))]"
  have i: "i < length ptr" using "1.prems" by (subst (asm) rdigits.simps) simp
  have sd: "int n sdiv 10 = int (n div 10)" "int n smod 10 = int (n mod 10)"
    by (cases "n = 0"; simp add: signed_divide_int_def signed_modulo_int_def of_nat_div of_nat_mod
        minus_div_mult_eq_mod)+
  have upd: "take i ptr @ digit_char (int (n mod 10)) # drop (Suc i) ptr = ?p" using i by (simp add: upd_conv_take_nth_drop)
  show ?case
  proof (cases "n div 10 > 0")
    case True
    have r: "rdigits n = digit_char (int (n mod 10)) # rdigits (n div 10)" using True by (subst rdigits.simps) simp
    have "itoa_loop (int n) 10 ptr i = itoa_loop (int (n div 10)) 10 ?p (i + 1)"
      by (subst itoa_loop.simps) (use True i sd in \<open>simp add: store_def\<close>)
    also have "\<dots> = Some (take (i + 1) ?p @ rdigits (n div 10) @ drop (i + 1 + length (rdigits (n div 10))) ?p,
        i + 1 + length (rdigits (n div 10)))"
      using "1.IH" [OF True, of "i + 1" ?p] "1.prems" r by simp
    also have "take (i + 1) ?p = take i ptr @ [digit_char (int (n mod 10))]"
      using i by (simp add: take_Suc_conv_app_nth)
    finally show ?thesis using r by simp
  next
    case False
    have r: "rdigits n = [digit_char (int (n mod 10))]" using False by (subst rdigits.simps) simp
    have "itoa_loop (int n) 10 ptr i = Some (?p, i + 1)"
      by (subst itoa_loop.simps) (use False i sd in \<open>simp add: store_def\<close>)
    then show ?thesis using r upd by simp
  qed
qed

lemma reverse_loop_segment:
  "reverse_loop (a @ m @ c) (length a) (length a + length m - 1) = a @ rev m @ c"
proof (induction "length m" arbitrary: m a c rule: less_induct)
  case less
  show ?case
  proof (cases "length m < 2")
    case True
    then have "rev m = m" by (cases m) auto
    then show ?thesis using True by (subst reverse_loop.simps) auto
  next
    case False
    then obtain x m' where m1: "m = x # m'" "m' \<noteq> []" by (cases m) auto
    then obtain k y where m: "m = x # k @ [y]" by (metis rev_exhaust)
    have "reverse_loop (a @ m @ c) (length a) (length a + length m - 1)
        = reverse_loop ((a @ [y]) @ k @ (x # c)) (length (a @ [y])) (length (a @ [y]) + length k - 1)"
      by (subst reverse_loop.simps) (simp add: m nth_append list_update_append)
    also have "\<dots> = (a @ [y]) @ rev k @ (x # c)" by (rule less) (simp add: m)
    finally show ?thesis using m by simp
  qed
qed

lemma atoi_digits_rdigits:
  "n \<le> 2147483647 \<Longrightarrow> atoi_digits (rev (rdigits n) @ rest) 0 = atoi_digits rest (int n)"
proof (induction n arbitrary: rest rule: rdigits.induct)
  case (1 n)
  let ?d = "digit_char (int (n mod 10))"
  have d: "is_digit ?d" "uint ?d = int (n mod 10) + 48"
    by (auto intro: digit_char_digit digit_char_uint)
  have n: "int (n div 10) * 10 + int (n mod 10) = int n"
    using div_mult_mod_eq [of n 10] by (metis of_nat_add of_nat_mult of_nat_numeral)
  have last: "atoi_digits (?d # rest) (int (n div 10)) = atoi_digits rest (int n)"
    using d n "1.prems" by (simp add: s32_def)
  show ?case
  proof (cases "n div 10 > 0")
    case True
    then have "rdigits n = ?d # rdigits (n div 10)" by (subst rdigits.simps) simp
    then show ?thesis using "1.IH" [OF True, of "?d # rest"] "1.prems" last by simp
  next
    case False
    then have "rdigits n = [?d]" "n div 10 = 0" by (subst rdigits.simps, simp_all)
    then show ?thesis using last by simp
  qed
qed

lemma atoi_decimal:
  assumes "n \<le> 2147483647"
  shows "atoi (rev (rdigits n) @ 0 # rest) = Some (int n)"
    and "atoi (45 # rev (rdigits n) @ 0 # rest) = Some (- int n)"
proof -
  have nd: "\<not> is_digit 0" by (simp add: is_digit_def)
  have ne: "rev (rdigits n) \<noteq> []" by (subst rdigits.simps) simp
  then obtain c cs where c: "rev (rdigits n) = c # cs" by (cases "rev (rdigits n)") auto
  have "c \<in> set (rdigits n)" using c by (metis list.set_intros(1) set_rev)
  note cn = is_digit_neq [OF rdigits_digits [OF this]]
  have val: "atoi_digits (rev (rdigits n) @ 0 # rest) 0 = Some (int n)"
    using atoi_digits_rdigits [OF assms, of "0 # rest"] nd by simp
  then show "atoi (rev (rdigits n) @ 0 # rest) = Some (int n)"
    using c cn by (simp add: atoi_def)
  show "atoi (45 # rev (rdigits n) @ 0 # rest) = Some (- int n)"
    using val assms by (simp add: atoi_def s32_def)
qed

lemma itoa_decimal:
  assumes "\<bar>v\<bar> \<le> 2147483647" and "12 \<le> length buf"
  shows "\<exists>rest. itoa v buf 10 = Some ((if v < 0 then [45] else []) @ rev (rdigits (nat \<bar>v\<bar>)) @ 0 # rest)"
proof -
  let ?r = "rdigits (nat \<bar>v\<bar>)"
  have len: "length ?r \<le> 10" using rdigits_length [of "nat \<bar>v\<bar>" 9] assms(1) by simp
  have loop: "itoa_loop \<bar>v\<bar> 10 buf 0 = Some (?r @ drop (length ?r) buf, length ?r)"
    using itoa_loop_digits [of 0 "nat \<bar>v\<bar>" buf] len assms(2) by simp
  let ?d = "drop (length ?r) buf"
  have dl: "2 \<le> length ?d" using len assms(2) by simp
  then obtain x y d where d: "?d = x # y # d" by (metis One_nat_def Suc_1 length_Suc_conv Suc_le_length_iff)
  show ?thesis
  proof (cases "v < 0")
    case True
    have "itoa v buf 10 = Some (reverse_loop ([] @ (?r @ [45]) @ 0 # d) 0 (length ?r))"
      using True loop assms(1) d by (simp add: itoa_def s32_def store_def list_update_append)
    also have "\<dots> = Some (45 # rev ?r @ 0 # d)"
      using reverse_loop_segment [of "[]" "?r @ [45]" "0 # d"] by simp
    finally show ?thesis using True by auto
  next
    case False
    have "itoa v buf 10 = Some (reverse_loop ([] @ ?r @ 0 # y # d) 0 (length ?r - 1))"
      using False loop d by (simp add: itoa_def store_def list_update_append)
    also have "\<dots> = Some (rev ?r @ 0 # y # d)"
      using reverse_loop_segment [of "[]" ?r "0 # y # d"] by simp
    finally show ?thesis using False by auto
  qed
qed

section \<open>Properties\<close>

text \<open>On terminated buffers \<open>strcmp\<close> stays inside both buffers and its result is zero exactly for
  equal strings and negative exactly when the first string is lexicographically smaller.\<close>

theorem strcmp_orders:
  assumes "0 \<in> set s" and "0 \<in> set t"
  shows "\<exists>d. strcmp s t = Some d \<and> (d = 0 \<longleftrightarrow> cstr s = cstr t) \<and>
    (d < 0 \<longleftrightarrow> ord_class.lexordp (cstr s) (cstr t))"
  using strcmp_terminated [OF assms] by blast

lemma strcmp_orders_witness: "\<exists>d. strcmp [97, 98, 0] [97, 99, 0, 7] = Some d \<and> d < 0"
  using strcmp_orders [of "[97, 98, 0]" "[97, 99, 0, 7]"] by auto

text \<open>C9: \<open>strncpy\<close> with a source shorter than \<open>n\<close> stores \<open>n + 1\<close> bytes: into a destination of exactly
  \<open>n\<close> bytes it writes out of bounds, into a larger one it clears the byte after the \<open>n\<close>-th. With a
  source of at least \<open>n\<close> characters it stores exactly \<open>n\<close> and no terminator.\<close>

theorem strncpy_stores:
  assumes "0 \<in> set src"
  shows "strncpy dest src n =
    (if nat n \<le> length (cstr src)
     then if nat n \<le> length dest then Some (take (nat n) (cstr src) @ drop (nat n) dest) else None
     else if nat n < length dest
     then Some (cstr src @ replicate (Suc (nat n) - length (cstr src)) 0 @ drop (Suc (nat n)) dest) else None)"
  unfolding strncpy_def by (rule strncpy_loop_eq [OF assms])

lemma strncpy_stores_witness:
  "strncpy [1, 1, 1, 1] [104, 105, 0] 4 = None \<and> strncpy [1, 1, 1, 1, 1] [104, 105, 0] 4 = Some [104, 105, 0, 0, 0]"
  using strncpy_stores [of "[104, 105, 0]" "[1, 1, 1, 1]" 4] strncpy_stores [of "[104, 105, 0]" "[1, 1, 1, 1, 1]" 4]
  by (simp add: numeral_3_eq_3)

text \<open>C10: \<open>atoi\<close> reads back what \<open>itoa\<close> prints in base 10, for every \<open>int\<close> but the smallest, and the
  text fits a buffer of 12 bytes.\<close>

theorem itoa_atoi_roundtrip:
  assumes "- 2147483647 \<le> v" and "v \<le> 2147483647" and "12 \<le> length buf"
  shows "\<exists>r. itoa v buf 10 = Some r \<and> atoi r = Some v"
proof -
  from assms have "\<bar>v\<bar> \<le> 2147483647" "nat \<bar>v\<bar> \<le> 2147483647" by auto
  with itoa_decimal [OF this(1) assms(3)] atoi_decimal [OF this(2)] show ?thesis
    by (cases "v < 0") auto
qed

lemma itoa_atoi_roundtrip_witness: "\<exists>r. itoa (- 42) (replicate 12 0) 10 = Some r \<and> atoi r = Some (- 42)"
  using itoa_atoi_roundtrip [of "- 42" "replicate 12 0"] by simp

text \<open>\<open>itoa\<close> of the smallest \<open>int\<close> in base 10 negates it, a signed overflow, whatever the buffer.\<close>

theorem itoa_int_min_overflow: "itoa (- 2147483648) buf 10 = None"
  by (simp add: itoa_def s32_def)

end
