(* ===== verification/Ramdisk.thy ===== *)
theory Ramdisk
  imports Heap
begin

text \<open>
  The RAM disk of \<open>kernel/ramdisk.c\<close>: one megabyte taken from the kernel heap, read and written in
  512-byte blocks. \<open>rd_data\<close> is the pointer the heap returned and \<open>rd_bytes\<close> the payload it points to,
  by offset; that no other allocation touches this payload is \<open>Heap.heap_reachable_safe\<close>. Buffers of
  the callers are byte lists, NULL is \<open>None\<close>, and an access outside a buffer or outside the payload is
  the outer \<open>None\<close>.
\<close>

section \<open>State (ramdisk.h)\<close>

abbreviation RAMDISK_SIZE :: u32 where "RAMDISK_SIZE \<equiv> 1048576"
abbreviation RAMDISK_BLOCK_SIZE :: u32 where "RAMDISK_BLOCK_SIZE \<equiv> 512"
abbreviation RAMDISK_BLOCK_COUNT :: u32 where "RAMDISK_BLOCK_COUNT \<equiv> 2048"

record ramdisk_t =
  rd_data :: u32
  rd_bytes :: "nat \<Rightarrow> u8"
  rd_size :: u32
  rd_block_size :: u32
  rd_block_count :: u32
  rd_initialized :: u32

section \<open>Operations (ramdisk.c)\<close>

definition rd_memset :: "ramdisk_t \<Rightarrow> u8 \<Rightarrow> u32 \<Rightarrow> ramdisk_t option" where
  "rd_memset d v n =
     (if n \<le> RAMDISK_SIZE then Some (d\<lparr>rd_bytes := (\<lambda>i. if i < unat n then v else rd_bytes d i)\<rparr>) else None)"

definition ramdisk_init :: "ramdisk_t \<Rightarrow> heap_state \<Rightarrow> (ramdisk_t \<times> heap_state) option" where
  "ramdisk_init d h =
     do { (p, h') \<leftarrow> kmalloc RAMDISK_SIZE h;
          let d = d\<lparr>rd_data := p\<rparr>;
          if p = 0 then Some (d\<lparr>rd_initialized := 0\<rparr>, h')
          else do { d \<leftarrow> rd_memset (d\<lparr>rd_size := RAMDISK_SIZE, rd_block_size := RAMDISK_BLOCK_SIZE,
                                        rd_block_count := RAMDISK_BLOCK_COUNT, rd_initialized := 1\<rparr>)
                                    0 RAMDISK_SIZE;
                    Some (d, h') } }"

text \<open>The guards shared by both block operations, and the two copies.\<close>

definition rd_refuses :: "ramdisk_t \<Rightarrow> u32 \<Rightarrow> u8 list option \<Rightarrow> bool" where
  "rd_refuses d block_num buffer \<longleftrightarrow>
     rd_initialized d = 0 \<or> block_num \<ge> rd_block_count d \<or> buffer = None"

definition ramdisk_read_block :: "u32 \<Rightarrow> u8 list option \<Rightarrow> ramdisk_t \<Rightarrow> (int \<times> u8 list option) option" where
  "ramdisk_read_block block_num buffer d =
     (if rd_refuses d block_num buffer then Some (- 1, buffer)
      else
        let offset = unat (block_num * rd_block_size d); n = unat (rd_block_size d); buf = the buffer in
        if offset + n \<le> unat RAMDISK_SIZE \<and> n \<le> length buf
        then Some (0, Some (map (rd_bytes d) [offset..<offset + n] @ drop n buf))
        else None)"

definition ramdisk_write_block :: "u32 \<Rightarrow> u8 list option \<Rightarrow> ramdisk_t \<Rightarrow> (int \<times> ramdisk_t) option" where
  "ramdisk_write_block block_num buffer d =
     (if rd_refuses d block_num buffer then Some (- 1, d)
      else
        let offset = unat (block_num * rd_block_size d); n = unat (rd_block_size d); buf = the buffer in
        if offset + n \<le> unat RAMDISK_SIZE \<and> n \<le> length buf
        then Some (0, d\<lparr>rd_bytes := (\<lambda>i. if offset \<le> i \<and> i < offset + n then buf ! (i - offset) else rd_bytes d i)\<rparr>)
        else None)"

definition ramdisk_format :: "ramdisk_t \<Rightarrow> ramdisk_t option" where
  "ramdisk_format d = (if rd_initialized d = 0 then Some d else rd_memset d 0 (rd_size d))"

definition ramdisk_is_initialized :: "ramdisk_t \<Rightarrow> u32" where
  "ramdisk_is_initialized d = rd_initialized d"

section \<open>The disk as an array of blocks\<close>

definition rd_ok :: "ramdisk_t \<Rightarrow> bool" where
  "rd_ok d \<longleftrightarrow> rd_initialized d = 1 \<and> rd_size d = RAMDISK_SIZE \<and> rd_block_size d = RAMDISK_BLOCK_SIZE \<and>
     rd_block_count d = RAMDISK_BLOCK_COUNT"

definition blk :: "ramdisk_t \<Rightarrow> u32 \<Rightarrow> u8 list" where
  "blk d b = map (rd_bytes d) [unat b * 512..<unat b * 512 + 512]"

lemma length_blk [simp]: "length (blk d b) = 512"
  by (simp add: blk_def)

lemma unat_block_offset: "b < 2048 \<Longrightarrow> unat (b * 512 :: u32) = unat b * 512"
  by (simp add: unat_mult_u32 word_less_nat_alt)

lemma ramdisk_read_ok:
  assumes "rd_ok d" and "b < RAMDISK_BLOCK_COUNT" and "512 \<le> length buf"
  shows "ramdisk_read_block b (Some buf) d = Some (0, Some (blk d b @ drop 512 buf))"
  using assms by (simp add: ramdisk_read_block_def rd_refuses_def rd_ok_def blk_def Let_def unat_block_offset word_less_nat_alt word_le_nat_alt)

lemma ramdisk_write_ok:
  assumes "rd_ok d" and "b < RAMDISK_BLOCK_COUNT" and "length buf = 512"
  obtains d' where "ramdisk_write_block b (Some buf) d = Some (0, d')" and "rd_ok d'" and "blk d' b = buf"
    and "\<forall>c. c \<noteq> b \<longrightarrow> blk d' c = blk d c" and "rd_data d' = rd_data d"
proof -
  let ?d = "d\<lparr>rd_bytes := (\<lambda>i. if unat b * 512 \<le> i \<and> i < unat b * 512 + 512 then buf ! (i - unat b * 512)
      else rd_bytes d i)\<rparr>"
  have "ramdisk_write_block b (Some buf) d = Some (0, ?d)"
    using assms by (simp add: ramdisk_write_block_def rd_refuses_def rd_ok_def Let_def unat_block_offset word_less_nat_alt word_le_nat_alt)
  moreover have "blk ?d b = buf" using assms(3) by (auto simp: blk_def intro: nth_equalityI)
  moreover have "blk ?d c = blk d c" if "c \<noteq> b" for c
  proof -
    have "unat c \<noteq> unat b" using that by (simp add: word_unat_eq_iff)
    then have "\<not> (unat b * 512 \<le> i \<and> i < unat b * 512 + 512)" if "unat c * 512 \<le> i" "i < unat c * 512 + 512" for i
      using that by linarith
    then show ?thesis by (auto simp: blk_def)
  qed
  ultimately show ?thesis using that [of ?d] assms(1) by (simp add: rd_ok_def)
qed

section \<open>The block device interface\<close>

text \<open>
  What the file system relies on: inside the device a read returns the block and a write replaces
  exactly that block; outside it both report an error and change nothing.
\<close>

locale block_device =
  fixes read :: "u32 \<Rightarrow> u8 list option \<Rightarrow> 'd \<Rightarrow> (int \<times> u8 list option) option"
    and put :: "u32 \<Rightarrow> u8 list option \<Rightarrow> 'd \<Rightarrow> (int \<times> 'd) option"
    and ok :: "'d \<Rightarrow> bool"
    and content :: "'d \<Rightarrow> u32 \<Rightarrow> u8 list"
    and bsize :: nat
    and bcount :: u32
  assumes read_law: "ok d \<Longrightarrow> b < bcount \<Longrightarrow> bsize \<le> length buf \<Longrightarrow>
      read b (Some buf) d = Some (0, Some (content d b @ drop bsize buf))"
    and write_law: "ok d \<Longrightarrow> b < bcount \<Longrightarrow> length buf = bsize \<Longrightarrow> \<exists>d'. put b (Some buf) d = Some (0, d') \<and> ok d' \<and>
      content d' b = buf \<and> (\<forall>c. c \<noteq> b \<longrightarrow> content d' c = content d c)"
    and read_out: "ok d \<Longrightarrow> \<not> b < bcount \<Longrightarrow> read b buf' d = Some (- 1, buf')"
    and write_out: "ok d \<Longrightarrow> \<not> b < bcount \<Longrightarrow> put b buf' d = Some (- 1, d)"
    and content_length: "length (content d b) = bsize"
begin

lemma read_exact: "ok d \<Longrightarrow> b < bcount \<Longrightarrow> length buf = bsize \<Longrightarrow> read b (Some buf) d = Some (0, Some (content d b))"
  by (simp add: read_law)

lemma read_after_write:
  assumes "ok d" and "b < bcount" and "length buf = bsize" and "length x = bsize"
  shows "\<exists>d'. put b (Some buf) d = Some (0, d') \<and> read b (Some x) d' = Some (0, Some buf) \<and>
    (\<forall>c < bcount. c \<noteq> b \<longrightarrow> read c (Some x) d' = read c (Some x) d)"
  using write_law [OF assms(1-3)] assms(1,2,4) by (auto simp: read_exact)

lemma write_write:
  assumes "ok d" and "b < bcount" and "length x = bsize" and "length y = bsize"
    and "put b (Some x) d = Some (0, d1)" and "put b (Some y) d1 = Some (0, d2)"
  shows "\<forall>c. content d2 c = (if c = b then y else content d c)"
  using write_law [OF assms(1,2,3)] write_law [of d1 b y] assms by auto

end

interpretation rd: block_device ramdisk_read_block ramdisk_write_block rd_ok blk 512 RAMDISK_BLOCK_COUNT
proof (unfold_locales, goal_cases)
  case (1 d b buf)
  then show ?case by (rule ramdisk_read_ok)
next
  case (2 d b buf)
  from this obtain d' where "ramdisk_write_block b (Some buf) d = Some (0, d')" "rd_ok d'" "blk d' b = buf"
    "\<forall>c. c \<noteq> b \<longrightarrow> blk d' c = blk d c" by (rule ramdisk_write_ok)
  then show ?case by blast
next
  case (3 d b buf)
  then show ?case by (simp add: ramdisk_read_block_def rd_refuses_def rd_ok_def not_less)
next
  case (4 d b buf)
  then show ?case by (simp add: ramdisk_write_block_def rd_refuses_def rd_ok_def not_less)
next
  case (5 d b)
  show ?case by simp
qed

section \<open>Properties\<close>

text \<open>C11: On an initialised disk a block reads back as it was last written, and a write leaves every
  other block as it was.\<close>

theorem ramdisk_read_after_write:
  assumes "rd_ok d" and "b < RAMDISK_BLOCK_COUNT" and "length buf = 512" and "length x = 512"
  shows "\<exists>d'. ramdisk_write_block b (Some buf) d = Some (0, d') \<and>
    ramdisk_read_block b (Some x) d' = Some (0, Some buf) \<and>
    (\<forall>c < RAMDISK_BLOCK_COUNT. c \<noteq> b \<longrightarrow> ramdisk_read_block c (Some x) d' = ramdisk_read_block c (Some x) d)"
  by (rule rd.read_after_write [OF assms])

text \<open>\<open>ramdisk_init\<close> on a heap in order returns: it takes a block of the heap with room for the whole
  disk and gives a disk of zero blocks, or finds no memory, leaves the heap as it was and the disk
  uninitialised, so that every later access is refused with -1.\<close>

theorem ramdisk_init_establishes:
  assumes "heap_inv h"
  shows "\<exists>d' h'. ramdisk_init d h = Some (d', h') \<and> heap_inv h' \<and>
    (if rd_data d' = 0
     then h' = h \<and> (\<forall>b x. ramdisk_read_block b x d' = Some (- 1, x) \<and> ramdisk_write_block b x d' = Some (- 1, d'))
     else rd_ok d' \<and> rd_data d' \<notin> owned h \<and> owned h' = insert (rd_data d') (owned h) \<and>
       unat RAMDISK_SIZE \<le> room h' (rd_data d') \<and> (\<forall>b < RAMDISK_BLOCK_COUNT. blk d' b = replicate 512 0))"
proof -
  from kheap.alloc_law [OF assms, of RAMDISK_SIZE] obtain p h' where
    p: "kmalloc RAMDISK_SIZE h = Some (p, h')" "heap_inv h'" "p = 0 \<Longrightarrow> h' = h"
      "p \<noteq> 0 \<Longrightarrow> p \<notin> owned h \<and> owned h' = insert p (owned h) \<and> unat RAMDISK_SIZE \<le> room h' p"
    by (auto split: if_splits)
  have z: "map (\<lambda>i. 0) [unat b * 512..<unat b * 512 + 512] = replicate 512 (0 :: u8)" for b :: u32
    by (rule nth_equalityI) auto
  show ?thesis
  proof (cases "p = 0")
    case True
    then show ?thesis
      using p by (simp add: ramdisk_init_def ramdisk_read_block_def ramdisk_write_block_def rd_refuses_def)
  next
    case False
    let ?d = "d\<lparr>rd_data := p, rd_size := RAMDISK_SIZE, rd_block_size := RAMDISK_BLOCK_SIZE,
      rd_block_count := RAMDISK_BLOCK_COUNT, rd_initialized := 1,
      rd_bytes := (\<lambda>i. if i < 1048576 then 0 else rd_bytes d i)\<rparr>"
    have "blk d' b = replicate 512 0" if "\<forall>i < 1048576. rd_bytes d' i = 0" "b < RAMDISK_BLOCK_COUNT" for d' b
      unfolding blk_def z [of b, symmetric] using that by (auto simp: word_less_nat_alt)
    then have z2: "\<forall>b < RAMDISK_BLOCK_COUNT. blk ?d b = replicate 512 0" by simp
    have "ramdisk_init d h = Some (?d, h')" using False p(1) by (simp add: ramdisk_init_def rd_memset_def Let_def cong: if_cong)
    moreover have "rd_ok ?d" "rd_data ?d = p" by (simp_all add: rd_ok_def)
    ultimately show ?thesis using False p(2,4) z2 by auto
  qed
qed

definition zero_disk :: ramdisk_t where
  "zero_disk = \<lparr>rd_data = 0, rd_bytes = (\<lambda>_. 0), rd_size = 0, rd_block_size = 0, rd_block_count = 0, rd_initialized = 0\<rparr>"

lemma zero_heap_inv: "heap_inv zero_heap"
  using zero_heap_ok by (auto simp: heap_inv_def)

lemma ramdisk_init_establishes_witness: "heap_inv zero_heap \<and> ramdisk_init zero_disk zero_heap \<noteq> None"
  using ramdisk_init_establishes [OF zero_heap_inv, of zero_disk] zero_heap_inv by auto

lemma ramdisk_read_after_write_witness:
  "\<exists>d d'. rd_ok d \<and> ramdisk_write_block 5 (Some (replicate 512 7)) d = Some (0, d') \<and>
     ramdisk_read_block 5 (Some (replicate 512 0)) d' = Some (0, Some (replicate 512 7))"
proof -
  let ?d = "zero_disk\<lparr>rd_size := RAMDISK_SIZE, rd_block_size := RAMDISK_BLOCK_SIZE,
    rd_block_count := RAMDISK_BLOCK_COUNT, rd_initialized := 1\<rparr>"
  have "rd_ok ?d" by (simp add: rd_ok_def)
  then show ?thesis
    using ramdisk_read_after_write [of ?d 5 "replicate 512 7" "replicate 512 0"] by auto
qed

end
