(* ===== verification/Fs.thy ===== *)
theory Fs
  imports CString Ramdisk
begin

text \<open>
  WitFS, the file system of \<open>kernel/fs.c\<close>, operation by operation. The state holds the global
  variables of the file together with the components it calls: the kernel heap, the RAM disk and the
  timer's tick count. A buffer obtained from \<open>kmalloc\<close> is a byte list of its own (the heap theory shows
  that payloads do not overlap): fresh contents are whatever the heap holds there, and the contents
  of a freed bitmap are the empty list, so that every later access through the dangling pointer is
  out of bounds. The on-disk structures are encoded byte by byte, little-endian and packed.

  \<open>None\<close> is an access outside a buffer (or an allocator call that does not return); the -1 of the code
  is \<open>-1\<close>, or \<open>None\<close> inside the result where the function also returns a value. A NULL path is \<open>None\<close>.
\<close>

section \<open>Layout and records (fs.h)\<close>

abbreviation FS_MAGIC :: u32 where "FS_MAGIC \<equiv> 0x57495443"
abbreviation FS_BLOCK_SIZE :: u32 where "FS_BLOCK_SIZE \<equiv> 512"
abbreviation FS_SUPERBLOCK_BLOCK :: u32 where "FS_SUPERBLOCK_BLOCK \<equiv> 0"
abbreviation FS_INODE_BITMAP_BLOCK :: u32 where "FS_INODE_BITMAP_BLOCK \<equiv> 1"
abbreviation FS_DATA_BITMAP_BLOCK :: u32 where "FS_DATA_BITMAP_BLOCK \<equiv> 2"
abbreviation FS_INODE_TABLE_BLOCK :: u32 where "FS_INODE_TABLE_BLOCK \<equiv> 3"
abbreviation FS_DATA_BLOCKS_START :: u32 where "FS_DATA_BLOCKS_START \<equiv> 67"
abbreviation FS_MAX_INODES :: u32 where "FS_MAX_INODES \<equiv> 512"
abbreviation FS_MAX_DATA_BLOCKS :: u32 where "FS_MAX_DATA_BLOCKS \<equiv> 1981"
abbreviation FS_MAX_FILENAME :: nat where "FS_MAX_FILENAME \<equiv> 27"
abbreviation FS_DIRECT_BLOCKS :: nat where "FS_DIRECT_BLOCKS \<equiv> 10"
abbreviation FS_TYPE_FILE :: u32 where "FS_TYPE_FILE \<equiv> 1"
abbreviation FS_TYPE_DIR :: u32 where "FS_TYPE_DIR \<equiv> 2"
abbreviation FS_PERM_READ :: u32 where "FS_PERM_READ \<equiv> 4"
abbreviation FS_PERM_WRITE :: u32 where "FS_PERM_WRITE \<equiv> 2"
abbreviation FS_PERM_DEFAULT :: u32 where "FS_PERM_DEFAULT \<equiv> 6"
abbreviation FS_MAX_OPEN_FILES :: nat where "FS_MAX_OPEN_FILES \<equiv> 16"
abbreviation FS_OPEN_READ :: u32 where "FS_OPEN_READ \<equiv> 1"
abbreviation FS_OPEN_WRITE :: u32 where "FS_OPEN_WRITE \<equiv> 2"
abbreviation FS_OPEN_CREATE :: u32 where "FS_OPEN_CREATE \<equiv> 4"
abbreviation NO_BIT :: u32 where "NO_BIT \<equiv> 0xFFFFFFFF" \<comment> \<open>\<open>(uint32_t)-1\<close>\<close>

record fs_superblock_t =
  sb_magic :: u32
  sb_version :: u32
  sb_block_size :: u32
  sb_total_blocks :: u32
  sb_inode_bitmap_block :: u32
  sb_data_bitmap_block :: u32
  sb_inode_table_block :: u32
  sb_data_blocks_start :: u32
  sb_total_inodes :: u32
  sb_total_data_blocks :: u32
  sb_free_inodes :: u32
  sb_free_blocks :: u32
  sb_root_inode :: u32
  sb_reserved :: "u8 list"

record fs_inode_t =
  i_mode :: u32
  i_size :: u32
  i_uid :: u32
  i_gid :: u32
  i_created :: u32
  i_modified :: u32
  i_blocks :: "u32 list"
  i_reserved :: "u32 list"

record fs_file_t =
  f_inode :: u32
  f_position :: u32
  f_flags :: u32
  f_in_use :: u8

record fs_state =
  fs_heap :: heap_state
  fs_disk :: ramdisk_t
  ticks :: u32
  superblock :: fs_superblock_t
  inode_bitmap_ptr :: u32
  inode_bitmap :: "u8 list"
  data_bitmap_ptr :: u32
  data_bitmap :: "u8 list"
  open_files :: "fs_file_t list"
  fs_initialized :: u8

section \<open>Packed encodings\<close>

definition le32 :: "u32 \<Rightarrow> u8 list" where
  "le32 w = [ucast w, ucast (drop_bit 8 w), ucast (drop_bit 16 w), ucast (drop_bit 24 w)]"

definition get32 :: "u8 list \<Rightarrow> nat \<Rightarrow> u32" where
  "get32 bs off = ucast (bs ! off) OR push_bit 8 (ucast (bs ! (off + 1))) OR
     push_bit 16 (ucast (bs ! (off + 2))) OR push_bit 24 (ucast (bs ! (off + 3)))"

text \<open>\<open>splice\<close> is a copy of whole fields into a buffer, with its bounds check.\<close>

definition splice :: "u8 list \<Rightarrow> nat \<Rightarrow> u8 list \<Rightarrow> u8 list option" where
  "splice buf off new =
     (if off + length new \<le> length buf then Some (take off buf @ new @ drop (off + length new) buf) else None)"

definition encode_inode :: "fs_inode_t \<Rightarrow> u8 list" where
  "encode_inode i = concat (map le32
     ([i_mode i, i_size i, i_uid i, i_gid i, i_created i, i_modified i] @ i_blocks i @ i_reserved i))"

definition decode_inode :: "u8 list \<Rightarrow> fs_inode_t" where
  "decode_inode bs = \<lparr>i_mode = get32 bs 0, i_size = get32 bs 4, i_uid = get32 bs 8, i_gid = get32 bs 12,
     i_created = get32 bs 16, i_modified = get32 bs 20,
     i_blocks = map (\<lambda>k. get32 bs (24 + 4 * k)) [0..<10], i_reserved = map (\<lambda>k. get32 bs (64 + 4 * k)) [0..<4]\<rparr>"

definition sb_words :: "fs_superblock_t \<Rightarrow> u32 list" where
  "sb_words b = [sb_magic b, sb_version b, sb_block_size b, sb_total_blocks b, sb_inode_bitmap_block b,
     sb_data_bitmap_block b, sb_inode_table_block b, sb_data_blocks_start b, sb_total_inodes b,
     sb_total_data_blocks b, sb_free_inodes b, sb_free_blocks b, sb_root_inode b]"

definition encode_superblock :: "fs_superblock_t \<Rightarrow> u8 list" where
  "encode_superblock b = concat (map le32 (sb_words b)) @ sb_reserved b"

definition decode_superblock :: "u8 list \<Rightarrow> fs_superblock_t" where
  "decode_superblock bs = \<lparr>sb_magic = get32 bs 0, sb_version = get32 bs 4, sb_block_size = get32 bs 8,
     sb_total_blocks = get32 bs 12, sb_inode_bitmap_block = get32 bs 16, sb_data_bitmap_block = get32 bs 20,
     sb_inode_table_block = get32 bs 24, sb_data_blocks_start = get32 bs 28, sb_total_inodes = get32 bs 32,
     sb_total_data_blocks = get32 bs 36, sb_free_inodes = get32 bs 40, sb_free_blocks = get32 bs 44,
     sb_root_inode = get32 bs 48, sb_reserved = take 460 (drop 52 bs)\<rparr>"

text \<open>Directory entries inside a block: the inode field, and the pointer to the name.\<close>

definition de_inode :: "u8 list \<Rightarrow> nat \<Rightarrow> u32" where
  "de_inode data i = get32 data (32 * i)"

definition de_name :: "u8 list \<Rightarrow> nat \<Rightarrow> u8 list" where
  "de_name data i = drop (32 * i + 4) data"

section \<open>Bitmaps\<close>

definition bitmap_set :: "u8 list \<Rightarrow> nat \<Rightarrow> u8 list option" where
  "bitmap_set bm k =
     (if k div 8 < length bm then Some (bm[k div 8 := (bm ! (k div 8)) OR push_bit (k mod 8) 1]) else None)"

definition bitmap_clear :: "u8 list \<Rightarrow> nat \<Rightarrow> u8 list option" where
  "bitmap_clear bm k =
     (if k div 8 < length bm
      then Some (bm[k div 8 := (bm ! (k div 8)) AND NOT (push_bit (k mod 8) 1)]) else None)"

definition bitmap_test :: "u8 list \<Rightarrow> nat \<Rightarrow> bool option" where
  "bitmap_test bm k =
     (if k div 8 < length bm then Some ((bm ! (k div 8)) AND push_bit (k mod 8) 1 \<noteq> 0) else None)"

fun bitmap_find_from :: "u8 list \<Rightarrow> nat \<Rightarrow> nat \<Rightarrow> u32 option" where
  "bitmap_find_from bm i 0 = Some NO_BIT"
| "bitmap_find_from bm i (Suc n) =
     do { t \<leftarrow> bitmap_test bm i; if \<not> t then Some (of_nat i) else bitmap_find_from bm (Suc i) n }"

definition bitmap_find_free :: "u8 list \<Rightarrow> u32 \<Rightarrow> u32 option" where
  "bitmap_find_free bm max_bits = bitmap_find_from bm 0 (unat max_bits)"

section \<open>Calls to the heap and the disk\<close>

definition fs_kmalloc :: "fs_state \<Rightarrow> (u32 \<times> fs_state) option" where
  "fs_kmalloc s = do { (p, h) \<leftarrow> kmalloc FS_BLOCK_SIZE (fs_heap s); Some (p, s\<lparr>fs_heap := h\<rparr>) }"

definition fs_kfree :: "u32 \<Rightarrow> fs_state \<Rightarrow> fs_state option" where
  "fs_kfree p s = do { h \<leftarrow> kfree p (fs_heap s); Some (s\<lparr>fs_heap := h\<rparr>) }"

definition fresh :: "fs_state \<Rightarrow> u32 \<Rightarrow> u8 list" where
  "fresh s p = map (\<lambda>i. hbytes (fs_heap s) (p + of_nat i)) [0..<512]"

text \<open>The block calls as \<open>fs.c\<close> makes them: the status is ignored, so a refused read leaves the buffer.\<close>

definition read_block :: "fs_state \<Rightarrow> u32 \<Rightarrow> u8 list \<Rightarrow> u8 list option" where
  "read_block s b buf = do { (rc, r) \<leftarrow> ramdisk_read_block b (Some buf) (fs_disk s); r }"

definition write_block :: "u32 \<Rightarrow> u8 list \<Rightarrow> fs_state \<Rightarrow> fs_state option" where
  "write_block b buf s = do { (rc, d) \<leftarrow> ramdisk_write_block b (Some buf) (fs_disk s); Some (s\<lparr>fs_disk := d\<rparr>) }"

section \<open>Inodes and free maps\<close>

text \<open>\<open>sizeof(fs_inode_t)\<close> is 80: six words, ten block numbers and four reserved words, packed.\<close>

abbreviation SIZEOF_INODE :: u32 where "SIZEOF_INODE \<equiv> 80"

definition inodes_per_block :: u32 where
  "inodes_per_block = FS_BLOCK_SIZE div SIZEOF_INODE"

definition inode_block :: "u32 \<Rightarrow> u32" where
  "inode_block inode_num = FS_INODE_TABLE_BLOCK + inode_num div inodes_per_block"

definition inode_offset :: "u32 \<Rightarrow> u32" where
  "inode_offset inode_num = (inode_num mod inodes_per_block) * SIZEOF_INODE"

definition read_inode :: "u32 \<Rightarrow> fs_state \<Rightarrow> (fs_inode_t option \<times> fs_state) option" where
  "read_inode inode_num s =
     (if inode_num \<ge> FS_MAX_INODES then Some (None, s)
      else do { (p, s) \<leftarrow> fs_kmalloc s;
                if p = 0 then Some (None, s)
                else do { temp \<leftarrow> read_block s (inode_block inode_num) (fresh s p);
                          s \<leftarrow> fs_kfree p s;
                          Some (Some (decode_inode (drop (unat (inode_offset inode_num)) temp)), s) } })"

definition write_inode :: "u32 \<Rightarrow> fs_inode_t \<Rightarrow> fs_state \<Rightarrow> (int \<times> fs_state) option" where
  "write_inode inode_num inode s =
     (if inode_num \<ge> FS_MAX_INODES then Some (- 1, s)
      else do { (p, s) \<leftarrow> fs_kmalloc s;
                if p = 0 then Some (- 1, s)
                else do { temp \<leftarrow> read_block s (inode_block inode_num) (fresh s p);
                          temp \<leftarrow> splice temp (unat (inode_offset inode_num)) (encode_inode inode);
                          s \<leftarrow> write_block (inode_block inode_num) temp s;
                          s \<leftarrow> fs_kfree p s;
                          Some (0, s) } })"

definition alloc_inode :: "fs_state \<Rightarrow> (u32 \<times> fs_state) option" where
  "alloc_inode s =
     do { inode \<leftarrow> bitmap_find_free (inode_bitmap s) FS_MAX_INODES;
          if inode \<noteq> NO_BIT
          then do { bm \<leftarrow> bitmap_set (inode_bitmap s) (unat inode);
                    s \<leftarrow> write_block FS_INODE_BITMAP_BLOCK bm
                          (s\<lparr>inode_bitmap := bm,
                             superblock := (superblock s)\<lparr>sb_free_inodes := sb_free_inodes (superblock s) - 1\<rparr>\<rparr>);
                    Some (inode, s) }
          else Some (inode, s) }"

definition free_inode :: "u32 \<Rightarrow> fs_state \<Rightarrow> fs_state option" where
  "free_inode inode_num s =
     do { bm \<leftarrow> bitmap_clear (inode_bitmap s) (unat inode_num);
          write_block FS_INODE_BITMAP_BLOCK bm
            (s\<lparr>inode_bitmap := bm,
               superblock := (superblock s)\<lparr>sb_free_inodes := sb_free_inodes (superblock s) + 1\<rparr>\<rparr>) }"

definition alloc_data_block :: "fs_state \<Rightarrow> (u32 \<times> fs_state) option" where
  "alloc_data_block s =
     do { block \<leftarrow> bitmap_find_free (data_bitmap s) FS_MAX_DATA_BLOCKS;
          if block \<noteq> NO_BIT
          then do { bm \<leftarrow> bitmap_set (data_bitmap s) (unat block);
                    s \<leftarrow> write_block FS_DATA_BITMAP_BLOCK bm
                          (s\<lparr>data_bitmap := bm,
                             superblock := (superblock s)\<lparr>sb_free_blocks := sb_free_blocks (superblock s) - 1\<rparr>\<rparr>);
                    Some (block, s) }
          else Some (block, s) }"

definition free_data_block :: "u32 \<Rightarrow> fs_state \<Rightarrow> fs_state option" where
  "free_data_block block_num s =
     do { bm \<leftarrow> bitmap_clear (data_bitmap s) (unat block_num);
          write_block FS_DATA_BITMAP_BLOCK bm
            (s\<lparr>data_bitmap := bm,
               superblock := (superblock s)\<lparr>sb_free_blocks := sb_free_blocks (superblock s) + 1\<rparr>\<rparr>) }"

section \<open>Directories\<close>

definition skip_slash :: "u8 list \<Rightarrow> u8 list option" where
  "skip_slash path = (case path of [] \<Rightarrow> None | c # rest \<Rightarrow> Some (if c = 47 then rest else path))"

fun find_entry :: "u8 list \<Rightarrow> u8 list \<Rightarrow> nat list \<Rightarrow> nat option option" where
  "find_entry data name [] = Some None"
| "find_entry data name (i # is) =
     (if de_inode data i \<noteq> 0
      then do { c \<leftarrow> strcmp (de_name data i) name; if c = 0 then Some (Some i) else find_entry data name is }
      else find_entry data name is)"

text \<open>The loop over the direct blocks stops at the first zero block number.\<close>

fun lookup_blocks :: "fs_state \<Rightarrow> u8 list \<Rightarrow> u32 list \<Rightarrow> u8 list \<Rightarrow> u32 option option" where
  "lookup_blocks s name [] data = Some None"
| "lookup_blocks s name (b # bs) data =
     (if b = 0 then Some None
      else do { data \<leftarrow> read_block s (FS_DATA_BLOCKS_START + b) data;
                r \<leftarrow> find_entry data name [0..<16];
                case r of Some i \<Rightarrow> Some (Some (de_inode data i)) | None \<Rightarrow> lookup_blocks s name bs data })"

definition path_lookup :: "u8 list option \<Rightarrow> fs_state \<Rightarrow> (u32 option \<times> fs_state) option" where
  "path_lookup path s =
     (case path of None \<Rightarrow> Some (None, s)
      | Some path \<Rightarrow>
          do { name \<leftarrow> skip_slash path;
               if name = [] then None
               else if hd name = 0 then Some (Some 0, s)
               else do { (root, s) \<leftarrow> read_inode 0 s;
                         case root of None \<Rightarrow> Some (None, s)
                         | Some root \<Rightarrow>
                             if i_mode root AND FS_TYPE_DIR = 0 then Some (None, s)
                             else do { (p, s) \<leftarrow> fs_kmalloc s;
                                       if p = 0 then Some (None, s)
                                       else do { r \<leftarrow> lookup_blocks s name (i_blocks root) (fresh s p);
                                                 s \<leftarrow> fs_kfree p s;
                                                 Some (r, s) } } } })"

text \<open>Storing an entry: the inode number, then \<open>strncpy\<close> of at most 27 bytes, then the terminator.\<close>

definition put_entry :: "u8 list \<Rightarrow> nat \<Rightarrow> u8 list \<Rightarrow> u32 \<Rightarrow> u8 list option" where
  "put_entry data i name inode =
     do { data \<leftarrow> splice data (32 * i) (le32 inode);
          field \<leftarrow> strncpy (de_name data i) name (int FS_MAX_FILENAME);
          let data = take (32 * i + 4) data @ field;
          store data (32 * i + 4 + FS_MAX_FILENAME) 0 }"

fun dir_add_loop :: "u32 \<Rightarrow> u8 list \<Rightarrow> u32 \<Rightarrow> nat list \<Rightarrow> fs_inode_t \<Rightarrow> u8 list \<Rightarrow> fs_state \<Rightarrow> (int \<times> fs_state) option" where
  "dir_add_loop dir_inode_num name inode [] dir_inode data s = Some (- 1, s)"
| "dir_add_loop dir_inode_num name inode (idx # rest) dir_inode data s =
     do { (full, dir_inode, data, s) \<leftarrow>
            (if i_blocks dir_inode ! idx = 0
             then do { (new_block, s) \<leftarrow> alloc_data_block s;
                       if new_block = NO_BIT then Some (True, dir_inode, data, s)
                       else do { data \<leftarrow> memset data 0 512;
                                 Some (False, dir_inode\<lparr>i_blocks := (i_blocks dir_inode)[idx := new_block]\<rparr>, data, s) } }
             else do { data \<leftarrow> read_block s (FS_DATA_BLOCKS_START + i_blocks dir_inode ! idx) data;
                       Some (False, dir_inode, data, s) });
          if full then Some (- 1, s)
          else case List.find (\<lambda>i. de_inode data i = 0) [0..<16] of
                 None \<Rightarrow> dir_add_loop dir_inode_num name inode rest dir_inode data s
               | Some i \<Rightarrow>
                   do { data \<leftarrow> put_entry data i name inode;
                        s \<leftarrow> write_block (FS_DATA_BLOCKS_START + i_blocks dir_inode ! idx) data s;
                        (rc, s) \<leftarrow> write_inode dir_inode_num
                          (dir_inode\<lparr>i_size := i_size dir_inode + 32, i_modified := ticks s\<rparr>) s;
                        Some (0, s) } }"

definition dir_add_entry :: "u32 \<Rightarrow> u8 list \<Rightarrow> u32 \<Rightarrow> fs_state \<Rightarrow> (int \<times> fs_state) option" where
  "dir_add_entry dir_inode_num name inode s =
     do { (dir, s) \<leftarrow> read_inode dir_inode_num s;
          case dir of None \<Rightarrow> Some (- 1, s)
          | Some dir_inode \<Rightarrow>
              if i_mode dir_inode AND FS_TYPE_DIR = 0 then Some (- 1, s)
              else do { (p, s) \<leftarrow> fs_kmalloc s;
                        if p = 0 then Some (- 1, s)
                        else do { (rc, s) \<leftarrow> dir_add_loop dir_inode_num name inode [0..<FS_DIRECT_BLOCKS] dir_inode (fresh s p) s;
                                  s \<leftarrow> fs_kfree p s;
                                  Some (rc, s) } } }"

fun dir_remove_loop :: "u32 \<Rightarrow> u8 list \<Rightarrow> u32 list \<Rightarrow> fs_inode_t \<Rightarrow> u8 list \<Rightarrow> fs_state \<Rightarrow> (int \<times> fs_state) option" where
  "dir_remove_loop dir_inode_num name [] dir_inode data s = Some (- 1, s)"
| "dir_remove_loop dir_inode_num name (b # bs) dir_inode data s =
     (if b = 0 then Some (- 1, s)
      else do { data \<leftarrow> read_block s (FS_DATA_BLOCKS_START + b) data;
                r \<leftarrow> find_entry data name [0..<16];
                case r of
                  None \<Rightarrow> dir_remove_loop dir_inode_num name bs dir_inode data s
                | Some i \<Rightarrow>
                    do { data \<leftarrow> splice data (32 * i) (le32 0);
                         s \<leftarrow> write_block (FS_DATA_BLOCKS_START + b) data s;
                         (rc, s) \<leftarrow> write_inode dir_inode_num
                           (dir_inode\<lparr>i_size := i_size dir_inode - 32, i_modified := ticks s\<rparr>) s;
                         Some (0, s) } })"

definition dir_remove_entry :: "u32 \<Rightarrow> u8 list \<Rightarrow> fs_state \<Rightarrow> (int \<times> fs_state) option" where
  "dir_remove_entry dir_inode_num name s =
     do { (dir, s) \<leftarrow> read_inode dir_inode_num s;
          case dir of None \<Rightarrow> Some (- 1, s)
          | Some dir_inode \<Rightarrow>
              do { (p, s) \<leftarrow> fs_kmalloc s;
                   if p = 0 then Some (- 1, s)
                   else do { (rc, s) \<leftarrow> dir_remove_loop dir_inode_num name (i_blocks dir_inode) dir_inode (fresh s p) s;
                             s \<leftarrow> fs_kfree p s;
                             Some (rc, s) } } }"

section \<open>Mounting and formatting\<close>

definition fs_free_bitmaps :: "fs_state \<Rightarrow> fs_state option" where
  "fs_free_bitmaps s =
     do { s \<leftarrow> (if inode_bitmap_ptr s \<noteq> 0 then fs_kfree (inode_bitmap_ptr s) s else Some s);
          s \<leftarrow> (if data_bitmap_ptr s \<noteq> 0 then fs_kfree (data_bitmap_ptr s) s else Some s);
          Some (s\<lparr>inode_bitmap := [], data_bitmap := []\<rparr>) }"

definition fs_init :: "fs_state \<Rightarrow> fs_state option" where
  "fs_init s =
     (if ramdisk_is_initialized (fs_disk s) = 0 then Some s
      else do { (p, s) \<leftarrow> fs_kmalloc s;
                let s = s\<lparr>inode_bitmap_ptr := p, inode_bitmap := (if p = 0 then [] else fresh s p)\<rparr>;
                (q, s) \<leftarrow> fs_kmalloc s;
                let s = s\<lparr>data_bitmap_ptr := q, data_bitmap := (if q = 0 then [] else fresh s q)\<rparr>;
                if p = 0 \<or> q = 0 then fs_free_bitmaps s
                else do { (t, s) \<leftarrow> fs_kmalloc s;
                          if t = 0 then fs_free_bitmaps s
                          else do { temp \<leftarrow> read_block s FS_SUPERBLOCK_BLOCK (fresh s t);
                                    let s = s\<lparr>superblock := decode_superblock temp\<rparr>;
                                    s \<leftarrow> fs_kfree t s;
                                    if sb_magic (superblock s) \<noteq> FS_MAGIC then fs_free_bitmaps s
                                    else do { ib \<leftarrow> read_block s FS_INODE_BITMAP_BLOCK (inode_bitmap s);
                                              db \<leftarrow> read_block s FS_DATA_BITMAP_BLOCK (data_bitmap s);
                                              Some (s\<lparr>inode_bitmap := ib, data_bitmap := db,
                                                      open_files := map (\<lambda>f. f\<lparr>f_in_use := 0\<rparr>) (open_files s),
                                                      fs_initialized := 1\<rparr>) } } } })"

definition new_superblock :: fs_superblock_t where
  "new_superblock = \<lparr>sb_magic = FS_MAGIC, sb_version = 1, sb_block_size = FS_BLOCK_SIZE, sb_total_blocks = 2048,
     sb_inode_bitmap_block = FS_INODE_BITMAP_BLOCK, sb_data_bitmap_block = FS_DATA_BITMAP_BLOCK,
     sb_inode_table_block = FS_INODE_TABLE_BLOCK, sb_data_blocks_start = FS_DATA_BLOCKS_START,
     sb_total_inodes = FS_MAX_INODES, sb_total_data_blocks = FS_MAX_DATA_BLOCKS,
     sb_free_inodes = FS_MAX_INODES - 1, sb_free_blocks = FS_MAX_DATA_BLOCKS - 1, sb_root_inode = 0,
     sb_reserved = replicate 460 0\<rparr>"

definition new_inode :: "u32 \<Rightarrow> u32 \<Rightarrow> fs_inode_t" where
  "new_inode mode now = \<lparr>i_mode = mode, i_size = 0, i_uid = 0, i_gid = 0, i_created = now, i_modified = now,
     i_blocks = replicate 10 0, i_reserved = replicate 4 0\<rparr>"

text \<open>Writing a temporary block: allocate it, fill it, write it, free it; skipped when out of memory.\<close>

definition write_temp_block :: "u32 \<Rightarrow> u8 list \<Rightarrow> fs_state \<Rightarrow> fs_state option" where
  "write_temp_block b content s =
     do { (p, s) \<leftarrow> fs_kmalloc s;
          if p = 0 then Some s
          else do { data \<leftarrow> memset (fresh s p) 0 512;
                    data \<leftarrow> memcpy data content (length content);
                    s \<leftarrow> write_block b data s;
                    fs_kfree p s } }"

definition fs_format :: "fs_state \<Rightarrow> fs_state option" where
  "fs_format s =
     (if ramdisk_is_initialized (fs_disk s) = 0 then Some s
      else do { s \<leftarrow> (if inode_bitmap_ptr s = 0
                       then do { (p, s) \<leftarrow> fs_kmalloc s;
                                 Some (s\<lparr>inode_bitmap_ptr := p, inode_bitmap := (if p = 0 then [] else fresh s p)\<rparr>) }
                       else Some s);
                s \<leftarrow> (if data_bitmap_ptr s = 0
                       then do { (p, s) \<leftarrow> fs_kmalloc s;
                                 Some (s\<lparr>data_bitmap_ptr := p, data_bitmap := (if p = 0 then [] else fresh s p)\<rparr>) }
                       else Some s);
                if inode_bitmap_ptr s = 0 \<or> data_bitmap_ptr s = 0 then Some s
                else do { ib \<leftarrow> memset (inode_bitmap s) 0 512;
                          db \<leftarrow> memset (data_bitmap s) 0 512;
                          ib \<leftarrow> bitmap_set ib 0;
                          db \<leftarrow> bitmap_set db 0;
                          let s = s\<lparr>superblock := new_superblock, inode_bitmap := ib, data_bitmap := db\<rparr>;
                          (rc, s) \<leftarrow> write_inode 0 (new_inode (FS_TYPE_DIR OR FS_PERM_DEFAULT) (ticks s)) s;
                          s \<leftarrow> write_temp_block FS_DATA_BLOCKS_START [] s;
                          s \<leftarrow> write_temp_block FS_SUPERBLOCK_BLOCK (encode_superblock (superblock s)) s;
                          s \<leftarrow> write_block FS_INODE_BITMAP_BLOCK (inode_bitmap s) s;
                          s \<leftarrow> write_block FS_DATA_BITMAP_BLOCK (data_bitmap s) s;
                          Some (s\<lparr>fs_initialized := 1\<rparr>) } })"

definition fs_is_initialized :: "fs_state \<Rightarrow> u8" where
  "fs_is_initialized s = fs_initialized s"

section \<open>Files\<close>

definition fs_create :: "u8 list option \<Rightarrow> u32 \<Rightarrow> fs_state \<Rightarrow> (int \<times> fs_state) option" where
  "fs_create path type s =
     (if fs_initialized s = 0 then Some (- 1, s)
      else case path of None \<Rightarrow> Some (- 1, s)
      | Some p \<Rightarrow>
          do { name \<leftarrow> skip_slash p;
               (existing, s) \<leftarrow> path_lookup path s;
               if existing \<noteq> None then Some (- 1, s)
               else do { (inode_num, s) \<leftarrow> alloc_inode s;
                         if inode_num = NO_BIT then Some (- 1, s)
                         else do { let inode = new_inode (type OR FS_PERM_DEFAULT) (ticks s);
                                   (ok, inode, s) \<leftarrow>
                                     (if type = FS_TYPE_DIR
                                      then do { (block, s) \<leftarrow> alloc_data_block s;
                                                if block = NO_BIT
                                                then do { s \<leftarrow> free_inode inode_num s; Some (False, inode, s) }
                                                else do { s \<leftarrow> write_temp_block (FS_DATA_BLOCKS_START + block) [] s;
                                                          Some (True, inode\<lparr>i_blocks := (i_blocks inode)[0 := block]\<rparr>, s) } }
                                      else Some (True, inode, s));
                                   if \<not> ok then Some (- 1, s)
                                   else do { (rc, s) \<leftarrow> write_inode inode_num inode s;
                                             (rc, s) \<leftarrow> dir_add_entry 0 name inode_num s;
                                             if rc < 0
                                             then do { s \<leftarrow> free_inode inode_num s;
                                                       s \<leftarrow> (if type = FS_TYPE_DIR \<and> i_blocks inode ! 0 \<noteq> 0
                                                             then free_data_block (i_blocks inode ! 0) s else Some s);
                                                       Some (- 1, s) }
                                             else Some (0, s) } } } })"

fun free_blocks_loop :: "u32 list \<Rightarrow> fs_state \<Rightarrow> fs_state option" where
  "free_blocks_loop [] s = Some s"
| "free_blocks_loop (b # bs) s =
     (if b = 0 then Some s else do { s \<leftarrow> free_data_block b s; free_blocks_loop bs s })"

definition fs_unlink :: "u8 list option \<Rightarrow> fs_state \<Rightarrow> (int \<times> fs_state) option" where
  "fs_unlink path s =
     (if fs_initialized s = 0 then Some (- 1, s)
      else do { (r, s) \<leftarrow> path_lookup path s;
                case r of None \<Rightarrow> Some (- 1, s)
                | Some inode_num \<Rightarrow>
                    do { (inode, s) \<leftarrow> read_inode inode_num s;
                         case inode of None \<Rightarrow> Some (- 1, s)
                         | Some inode \<Rightarrow>
                             do { s \<leftarrow> free_blocks_loop (i_blocks inode) s;
                                  s \<leftarrow> free_inode inode_num s;
                                  path \<leftarrow> path;
                                  name \<leftarrow> skip_slash path;
                                  (rc, s) \<leftarrow> dir_remove_entry 0 name s;
                                  Some (0, s) } } })"

definition fs_open :: "u8 list option \<Rightarrow> u32 \<Rightarrow> fs_state \<Rightarrow> (int \<times> fs_state) option" where
  "fs_open path flags s =
     (if fs_initialized s = 0 then Some (- 1, s)
      else do { (r, s) \<leftarrow> path_lookup path s;
                (r, s) \<leftarrow>
                  (if r = None
                   then if flags AND FS_OPEN_CREATE \<noteq> 0
                        then do { (rc, s) \<leftarrow> fs_create path FS_TYPE_FILE s;
                                  if rc < 0 then Some (None, s) else path_lookup path s }
                        else Some (None, s)
                   else Some (r, s));
                case r of None \<Rightarrow> Some (- 1, s)
                | Some inode_num \<Rightarrow>
                    (case List.find (\<lambda>i. f_in_use (open_files s ! i) = 0) [0..<FS_MAX_OPEN_FILES] of
                       None \<Rightarrow> Some (- 1, s)
                     | Some fd \<Rightarrow>
                         Some (int fd, s\<lparr>open_files := (open_files s)[fd :=
                           \<lparr>f_inode = inode_num, f_position = 0, f_flags = flags, f_in_use = 1\<rparr>]\<rparr>)) })"

definition fs_close :: "int \<Rightarrow> fs_state \<Rightarrow> int \<times> fs_state" where
  "fs_close fd s =
     (if fd < 0 \<or> fd \<ge> int FS_MAX_OPEN_FILES then (- 1, s)
      else if f_in_use (open_files s ! nat fd) = 0 then (- 1, s)
      else (0, s\<lparr>open_files := (open_files s)[nat fd := (open_files s ! nat fd)\<lparr>f_in_use := 0\<rparr>]\<rparr>))"

definition fd_valid :: "int \<Rightarrow> fs_state \<Rightarrow> bool" where
  "fd_valid fd s \<longleftrightarrow> 0 \<le> fd \<and> fd < int FS_MAX_OPEN_FILES \<and> f_in_use (open_files s ! nat fd) \<noteq> 0"

definition chunk :: "u32 \<Rightarrow> u32 \<Rightarrow> u32 \<Rightarrow> u32" where
  "chunk pos sz done =
     (let block_remaining = FS_BLOCK_SIZE - pos mod FS_BLOCK_SIZE in
      if sz - done < block_remaining then sz - done else block_remaining)"

lemma chunk_bounds:
  assumes "n < sz"
  shows "0 < unat (chunk pos sz n)" and "unat (chunk pos sz n) \<le> unat sz - unat n"
    and "unat (chunk pos sz n) \<le> 512 - unat pos mod 512"
    and "unat (n + chunk pos sz n) = unat n + unat (chunk pos sz n)"
proof -
  have lt: "unat n < unat sz" using assms by (simp add: word_less_nat_alt)
  have d: "unat (sz - n) = unat sz - unat n" using lt by (simp add: unat_sub_u32)
  have m: "unat (pos mod 512) = unat pos mod 512" by (simp add: unat_mod)
  have r: "unat (512 - pos mod 512 :: u32) = 512 - unat pos mod 512"
    using m mod_less_divisor [of 512 "unat pos"] by (simp add: unat_sub_u32)
  have r0: "0 < 512 - unat pos mod 512" by simp
  show "0 < unat (chunk pos sz n)" and c: "unat (chunk pos sz n) \<le> unat sz - unat n"
    and "unat (chunk pos sz n) \<le> 512 - unat pos mod 512"
    using lt d r r0 by (auto simp: chunk_def Let_def word_less_nat_alt split: if_splits)
  show "unat (n + chunk pos sz n) = unat n + unat (chunk pos sz n)"
  proof (rule unat_add_u32)
    show "unat n + unat (chunk pos sz n) < 4294967296" using c lt unat_u32_less [of sz] by linarith
  qed
qed

function read_loop :: "fs_state \<Rightarrow> fs_inode_t \<Rightarrow> u32 \<Rightarrow> u32 \<Rightarrow> u32 \<Rightarrow> u8 list \<Rightarrow> u8 list \<Rightarrow> (u32 \<times> u32 \<times> u8 list) option" where
  "read_loop s inode sz pos bytes_read dest data =
     (if bytes_read < sz then
        let block_idx = pos div FS_BLOCK_SIZE; block_offset = pos mod FS_BLOCK_SIZE; to_read = chunk pos sz bytes_read in
        if unat block_idx \<ge> FS_DIRECT_BLOCKS \<or> i_blocks inode ! unat block_idx = 0 then Some (pos, bytes_read, dest)
        else case read_block s (FS_DATA_BLOCKS_START + i_blocks inode ! unat block_idx) data of
               None \<Rightarrow> None
             | Some data \<Rightarrow>
                 (case splice dest (unat bytes_read) (take (unat to_read) (drop (unat block_offset) data)) of
                    None \<Rightarrow> None
                  | Some dest \<Rightarrow> read_loop s inode sz (pos + to_read) (bytes_read + to_read) dest data)
      else Some (pos, bytes_read, dest))"
  by pat_completeness auto
termination
proof (relation "measure (\<lambda>(s, inode, sz, pos, n, dest, data). unat sz - unat n)", goal_cases)
  case (2 s inode sz pos n dest data)
  then show ?case using chunk_bounds [OF "2"(1), of pos] by (simp add: word_less_nat_alt)
qed simp

definition fs_read :: "int \<Rightarrow> u8 list \<Rightarrow> u32 \<Rightarrow> fs_state \<Rightarrow> (int \<times> u8 list \<times> fs_state) option" where
  "fs_read fd buf sz s =
     (if \<not> fd_valid fd s then Some (- 1, buf, s)
      else if f_flags (open_files s ! nat fd) AND FS_OPEN_READ = 0 then Some (- 1, buf, s)
      else do { let file = open_files s ! nat fd;
                (r, s) \<leftarrow> read_inode (f_inode file) s;
                case r of None \<Rightarrow> Some (- 1, buf, s)
                | Some inode \<Rightarrow>
                    if f_position file \<ge> i_size inode then Some (0, buf, s)
                    else do { let sz = (if f_position file + sz > i_size inode then i_size inode - f_position file else sz);
                              (p, s) \<leftarrow> fs_kmalloc s;
                              if p = 0 then Some (- 1, buf, s)
                              else do { (pos, n, buf) \<leftarrow> read_loop s inode sz (f_position file) 0 buf (fresh s p);
                                        s \<leftarrow> fs_kfree p (s\<lparr>open_files := (open_files s)[nat fd := file\<lparr>f_position := pos\<rparr>]\<rparr>);
                                        Some (sint n, buf, s) } } })"

text \<open>One pass of the write loop: get the block, new or old, copy into it, write it back.\<close>

definition get_file_block :: "fs_state \<Rightarrow> fs_inode_t \<Rightarrow> nat \<Rightarrow> u8 list \<Rightarrow> ((fs_inode_t \<times> u8 list) option \<times> fs_state) option" where
  "get_file_block s inode block_idx data =
     (if i_blocks inode ! block_idx = 0
      then do { (new_block, s) \<leftarrow> alloc_data_block s;
                if new_block = NO_BIT then Some (None, s)
                else do { data \<leftarrow> memset data 0 512;
                          Some (Some (inode\<lparr>i_blocks := (i_blocks inode)[block_idx := new_block]\<rparr>, data), s) } }
      else do { data \<leftarrow> read_block s (FS_DATA_BLOCKS_START + i_blocks inode ! block_idx) data;
                Some (Some (inode, data), s) })"

function write_loop :: "fs_state \<Rightarrow> fs_inode_t \<Rightarrow> u32 \<Rightarrow> u8 list \<Rightarrow> u32 \<Rightarrow> u32 \<Rightarrow> u8 list \<Rightarrow> (fs_inode_t \<times> u32 \<times> u32 \<times> fs_state) option" where
  "write_loop s inode sz src pos written data =
     (if written < sz then
        let block_idx = unat (pos div FS_BLOCK_SIZE); block_offset = pos mod FS_BLOCK_SIZE; to_write = chunk pos sz written in
        if block_idx \<ge> FS_DIRECT_BLOCKS then Some (inode, pos, written, s)
        else case get_file_block s inode block_idx data of
               None \<Rightarrow> None
             | Some (None, s') \<Rightarrow> Some (inode, pos, written, s')
             | Some (Some (inode', data'), s') \<Rightarrow>
                 if unat written + unat to_write > length src then None
                 else case splice data' (unat block_offset) (take (unat to_write) (drop (unat written) src)) of
                        None \<Rightarrow> None
                      | Some data'' \<Rightarrow>
                          (case write_block (FS_DATA_BLOCKS_START + i_blocks inode' ! block_idx) data'' s' of
                             None \<Rightarrow> None
                           | Some s'' \<Rightarrow>
                               write_loop s''
                                 (if pos + to_write > i_size inode' then inode'\<lparr>i_size := pos + to_write\<rparr> else inode')
                                 sz src (pos + to_write) (written + to_write) data'')
      else Some (inode, pos, written, s))"
  by pat_completeness auto
termination
proof (relation "measure (\<lambda>(s, inode, sz, src, pos, n, data). unat sz - unat n)", goal_cases)
  case (2 s inode sz src pos n data)
  then show ?case using chunk_bounds [OF "2"(1), of pos] by (simp add: word_less_nat_alt)
qed simp

definition fs_write :: "int \<Rightarrow> u8 list \<Rightarrow> u32 \<Rightarrow> fs_state \<Rightarrow> (int \<times> fs_state) option" where
  "fs_write fd buf sz s =
     (if \<not> fd_valid fd s then Some (- 1, s)
      else if f_flags (open_files s ! nat fd) AND FS_OPEN_WRITE = 0 then Some (- 1, s)
      else do { let file = open_files s ! nat fd;
                (r, s) \<leftarrow> read_inode (f_inode file) s;
                case r of None \<Rightarrow> Some (- 1, s)
                | Some inode \<Rightarrow>
                    do { (p, s) \<leftarrow> fs_kmalloc s;
                         if p = 0 then Some (- 1, s)
                         else do { (inode, pos, n, s) \<leftarrow> write_loop s inode sz buf (f_position file) 0 (fresh s p);
                                   s \<leftarrow> fs_kfree p (s\<lparr>open_files := (open_files s)[nat fd := file\<lparr>f_position := pos\<rparr>]\<rparr>);
                                   (rc, s) \<leftarrow> write_inode (f_inode file) (inode\<lparr>i_modified := ticks s\<rparr>) s;
                                   Some (sint n, s) } } })"

text \<open>\<open>fs_readdir\<close>: the entries copied out, at most \<open>max\<close> of them, 32 bytes each.\<close>

fun readdir_entries :: "u8 list \<Rightarrow> nat list \<Rightarrow> int \<Rightarrow> u8 list list \<Rightarrow> u8 list list" where
  "readdir_entries data [] mx out = out"
| "readdir_entries data (i # is) mx out =
     (if int (length out) < mx
      then readdir_entries data is mx
             (if de_inode data i \<noteq> 0 then out @ [take 32 (drop (32 * i) data)] else out)
      else out)"

fun readdir_blocks :: "fs_state \<Rightarrow> u32 list \<Rightarrow> int \<Rightarrow> u8 list \<Rightarrow> u8 list list \<Rightarrow> u8 list list option" where
  "readdir_blocks s [] mx data out = Some out"
| "readdir_blocks s (b # bs) mx data out =
     (if b \<noteq> 0 \<and> int (length out) < mx
      then do { data \<leftarrow> read_block s (FS_DATA_BLOCKS_START + b) data;
                readdir_blocks s bs mx data (readdir_entries data [0..<16] mx out) }
      else Some out)"

definition fs_readdir :: "u8 list option \<Rightarrow> int \<Rightarrow> fs_state \<Rightarrow> (int \<times> u8 list list \<times> fs_state) option" where
  "fs_readdir path mx s =
     (if fs_initialized s = 0 then Some (- 1, [], s)
      else do { (r, s) \<leftarrow> path_lookup path s;
                case r of None \<Rightarrow> Some (- 1, [], s)
                | Some inode_num \<Rightarrow>
                    do { (inode, s) \<leftarrow> read_inode inode_num s;
                         case inode of None \<Rightarrow> Some (- 1, [], s)
                         | Some inode \<Rightarrow>
                             if i_mode inode AND FS_TYPE_DIR = 0 then Some (- 1, [], s)
                             else do { (p, s) \<leftarrow> fs_kmalloc s;
                                       if p = 0 then Some (- 1, [], s)
                                       else do { out \<leftarrow> readdir_blocks s (i_blocks inode) mx (fresh s p) [];
                                                 s \<leftarrow> fs_kfree p s;
                                                 Some (int (length out), out, s) } } } })"

definition fs_mkdir :: "u8 list option \<Rightarrow> fs_state \<Rightarrow> (int \<times> fs_state) option" where
  "fs_mkdir path s = fs_create path FS_TYPE_DIR s"

definition fs_rmdir :: "u8 list option \<Rightarrow> fs_state \<Rightarrow> (int \<times> fs_state) option" where
  "fs_rmdir path s = fs_unlink path s"

definition fs_stat :: "u8 list option \<Rightarrow> fs_state \<Rightarrow> (fs_inode_t option \<times> fs_state) option" where
  "fs_stat path s =
     (if fs_initialized s = 0 then Some (None, s)
      else do { (r, s) \<leftarrow> path_lookup path s;
                case r of None \<Rightarrow> Some (None, s) | Some inode_num \<Rightarrow> read_inode inode_num s })"

definition fs_exists :: "u8 list option \<Rightarrow> fs_state \<Rightarrow> (bool \<times> fs_state) option" where
  "fs_exists path s = do { (r, s) \<leftarrow> path_lookup path s; Some (r \<noteq> None, s) }"

definition fs_get_stats :: "fs_state \<Rightarrow> u32 \<times> u32 \<times> u32 \<times> u32" where
  "fs_get_stats s = (sb_total_inodes (superblock s), sb_free_inodes (superblock s),
     sb_total_data_blocks (superblock s), sb_free_blocks (superblock s))"

end
