(* ===== verification/Fs_Inode.thy ===== *)
theory Fs_Inode
  imports Fs
begin

text \<open>
  Laws of the lower half of WitFS: the packed encodings, the temporary buffers, the inode table and
  the two free maps. The disk is seen through \<open>blk\<close>, the inode table through \<open>inode_at\<close> and a bitmap
  through the set \<open>bits\<close> of its one bits.
\<close>

section \<open>Encodings\<close>

lemma length_le32 [simp]: "length (le32 w) = 4"
  by (simp add: le32_def)

lemma get32_le32: "get32 (le32 w @ rest) 0 = w"
proof (rule bit_word_eqI)
  fix n assume "n < LENGTH(32)"
  then have n: "n < 32" by simp
  have "get32 (le32 w @ rest) 0 = ucast (ucast w :: u8) OR push_bit 8 (ucast (ucast (drop_bit 8 w) :: u8)) OR
     push_bit 16 (ucast (ucast (drop_bit 16 w) :: u8)) OR push_bit 24 (ucast (ucast (drop_bit 24 w) :: u8))"
    by (simp add: get32_def le32_def)
  then show "bit (get32 (le32 w @ rest) 0) n = bit w n"
    using n by (cases "n < 8"; cases "n < 16"; cases "n < 24") (auto simp: bit_simps)
qed

lemma get32_drop: "k + off + 4 \<le> length bs \<Longrightarrow> get32 (drop k bs) off = get32 bs (k + off)"
  by (simp add: get32_def ac_simps)

lemma get32_append: "off + 4 \<le> length xs \<Longrightarrow> get32 (xs @ ys) off = get32 xs off"
  by (simp add: get32_def nth_append)

lemma get32_append_right: "get32 (xs @ ys) (length xs + off) = get32 ys off"
  by (simp add: get32_def nth_append)

lemma length_words [simp]: "length (concat (map le32 ws)) = 4 * length ws"
  by (induction ws) auto

lemma get32_words: "k < length ws \<Longrightarrow> get32 (concat (map le32 ws) @ rest) (4 * k) = ws ! k"
proof (induction ws arbitrary: k)
  case (Cons w ws)
  show ?case
  proof (cases k)
    case 0
    then show ?thesis using get32_le32 by simp
  next
    case (Suc j)
    have "get32 (le32 w @ (concat (map le32 ws) @ rest)) (length (le32 w) + 4 * j) = ws ! j"
      unfolding get32_append_right using Cons Suc by simp
    then show ?thesis using Suc by simp
  qed
qed simp

definition wf_inode :: "fs_inode_t \<Rightarrow> bool" where
  "wf_inode i \<longleftrightarrow> length (i_blocks i) = 10 \<and> length (i_reserved i) = 4"

lemma wf_decode [simp]: "wf_inode (decode_inode bs)"
  by (simp add: wf_inode_def decode_inode_def)

lemma length_encode_inode: "wf_inode i \<Longrightarrow> length (encode_inode i) = 80"
  by (simp add: encode_inode_def wf_inode_def del: map_append concat_append)

lemma decode_encode_inode:
  assumes "wf_inode i"
  shows "decode_inode (encode_inode i @ rest) = i"
proof -
  let ?ws = "[i_mode i, i_size i, i_uid i, i_gid i, i_created i, i_modified i] @ i_blocks i @ i_reserved i"
  have g: "get32 (encode_inode i @ rest) (4 * k) = ?ws ! k" if "k < 20" for k
    unfolding encode_inode_def using that assms by (intro get32_words) (simp add: wf_inode_def)
  have b: "map (\<lambda>k. get32 (encode_inode i @ rest) (24 + 4 * k)) [0..<10] = i_blocks i"
  proof (rule nth_equalityI)
    fix k assume "k < length (map (\<lambda>k. get32 (encode_inode i @ rest) (24 + 4 * k)) [0..<10])"
    then have k: "k < 10" by simp
    then show "map (\<lambda>k. get32 (encode_inode i @ rest) (24 + 4 * k)) [0..<10] ! k = i_blocks i ! k"
      using g [of "6 + k"] assms by (simp add: wf_inode_def nth_append)
  qed (use assms in \<open>simp add: wf_inode_def\<close>)
  have r: "map (\<lambda>k. get32 (encode_inode i @ rest) (64 + 4 * k)) [0..<4] = i_reserved i"
  proof (rule nth_equalityI)
    fix k assume "k < length (map (\<lambda>k. get32 (encode_inode i @ rest) (64 + 4 * k)) [0..<4])"
    then have k: "k < 4" by simp
    then show "map (\<lambda>k. get32 (encode_inode i @ rest) (64 + 4 * k)) [0..<4] ! k = i_reserved i ! k"
      using g [of "16 + k"] assms by (simp add: wf_inode_def nth_append)
  qed (use assms in \<open>simp add: wf_inode_def\<close>)
  show ?thesis
    using g [of 0] g [of 1] g [of 2] g [of 3] g [of 4] g [of 5] b r unfolding decode_inode_def by simp
qed

text \<open>Field updates are kept in the order of the record.\<close>

lemma fs_update_order [simp]:
  "s\<lparr>fs_disk := d, fs_heap := h\<rparr> = s\<lparr>fs_heap := h, fs_disk := d\<rparr>"
  "s\<lparr>superblock := b, fs_heap := h\<rparr> = s\<lparr>fs_heap := h, superblock := b\<rparr>"
  "s\<lparr>inode_bitmap_ptr := p, fs_heap := h\<rparr> = s\<lparr>fs_heap := h, inode_bitmap_ptr := p\<rparr>"
  "s\<lparr>inode_bitmap := m, fs_heap := h\<rparr> = s\<lparr>fs_heap := h, inode_bitmap := m\<rparr>"
  "s\<lparr>data_bitmap_ptr := q, fs_heap := h\<rparr> = s\<lparr>fs_heap := h, data_bitmap_ptr := q\<rparr>"
  "s\<lparr>data_bitmap := k, fs_heap := h\<rparr> = s\<lparr>fs_heap := h, data_bitmap := k\<rparr>"
  "s\<lparr>open_files := f, fs_heap := h\<rparr> = s\<lparr>fs_heap := h, open_files := f\<rparr>"
  "s\<lparr>fs_initialized := i, fs_heap := h\<rparr> = s\<lparr>fs_heap := h, fs_initialized := i\<rparr>"
  "s\<lparr>superblock := b, fs_disk := d\<rparr> = s\<lparr>fs_disk := d, superblock := b\<rparr>"
  "s\<lparr>inode_bitmap_ptr := p, fs_disk := d\<rparr> = s\<lparr>fs_disk := d, inode_bitmap_ptr := p\<rparr>"
  "s\<lparr>inode_bitmap := m, fs_disk := d\<rparr> = s\<lparr>fs_disk := d, inode_bitmap := m\<rparr>"
  "s\<lparr>data_bitmap_ptr := q, fs_disk := d\<rparr> = s\<lparr>fs_disk := d, data_bitmap_ptr := q\<rparr>"
  "s\<lparr>data_bitmap := k, fs_disk := d\<rparr> = s\<lparr>fs_disk := d, data_bitmap := k\<rparr>"
  "s\<lparr>open_files := f, fs_disk := d\<rparr> = s\<lparr>fs_disk := d, open_files := f\<rparr>"
  "s\<lparr>fs_initialized := i, fs_disk := d\<rparr> = s\<lparr>fs_disk := d, fs_initialized := i\<rparr>"
  "s\<lparr>inode_bitmap_ptr := p, superblock := b\<rparr> = s\<lparr>superblock := b, inode_bitmap_ptr := p\<rparr>"
  "s\<lparr>inode_bitmap := m, superblock := b\<rparr> = s\<lparr>superblock := b, inode_bitmap := m\<rparr>"
  "s\<lparr>data_bitmap_ptr := q, superblock := b\<rparr> = s\<lparr>superblock := b, data_bitmap_ptr := q\<rparr>"
  "s\<lparr>data_bitmap := k, superblock := b\<rparr> = s\<lparr>superblock := b, data_bitmap := k\<rparr>"
  "s\<lparr>open_files := f, superblock := b\<rparr> = s\<lparr>superblock := b, open_files := f\<rparr>"
  "s\<lparr>fs_initialized := i, superblock := b\<rparr> = s\<lparr>superblock := b, fs_initialized := i\<rparr>"
  "s\<lparr>inode_bitmap := m, inode_bitmap_ptr := p\<rparr> = s\<lparr>inode_bitmap_ptr := p, inode_bitmap := m\<rparr>"
  "s\<lparr>data_bitmap_ptr := q, inode_bitmap_ptr := p\<rparr> = s\<lparr>inode_bitmap_ptr := p, data_bitmap_ptr := q\<rparr>"
  "s\<lparr>data_bitmap := k, inode_bitmap_ptr := p\<rparr> = s\<lparr>inode_bitmap_ptr := p, data_bitmap := k\<rparr>"
  "s\<lparr>open_files := f, inode_bitmap_ptr := p\<rparr> = s\<lparr>inode_bitmap_ptr := p, open_files := f\<rparr>"
  "s\<lparr>fs_initialized := i, inode_bitmap_ptr := p\<rparr> = s\<lparr>inode_bitmap_ptr := p, fs_initialized := i\<rparr>"
  "s\<lparr>data_bitmap_ptr := q, inode_bitmap := m\<rparr> = s\<lparr>inode_bitmap := m, data_bitmap_ptr := q\<rparr>"
  "s\<lparr>data_bitmap := k, inode_bitmap := m\<rparr> = s\<lparr>inode_bitmap := m, data_bitmap := k\<rparr>"
  "s\<lparr>open_files := f, inode_bitmap := m\<rparr> = s\<lparr>inode_bitmap := m, open_files := f\<rparr>"
  "s\<lparr>fs_initialized := i, inode_bitmap := m\<rparr> = s\<lparr>inode_bitmap := m, fs_initialized := i\<rparr>"
  "s\<lparr>data_bitmap := k, data_bitmap_ptr := q\<rparr> = s\<lparr>data_bitmap_ptr := q, data_bitmap := k\<rparr>"
  "s\<lparr>open_files := f, data_bitmap_ptr := q\<rparr> = s\<lparr>data_bitmap_ptr := q, open_files := f\<rparr>"
  "s\<lparr>fs_initialized := i, data_bitmap_ptr := q\<rparr> = s\<lparr>data_bitmap_ptr := q, fs_initialized := i\<rparr>"
  "s\<lparr>open_files := f, data_bitmap := k\<rparr> = s\<lparr>data_bitmap := k, open_files := f\<rparr>"
  "s\<lparr>fs_initialized := i, data_bitmap := k\<rparr> = s\<lparr>data_bitmap := k, fs_initialized := i\<rparr>"
  "s\<lparr>fs_initialized := i, open_files := f\<rparr> = s\<lparr>open_files := f, fs_initialized := i\<rparr>"
  by simp_all

section \<open>Temporary buffers\<close>

text \<open>\<open>can_alloc n bs\<close>: the heap can hand out \<open>n\<close> block buffers at the same time.\<close>

fun can_alloc :: "nat \<Rightarrow> tile list \<Rightarrow> bool" where
  "can_alloc 0 bs \<longleftrightarrow> True"
| "can_alloc (Suc n) bs \<longleftrightarrow> (case a_alloc 528 bs of None \<Rightarrow> False | Some (b, bs') \<Rightarrow> can_alloc n bs')"

lemma can_alloc_mono: "can_alloc n bs \<Longrightarrow> m \<le> n \<Longrightarrow> can_alloc m bs"
proof (induction n arbitrary: bs m)
  case (Suc n)
  then show ?case by (cases m) (auto split: option.splits)
qed simp

definition fs_mem :: "nat \<Rightarrow> fs_state \<Rightarrow> tile list \<Rightarrow> bool" where
  "fs_mem n s bs \<longleftrightarrow> heap_ok (fs_heap s) bs \<and> can_alloc n bs"

lemma fs_mem_update [simp]:
  "fs_mem n (s\<lparr>fs_disk := d\<rparr>) bs = fs_mem n s bs" "fs_mem n (s\<lparr>superblock := b\<rparr>) bs = fs_mem n s bs"
  "fs_mem n (s\<lparr>inode_bitmap := m\<rparr>) bs = fs_mem n s bs" "fs_mem n (s\<lparr>data_bitmap := m\<rparr>) bs = fs_mem n s bs"
  "fs_mem n (s\<lparr>open_files := f\<rparr>) bs = fs_mem n s bs"
  by (simp_all add: fs_mem_def)

lemma fs_mem_mono: "fs_mem n s bs \<Longrightarrow> m \<le> n \<Longrightarrow> fs_mem m s bs"
  using can_alloc_mono by (auto simp: fs_mem_def)

lemma block_total_512: "block_total 512 = 528"
  by (simp add: block_total_def align_size_def Let_def)

lemma length_fresh [simp]: "length (fresh s p) = 512"
  by (simp add: fresh_def)

text \<open>A buffer is granted, leaves memory for \<open>n\<close> more, and its release restores the layout.\<close>

lemma fs_kmalloc_ok:
  assumes "fs_mem (Suc n) s bs"
  obtains p h cs where "fs_kmalloc s = Some (p, s\<lparr>fs_heap := h\<rparr>)" and "p \<noteq> 0"
    and "fs_mem n (s\<lparr>fs_heap := h\<rparr>) cs"
    and "\<And>s'. heap_ok (fs_heap s') cs \<Longrightarrow> \<exists>h'. fs_kfree p s' = Some (s'\<lparr>fs_heap := h'\<rparr>) \<and> heap_ok h' bs"
proof -
  from assms have ok: "heap_ok (fs_heap s) bs" by (simp add: fs_mem_def)
  then have t: "tiles (unat HEAP_START) bs (unat HEAP_END)" "coalesced bs" by (auto simp: heap_ok_def)
  from assms obtain b cs where al: "a_alloc 528 bs = Some (b, cs)" "can_alloc n cs"
    by (auto simp: fs_mem_def split: option.splits)
  from kmalloc_ok [OF ok, of 512] al(1) obtain h where
    h: "kmalloc 512 (fs_heap s) = Some (b + 16, h)" "heap_ok h cs" by (auto simp: block_total_512)
  from a_alloc_mem [OF al(1)] obtain k where "(b, k, True) \<in> set bs" by blast
  then have nz: "b + 16 \<noteq> 0" by (rule tile_in_heap(4) [OF t(1)])
  have rel: "\<exists>h'. fs_kfree (b + 16) s' = Some (s'\<lparr>fs_heap := h'\<rparr>) \<and> heap_ok h' bs"
    if "heap_ok (fs_heap s') cs" for s'
    using kfree_restores [OF t al(1) _ that] by (auto simp: fs_kfree_def)
  show ?thesis
    by (rule that [of "b + 16" h cs]) (use h nz al rel in \<open>simp_all add: fs_kmalloc_def fs_mem_def\<close>)
qed

section \<open>Blocks\<close>

lemma read_block_ok:
  "rd_ok (fs_disk s) \<Longrightarrow> b < RAMDISK_BLOCK_COUNT \<Longrightarrow> length buf = 512 \<Longrightarrow> read_block s b buf = Some (blk (fs_disk s) b)"
  by (simp add: read_block_def rd.read_exact)

lemma write_block_ok:
  assumes "rd_ok (fs_disk s)" and "b < RAMDISK_BLOCK_COUNT" and "length buf = 512"
  obtains d where "write_block b buf s = Some (s\<lparr>fs_disk := d\<rparr>)" and "rd_ok d" and "blk d b = buf"
    and "\<forall>c. c \<noteq> b \<longrightarrow> blk d c = blk (fs_disk s) c"
  using rd.write_law [OF assms] by (auto simp: write_block_def)

section \<open>The inode table\<close>

lemma inodes_per_block_6 [simp]: "inodes_per_block = 6"
  by (simp add: inodes_per_block_def)

lemma unat_inode_block: "n < FS_MAX_INODES \<Longrightarrow> unat (inode_block n) = 3 + unat n div 6"
  by (simp add: inode_block_def unat_add_u32 unat_div word_less_nat_alt)

lemma unat_inode_offset: "unat (inode_offset n) = 80 * (unat n mod 6)"
proof -
  have "unat (n mod 6) = unat n mod 6" by (simp add: unat_mod)
  then show ?thesis by (simp add: inode_offset_def unat_mult_u32 mult.commute)
qed

lemma inode_block_less: "n < FS_MAX_INODES \<Longrightarrow> inode_block n < RAMDISK_BLOCK_COUNT"
  by (simp add: word_less_nat_alt unat_inode_block)

definition inode_at :: "ramdisk_t \<Rightarrow> u32 \<Rightarrow> fs_inode_t" where
  "inode_at d n = decode_inode (drop (unat (inode_offset n)) (blk d (inode_block n)))"

lemma wf_inode_at [simp]: "wf_inode (inode_at d n)"
  by (simp add: inode_at_def)

lemma read_inode_ok:
  assumes "rd_ok (fs_disk s)" and "fs_mem 1 s bs" and "n < FS_MAX_INODES"
  obtains h where "read_inode n s = Some (Some (inode_at (fs_disk s) n), s\<lparr>fs_heap := h\<rparr>)" and "heap_ok h bs"
proof -
  from assms(2) have "fs_mem (Suc 0) s bs" by simp
  then obtain p h cs where p: "fs_kmalloc s = Some (p, s\<lparr>fs_heap := h\<rparr>)" "p \<noteq> 0" "fs_mem 0 (s\<lparr>fs_heap := h\<rparr>) cs"
    and rel: "\<And>s'. heap_ok (fs_heap s') cs \<Longrightarrow> \<exists>h'. fs_kfree p s' = Some (s'\<lparr>fs_heap := h'\<rparr>) \<and> heap_ok h' bs"
    by (rule fs_kmalloc_ok) blast
  from rel [of "s\<lparr>fs_heap := h\<rparr>"] p(3) obtain h' where
    h': "fs_kfree p (s\<lparr>fs_heap := h\<rparr>) = Some (s\<lparr>fs_heap := h'\<rparr>)" "heap_ok h' bs" by (auto simp: fs_mem_def)
  have rb: "read_block (s\<lparr>fs_heap := h\<rparr>) (inode_block n) (fresh (s\<lparr>fs_heap := h\<rparr>) p) = Some (blk (fs_disk s) (inode_block n))"
    using read_block_ok [of "s\<lparr>fs_heap := h\<rparr>" "inode_block n"] assms(1) inode_block_less [OF assms(3)] by simp
  have "read_inode n s = Some (Some (inode_at (fs_disk s) n), s\<lparr>fs_heap := h'\<rparr>)"
    using p(1,2) h'(1) assms(3) rb by (simp add: read_inode_def inode_at_def)
  then show ?thesis using that h'(2) by blast
qed

lemma decode_frame:
  assumes "\<forall>j < 80. xs ! j = ys ! j" shows "decode_inode xs = decode_inode ys"
  using assms by (simp add: decode_inode_def get32_def)

lemma splice_inode:
  assumes "length buf = 512" and "length new = 80" and "a < 6"
  shows "splice buf (80 * a) new = Some (take (80 * a) buf @ new @ drop (80 * a + 80) buf)"
  using assms by (simp add: splice_def)

lemma splice_nth:
  assumes "off + length new \<le> length buf" and "j < length buf"
  shows "(take off buf @ new @ drop (off + length new) buf) ! j =
    (if off \<le> j \<and> j < off + length new then new ! (j - off) else buf ! j)"
  using assms by (auto simp: nth_append min_def)

lemma slots_apart:
  fixes a c j k :: nat
  assumes "a \<noteq> c" and "j < k"
  shows "\<not> (k * c \<le> k * a + j \<and> k * a + j < k * c + k)"
proof (cases "a < c")
  case True
  then have "k * Suc a \<le> k * c" by (intro mult_le_mono2) simp
  then show ?thesis using assms(2) by simp
next
  case False
  then have "k * Suc c \<le> k * a" using assms(1) by (intro mult_le_mono2) simp
  then show ?thesis by simp
qed

lemma write_inode_ok:
  assumes "rd_ok (fs_disk s)" and "fs_mem 1 s bs" and "n < FS_MAX_INODES" and "wf_inode i"
  obtains h d where "write_inode n i s = Some (0, s\<lparr>fs_heap := h, fs_disk := d\<rparr>)" and "heap_ok h bs" and "rd_ok d"
    and "inode_at d n = i" and "\<forall>m < FS_MAX_INODES. m \<noteq> n \<longrightarrow> inode_at d m = inode_at (fs_disk s) m"
    and "\<forall>b. b \<noteq> inode_block n \<longrightarrow> blk d b = blk (fs_disk s) b"
proof -
  from assms(2) have "fs_mem (Suc 0) s bs" by simp
  then obtain p h cs where p: "fs_kmalloc s = Some (p, s\<lparr>fs_heap := h\<rparr>)" "p \<noteq> 0" "fs_mem 0 (s\<lparr>fs_heap := h\<rparr>) cs"
    and rel: "\<And>s'. heap_ok (fs_heap s') cs \<Longrightarrow> \<exists>h'. fs_kfree p s' = Some (s'\<lparr>fs_heap := h'\<rparr>) \<and> heap_ok h' bs"
    by (rule fs_kmalloc_ok) blast
  let ?b = "inode_block n" and ?old = "blk (fs_disk s) (inode_block n)" and ?o = "80 * (unat n mod 6)"
  let ?new = "take ?o ?old @ encode_inode i @ drop (?o + 80) ?old"
  have le: "length (encode_inode i) = 80" by (rule length_encode_inode [OF assms(4)])
  have o: "?o + 80 \<le> 512" using mod_less_divisor [of 6 "unat n"] by linarith
  have len: "length ?new = 512" using o le by simp
  have rb: "read_block (s\<lparr>fs_heap := h\<rparr>) ?b (fresh (s\<lparr>fs_heap := h\<rparr>) p) = Some ?old"
    using read_block_ok [of "s\<lparr>fs_heap := h\<rparr>" ?b] assms(1) inode_block_less [OF assms(3)] by simp
  have sp: "splice ?old (unat (inode_offset n)) (encode_inode i) = Some ?new"
    using splice_inode [of ?old "encode_inode i" "unat n mod 6"] le by (simp add: unat_inode_offset)
  obtain d where d: "write_block ?b ?new (s\<lparr>fs_heap := h\<rparr>) = Some (s\<lparr>fs_heap := h, fs_disk := d\<rparr>)" "rd_ok d" "blk d ?b = ?new"
    "\<forall>c. c \<noteq> ?b \<longrightarrow> blk d c = blk (fs_disk s) c"
    using write_block_ok [of "s\<lparr>fs_heap := h\<rparr>" ?b ?new] assms(1) inode_block_less [OF assms(3)] len by auto
  from rel [of "s\<lparr>fs_heap := h, fs_disk := d\<rparr>"] p(3) obtain h' where
    h': "fs_kfree p (s\<lparr>fs_heap := h, fs_disk := d\<rparr>) = Some (s\<lparr>fs_heap := h', fs_disk := d\<rparr>)" "heap_ok h' bs"
    by (auto simp: fs_mem_def)
  have "write_inode n i s = Some (0, s\<lparr>fs_heap := h', fs_disk := d\<rparr>)"
    using p(1,2) rb sp d(1) h'(1) assms(3) by (simp add: write_inode_def)
  moreover have "inode_at d n = i"
    using o decode_encode_inode [OF assms(4)] by (simp add: inode_at_def d(3) unat_inode_offset)
  moreover have "inode_at d m = inode_at (fs_disk s) m" if "m < FS_MAX_INODES" "m \<noteq> n" for m
  proof (cases "inode_block m = ?b")
    case True
    have div: "unat m div 6 = unat n div 6"
      using unat_inode_block [OF that(1)] unat_inode_block [OF assms(3)] True by simp
    have "unat m \<noteq> unat n" using that(2) by (simp add: word_unat_eq_iff)
    then have neq: "unat m mod 6 \<noteq> unat n mod 6" using div by (metis div_mult_mod_eq)
    have om: "80 * (unat m mod 6) + 80 \<le> 512" using mod_less_divisor [of 6 "unat m"] by linarith
    have "drop (80 * (unat m mod 6)) ?new ! j = drop (80 * (unat m mod 6)) ?old ! j" if "j < 80" for j
    proof -
      have "\<not> (?o \<le> 80 * (unat m mod 6) + j \<and> 80 * (unat m mod 6) + j < ?o + 80)"
        by (rule slots_apart [OF neq that])
      then have "?new ! (80 * (unat m mod 6) + j) = ?old ! (80 * (unat m mod 6) + j)"
        using splice_nth [of ?o "encode_inode i" ?old "80 * (unat m mod 6) + j"] om o le that by auto
      then show ?thesis using nth_drop [of "80 * (unat m mod 6)" ?new j] nth_drop [of "80 * (unat m mod 6)" ?old j] om len
        by (simp only: length_blk)
    qed
    then show ?thesis using True by (simp add: inode_at_def unat_inode_offset d(3) decode_frame)
  next
    case False
    then show ?thesis using d(4) by (simp add: inode_at_def)
  qed
  ultimately show ?thesis using that d h'(2) by blast
qed

section \<open>Bitmaps as sets\<close>

definition bits :: "u8 list \<Rightarrow> nat set" where
  "bits bm = {k. k div 8 < length bm \<and> bit (bm ! (k div 8)) (k mod 8)}"

lemma bits_update:
  fixes v :: u8
  assumes "k div 8 < length bm" and "\<And>j. j < 8 \<Longrightarrow> bit v j \<longleftrightarrow> (if j = k mod 8 then b else bit (bm ! (k div 8)) j)"
  shows "bits (bm[k div 8 := v]) = (if b then insert k (bits bm) else bits bm - {k})"
proof -
  have mem: "q \<in> bits (bm[k div 8 := v]) \<longleftrightarrow> (if q = k then b else q \<in> bits bm)" for q
  proof (cases "q div 8 = k div 8")
    case True
    then have "q mod 8 = k mod 8 \<longleftrightarrow> q = k" by (metis div_mult_mod_eq)
    then show ?thesis using assms True by (auto simp: bits_def)
  next
    case False
    then show ?thesis using assms(1) by (auto simp: bits_def)
  qed
  show ?thesis
  proof (rule set_eqI)
    fix q show "q \<in> bits (bm[k div 8 := v]) \<longleftrightarrow> q \<in> (if b then insert k (bits bm) else bits bm - {k})"
      unfolding mem [of q] by (cases b; cases "q = k") simp_all
  qed
qed

lemma bitmap_set_ok:
  assumes "k div 8 < length bm"
  obtains bm' where "bitmap_set bm k = Some bm'" and "length bm' = length bm" and "bits bm' = insert k (bits bm)"
  by (rule that [of "bm[k div 8 := (bm ! (k div 8)) OR push_bit (k mod 8) 1]"])
    (use assms in \<open>simp_all add: bitmap_set_def bits_update [where b = True]\<close>)

lemma bitmap_clear_ok:
  assumes "k div 8 < length bm"
  obtains bm' where "bitmap_clear bm k = Some bm'" and "length bm' = length bm" and "bits bm' = bits bm - {k}"
  by (rule that [of "bm[k div 8 := (bm ! (k div 8)) AND NOT (push_bit (k mod 8) 1)]"])
    (use assms in \<open>simp_all add: bitmap_clear_def bits_update [where b = False]\<close>)

lemma bitmap_test_eq: "k div 8 < length bm \<Longrightarrow> bitmap_test bm k = Some (k \<in> bits bm)"
  by (simp add: bitmap_test_def bits_def)

lemma bitmap_find_from_eq:
  "i + n \<le> 8 * length bm \<Longrightarrow> bitmap_find_from bm i n =
     Some (if {i..<i + n} \<subseteq> bits bm then NO_BIT else of_nat (LEAST k. i \<le> k \<and> k \<notin> bits bm))"
proof (induction bm i n rule: bitmap_find_from.induct)
  case (2 bm i n)
  have t: "bitmap_test bm i = Some (i \<in> bits bm)" using "2.prems" by (intro bitmap_test_eq) simp
  show ?case
  proof (cases "i \<in> bits bm")
    case True
    have "{i..<i + Suc n} = insert i {Suc i..<Suc i + n}" by auto
    then have "{i..<i + Suc n} \<subseteq> bits bm \<longleftrightarrow> {Suc i..<Suc i + n} \<subseteq> bits bm" using True by simp
    moreover have "(\<lambda>k. i \<le> k \<and> k \<notin> bits bm) = (\<lambda>k. Suc i \<le> k \<and> k \<notin> bits bm)"
      using True by (auto simp: fun_eq_iff Suc_le_eq) (metis le_neq_implies_less)
    ultimately show ?thesis using t True "2.IH" [of True] "2.prems" by simp
  next
    case False
    then have "(LEAST k. i \<le> k \<and> k \<notin> bits bm) = i" by (intro Least_equality) auto
    then show ?thesis using t False by (auto simp: subset_eq)
  qed
qed simp

text \<open>The first zero bit below the limit, or none.\<close>

lemma bitmap_find_free_eq:
  assumes "unat m \<le> 8 * length bm"
  shows "bitmap_find_free bm m =
    Some (if {..<unat m} \<subseteq> bits bm then NO_BIT else of_nat (LEAST k. k \<notin> bits bm))"
  using bitmap_find_from_eq [of 0 "unat m" bm] assms by (simp add: bitmap_find_free_def lessThan_atLeast0)

lemma Least_not_in:
  assumes "\<not> {..<m} \<subseteq> (A :: nat set)"
  shows "(LEAST k. k \<notin> A) < m" and "(LEAST k. k \<notin> A) \<notin> A" and "\<forall>j < (LEAST k. k \<notin> A). j \<in> A"
proof -
  from assms obtain k where k: "k < m" "k \<notin> A" by auto
  then show "(LEAST k. k \<notin> A) < m" by (metis (mono_tags) Least_le le_less_trans)
  show "(LEAST k. k \<notin> A) \<notin> A" by (rule LeastI [of "\<lambda>k. k \<notin> A", OF k(2)])
  show "\<forall>j < (LEAST k. k \<notin> A). j \<in> A" using not_less_Least by blast
qed

lemma bitmap_find_free_found:
  assumes "unat m \<le> 8 * length bm" and "\<not> {..<unat m} \<subseteq> bits bm"
  shows "\<exists>k. bitmap_find_free bm m = Some (of_nat k) \<and> k < unat m \<and> k \<notin> bits bm \<and> (\<forall>j < k. j \<in> bits bm)"
proof (intro exI [of _ "LEAST k. k \<notin> bits bm"] conjI)
  show "bitmap_find_free bm m = Some (of_nat (LEAST k. k \<notin> bits bm))"
    unfolding bitmap_find_free_eq [OF assms(1)] if_not_P [OF assms(2)] ..
qed (rule Least_not_in [OF assms(2)])+

section \<open>The free maps\<close>

text \<open>The bitmaps in memory are the bitmaps on the disk.\<close>

definition maps_ok :: "fs_state \<Rightarrow> bool" where
  "maps_ok s \<longleftrightarrow> rd_ok (fs_disk s) \<and> length (inode_bitmap s) = 512 \<and> length (data_bitmap s) = 512 \<and>
     blk (fs_disk s) 1 = inode_bitmap s \<and> blk (fs_disk s) 2 = data_bitmap s"

text \<open>
  Both free maps promise the same: allocation takes the lowest free number, or reports that the map is
  full and changes nothing; release gives back exactly one number.
\<close>

locale free_map =
  fixes alloc :: "'s \<Rightarrow> (u32 \<times> 's) option"
    and release :: "u32 \<Rightarrow> 's \<Rightarrow> 's option"
    and used :: "'s \<Rightarrow> nat set"
    and cap :: nat
    and inv :: "'s \<Rightarrow> bool"
  assumes alloc_law: "inv s \<Longrightarrow> \<exists>b s'. alloc s = Some (b, s') \<and> inv s' \<and>
      (if {..<cap} \<subseteq> used s then b = NO_BIT \<and> s' = s
       else b \<noteq> NO_BIT \<and> unat b < cap \<and> unat b \<notin> used s \<and> (\<forall>j < unat b. j \<in> used s) \<and> used s' = insert (unat b) (used s))"
    and release_law: "inv s \<Longrightarrow> unat b < cap \<Longrightarrow> \<exists>s'. release b s = Some s' \<and> inv s' \<and> used s' = used s - {unat b}"
begin

lemma alloc_release:
  assumes "inv s" and "alloc s = Some (b, s')" and "b \<noteq> NO_BIT"
  shows "\<exists>s''. release b s' = Some s'' \<and> inv s'' \<and> used s'' = used s"
  using alloc_law [OF assms(1)] release_law [of s' b] assms by (auto split: if_splits)

lemma release_alloc:
  assumes "inv s" and "unat b < cap" and "unat b \<in> used s" and "release b s = Some s'"
  shows "\<exists>c s''. alloc s' = Some (c, s'') \<and> c \<noteq> NO_BIT \<and> c \<le> b"
proof -
  from release_law [OF assms(1,2)] assms(4) have s': "inv s'" "used s' = used s - {unat b}" by auto
  then have "\<not> {..<cap} \<subseteq> used s'" using assms(2) by auto
  with alloc_law [OF s'(1)] obtain c s'' where c: "alloc s' = Some (c, s'')" "c \<noteq> NO_BIT" "\<forall>j < unat c. j \<in> used s'"
    by auto
  then have "\<not> unat b < unat c" using s'(2) by blast
  then show ?thesis using c by (auto simp: word_le_nat_alt)
qed

end

lemma of_nat_not_NO_BIT: "k < 4096 \<Longrightarrow> (of_nat k :: u32) \<noteq> NO_BIT"
proof
  assume "k < 4096" and "(of_nat k :: u32) = NO_BIT"
  moreover have "unat (of_nat k :: u32) = k" using \<open>k < 4096\<close> by (simp add: unat_of_nat_u32)
  ultimately show False by simp
qed

lemma alloc_data_block_found:
  assumes "maps_ok s" and "\<not> {..<unat FS_MAX_DATA_BLOCKS} \<subseteq> bits (data_bitmap s)"
  obtains b d bm where "alloc_data_block s = Some (b, s\<lparr>fs_disk := d,
      superblock := (superblock s)\<lparr>sb_free_blocks := sb_free_blocks (superblock s) - 1\<rparr>, data_bitmap := bm\<rparr>)"
    and "b \<noteq> NO_BIT" and "unat b < 1981" and "unat b \<notin> bits (data_bitmap s)" and "\<forall>j < unat b. j \<in> bits (data_bitmap s)"
    and "bits bm = insert (unat b) (bits (data_bitmap s))" and "length bm = 512" and "rd_ok d" and "blk d 2 = bm"
    and "\<forall>c. c \<noteq> 2 \<longrightarrow> blk d c = blk (fs_disk s) c"
proof -
  have len: "length (data_bitmap s) = 512" "rd_ok (fs_disk s)" using assms by (auto simp: maps_ok_def)
  obtain k where k: "bitmap_find_free (data_bitmap s) FS_MAX_DATA_BLOCKS = Some (of_nat k)" "k < 1981"
    "k \<notin> bits (data_bitmap s)" "\<forall>j < k. j \<in> bits (data_bitmap s)"
    using bitmap_find_free_found [of FS_MAX_DATA_BLOCKS "data_bitmap s"] len assms(2) by auto
  then have ne: "(of_nat k :: u32) \<noteq> NO_BIT" and un: "unat (of_nat k :: u32) = k"
    using of_nat_not_NO_BIT [of k] by (auto simp: unat_of_nat_u32)
  have "k div 8 < length (data_bitmap s)" using k(2) len by simp
  then obtain bm where bm: "bitmap_set (data_bitmap s) k = Some bm" "length bm = 512" "bits bm = insert k (bits (data_bitmap s))"
    using len by (metis bitmap_set_ok)
  let ?s = "s\<lparr>superblock := (superblock s)\<lparr>sb_free_blocks := sb_free_blocks (superblock s) - 1\<rparr>, data_bitmap := bm\<rparr>"
  obtain d where d: "write_block 2 bm ?s = Some (?s\<lparr>fs_disk := d\<rparr>)" "rd_ok d" "blk d 2 = bm" "\<forall>c. c \<noteq> 2 \<longrightarrow> blk d c = blk (fs_disk s) c"
    using write_block_ok [of ?s 2 bm] len bm(2) by auto
  have "alloc_data_block s = Some (of_nat k, ?s\<lparr>fs_disk := d\<rparr>)"
    using k(1) ne un bm(1) d(1) by (simp add: alloc_data_block_def)
  then show ?thesis
    using that [of "of_nat k" bm d] ne k un bm(2,3) d(2-4) by simp
qed

lemma alloc_data_block_full:
  "maps_ok s \<Longrightarrow> {..<unat FS_MAX_DATA_BLOCKS} \<subseteq> bits (data_bitmap s) \<Longrightarrow> alloc_data_block s = Some (NO_BIT, s)"
  by (simp add: alloc_data_block_def bitmap_find_free_eq maps_ok_def)

lemma alloc_inode_found:
  assumes "maps_ok s" and "\<not> {..<unat FS_MAX_INODES} \<subseteq> bits (inode_bitmap s)"
  obtains b d bm where "alloc_inode s = Some (b, s\<lparr>fs_disk := d,
      superblock := (superblock s)\<lparr>sb_free_inodes := sb_free_inodes (superblock s) - 1\<rparr>, inode_bitmap := bm\<rparr>)"
    and "b \<noteq> NO_BIT" and "unat b < 512" and "unat b \<notin> bits (inode_bitmap s)" and "\<forall>j < unat b. j \<in> bits (inode_bitmap s)"
    and "bits bm = insert (unat b) (bits (inode_bitmap s))" and "length bm = 512" and "rd_ok d" and "blk d 1 = bm"
    and "\<forall>c. c \<noteq> 1 \<longrightarrow> blk d c = blk (fs_disk s) c"
proof -
  have len: "length (inode_bitmap s) = 512" "rd_ok (fs_disk s)" using assms by (auto simp: maps_ok_def)
  obtain k where k: "bitmap_find_free (inode_bitmap s) FS_MAX_INODES = Some (of_nat k)" "k < 512"
    "k \<notin> bits (inode_bitmap s)" "\<forall>j < k. j \<in> bits (inode_bitmap s)"
    using bitmap_find_free_found [of FS_MAX_INODES "inode_bitmap s"] len assms(2) by auto
  then have ne: "(of_nat k :: u32) \<noteq> NO_BIT" and un: "unat (of_nat k :: u32) = k"
    using of_nat_not_NO_BIT [of k] by (auto simp: unat_of_nat_u32)
  have "k div 8 < length (inode_bitmap s)" using k(2) len by simp
  then obtain bm where bm: "bitmap_set (inode_bitmap s) k = Some bm" "length bm = 512" "bits bm = insert k (bits (inode_bitmap s))"
    using len by (metis bitmap_set_ok)
  let ?s = "s\<lparr>superblock := (superblock s)\<lparr>sb_free_inodes := sb_free_inodes (superblock s) - 1\<rparr>, inode_bitmap := bm\<rparr>"
  obtain d where d: "write_block 1 bm ?s = Some (?s\<lparr>fs_disk := d\<rparr>)" "rd_ok d" "blk d 1 = bm" "\<forall>c. c \<noteq> 1 \<longrightarrow> blk d c = blk (fs_disk s) c"
    using write_block_ok [of ?s 1 bm] len bm(2) by auto
  have "alloc_inode s = Some (of_nat k, ?s\<lparr>fs_disk := d\<rparr>)"
    using k(1) ne un bm(1) d(1) by (simp add: alloc_inode_def)
  then show ?thesis
    using that [of "of_nat k" bm d] ne k un bm(2,3) d(2-4) by simp
qed

lemma alloc_inode_full:
  "maps_ok s \<Longrightarrow> {..<unat FS_MAX_INODES} \<subseteq> bits (inode_bitmap s) \<Longrightarrow> alloc_inode s = Some (NO_BIT, s)"
  by (simp add: alloc_inode_def bitmap_find_free_eq maps_ok_def)

lemma free_data_block_ok:
  assumes "maps_ok s" and "unat b < 4096"
  obtains d bm where "free_data_block b s = Some (s\<lparr>fs_disk := d,
      superblock := (superblock s)\<lparr>sb_free_blocks := sb_free_blocks (superblock s) + 1\<rparr>, data_bitmap := bm\<rparr>)"
    and "bits bm = bits (data_bitmap s) - {unat b}" and "length bm = 512" and "rd_ok d" and "blk d 2 = bm"
    and "\<forall>c. c \<noteq> 2 \<longrightarrow> blk d c = blk (fs_disk s) c"
proof -
  have len: "length (data_bitmap s) = 512" "rd_ok (fs_disk s)" using assms by (auto simp: maps_ok_def)
  then have "unat b div 8 < length (data_bitmap s)" using assms(2) by simp
  then obtain bm where bm: "bitmap_clear (data_bitmap s) (unat b) = Some bm" "length bm = 512" "bits bm = bits (data_bitmap s) - {unat b}"
    using len by (metis bitmap_clear_ok)
  let ?s = "s\<lparr>superblock := (superblock s)\<lparr>sb_free_blocks := sb_free_blocks (superblock s) + 1\<rparr>, data_bitmap := bm\<rparr>"
  obtain d where d: "write_block 2 bm ?s = Some (?s\<lparr>fs_disk := d\<rparr>)" "rd_ok d" "blk d 2 = bm" "\<forall>c. c \<noteq> 2 \<longrightarrow> blk d c = blk (fs_disk s) c"
    using write_block_ok [of ?s 2 bm] len bm(2) by auto
  have "free_data_block b s = Some (?s\<lparr>fs_disk := d\<rparr>)" using bm(1) d(1) by (simp add: free_data_block_def)
  then show ?thesis using that [of bm d] bm(2,3) d(2-4) by simp
qed

lemma free_inode_ok:
  assumes "maps_ok s" and "unat b < 4096"
  obtains d bm where "free_inode b s = Some (s\<lparr>fs_disk := d,
      superblock := (superblock s)\<lparr>sb_free_inodes := sb_free_inodes (superblock s) + 1\<rparr>, inode_bitmap := bm\<rparr>)"
    and "bits bm = bits (inode_bitmap s) - {unat b}" and "length bm = 512" and "rd_ok d" and "blk d 1 = bm"
    and "\<forall>c. c \<noteq> 1 \<longrightarrow> blk d c = blk (fs_disk s) c"
proof -
  have len: "length (inode_bitmap s) = 512" "rd_ok (fs_disk s)" using assms by (auto simp: maps_ok_def)
  then have "unat b div 8 < length (inode_bitmap s)" using assms(2) by simp
  then obtain bm where bm: "bitmap_clear (inode_bitmap s) (unat b) = Some bm" "length bm = 512" "bits bm = bits (inode_bitmap s) - {unat b}"
    using len by (metis bitmap_clear_ok)
  let ?s = "s\<lparr>superblock := (superblock s)\<lparr>sb_free_inodes := sb_free_inodes (superblock s) + 1\<rparr>, inode_bitmap := bm\<rparr>"
  obtain d where d: "write_block 1 bm ?s = Some (?s\<lparr>fs_disk := d\<rparr>)" "rd_ok d" "blk d 1 = bm" "\<forall>c. c \<noteq> 1 \<longrightarrow> blk d c = blk (fs_disk s) c"
    using write_block_ok [of ?s 1 bm] len bm(2) by auto
  have "free_inode b s = Some (?s\<lparr>fs_disk := d\<rparr>)" using bm(1) d(1) by (simp add: free_inode_def)
  then show ?thesis using that [of bm d] bm(2,3) d(2-4) by simp
qed

lemma maps_ok_update:
  "rd_ok d \<Longrightarrow> length m = 512 \<Longrightarrow> blk d 2 = m \<Longrightarrow> \<forall>c. c \<noteq> 2 \<longrightarrow> blk d c = blk (fs_disk s) c \<Longrightarrow> maps_ok s \<Longrightarrow>
     maps_ok (s\<lparr>fs_disk := d, superblock := sb, data_bitmap := m\<rparr>)"
  "rd_ok d \<Longrightarrow> length m = 512 \<Longrightarrow> blk d 1 = m \<Longrightarrow> \<forall>c. c \<noteq> 1 \<longrightarrow> blk d c = blk (fs_disk s) c \<Longrightarrow> maps_ok s \<Longrightarrow>
     maps_ok (s\<lparr>fs_disk := d, superblock := sb, inode_bitmap := m\<rparr>)"
  by (simp_all add: maps_ok_def)

interpretation data_map: free_map alloc_data_block free_data_block "\<lambda>s. bits (data_bitmap s)" 1981 maps_ok
proof (unfold_locales, goal_cases)
  case (1 s)
  show ?case
  proof (cases "{..<1981} \<subseteq> bits (data_bitmap s)")
    case True
    then show ?thesis using alloc_data_block_full [OF 1] 1 by simp
  next
    case False
    then have "\<not> {..<unat FS_MAX_DATA_BLOCKS} \<subseteq> bits (data_bitmap s)" by simp
    from 1 this show ?thesis
      by (rule alloc_data_block_found) (use False 1 in \<open>auto intro!: maps_ok_update simp: not_le\<close>)
  qed
next
  case (2 s b)
  from 2(2) have "unat b < 4096" by simp
  from 2(1) this show ?case by (rule free_data_block_ok) (use 2 in \<open>auto intro!: maps_ok_update\<close>)
qed

interpretation inode_map: free_map alloc_inode free_inode "\<lambda>s. bits (inode_bitmap s)" 512 maps_ok
proof (unfold_locales, goal_cases)
  case (1 s)
  show ?case
  proof (cases "{..<512} \<subseteq> bits (inode_bitmap s)")
    case True
    then show ?thesis using alloc_inode_full [OF 1] 1 by simp
  next
    case False
    then have "\<not> {..<unat FS_MAX_INODES} \<subseteq> bits (inode_bitmap s)" by simp
    from 1 this show ?thesis
      by (rule alloc_inode_found) (use False 1 in \<open>auto intro!: maps_ok_update simp: not_le\<close>)
  qed
next
  case (2 s b)
  from 2(2) have "unat b < 4096" by simp
  from 2(1) this show ?case by (rule free_inode_ok) (use 2 in \<open>auto intro!: maps_ok_update\<close>)
qed

section \<open>A blank file system state\<close>

definition ready_disk :: ramdisk_t where
  "ready_disk = \<lparr>rd_data = 0x200010, rd_bytes = (\<lambda>_. 0), rd_size = RAMDISK_SIZE, rd_block_size = RAMDISK_BLOCK_SIZE,
     rd_block_count = RAMDISK_BLOCK_COUNT, rd_initialized = 1\<rparr>"

definition blank_fs :: fs_state where
  "blank_fs = \<lparr>fs_heap = zero_heap, fs_disk = ready_disk, ticks = 7, superblock = new_superblock,
     inode_bitmap_ptr = 0, inode_bitmap = replicate 512 0, data_bitmap_ptr = 0, data_bitmap = replicate 512 0,
     open_files = replicate 16 \<lparr>f_inode = 0, f_position = 0, f_flags = 0, f_in_use = 0\<rparr>, fs_initialized = 0\<rparr>"

lemma ready_disk_ok [simp]: "rd_ok ready_disk"
  by (simp add: rd_ok_def ready_disk_def)

lemma blk_ready_disk [simp]: "blk ready_disk b = replicate 512 0"
  by (rule nth_equalityI) (simp_all add: blk_def ready_disk_def)

lemma blank_fs_ok: "maps_ok blank_fs"
  by (simp add: maps_ok_def blank_fs_def)

lemma can_alloc_fresh: "can_alloc 8 [(HEAP_START, HEAP_SIZE, True)]"
proof -
  have "8 = Suc (Suc (Suc (Suc (Suc (Suc (Suc (Suc 0)))))))" by simp
  then show ?thesis by (rule ssubst) simp
qed

lemma blank_fs_mem: "n \<le> 8 \<Longrightarrow> fs_mem n blank_fs [(HEAP_START, HEAP_SIZE, True)]"
  using can_alloc_mono [OF can_alloc_fresh] zero_heap_ok by (auto simp: fs_mem_def blank_fs_def)

lemma bits_replicate_0 [simp]: "bits (replicate n 0) = {}"
  by (auto simp: bits_def)

lemma blank_fs_simps [simp]:
  "fs_disk blank_fs = ready_disk" "data_bitmap blank_fs = replicate 512 0" "inode_bitmap blank_fs = replicate 512 0"
  "superblock blank_fs = new_superblock"
  by (simp_all add: blank_fs_def)

section \<open>Properties\<close>

text \<open>C12: An inode reads back as it was written, field by field, and writing it changes no other inode;
  the temporary buffers leave the heap layout as it was.\<close>

theorem inode_write_read:
  assumes "rd_ok (fs_disk s)" and "fs_mem 1 s bs" and "n < FS_MAX_INODES" and "m < FS_MAX_INODES" and "wf_inode i"
  shows "\<exists>s1 s2 j. write_inode n i s = Some (0, s1) \<and> read_inode m s = Some (Some j, s2) \<and>
    (\<exists>s3. read_inode m s1 = Some (Some (if m = n then i else j), s3) \<and> heap_ok (fs_heap s3) bs)"
proof -
  obtain h d where w: "write_inode n i s = Some (0, s\<lparr>fs_heap := h, fs_disk := d\<rparr>)" "heap_ok h bs" "rd_ok d"
    "inode_at d n = i" "\<forall>m < FS_MAX_INODES. m \<noteq> n \<longrightarrow> inode_at d m = inode_at (fs_disk s) m"
    using write_inode_ok [OF assms(1,2,3,5)] by metis
  let ?s = "s\<lparr>fs_heap := h, fs_disk := d\<rparr>"
  have "fs_mem 1 ?s bs" using assms(2) w(2) by (simp add: fs_mem_def)
  then obtain h1 where "read_inode m ?s = Some (Some (inode_at d m), ?s\<lparr>fs_heap := h1\<rparr>)" "heap_ok h1 bs"
    using read_inode_ok [of ?s bs m] w(3) assms(4) by auto
  moreover obtain h2 where "read_inode m s = Some (Some (inode_at (fs_disk s) m), s\<lparr>fs_heap := h2\<rparr>)"
    using read_inode_ok [OF assms(1,2,4)] by metis
  moreover have "inode_at d m = (if m = n then i else inode_at (fs_disk s) m)" using w(4,5) assms(4) by simp
  ultimately show ?thesis using w(1) by fastforce
qed

lemma inode_write_read_witness:
  "\<exists>s1 s3. write_inode 5 (new_inode 7 9) blank_fs = Some (0, s1) \<and> read_inode 5 s1 = Some (Some (new_inode 7 9), s3)"
proof -
  have "wf_inode (new_inode 7 9)" by (simp add: wf_inode_def new_inode_def)
  with inode_write_read [of blank_fs _ 5 5 "new_inode 7 9", OF _ blank_fs_mem] show ?thesis by auto
qed

text \<open>The inode table overlaps the data area: \<open>sizeof(fs_inode_t)\<close> is 80, so a block holds six inodes, and
  writing any inode from 384 on stores its 80 bytes into data block \<open>n / 6 - 64\<close>.\<close>

theorem inode_table_overruns:
  assumes "rd_ok (fs_disk s)" and "fs_mem 1 s bs" and "384 \<le> n" and "n < FS_MAX_INODES" and "wf_inode i"
  shows "\<exists>s1. write_inode n i s = Some (0, s1) \<and>
    (let b = FS_DATA_BLOCKS_START + (n div 6 - 64) in
     b < RAMDISK_BLOCK_COUNT \<and> inode_at (fs_disk s1) n = i \<and>
     decode_inode (drop (80 * (unat n mod 6)) (blk (fs_disk s1) b)) = i)"
proof -
  obtain h d where w: "write_inode n i s = Some (0, s\<lparr>fs_heap := h, fs_disk := d\<rparr>)" "inode_at d n = i"
    using write_inode_ok [OF assms(1,2,4,5)] by metis
  have "inode_block n = FS_DATA_BLOCKS_START + (n div 6 - 64)" by (simp add: inode_block_def)
  then show ?thesis using w inode_block_less [OF assms(4)] by (simp add: inode_at_def unat_inode_offset Let_def)
qed

lemma inode_table_overruns_witness:
  "\<exists>s1. write_inode 390 (new_inode 7 9) blank_fs = Some (0, s1) \<and>
     decode_inode (blk (fs_disk s1) (FS_DATA_BLOCKS_START + 1)) = new_inode 7 9"
proof -
  have "wf_inode (new_inode 7 9)" by (simp add: wf_inode_def new_inode_def)
  with inode_table_overruns [of blank_fs _ 390 "new_inode 7 9", OF _ blank_fs_mem] show ?thesis
    by (auto simp: Let_def)
qed

text \<open>\<open>alloc_data_block\<close> reports a full disk without effect, or takes the lowest free block and stores
  the bitmap on the disk; \<open>free_data_block\<close> of that block then restores the bitmap.\<close>

theorem data_block_alloc_free:
  assumes "maps_ok s"
  shows "\<exists>b s'. alloc_data_block s = Some (b, s') \<and> maps_ok s' \<and>
    (if {..<1981} \<subseteq> bits (data_bitmap s) then b = NO_BIT \<and> s' = s
     else unat b < 1981 \<and> unat b \<notin> bits (data_bitmap s) \<and> (\<forall>j < unat b. j \<in> bits (data_bitmap s)) \<and>
       bits (data_bitmap s') = insert (unat b) (bits (data_bitmap s)) \<and>
       (\<exists>s''. free_data_block b s' = Some s'' \<and> maps_ok s'' \<and> bits (data_bitmap s'') = bits (data_bitmap s)))"
  using data_map.alloc_law [OF assms] data_map.alloc_release [OF assms] by fastforce

lemma data_block_alloc_free_witness:
  "maps_ok blank_fs \<and> (\<exists>b s'. alloc_data_block blank_fs = Some (b, s') \<and> maps_ok s' \<and> unat b = 0)"
  using data_block_alloc_free [OF blank_fs_ok] blank_fs_ok
  by (auto simp: lessThan_empty_iff)

text \<open>\<open>alloc_inode\<close> and \<open>free_inode\<close> keep the same contract on the inode bitmap.\<close>

theorem inode_alloc_free:
  assumes "maps_ok s"
  shows "\<exists>b s'. alloc_inode s = Some (b, s') \<and> maps_ok s' \<and>
    (if {..<512} \<subseteq> bits (inode_bitmap s) then b = NO_BIT \<and> s' = s
     else unat b < 512 \<and> unat b \<notin> bits (inode_bitmap s) \<and> (\<forall>j < unat b. j \<in> bits (inode_bitmap s)) \<and>
       bits (inode_bitmap s') = insert (unat b) (bits (inode_bitmap s)) \<and>
       (\<exists>s''. free_inode b s' = Some s'' \<and> maps_ok s'' \<and> bits (inode_bitmap s'') = bits (inode_bitmap s)))"
  using inode_map.alloc_law [OF assms] inode_map.alloc_release [OF assms] by fastforce

lemma inode_alloc_free_witness:
  "maps_ok blank_fs \<and> (\<exists>b s'. alloc_inode blank_fs = Some (b, s') \<and> maps_ok s' \<and> unat b = 0)"
  using inode_alloc_free [OF blank_fs_ok] blank_fs_ok
  by (auto simp: lessThan_empty_iff)

end
