(* ===== verification/Fs_File.thy ===== *)
theory Fs_File
  imports Fs_Inode
begin

text \<open>
  Reading and writing the contents of a file. An inode's ten block numbers describe a sparse array of
  5120 bytes, \<open>fbyte\<close>; \<open>wrote\<close> says what a run of the write loop may change: it stores a range of
  positions, keeps every other byte of the file, every other file and every block before the data area but the
  bitmap. The loops of \<open>fs_read\<close> and \<open>fs_write\<close> are shown to compute exactly that.
\<close>

declare read_loop.simps [simp del] write_loop.simps [simp del]

section \<open>Files as sparse arrays\<close>

definition fbyte :: "ramdisk_t \<Rightarrow> fs_inode_t \<Rightarrow> nat \<Rightarrow> u8" where
  "fbyte d i k = blk d (FS_DATA_BLOCKS_START + i_blocks i ! (k div 512)) ! (k mod 512)"

text \<open>The blocks of a file are allocated and not shared; block 0 counts as taken, so that no file gets it.\<close>

definition good :: "fs_state \<Rightarrow> fs_inode_t \<Rightarrow> bool" where
  "good s i \<longleftrightarrow> wf_inode i \<and> 0 \<in> bits (data_bitmap s) \<and>
     (\<forall>k < 10. unat (i_blocks i ! k) < 1981 \<and> unat (i_blocks i ! k) \<in> bits (data_bitmap s)) \<and>
     (\<forall>j < 10. \<forall>k < 10. i_blocks i ! j = i_blocks i ! k \<and> i_blocks i ! k \<noteq> 0 \<longrightarrow> j = k)"

lemma data_block_less: "unat b < 1981 \<Longrightarrow> FS_DATA_BLOCKS_START + b < RAMDISK_BLOCK_COUNT"
  by (simp add: word_less_nat_alt unat_add_u32)

lemma unat_data_block: "unat b < 1981 \<Longrightarrow> unat (FS_DATA_BLOCKS_START + b) = 67 + unat b"
  by (simp add: unat_add_u32)

lemma goodD:
  assumes "good s i" and "k < 10"
  shows "unat (i_blocks i ! k) < 1981" and "unat (i_blocks i ! k) \<in> bits (data_bitmap s)"
    and "FS_DATA_BLOCKS_START + i_blocks i ! k < RAMDISK_BLOCK_COUNT" and "length (i_blocks i) = 10"
  using assms data_block_less by (auto simp: good_def wf_inode_def)

lemma good_inj:
  assumes "good s i" and "j < 10" and "k < 10" and "i_blocks i ! k \<noteq> 0" and "i_blocks i ! j = i_blocks i ! k"
  shows "j = k"
  using assms by (auto simp: good_def)

text \<open>What the loops leave alone of the state.\<close>

definition rest_eq :: "fs_state \<Rightarrow> fs_state \<Rightarrow> bool" where
  "rest_eq s s' \<longleftrightarrow> s' = s\<lparr>fs_disk := fs_disk s', superblock := superblock s', data_bitmap := data_bitmap s'\<rparr>"

lemma rest_eqD:
  assumes "rest_eq s s'"
  shows "fs_heap s' = fs_heap s" and "open_files s' = open_files s" and "ticks s' = ticks s"
    and "fs_initialized s' = fs_initialized s" and "inode_bitmap s' = inode_bitmap s"
  by (subst assms [unfolded rest_eq_def], simp)+

lemma rest_eq_refl [simp]: "rest_eq s s"
  by (simp add: rest_eq_def)

lemma rest_eq_update [simp]:
  "rest_eq s (s\<lparr>fs_disk := d\<rparr>)" "rest_eq s (s\<lparr>fs_disk := d, superblock := b, data_bitmap := m\<rparr>)"
  by (simp_all add: rest_eq_def)

lemma rest_eq_trans: "rest_eq s s' \<Longrightarrow> rest_eq s' s'' \<Longrightarrow> rest_eq s s''"
  unfolding rest_eq_def by (cases s; cases s'; cases s'') simp

text \<open>The blocks taken from the free map are the ones the inode gained.\<close>

definition nblocks :: "fs_inode_t \<Rightarrow> nat" where
  "nblocks i = length (filter (\<lambda>b. b \<noteq> 0) (i_blocks i))"

definition took :: "fs_state \<Rightarrow> fs_inode_t \<Rightarrow> fs_state \<Rightarrow> fs_inode_t \<Rightarrow> bool" where
  "took s i s' i' \<longleftrightarrow> bits (data_bitmap s) \<subseteq> bits (data_bitmap s') \<and>
     card (bits (data_bitmap s')) + nblocks i = card (bits (data_bitmap s)) + nblocks i'"

lemma finite_bits [simp]: "finite (bits bm)"
proof (rule finite_subset)
  show "bits bm \<subseteq> {..<8 * length bm}" by (auto simp: bits_def)
qed simp

lemma took_refl [simp]: "took s i s i"
  by (simp add: took_def)

lemma took_trans: "took s i s1 i1 \<Longrightarrow> took s1 i1 s2 i2 \<Longrightarrow> took s i s2 i2"
  by (auto simp: took_def)

lemma nblocks_update:
  assumes "k < length (i_blocks i)" and "i_blocks i ! k = 0" and "b \<noteq> 0"
  shows "nblocks (i\<lparr>i_blocks := (i_blocks i)[k := b]\<rparr>) = Suc (nblocks i)"
proof -
  have "i_blocks i = take k (i_blocks i) @ 0 # drop (Suc k) (i_blocks i)" using id_take_nth_drop [OF assms(1)] assms(2) by simp
  then have "nblocks i = length (filter (\<lambda>b. b \<noteq> 0) (take k (i_blocks i) @ 0 # drop (Suc k) (i_blocks i)))"
    unfolding nblocks_def by (rule arg_cong)
  then show ?thesis using assms(1,3) by (simp add: nblocks_def upd_conv_take_nth_drop)
qed

lemma nblocks_le: "wf_inode i \<Longrightarrow> nblocks i \<le> 10"
  using length_filter_le [of "\<lambda>b. b \<noteq> 0" "i_blocks i"] by (simp add: nblocks_def wf_inode_def)

definition wrote :: "(nat \<Rightarrow> u8) \<Rightarrow> fs_state \<Rightarrow> fs_inode_t \<Rightarrow> nat \<Rightarrow> fs_state \<Rightarrow> fs_inode_t \<Rightarrow> nat \<Rightarrow> bool" where
  "wrote f s i P s' i' P' \<longleftrightarrow>
     maps_ok s' \<and> good s' i' \<and> rest_eq s s' \<and> P \<le> P' \<and> i_mode i' = i_mode i \<and>
     unat (i_size i') = (if P < P' then max (unat (i_size i)) P' else unat (i_size i)) \<and>
     (\<forall>k. P \<le> k \<and> k < P' \<longrightarrow> k < 5120 \<and> i_blocks i' ! (k div 512) \<noteq> 0 \<and> fbyte (fs_disk s') i' k = f k) \<and>
     (\<forall>k < 5120. i_blocks i ! (k div 512) \<noteq> 0 \<and> \<not> (P \<le> k \<and> k < P') \<longrightarrow>
        i_blocks i' ! (k div 512) \<noteq> 0 \<and> fbyte (fs_disk s') i' k = fbyte (fs_disk s) i k) \<and>
     (\<forall>c < 67. c \<noteq> 2 \<longrightarrow> blk (fs_disk s') c = blk (fs_disk s) c) \<and>
     took s i s' i' \<and>
     (\<forall>b \<in> set (i_blocks i'). b \<in> set (i_blocks i) \<or> unat b \<notin> bits (data_bitmap s)) \<and>
     (\<forall>b. unat b < 1981 \<and> unat b \<in> bits (data_bitmap s) \<and> b \<notin> set (i_blocks i) \<longrightarrow>
        blk (fs_disk s') (FS_DATA_BLOCKS_START + b) = blk (fs_disk s) (FS_DATA_BLOCKS_START + b))"

lemma wrote_refl: "maps_ok s \<Longrightarrow> good s i \<Longrightarrow> wrote f s i P s i P"
  by (auto simp: wrote_def)

lemma wroteD:
  assumes "wrote f s i P s' i' P'"
  shows "maps_ok s'" and "good s' i'" and "rest_eq s s'" and "P \<le> P'" and "i_mode i' = i_mode i"
    and "unat (i_size i') = (if P < P' then max (unat (i_size i)) P' else unat (i_size i))"
    and "\<And>k. P \<le> k \<Longrightarrow> k < P' \<Longrightarrow> k < 5120 \<and> i_blocks i' ! (k div 512) \<noteq> 0 \<and> fbyte (fs_disk s') i' k = f k"
    and "\<And>k. k < 5120 \<Longrightarrow> i_blocks i ! (k div 512) \<noteq> 0 \<Longrightarrow> \<not> (P \<le> k \<and> k < P') \<Longrightarrow>
        i_blocks i' ! (k div 512) \<noteq> 0 \<and> fbyte (fs_disk s') i' k = fbyte (fs_disk s) i k"
    and "\<And>c. c < 67 \<Longrightarrow> c \<noteq> 2 \<Longrightarrow> blk (fs_disk s') c = blk (fs_disk s) c"
    and "bits (data_bitmap s) \<subseteq> bits (data_bitmap s')"
    and "\<And>b. b \<in> set (i_blocks i') \<Longrightarrow> b \<in> set (i_blocks i) \<or> unat b \<notin> bits (data_bitmap s)"
    and "\<And>b. unat b < 1981 \<Longrightarrow> unat b \<in> bits (data_bitmap s) \<Longrightarrow> b \<notin> set (i_blocks i) \<Longrightarrow>
        blk (fs_disk s') (FS_DATA_BLOCKS_START + b) = blk (fs_disk s) (FS_DATA_BLOCKS_START + b)"
    and "took s i s' i'"
  using assms unfolding wrote_def by (simp_all add: took_def)

lemma wrote_trans:
  assumes 1: "wrote f s i P s1 i1 P1" and 2: "wrote f s1 i1 P1 s2 i2 P2"
  shows "wrote f s i P s2 i2 P2"
proof -
  note le = wroteD(4) [OF 1] wroteD(4) [OF 2]
  have new: "k < 5120 \<and> i_blocks i2 ! (k div 512) \<noteq> 0 \<and> fbyte (fs_disk s2) i2 k = f k" if "P \<le> k" "k < P2" for k
  proof (cases "k < P1")
    case True
    then show ?thesis using wroteD(7) [OF 1 that(1) True] wroteD(8) [OF 2, of k] by simp
  next
    case False
    then show ?thesis using wroteD(7) [OF 2, of k] that by simp
  qed
  have old: "i_blocks i2 ! (k div 512) \<noteq> 0 \<and> fbyte (fs_disk s2) i2 k = fbyte (fs_disk s) i k"
    if "k < 5120" "i_blocks i ! (k div 512) \<noteq> 0" "\<not> (P \<le> k \<and> k < P2)" for k
  proof -
    have "\<not> (P \<le> k \<and> k < P1)" "\<not> (P1 \<le> k \<and> k < P2)" using that(3) le by auto
    then show ?thesis using wroteD(8) [OF 1 that(1,2)] wroteD(8) [OF 2 that(1)] by simp
  qed
  note sub = wroteD(10) [OF 1] wroteD(10) [OF 2]
  have blocks: "b \<in> set (i_blocks i) \<or> unat b \<notin> bits (data_bitmap s)" if "b \<in> set (i_blocks i2)" for b
    using wroteD(11) [OF 2 that] wroteD(11) [OF 1, of b] sub(1) by blast
  have others: "blk (fs_disk s2) (FS_DATA_BLOCKS_START + b) = blk (fs_disk s) (FS_DATA_BLOCKS_START + b)"
    if "unat b < 1981" "unat b \<in> bits (data_bitmap s)" "b \<notin> set (i_blocks i)" for b
  proof -
    have "b \<notin> set (i_blocks i1)" "unat b \<in> bits (data_bitmap s1)" using wroteD(11) [OF 1, of b] that sub by auto
    then show ?thesis using wroteD(12) [OF 1 that] wroteD(12) [OF 2 that(1)] by simp
  qed
  have size: "unat (i_size i2) = (if P < P2 then max (unat (i_size i)) P2 else unat (i_size i))"
    using wroteD(6) [OF 1] wroteD(6) [OF 2] le by (auto split: if_splits)
  have sys: "blk (fs_disk s2) c = blk (fs_disk s) c" if "c < 67" "c \<noteq> 2" for c
    using wroteD(9) [OF 1 that] wroteD(9) [OF 2 that] by simp
  show ?thesis unfolding wrote_def
    using wroteD(1,2,5) [OF 2] wroteD(5) [OF 1] rest_eq_trans [OF wroteD(3) [OF 1] wroteD(3) [OF 2]] le size new old sys
      took_trans [OF wroteD(13) [OF 1] wroteD(13) [OF 2]] blocks others by simp
qed

section \<open>One pass of the write loop\<close>

lemma memset_zero: "length data = n \<Longrightarrow> memset data 0 n = Some (replicate n 0)"
  by (induction data arbitrary: n) (auto simp: Suc_length_conv)

lemma good_new_block:
  assumes "good s i" and "k < 10" and "i_blocks i ! k = 0" and "unat b < 1981" and "unat b \<notin> bits (data_bitmap s)"
    and "bits (data_bitmap s') = insert (unat b) (bits (data_bitmap s))"
  shows "good s' (i\<lparr>i_blocks := (i_blocks i)[k := b]\<rparr>)" and "b \<noteq> 0" and "b \<notin> set (i_blocks i)"
proof -
  note g = goodD [OF assms(1)]
  have z: "0 \<in> bits (data_bitmap s)" using assms(1) by (simp add: good_def)
  then show "b \<noteq> 0" using assms(5) by auto
  have ne: "i_blocks i ! j \<noteq> b" if "j < 10" for j using g(2) [OF that] assms(5) by auto
  then show "b \<notin> set (i_blocks i)" using g(4) [OF assms(2)] by (auto simp: in_set_conv_nth)
  show "good s' (i\<lparr>i_blocks := (i_blocks i)[k := b]\<rparr>)"
    using assms(1,2,4,6) g(4) [OF assms(2)] z ne by (auto simp: good_def wf_inode_def nth_list_update)
qed

text \<open>The block under the position: the old one, or a new one filled with zeros, or none when the disk is full.\<close>

lemma get_file_block_ok:
  assumes "maps_ok s" and "good s i" and "k < 10" and "length data = 512"
  obtains (full) "get_file_block s i k data = Some (None, s)" and "{..<1981} \<subseteq> bits (data_bitmap s)"
  | (old) "i_blocks i ! k \<noteq> 0"
      and "get_file_block s i k data = Some (Some (i, blk (fs_disk s) (FS_DATA_BLOCKS_START + i_blocks i ! k)), s)"
  | (new) b d sb m where "i_blocks i ! k = 0" and "unat b < 1981" and "unat b \<notin> bits (data_bitmap s)"
      and "get_file_block s i k data = Some (Some (i\<lparr>i_blocks := (i_blocks i)[k := b]\<rparr>, replicate 512 0),
             s\<lparr>fs_disk := d, superblock := sb, data_bitmap := m\<rparr>)"
      and "bits m = insert (unat b) (bits (data_bitmap s))" and "maps_ok (s\<lparr>fs_disk := d, superblock := sb, data_bitmap := m\<rparr>)"
      and "\<And>c. c \<noteq> 2 \<Longrightarrow> blk d c = blk (fs_disk s) c"
proof (cases "i_blocks i ! k = 0")
  case True
  show ?thesis
  proof (cases "{..<unat FS_MAX_DATA_BLOCKS} \<subseteq> bits (data_bitmap s)")
    case f: True
    then have "{..<1981} \<subseteq> bits (data_bitmap s)" by simp
    from full [OF _ this] show ?thesis
      using alloc_data_block_full [OF assms(1) f] True by (simp add: get_file_block_def)
  next
    case False
    from assms(1) this show ?thesis
    proof (rule alloc_data_block_found, goal_cases)
      case (1 b d m)
      show ?case
        by (rule new [where d = d and sb = "(superblock s)\<lparr>sb_free_blocks := sb_free_blocks (superblock s) - 1\<rparr>", OF True 1(3,4) _ 1(6)])
          (use 1 True assms in \<open>simp_all add: get_file_block_def memset_zero maps_ok_update(1)\<close>)
    qed
  qed
next
  case False
  have rd: "rd_ok (fs_disk s)" using assms(1) by (simp add: maps_ok_def)
  show ?thesis
    by (rule old [OF False])
      (use read_block_ok [OF rd goodD(3) [OF assms(2,3)] assms(4)] False in \<open>simp add: get_file_block_def\<close>)
qed

text \<open>Storing into the block under the position.\<close>

lemma fbyte_frame:
  assumes "i_blocks i' ! (k div 512) = i_blocks i ! (k div 512)"
    and "blk d' (FS_DATA_BLOCKS_START + i_blocks i ! (k div 512)) = blk d (FS_DATA_BLOCKS_START + i_blocks i ! (k div 512))"
  shows "fbyte d' i' k = fbyte d i k"
  using assms by (simp add: fbyte_def)

lemma div_512_interval:
  fixes k P t :: nat
  assumes "P \<le> k" and "k < P + t" and "t \<le> 512 - P mod 512"
  shows "k div 512 = P div 512" and "k mod 512 = P mod 512 + (k - P)"
proof -
  have "k = 512 * (P div 512) + (P mod 512 + (k - P))" using assms(1) by (simp add: mult_div_mod_eq)
  moreover have "P mod 512 + (k - P) < 512" using assms by linarith
  ultimately show "k div 512 = P div 512" and "k mod 512 = P mod 512 + (k - P)"
    by (metis div_mult_self4 add.right_neutral div_less zero_neq_numeral, metis mod_mult_self4 mod_less)
qed

text \<open>A store of \<open>t\<close> bytes at position \<open>P\<close> into the block \<open>old\<close> under it.\<close>

lemma store_block_wrote:
  assumes s1: "maps_ok s1" "good s1 i1" "rest_eq s s1" "i_blocks i1 ! (P div 512) \<noteq> 0" "P < 5120"
    and new: "\<And>j. j < length xs \<Longrightarrow> xs ! j = f (P + j)" "length xs \<le> 512 - P mod 512" "xs \<noteq> []"
    and same: "\<And>k. k < 5120 \<Longrightarrow> i_blocks i ! (k div 512) \<noteq> 0 \<Longrightarrow>
        i_blocks i1 ! (k div 512) = i_blocks i ! (k div 512) \<and> fbyte (fs_disk s1) i1 k = fbyte (fs_disk s) i k"
    and sys: "\<And>c. c \<noteq> 2 \<Longrightarrow> blk (fs_disk s1) c = blk (fs_disk s) c" "took s i s1 i1"
    and blocks: "\<And>b. b \<in> set (i_blocks i1) \<Longrightarrow> b \<in> set (i_blocks i) \<or> unat b \<notin> bits (data_bitmap s)"
    and mode: "i_mode i1 = i_mode i" "i_size i1 = i_size i"
    and data: "length old = 512" "\<And>k. k div 512 = P div 512 \<Longrightarrow> i_blocks i ! (k div 512) \<noteq> 0 \<Longrightarrow> old ! (k mod 512) = fbyte (fs_disk s) i k"
    and size: "unat sz' = max (unat (i_size i)) (P + length xs)"
  obtains d where "write_block (FS_DATA_BLOCKS_START + i_blocks i1 ! (P div 512))
      (take (P mod 512) old @ xs @ drop (P mod 512 + length xs) old) s1 = Some (s1\<lparr>fs_disk := d\<rparr>)"
    and "wrote f s i P (s1\<lparr>fs_disk := d\<rparr>) (i1\<lparr>i_size := sz'\<rparr>) (P + length xs)"
    and "blk d (FS_DATA_BLOCKS_START + i_blocks i1 ! (P div 512)) = take (P mod 512) old @ xs @ drop (P mod 512 + length xs) old"
proof -
  let ?q = "P div 512" and ?t = "length xs"
  let ?data = "take (P mod 512) old @ xs @ drop (P mod 512 + ?t) old"
  have q: "?q < 10" using s1(5) by simp
  have rd: "rd_ok (fs_disk s1)" using s1(1) by (simp add: maps_ok_def)
  have len: "length ?data = 512" using new(2) data(1) by simp
  have dn: "?data ! j = (if P mod 512 \<le> j \<and> j < P mod 512 + ?t then xs ! (j - P mod 512) else old ! j)" if "j < 512" for j
    using splice_nth [of "P mod 512" xs old j] new(2) data(1) that by simp
  note ub = unat_data_block [OF goodD(1) [OF s1(2) q]]
  obtain d where d: "write_block (FS_DATA_BLOCKS_START + i_blocks i1 ! ?q) ?data s1 = Some (s1\<lparr>fs_disk := d\<rparr>)" "rd_ok d"
    "blk d (FS_DATA_BLOCKS_START + i_blocks i1 ! ?q) = ?data"
    "\<forall>c. c \<noteq> FS_DATA_BLOCKS_START + i_blocks i1 ! ?q \<longrightarrow> blk d c = blk (fs_disk s1) c"
    by (rule write_block_ok [OF rd goodD(3) [OF s1(2) q] len])
  have low: "blk d c = blk (fs_disk s1) c" if "c < 67" for c
  proof -
    have "c \<noteq> FS_DATA_BLOCKS_START + i_blocks i1 ! ?q" using ub that by (auto simp: word_less_nat_alt)
    then show ?thesis using d(4) by blast
  qed
  have at: "fbyte d (i1\<lparr>i_size := sz'\<rparr>) k = ?data ! (k mod 512)" if "k div 512 = ?q" for k
    using that d(3) by (simp add: fbyte_def)
  have away: "fbyte d (i1\<lparr>i_size := sz'\<rparr>) k = fbyte (fs_disk s1) i1 k" if "k < 5120" "k div 512 \<noteq> ?q" for k
  proof -
    have "k div 512 < 10" using that(1) by simp
    then have "i_blocks i1 ! (k div 512) \<noteq> i_blocks i1 ! ?q" using good_inj [OF s1(2) _ q s1(4)] that(2) by blast
    then show ?thesis using d(4) by (simp add: fbyte_def)
  qed
  have n: "k < 5120 \<and> i_blocks i1 ! (k div 512) \<noteq> 0 \<and> fbyte d (i1\<lparr>i_size := sz'\<rparr>) k = f k" if "P \<le> k" "k < P + ?t" for k
  proof -
    note dv = div_512_interval [OF that new(2)]
    have "k div 512 < 10" using dv(1) q by simp
    then have "k < 5120" by linarith
    moreover have "P mod 512 \<le> k mod 512" "k mod 512 < P mod 512 + ?t" "k mod 512 - P mod 512 = k - P"
      using dv(2) that by linarith+
    then have "?data ! (k mod 512) = f k" using dn [of "k mod 512"] new(1) [of "k - P"] that by simp
    ultimately show ?thesis using at [OF dv(1)] dv(1) s1(4) by simp
  qed
  have o: "i_blocks i1 ! (k div 512) \<noteq> 0 \<and> fbyte d (i1\<lparr>i_size := sz'\<rparr>) k = fbyte (fs_disk s) i k"
    if "k < 5120" "i_blocks i ! (k div 512) \<noteq> 0" "\<not> (P \<le> k \<and> k < P + ?t)" for k
  proof (cases "k div 512 = ?q")
    case True
    have "\<not> (P mod 512 \<le> k mod 512 \<and> k mod 512 < P mod 512 + ?t)"
      using that(3) True mult_div_mod_eq [of 512 k] mult_div_mod_eq [of 512 P] by linarith
    then show ?thesis using at [OF True] dn [of "k mod 512"] data(2) [OF True that(2)] True s1(4) by auto
  next
    case False
    then show ?thesis using away [OF that(1)] same [OF that(1,2)] that(2) by simp
  qed
  have other: "blk d (FS_DATA_BLOCKS_START + b) = blk (fs_disk s) (FS_DATA_BLOCKS_START + b)"
    if "unat b < 1981" "unat b \<in> bits (data_bitmap s)" "b \<notin> set (i_blocks i)" for b
  proof -
    have "b \<noteq> i_blocks i1 ! ?q" using blocks [of b] that goodD(4) [OF s1(2) q] q by (metis nth_mem)
    moreover have "FS_DATA_BLOCKS_START + b \<noteq> 2" using unat_data_block [OF that(1)] by force
    ultimately show ?thesis using d(4) sys(1) by simp
  qed
  have mk: "maps_ok (s1\<lparr>fs_disk := d\<rparr>)" using s1(1) d(2) low [of 1] low [of 2] by (simp add: maps_ok_def)
  have "good (s1\<lparr>fs_disk := d\<rparr>) (i1\<lparr>i_size := sz'\<rparr>)" using s1(2) by (simp add: good_def wf_inode_def)
  then have "wrote f s i P (s1\<lparr>fs_disk := d\<rparr>) (i1\<lparr>i_size := sz'\<rparr>) (P + ?t)"
    unfolding wrote_def using mk rest_eq_trans [OF s1(3)] mode size new(3) n o sys blocks other low
    by (simp add: took_def nblocks_def)
  then show ?thesis using that d(1,3) by blast
qed

text \<open>One pass stores a chunk or stops because the disk is full.\<close>

lemma get_file_block_cases:
  assumes "maps_ok s" and "good s i" and "P < 5120" and "length data = 512"
  obtains (full) "get_file_block s i (P div 512) data = Some (None, s)" and "{..<1981} \<subseteq> bits (data_bitmap s)"
  | (got) i1 old s1 where "get_file_block s i (P div 512) data = Some (Some (i1, old), s1)"
      and "maps_ok s1" and "good s1 i1" and "rest_eq s s1" and "i_blocks i1 ! (P div 512) \<noteq> 0"
      and "\<And>k. k < 5120 \<Longrightarrow> i_blocks i ! (k div 512) \<noteq> 0 \<Longrightarrow>
        i_blocks i1 ! (k div 512) = i_blocks i ! (k div 512) \<and> fbyte (fs_disk s1) i1 k = fbyte (fs_disk s) i k"
      and "\<And>c. c \<noteq> 2 \<Longrightarrow> blk (fs_disk s1) c = blk (fs_disk s) c" and "took s i s1 i1"
      and "\<And>b. b \<in> set (i_blocks i1) \<Longrightarrow> b \<in> set (i_blocks i) \<or> unat b \<notin> bits (data_bitmap s)"
      and "i_mode i1 = i_mode i" and "i_size i1 = i_size i" and "length old = 512"
      and "\<And>k. k div 512 = P div 512 \<Longrightarrow> i_blocks i ! (k div 512) \<noteq> 0 \<Longrightarrow> old ! (k mod 512) = fbyte (fs_disk s) i k"
proof -
  have q: "P div 512 < 10" using assms(3) by simp
  from assms(1,2) q assms(4) show ?thesis
  proof (cases rule: get_file_block_ok)
    case full
    then show ?thesis by (rule that(1))
  next
    case old
    show ?thesis by (rule that(2) [OF old(2)]) (use old assms in \<open>simp_all add: fbyte_def\<close>)
  next
    case (new b d sb m)
    let ?s = "s\<lparr>fs_disk := d, superblock := sb, data_bitmap := m\<rparr>" and ?i = "i\<lparr>i_blocks := (i_blocks i)[P div 512 := b]\<rparr>"
    have m: "bits (data_bitmap ?s) = insert (unat b) (bits (data_bitmap s))" using new(5) by simp
    note g = good_new_block [OF assms(2) q new(1,2,3) m]
    note len = goodD(4) [OF assms(2) q]
    have same: "i_blocks ?i ! (k div 512) = i_blocks i ! (k div 512) \<and> fbyte (fs_disk ?s) ?i k = fbyte (fs_disk s) i k"
      if "k < 5120" "i_blocks i ! (k div 512) \<noteq> 0" for k
    proof -
      have k: "k div 512 < 10" "k div 512 \<noteq> P div 512" using that new(1) by auto
      have "FS_DATA_BLOCKS_START + i_blocks i ! (k div 512) \<noteq> 2" using unat_data_block [OF goodD(1) [OF assms(2) k(1)]] by force
      then show ?thesis using k(2) new(7) by (simp add: fbyte_def)
    qed
    have bl: "c \<in> set (i_blocks i) \<or> unat c \<notin> bits (data_bitmap s)" if "c \<in> set (i_blocks ?i)" for c
      using that set_update_subset_insert [of "i_blocks i" "P div 512" b] new(3) by auto
    have tk: "took s i ?s ?i"
      using nblocks_update [of "P div 512" i b] new(1,3,5) g(2) len q by (simp add: took_def subset_insertI)
    show ?thesis
      by (rule that(2) [OF new(4) new(6) g(1)]) (use g same bl new(1,7) len q tk in simp_all)
  qed
qed

lemma write_loop_ok:
  assumes "maps_ok s" and "good s i" and "length data = 512" and "unat sz \<le> length src" and "written \<le> sz"
    and "unat pos + (unat sz - unat written) < 4294967296"
  shows "\<exists>i' pos' n s'. write_loop s i sz src pos written data = Some (i', pos', n, s') \<and>
    written \<le> n \<and> n \<le> sz \<and> unat pos' = unat pos + (unat n - unat written) \<and>
    (n = sz \<or> 5120 \<le> unat pos' \<or> {..<1981} \<subseteq> bits (data_bitmap s')) \<and>
    wrote (\<lambda>k. src ! (unat written + k - unat pos)) s i (unat pos) s' i' (unat pos')"
  using assms
proof (induction s i sz src pos written data rule: write_loop.induct)
  case (1 s i sz src pos written data)
  note hyps = "1.prems"
  let ?P = "unat pos" and ?W = "unat written" and ?q = "unat (pos div 512)" and ?o = "unat (pos mod 512)"
  let ?c = "chunk pos sz written" and ?f = "\<lambda>k. src ! (unat written + k - unat pos)"
  have q: "?q = ?P div 512" "?o = ?P mod 512" by (simp_all add: unat_div unat_mod)
  consider (stop) "\<not> written < sz" | (far) "written < sz" "10 \<le> ?q" | (pass) "written < sz" "?q < 10" by linarith
  then show ?case
  proof cases
    case stop
    then have "write_loop s i sz src pos written data = Some (i, pos, written, s)" by (subst write_loop.simps) simp
    moreover have "written = sz" using stop hyps(5) by simp
    ultimately show ?thesis using wrote_refl [OF hyps(1,2)] by auto
  next
    case far
    then have "write_loop s i sz src pos written data = Some (i, pos, written, s)" by (subst write_loop.simps) simp
    moreover have "5120 \<le> unat pos" using far(2) q(1) by linarith
    ultimately show ?thesis using wrote_refl [OF hyps(1,2)] hyps(5) by auto
  next
    case pass
    note cb = chunk_bounds [OF pass(1), of pos]
    have P: "?P < 5120" using pass(2) q by linarith
    from hyps(1,2) P hyps(3) show ?thesis
    proof (cases rule: get_file_block_cases)
      case full
      then have "write_loop s i sz src pos written data = Some (i, pos, written, s)"
        using pass q by (subst write_loop.simps) (simp add: Let_def)
      then show ?thesis using wrote_refl [OF hyps(1,2)] hyps(5) full(2) by auto
    next
      case (got i1 old s1)
      let ?xs = "take (unat ?c) (drop ?W src)"
      have W: "?W < unat sz" using pass(1) by (simp add: word_less_nat_alt)
      have in_src: "?W + unat ?c \<le> length src" using cb(2) W hyps(4) by linarith
      have lx: "length ?xs = unat ?c" using in_src by simp
      have up: "unat (pos + ?c) = ?P + unat ?c" using cb(2) hyps(6) by (intro unat_add_u32) linarith
      define z where "z = (if pos + ?c > i_size i1 then pos + ?c else i_size i1)"
      have size: "unat z = max (unat (i_size i)) (?P + length ?xs)"
        using up lx got(11) by (simp add: word_less_nat_alt z_def)
      have xs: "?xs ! j = ?f (?P + j)" if "j < length ?xs" for j using that in_src by simp
      have xs2: "length ?xs \<le> 512 - ?P mod 512" "?xs \<noteq> []" using cb lx by auto
      obtain d where d: "write_block (FS_DATA_BLOCKS_START + i_blocks i1 ! (?P div 512))
          (take (?P mod 512) old @ ?xs @ drop (?P mod 512 + length ?xs) old) s1 = Some (s1\<lparr>fs_disk := d\<rparr>)"
        "wrote ?f s i ?P (s1\<lparr>fs_disk := d\<rparr>) (i1\<lparr>i_size := z\<rparr>) (?P + length ?xs)"
        by (rule store_block_wrote [OF got(2-5) P xs xs2 got(6-13) size]) assumption+
      let ?i2 = "i1\<lparr>i_size := z\<rparr>" and ?s2 = "s1\<lparr>fs_disk := d\<rparr>"
      let ?data = "take (?P mod 512) old @ ?xs @ drop (?P mod 512 + length ?xs) old"
      have i2: "(if pos + ?c > i_size i1 then i1\<lparr>i_size := pos + ?c\<rparr> else i1) = ?i2" by (simp add: z_def)
      have sp: "splice old ?o ?xs = Some ?data" using xs2(1) got(12) by (simp add: splice_def q(2))
      have data: "length ?data = 512" using xs2(1) got(12) by simp
      have eq: "write_loop s i sz src pos written data = write_loop ?s2 ?i2 sz src (pos + ?c) (written + ?c) ?data"
        by (subst write_loop.simps) (use pass got(1) in_src sp d(1) q i2 in \<open>simp add: Let_def\<close>)
      have le: "written + ?c \<le> sz" using cb(2,4) W by (simp add: word_le_nat_alt)
      have bound: "unat (pos + ?c) + (unat sz - unat (written + ?c)) < 4294967296" using hyps(6) up cb(2,4) W by linarith
      have IH: "\<exists>i' pos' n s'. write_loop ?s2 ?i2 sz src (pos + ?c) (written + ?c) ?data = Some (i', pos', n, s') \<and>
        written + ?c \<le> n \<and> n \<le> sz \<and> unat pos' = unat (pos + ?c) + (unat n - unat (written + ?c)) \<and>
        (n = sz \<or> 5120 \<le> unat pos' \<or> {..<1981} \<subseteq> bits (data_bitmap s')) \<and>
        wrote (\<lambda>k. src ! (unat (written + ?c) + k - unat (pos + ?c))) ?s2 ?i2 (unat (pos + ?c)) s' i' (unat pos')"
        using "1.IH" [OF pass(1) refl refl refl _ got(1) [folded q(1)] refl refl refl _ sp d(1) [folded q(1)], unfolded i2]
          pass(2) in_src wroteD(1,2) [OF d(2)] data hyps(4) le bound by (metis not_le)
      then obtain i' pos' n s' where r: "write_loop ?s2 ?i2 sz src (pos + ?c) (written + ?c) ?data = Some (i', pos', n, s')"
        "written + ?c \<le> n" "n \<le> sz" "unat pos' = unat (pos + ?c) + (unat n - unat (written + ?c))"
        "n = sz \<or> 5120 \<le> unat pos' \<or> {..<1981} \<subseteq> bits (data_bitmap s')"
        "wrote (\<lambda>k. src ! (unat (written + ?c) + k - unat (pos + ?c))) ?s2 ?i2 (unat (pos + ?c)) s' i' (unat pos')" by blast
      have f: "(\<lambda>k. src ! (unat (written + ?c) + k - unat (pos + ?c))) = ?f" using up cb(4) by (simp add: fun_eq_iff)
      have "wrote ?f s i ?P s' i' (unat pos')" using wrote_trans [OF d(2), of s' i' "unat pos'"] r(6) f up lx by simp
      moreover have "written \<le> n" "unat pos' = ?P + (unat n - ?W)"
        using r(2,4) up cb(4) by (auto simp: word_le_nat_alt)
      ultimately show ?thesis using eq r(1,3,5) by metis
    qed
  qed
qed

section \<open>The read loop\<close>

lemma take_drop_block:
  assumes "off + n \<le> length xs" and "\<And>k. k < n \<Longrightarrow> xs ! (off + k) = g (P + k)"
  shows "take n (drop off xs) = map g [P..<P + n]"
  by (rule nth_equalityI) (use assms in simp_all)

lemma read_loop_ok:
  assumes "rd_ok (fs_disk s)" and "n \<le> sz" and "unat sz \<le> length dest" and "length data = 512"
    and "unat pos + (unat sz - unat n) < 4294967296"
    and "\<And>k. unat pos \<le> k \<Longrightarrow> k < unat pos + (unat sz - unat n) \<Longrightarrow>
      k < 5120 \<and> i_blocks i ! (k div 512) \<noteq> 0 \<and> unat (i_blocks i ! (k div 512)) < 1981"
  shows "read_loop s i sz pos n dest data = Some (pos + (sz - n), sz,
    take (unat n) dest @ map (fbyte (fs_disk s) i) [unat pos..<unat pos + (unat sz - unat n)] @ drop (unat sz) dest)"
  using assms
proof (induction s i sz pos n dest data rule: read_loop.induct)
  case (1 s i sz pos n dest data)
  note hyps = "1.prems"
  show ?case
  proof (cases "n < sz")
    case False
    then have "n = sz" using hyps(2) by simp
    then show ?thesis by (subst read_loop.simps) simp
  next
    case True
    let ?P = "unat pos" and ?c = "chunk pos sz n" and ?q = "unat (pos div 512)"
    have q: "?q = ?P div 512" "unat (pos mod 512) = ?P mod 512" by (simp_all add: unat_div unat_mod)
    note cb = chunk_bounds [OF True, of pos]
    have n: "unat n < unat sz" using True by (simp add: word_less_nat_alt)
    have h: "?P < 5120" "i_blocks i ! ?q \<noteq> 0" "unat (i_blocks i ! ?q) < 1981" using hyps(6) [of ?P] n q by auto
    have q10: "\<not> 10 \<le> ?q" using h(1) q by linarith
    let ?b = "blk (fs_disk s) (67 + i_blocks i ! ?q)"
    have rb: "read_block s (67 + i_blocks i ! ?q) data = Some ?b"
      by (rule read_block_ok [OF hyps(1) data_block_less [OF h(3)] hyps(4)])
    have piece: "take (unat ?c) (drop (unat (pos mod 512)) ?b) = map (fbyte (fs_disk s) i) [?P..<?P + unat ?c]"
    proof (rule take_drop_block)
      show "unat (pos mod 512) + unat ?c \<le> length ?b" using q cb(3) mod_less_divisor [of 512 ?P] by simp
      fix k assume k: "k < unat ?c"
      have "(?P + k) div 512 = ?P div 512" "(?P + k) mod 512 = ?P mod 512 + k"
        using div_512_interval [of ?P "?P + k" "unat ?c"] k cb(3) by auto
      then show "?b ! (unat (pos mod 512) + k) = fbyte (fs_disk s) i (?P + k)" by (simp add: fbyte_def q)
    qed
    let ?dest = "take (unat n) dest @ map (fbyte (fs_disk s) i) [?P..<?P + unat ?c] @ drop (unat n + unat ?c) dest"
    have fits: "unat n + unat ?c \<le> length dest" using cb(2) n hyps(3) by linarith
    have sp: "splice dest (unat n) (take (unat ?c) (drop (unat (pos mod 512)) ?b)) = Some ?dest"
      using fits piece by (simp add: splice_def)
    have up: "unat (pos + ?c) = ?P + unat ?c" using cb(2) hyps(5) by (intro unat_add_u32) linarith
    have un: "unat (n + ?c) = unat n + unat ?c" by (rule cb(4))
    have le: "n + ?c \<le> sz" using un cb(2) n by (simp add: word_le_nat_alt)
    have rest: "unat sz - unat (n + ?c) = unat sz - unat n - unat ?c" using un by simp
    have bound: "unat (pos + ?c) + (unat sz - unat (n + ?c)) < 4294967296" using up rest cb(2) hyps(5) by linarith
    have mem: "k < 5120 \<and> i_blocks i ! (k div 512) \<noteq> 0 \<and> unat (i_blocks i ! (k div 512)) < 1981"
      if "unat (pos + ?c) \<le> k" "k < unat (pos + ?c) + (unat sz - unat (n + ?c))" for k
      using hyps(6) [of k] that up rest cb(2) by linarith
    have eq: "read_loop s i sz pos n dest data = read_loop s i sz (pos + ?c) (n + ?c) ?dest ?b"
      by (subst read_loop.simps) (use True q10 h(2) rb sp in \<open>simp add: Let_def\<close>)
    have IH: "read_loop s i sz (pos + ?c) (n + ?c) ?dest ?b = Some ((pos + ?c) + (sz - (n + ?c)), sz,
        take (unat (n + ?c)) ?dest @ map (fbyte (fs_disk s) i)
          [unat (pos + ?c)..<unat (pos + ?c) + (unat sz - unat (n + ?c))] @ drop (unat sz) ?dest)"
      by (rule "1.IH" [OF True refl refl refl _ rb sp hyps(1) le _ _ bound mem])
        (use q10 h(2) fits hyps(3) in simp_all)
    have t: "take (unat (n + ?c)) ?dest = take (unat n) dest @ map (fbyte (fs_disk s) i) [?P..<?P + unat ?c]"
      using fits un by simp
    have d: "drop (unat sz) ?dest = drop (unat sz) dest"
      using fits cb(2) n hyps(3) by simp
    have m: "[?P..<?P + (unat sz - unat n)] = [?P..<?P + unat ?c] @ [unat (pos + ?c)..<unat (pos + ?c) + (unat sz - unat (n + ?c))]"
    proof -
      have "?P + (unat sz - unat n) = ?P + unat ?c + (unat sz - unat (n + ?c))" using rest cb(2) by linarith
      then show ?thesis using upt_add_eq_append [of ?P "?P + unat ?c" "unat sz - unat (n + ?c)"] up by (simp add: add.assoc)
    qed
    show ?thesis unfolding eq IH t d m by simp
  qed
qed

section \<open>Descriptors\<close>

text \<open>A mounted file system with memory for one buffer, and a descriptor on a file whose inode lies before the
  data area (inodes 384 to 511 do not).\<close>

definition open_on :: "fs_state \<Rightarrow> int \<Rightarrow> u32 \<Rightarrow> u32 \<Rightarrow> u32 \<Rightarrow> bool" where
  "open_on s fd n pos flag \<longleftrightarrow> fd_valid fd s \<and> length (open_files s) = 16 \<and>
     f_inode (open_files s ! nat fd) = n \<and> f_position (open_files s ! nat fd) = pos \<and>
     f_flags (open_files s ! nat fd) AND flag \<noteq> 0"

definition file_ok :: "fs_state \<Rightarrow> u32 \<Rightarrow> bool" where
  "file_ok s n \<longleftrightarrow> maps_ok s \<and> n < 384 \<and> good s (inode_at (fs_disk s) n)"

lemma file_okD:
  assumes "file_ok s n"
  shows "maps_ok s" and "rd_ok (fs_disk s)" and "n < FS_MAX_INODES" and "good s (inode_at (fs_disk s) n)" and "inode_block n < 67"
    and "2 < inode_block n"
proof -
  have n: "unat n < 384" using assms by (simp add: file_ok_def word_less_nat_alt)
  then have "n < FS_MAX_INODES" by (simp add: word_less_nat_alt)
  moreover from this have "unat (inode_block n) = 3 + unat n div 6" by (rule unat_inode_block)
  ultimately show "maps_ok s" and "rd_ok (fs_disk s)" and "n < FS_MAX_INODES" and "good s (inode_at (fs_disk s) n)" and "inode_block n < 67"
    and "2 < inode_block n"
    using assms n by (auto simp: file_ok_def maps_ok_def word_less_nat_alt)
qed

lemma fs_write_ok:
  assumes ok: "file_ok s n" and mem: "fs_mem 1 s bs" and fd: "open_on s fd n pos FS_OPEN_WRITE"
    and sz: "unat sz \<le> length buf" "unat pos + unat sz < 2147483648"
  obtains m s' where "fs_write fd buf sz s = Some (int (unat m), s')" and "m \<le> sz" and "file_ok s' n" and "fs_mem 1 s' bs"
    and "open_files s' = (open_files s)[nat fd := (open_files s ! nat fd)\<lparr>f_position := pos + m\<rparr>]"
    and "\<And>k. k < unat m \<Longrightarrow> unat pos + k < 5120 \<and> i_blocks (inode_at (fs_disk s') n) ! ((unat pos + k) div 512) \<noteq> 0 \<and>
        fbyte (fs_disk s') (inode_at (fs_disk s') n) (unat pos + k) = buf ! k"
    and "m = sz \<or> 5120 \<le> unat pos + unat m \<or> {..<1981} \<subseteq> bits (data_bitmap s')"
    and "m \<noteq> 0 \<Longrightarrow> unat pos + unat m \<le> unat (i_size (inode_at (fs_disk s') n))"
    and "\<And>b. unat b < 1981 \<Longrightarrow> unat b \<in> bits (data_bitmap s) \<Longrightarrow> b \<notin> set (i_blocks (inode_at (fs_disk s) n)) \<Longrightarrow>
        blk (fs_disk s') (FS_DATA_BLOCKS_START + b) = blk (fs_disk s) (FS_DATA_BLOCKS_START + b)"
    and "\<And>j. j < 384 \<Longrightarrow> j \<noteq> n \<Longrightarrow> inode_at (fs_disk s') j = inode_at (fs_disk s) j"
    and "bits (data_bitmap s) \<subseteq> bits (data_bitmap s')" and "card (bits (data_bitmap s')) \<le> card (bits (data_bitmap s)) + 10"
    and "inode_bitmap s' = inode_bitmap s" and "fs_initialized s' = fs_initialized s"
proof -
  note f = file_okD [OF ok]
  let ?i = "inode_at (fs_disk s) n" and ?file = "open_files s ! nat fd"
  have fdv: "fd_valid fd s" "f_inode ?file = n" "f_position ?file = pos" "f_flags ?file AND 2 \<noteq> 0" using fd by (auto simp: open_on_def)
  obtain h where h: "read_inode n s = Some (Some ?i, s\<lparr>fs_heap := h\<rparr>)" "heap_ok h bs"
    by (rule read_inode_ok [OF f(2) mem f(3)])
  let ?s1 = "s\<lparr>fs_heap := h\<rparr>"
  have mem1: "fs_mem (Suc 0) ?s1 bs" using mem h(2) by (simp add: fs_mem_def)
  then obtain p h2 cs where p: "fs_kmalloc ?s1 = Some (p, ?s1\<lparr>fs_heap := h2\<rparr>)" "p \<noteq> 0" "fs_mem 0 (?s1\<lparr>fs_heap := h2\<rparr>) cs"
    and rel: "\<And>s'. heap_ok (fs_heap s') cs \<Longrightarrow> \<exists>h'. fs_kfree p s' = Some (s'\<lparr>fs_heap := h'\<rparr>) \<and> heap_ok h' bs"
    by (rule fs_kmalloc_ok) blast
  let ?s2 = "s\<lparr>fs_heap := h2\<rparr>"
  have mg: "maps_ok ?s2" "good ?s2 ?i" using f(1,4) by (simp_all add: maps_ok_def good_def)
  obtain i' pos' m s3 where w: "write_loop ?s2 ?i sz buf pos 0 (fresh ?s2 p) = Some (i', pos', m, s3)"
    "m \<le> sz" "unat pos' = unat pos + unat m" "m = sz \<or> 5120 \<le> unat pos' \<or> {..<1981} \<subseteq> bits (data_bitmap s3)" and wr: "wrote (\<lambda>k. buf ! (k - unat pos)) ?s2 ?i (unat pos) s3 i' (unat pos')"
    using write_loop_ok [OF mg, of "fresh ?s2 p" sz buf 0 pos] sz by auto
  note re = rest_eqD [OF wroteD(3) [OF wr]]
  let ?s4 = "s3\<lparr>open_files := (open_files s3)[nat fd := ?file\<lparr>f_position := pos'\<rparr>]\<rparr>"
  obtain h5 where h5: "fs_kfree p ?s4 = Some (?s4\<lparr>fs_heap := h5\<rparr>)" "heap_ok h5 bs"
    using rel [of ?s4] p(3) re(1) by (auto simp: fs_mem_def)
  let ?s5 = "?s4\<lparr>fs_heap := h5\<rparr>" and ?i5 = "i'\<lparr>i_modified := ticks s3\<rparr>"
  have rd5: "rd_ok (fs_disk ?s5)" using wroteD(1) [OF wr] by (simp add: maps_ok_def)
  have mem5: "fs_mem 1 ?s5 bs" using mem h5(2) by (simp add: fs_mem_def)
  have wf5: "wf_inode ?i5" using wroteD(2) [OF wr] by (simp add: good_def wf_inode_def)
  obtain h6 d where wi: "write_inode n ?i5 ?s5 = Some (0, ?s5\<lparr>fs_heap := h6, fs_disk := d\<rparr>)" "heap_ok h6 bs" "rd_ok d"
    "inode_at d n = ?i5" "\<forall>j < FS_MAX_INODES. j \<noteq> n \<longrightarrow> inode_at d j = inode_at (fs_disk ?s5) j"
    "\<forall>b. b \<noteq> inode_block n \<longrightarrow> blk d b = blk (fs_disk ?s5) b"
    by (rule write_inode_ok [OF rd5 mem5 f(3) wf5])
  let ?s6 = "?s5\<lparr>fs_heap := h6, fs_disk := d\<rparr>"
  have data: "blk d (FS_DATA_BLOCKS_START + b) = blk (fs_disk s3) (FS_DATA_BLOCKS_START + b)" if "unat b < 1981" for b
  proof -
    have "FS_DATA_BLOCKS_START + b \<noteq> inode_block n" using unat_data_block [OF that] f(5) by (auto simp: word_less_nat_alt)
    then show ?thesis using wi(6) by simp
  qed
  have small: "blk d c = blk (fs_disk s3) c" if "c < 3" for c
  proof -
    have "c \<noteq> inode_block n" using f(6) that by (auto simp: word_less_nat_alt)
    then show ?thesis using wi(6) by simp
  qed
  have g5: "good s3 ?i5" using wroteD(2) [OF wr] by (simp add: good_def wf_inode_def)
  have maps6: "maps_ok ?s6" using wroteD(1) [OF wr] wi(3) small [of 1] small [of 2] by (simp add: maps_ok_def)
  have ok6: "file_ok ?s6 n" using maps6 ok g5 wi(4) by (simp add: file_ok_def good_def)
  have um: "unat m < 2147483648" using w(2) sz by (simp add: word_le_nat_alt)
  have pos': "pos' = pos + m"
  proof -
    have "unat (pos + m) = unat pos + unat m" using w(2) sz by (intro unat_add_u32) (simp add: word_le_nat_alt)
    then show ?thesis using w(3) by (simp add: word_unat_eq_iff)
  qed
  show ?thesis
  proof (rule that [of m ?s6])
    show "fs_write fd buf sz s = Some (int (unat m), ?s6)"
      using fdv h(1) p(1,2) w(1) h5(1) wi(1) re(2,3) sint_small [OF um] by (simp add: fs_write_def Let_def)
    show "m \<le> sz" by (rule w(2))
    show "file_ok ?s6 n" by (rule ok6)
    show "fs_mem 1 ?s6 bs" using mem wi(2) by (simp add: fs_mem_def)
    show "open_files ?s6 = (open_files s)[nat fd := ?file\<lparr>f_position := pos + m\<rparr>]" using re(2) pos' by simp
    show "unat pos + k < 5120 \<and> i_blocks (inode_at (fs_disk ?s6) n) ! ((unat pos + k) div 512) \<noteq> 0 \<and>
        fbyte (fs_disk ?s6) (inode_at (fs_disk ?s6) n) (unat pos + k) = buf ! k" if "k < unat m" for k
    proof -
      have k: "unat pos + k < 5120" "i_blocks i' ! ((unat pos + k) div 512) \<noteq> 0"
        "fbyte (fs_disk s3) i' (unat pos + k) = buf ! k"
        using wroteD(7) [OF wr, of "unat pos + k"] that w(3) by auto
      have "(unat pos + k) div 512 < 10" using k(1) by simp
      then show ?thesis using k data [OF goodD(1) [OF g5]] wi(4) by (simp add: fbyte_def)
    qed
    show "m = sz \<or> 5120 \<le> unat pos + unat m \<or> {..<1981} \<subseteq> bits (data_bitmap ?s6)" using w(3,4) by simp
    show "unat pos + unat m \<le> unat (i_size (inode_at (fs_disk ?s6) n))" if "m \<noteq> 0"
    proof -
      have "unat m \<noteq> 0" using that by (simp add: unat_eq_zero)
      then show ?thesis using wroteD(6) [OF wr] w(3) wi(4) by simp
    qed
    show "blk (fs_disk ?s6) (FS_DATA_BLOCKS_START + b) = blk (fs_disk s) (FS_DATA_BLOCKS_START + b)"
      if "unat b < 1981" "unat b \<in> bits (data_bitmap s)" "b \<notin> set (i_blocks ?i)" for b
      using wroteD(12) [OF wr that(1)] that data [OF that(1)] by simp
    show "inode_at (fs_disk ?s6) j = inode_at (fs_disk s) j" if "j < 384" "j \<noteq> n" for j
    proof -
      have j: "unat j < 384" "j < FS_MAX_INODES" using that(1) by (simp_all add: word_less_nat_alt)
      have "unat (inode_block j) = 3 + unat j div 6" by (rule unat_inode_block [OF j(2)])
      then have "inode_block j < 67" "inode_block j \<noteq> 2" using j(1) by (auto simp: word_less_nat_alt)
      then have "inode_at (fs_disk s3) j = inode_at (fs_disk s) j" using wroteD(9) [OF wr] by (simp add: inode_at_def)
      then show ?thesis using wi(5) j(2) that(2) by simp
    qed
    show "bits (data_bitmap s) \<subseteq> bits (data_bitmap ?s6)" using wroteD(10) [OF wr] by simp
    show "card (bits (data_bitmap ?s6)) \<le> card (bits (data_bitmap s)) + 10"
      using wroteD(13) [OF wr] nblocks_le [of i'] wroteD(2) [OF wr] by (simp add: took_def good_def)
    show "inode_bitmap ?s6 = inode_bitmap s" and "fs_initialized ?s6 = fs_initialized s" using re by simp_all
  qed
qed

lemma fs_read_ok:
  assumes ok: "file_ok s n" and mem: "fs_mem 1 s bs" and fd: "open_on s fd n pos FS_OPEN_READ"
    and sz: "unat sz \<le> length buf" "sz \<noteq> 0" "unat pos + unat sz < 2147483648"
    and size: "unat pos + unat sz \<le> unat (i_size (inode_at (fs_disk s) n))"
    and blocks: "\<And>k. k < unat sz \<Longrightarrow> unat pos + k < 5120 \<and> i_blocks (inode_at (fs_disk s) n) ! ((unat pos + k) div 512) \<noteq> 0"
  obtains s' where "fs_read fd buf sz s = Some (int (unat sz),
      map (fbyte (fs_disk s) (inode_at (fs_disk s) n)) [unat pos..<unat pos + unat sz] @ drop (unat sz) buf, s')"
    and "fs_mem 1 s' bs" and "fs_disk s' = fs_disk s"
    and "open_files s' = (open_files s)[nat fd := (open_files s ! nat fd)\<lparr>f_position := pos + sz\<rparr>]"
proof -
  note f = file_okD [OF ok]
  let ?i = "inode_at (fs_disk s) n" and ?file = "open_files s ! nat fd"
  have fdv: "fd_valid fd s" "f_inode ?file = n" "f_position ?file = pos" "f_flags ?file AND 1 \<noteq> 0" using fd by (auto simp: open_on_def)
  obtain h where h: "read_inode n s = Some (Some ?i, s\<lparr>fs_heap := h\<rparr>)" "heap_ok h bs"
    by (rule read_inode_ok [OF f(2) mem f(3)])
  let ?s1 = "s\<lparr>fs_heap := h\<rparr>"
  have mem1: "fs_mem (Suc 0) ?s1 bs" using mem h(2) by (simp add: fs_mem_def)
  then obtain p h2 cs where p: "fs_kmalloc ?s1 = Some (p, ?s1\<lparr>fs_heap := h2\<rparr>)" "p \<noteq> 0" "fs_mem 0 (?s1\<lparr>fs_heap := h2\<rparr>) cs"
    and rel: "\<And>s'. heap_ok (fs_heap s') cs \<Longrightarrow> \<exists>h'. fs_kfree p s' = Some (s'\<lparr>fs_heap := h'\<rparr>) \<and> heap_ok h' bs"
    by (rule fs_kmalloc_ok) blast
  let ?s2 = "s\<lparr>fs_heap := h2\<rparr>"
  have us: "unat (pos + sz) = unat pos + unat sz" using sz by (intro unat_add_u32) simp
  have "0 < unat sz" using sz(2) by (simp add: unat_gt_0)
  then have inside: "\<not> i_size ?i \<le> pos" "\<not> i_size ?i < pos + sz" using size us by (auto simp: word_le_nat_alt word_less_nat_alt)
  have bl: "k < 5120 \<and> i_blocks ?i ! (k div 512) \<noteq> 0 \<and> unat (i_blocks ?i ! (k div 512)) < 1981"
    if "unat pos \<le> k" "k < unat pos + (unat sz - unat 0)" for k
  proof -
    have k: "k < 5120" "i_blocks ?i ! (k div 512) \<noteq> 0" using blocks [of "k - unat pos"] that by auto
    then have "k div 512 < 10" by simp
    from goodD(1) [OF f(4) this] k show ?thesis by simp
  qed
  have rl: "read_loop ?s2 ?i sz pos 0 buf (fresh ?s2 p) = Some (pos + sz, sz,
      map (fbyte (fs_disk s) ?i) [unat pos..<unat pos + unat sz] @ drop (unat sz) buf)"
    using read_loop_ok [of ?s2 0 sz buf "fresh ?s2 p" pos ?i] f(2) sz bl by simp
  let ?s3 = "?s2\<lparr>open_files := (open_files s)[nat fd := ?file\<lparr>f_position := pos + sz\<rparr>]\<rparr>"
  obtain h3 where h3: "fs_kfree p ?s3 = Some (?s3\<lparr>fs_heap := h3\<rparr>)" "heap_ok h3 bs"
    using rel [of ?s3] p(3) by (auto simp: fs_mem_def)
  have um: "unat sz < 2147483648" using sz(3) by simp
  show ?thesis
  proof (rule that [of "?s3\<lparr>fs_heap := h3\<rparr>"])
    show "fs_read fd buf sz s = Some (int (unat sz),
        map (fbyte (fs_disk s) ?i) [unat pos..<unat pos + unat sz] @ drop (unat sz) buf, ?s3\<lparr>fs_heap := h3\<rparr>)"
      using fdv h(1) p(1,2) rl h3(1) inside sint_small [OF um] by (simp add: fs_read_def Let_def)
    show "fs_mem 1 (?s3\<lparr>fs_heap := h3\<rparr>) bs" using mem h3(2) by (simp add: fs_mem_def)
  qed simp_all
qed

end
