(* ===== verification/Fs_Mount.thy ===== *)
theory Fs_Mount
  imports Fs_File
begin

text \<open>
  Formatting and mounting. \<open>fs_format\<close> builds an empty root directory and stores the superblock and the
  bitmaps, \<open>fs_init\<close> reads them back; both keep the bitmap buffers they take from the heap.
\<close>

section \<open>The superblock on the disk\<close>

lemma length_encode_superblock: "length (sb_reserved b) = 460 \<Longrightarrow> length (encode_superblock b) = 512"
  by (simp add: encode_superblock_def sb_words_def del: list.map concat.simps)

lemma decode_encode_superblock:
  assumes "length (sb_reserved b) = 460"
  shows "decode_superblock (encode_superblock b) = b"
proof -
  have g: "get32 (encode_superblock b) (4 * k) = sb_words b ! k" if "k < 13" for k
    unfolding encode_superblock_def using that by (intro get32_words) (simp add: sb_words_def)
  have r: "take 460 (drop 52 (encode_superblock b)) = sb_reserved b"
    using assms by (simp add: encode_superblock_def sb_words_def del: list.map concat.simps)
  show ?thesis
    using g [of 0] g [of 1] g [of 2] g [of 3] g [of 4] g [of 5] g [of 6] g [of 7] g [of 8] g [of 9] g [of 10] g [of 11] g [of 12] r
    by (simp add: decode_superblock_def sb_words_def)
qed

section \<open>Buffers that are kept\<close>

lemma fs_heap_inj: "s\<lparr>fs_heap := a\<rparr> = s\<lparr>fs_heap := b\<rparr> \<longleftrightarrow> a = b"
  by (metis fs_state.select_convs(1) fs_state.surjective fs_state.update_convs(1))

lemma fs_kmalloc_keep:
  assumes "fs_mem (Suc n) s bs"
  obtains p h cs where "fs_kmalloc s = Some (p, s\<lparr>fs_heap := h\<rparr>)" and "p \<noteq> 0" and "fs_mem n (s\<lparr>fs_heap := h\<rparr>) cs"
    and "p \<notin> owned (fs_heap s)" and "owned h = insert p (owned (fs_heap s))"
proof -
  from assms obtain p h cs where p: "fs_kmalloc s = Some (p, s\<lparr>fs_heap := h\<rparr>)" "p \<noteq> 0" "fs_mem n (s\<lparr>fs_heap := h\<rparr>) cs"
    by (rule fs_kmalloc_ok) blast
  have "heap_inv (fs_heap s)" using assms by (auto simp: fs_mem_def heap_inv_def)
  from kheap.alloc_law [OF this, of 512] p(1,2) have "p \<notin> owned (fs_heap s)" "owned h = insert p (owned (fs_heap s))"
    by (auto simp: fs_kmalloc_def fs_heap_inj split: Option.bind_splits if_splits)
  then show ?thesis using that p by blast
qed

lemma memcpy_prefix: "length content \<le> length data \<Longrightarrow> memcpy data content (length content) = Some (content @ drop (length content) data)"
  by (induction content arbitrary: data) (auto simp: Suc_le_length_iff)

lemma write_temp_block_ok:
  assumes "rd_ok (fs_disk s)" and "fs_mem 1 s bs" and "b < RAMDISK_BLOCK_COUNT" and "length content \<le> 512"
  obtains h d where "write_temp_block b content s = Some (s\<lparr>fs_heap := h, fs_disk := d\<rparr>)" and "heap_ok h bs" and "rd_ok d"
    and "blk d b = content @ replicate (512 - length content) 0" and "\<forall>c. c \<noteq> b \<longrightarrow> blk d c = blk (fs_disk s) c"
proof -
  from assms(2) have "fs_mem (Suc 0) s bs" by simp
  then obtain p h cs where p: "fs_kmalloc s = Some (p, s\<lparr>fs_heap := h\<rparr>)" "p \<noteq> 0" "fs_mem 0 (s\<lparr>fs_heap := h\<rparr>) cs"
    and rel: "\<And>s'. heap_ok (fs_heap s') cs \<Longrightarrow> \<exists>h'. fs_kfree p s' = Some (s'\<lparr>fs_heap := h'\<rparr>) \<and> heap_ok h' bs"
    by (rule fs_kmalloc_ok) blast
  let ?data = "content @ replicate (512 - length content) 0"
  have cp: "memcpy (replicate 512 0) content (length content) = Some ?data"
    using memcpy_prefix [of content "replicate 512 0"] assms(4) by (simp add: drop_replicate)
  obtain d where d: "write_block b ?data (s\<lparr>fs_heap := h\<rparr>) = Some (s\<lparr>fs_heap := h, fs_disk := d\<rparr>)" "rd_ok d" "blk d b = ?data"
    "\<forall>c. c \<noteq> b \<longrightarrow> blk d c = blk (fs_disk s) c"
    using write_block_ok [of "s\<lparr>fs_heap := h\<rparr>" b ?data] assms by auto
  from rel [of "s\<lparr>fs_heap := h, fs_disk := d\<rparr>"] p(3) obtain h' where
    h': "fs_kfree p (s\<lparr>fs_heap := h, fs_disk := d\<rparr>) = Some (s\<lparr>fs_heap := h', fs_disk := d\<rparr>)" "heap_ok h' bs"
    by (auto simp: fs_mem_def)
  have "write_temp_block b content s = Some (s\<lparr>fs_heap := h', fs_disk := d\<rparr>)"
    using p(1,2) cp d(1) h'(1) memset_zero [of "fresh (s\<lparr>fs_heap := h\<rparr>) p" 512] by (simp add: write_temp_block_def)
  then show ?thesis using that d h'(2) by blast
qed

section \<open>Formatting\<close>

lemma bitmap_set_0: "bitmap_set (replicate 512 0) 0 = Some (1 # replicate 511 0)"
proof -
  have "replicate 512 (0 :: u8) = 0 # replicate 511 0" using replicate_Suc [of 511 "0 :: u8"] by simp
  then show ?thesis by (simp add: bitmap_set_def)
qed

lemma bits_first: "bits (1 # replicate 511 (0 :: u8)) = {0}"
proof -
  have "(1 # replicate 511 (0 :: u8)) ! j = (if j = 0 then 1 else 0)" if "j < 512" for j
    using that by (cases j) simp_all
  then have "k \<in> bits (1 # replicate 511 (0 :: u8)) \<longleftrightarrow> k div 8 = 0 \<and> k mod 8 = 0" for k
    by (auto simp: bits_def bit_1_iff split: if_splits)
  moreover have "k div 8 = 0 \<and> k mod 8 = 0 \<longleftrightarrow> k = 0" for k :: nat by presburger
  ultimately show ?thesis by blast
qed

lemma owned_layout: "heap_ok h bs \<Longrightarrow> heap_ok h' bs \<Longrightarrow> owned h' = owned h"
  using owned_ok by blast

lemma can_alloc_heap_ok: "fs_mem n s bs \<Longrightarrow> heap_ok (fs_heap t) bs \<Longrightarrow> fs_mem n t bs"
  by (simp add: fs_mem_def)

text \<open>Formatting with buffers at hand.\<close>

definition formatted :: "u32 \<Rightarrow> fs_state \<Rightarrow> bool" where
  "formatted now s \<longleftrightarrow> maps_ok s \<and> bits (inode_bitmap s) = {0} \<and> bits (data_bitmap s) = {0} \<and>
     inode_at (fs_disk s) 0 = new_inode (FS_TYPE_DIR OR FS_PERM_DEFAULT) now \<and>
     blk (fs_disk s) 0 = encode_superblock new_superblock \<and> blk (fs_disk s) FS_DATA_BLOCKS_START = replicate 512 0"

lemma fs_format_body:
  assumes "rd_ok (fs_disk s)" and "fs_mem 1 s bs" and "inode_bitmap_ptr s \<noteq> 0" and "data_bitmap_ptr s \<noteq> 0"
    and "length (inode_bitmap s) = 512" and "length (data_bitmap s) = 512"
  obtains h d where "fs_format s = Some (s\<lparr>fs_heap := h, fs_disk := d, superblock := new_superblock,
      inode_bitmap := 1 # replicate 511 0, data_bitmap := 1 # replicate 511 0, fs_initialized := 1\<rparr>)"
    and "heap_ok h bs" and "\<And>x. formatted (ticks s) (x\<lparr>fs_disk := d, inode_bitmap := 1 # replicate 511 0, data_bitmap := 1 # replicate 511 0\<rparr>)"
    and "\<And>m. m < 384 \<Longrightarrow> m \<noteq> 0 \<Longrightarrow> inode_at d m = inode_at (fs_disk s) m"
proof -
  let ?bm = "1 # replicate 511 0 :: u8 list"
  let ?root = "new_inode (FS_TYPE_DIR OR FS_PERM_DEFAULT) (ticks s)"
  let ?s0 = "s\<lparr>superblock := new_superblock, inode_bitmap := ?bm, data_bitmap := ?bm\<rparr>"
  have sb: "length (sb_reserved new_superblock) = 460" by (simp add: new_superblock_def)
  have wf: "wf_inode ?root" by (simp add: wf_inode_def new_inode_def)
  have ib0: "inode_block 0 = 3" by (simp add: inode_block_def)
  obtain h1 d1 where w1: "write_inode 0 ?root ?s0 = Some (0, ?s0\<lparr>fs_heap := h1, fs_disk := d1\<rparr>)" "heap_ok h1 bs" "rd_ok d1"
    "inode_at d1 0 = ?root" "\<forall>m < FS_MAX_INODES. m \<noteq> 0 \<longrightarrow> inode_at d1 m = inode_at (fs_disk ?s0) m"
    "\<forall>b. b \<noteq> inode_block 0 \<longrightarrow> blk d1 b = blk (fs_disk ?s0) b"
    by (rule write_inode_ok [of ?s0 bs 0 ?root]) (use assms wf in simp_all)
  let ?s1 = "?s0\<lparr>fs_heap := h1, fs_disk := d1\<rparr>"
  have m1: "fs_mem 1 ?s1 bs" using assms(2) w1(2) by (simp add: fs_mem_def)
  obtain h2 d2 where w2: "write_temp_block FS_DATA_BLOCKS_START [] ?s1 = Some (?s1\<lparr>fs_heap := h2, fs_disk := d2\<rparr>)" "heap_ok h2 bs" "rd_ok d2"
    "blk d2 FS_DATA_BLOCKS_START = [] @ replicate (512 - length ([] :: u8 list)) 0"
    "\<forall>c. c \<noteq> FS_DATA_BLOCKS_START \<longrightarrow> blk d2 c = blk (fs_disk ?s1) c"
    by (rule write_temp_block_ok [OF _ m1, of FS_DATA_BLOCKS_START "[]"]) (use w1(3) in simp_all)
  let ?s2 = "?s1\<lparr>fs_heap := h2, fs_disk := d2\<rparr>"
  have m2: "fs_mem 1 ?s2 bs" using assms(2) w2(2) by (simp add: fs_mem_def)
  obtain h3 d3 where w3: "write_temp_block FS_SUPERBLOCK_BLOCK (encode_superblock new_superblock) ?s2 = Some (?s2\<lparr>fs_heap := h3, fs_disk := d3\<rparr>)"
    "heap_ok h3 bs" "rd_ok d3"
    "blk d3 FS_SUPERBLOCK_BLOCK = encode_superblock new_superblock @ replicate (512 - length (encode_superblock new_superblock)) 0"
    "\<forall>c. c \<noteq> FS_SUPERBLOCK_BLOCK \<longrightarrow> blk d3 c = blk (fs_disk ?s2) c"
    by (rule write_temp_block_ok [OF _ m2, of FS_SUPERBLOCK_BLOCK "encode_superblock new_superblock"])
      (use w2(3) length_encode_superblock [OF sb] in simp_all)
  let ?s3 = "?s2\<lparr>fs_heap := h3, fs_disk := d3\<rparr>"
  obtain d4 where w4: "write_block 1 ?bm ?s3 = Some (?s3\<lparr>fs_disk := d4\<rparr>)" "rd_ok d4" "blk d4 1 = ?bm" "\<forall>c. c \<noteq> 1 \<longrightarrow> blk d4 c = blk d3 c"
    using write_block_ok [of ?s3 1 ?bm] w3(3) by auto
  obtain d5 where w5: "write_block 2 ?bm (?s3\<lparr>fs_disk := d4\<rparr>) = Some (?s3\<lparr>fs_disk := d5\<rparr>)" "rd_ok d5" "blk d5 2 = ?bm" "\<forall>c. c \<noteq> 2 \<longrightarrow> blk d5 c = blk d4 c"
    using write_block_ok [of "?s3\<lparr>fs_disk := d4\<rparr>" 2 ?bm] w4(2) by auto
  have init: "ramdisk_is_initialized (fs_disk s) \<noteq> 0" using assms(1) by (simp add: rd_ok_def ramdisk_is_initialized_def)
  have run: "fs_format s = Some (?s3\<lparr>fs_disk := d5, fs_initialized := 1\<rparr>)"
    using init assms(3-6) memset_zero [of "inode_bitmap s" 512] memset_zero [of "data_bitmap s" 512] bitmap_set_0 w1(1) w2(1) w3(1) w4(1) w5(1)
    by (simp add: fs_format_def)
  have table: "blk d5 b = blk d1 b" if "2 < b" "b < 67" for b
  proof -
    have "b \<noteq> 0 \<and> b \<noteq> 1 \<and> b \<noteq> 2 \<and> b \<noteq> 67" using that by (auto simp: word_less_nat_alt)
    then show ?thesis using w2(5) w3(5) w4(4) w5(4) by simp
  qed
  have ino: "inode_at d5 m = inode_at d1 m" if "m < 384" for m
  proof -
    have m: "unat m < 384" "m < FS_MAX_INODES" using that by (simp_all add: word_less_nat_alt)
    have "unat (inode_block m) = 3 + unat m div 6" by (rule unat_inode_block [OF m(2)])
    then have "2 < inode_block m" "inode_block m < 67" using m(1) by (auto simp: word_less_nat_alt)
    then show ?thesis using table by (simp add: inode_at_def)
  qed
  show ?thesis
  proof (rule that [of d5 h3])
    show "fs_format s = Some (s\<lparr>fs_heap := h3, fs_disk := d5, superblock := new_superblock,
      inode_bitmap := ?bm, data_bitmap := ?bm, fs_initialized := 1\<rparr>)" using run by simp
    show "heap_ok h3 bs" by (rule w3(2))
    show "formatted (ticks s) (x\<lparr>fs_disk := d5, inode_bitmap := ?bm, data_bitmap := ?bm\<rparr>)" for x
      using length_encode_superblock [OF sb] w1(4) w2(4) w3(4,5) w4(3,4) w5(2-4) ino [of 0] bits_first by (simp add: formatted_def maps_ok_def)
    show "inode_at d5 m = inode_at (fs_disk s) m" if "m < 384" "m \<noteq> 0" for m
      using ino [OF that(1)] w1(5) that by (simp add: word_less_nat_alt)
  qed
qed

text \<open>The first format after boot also takes the two bitmap buffers.\<close>

lemma fs_format_ok:
  assumes "rd_ok (fs_disk s)" and "fs_mem (Suc (Suc (Suc n))) s bs" and "inode_bitmap_ptr s = 0" and "data_bitmap_ptr s = 0"
  obtains s' cs p q where "fs_format s = Some s'" and "fs_mem (Suc n) s' cs" and "formatted (ticks s) s'" and "fs_initialized s' = 1"
    and "superblock s' = new_superblock" and "inode_bitmap_ptr s' = p" and "data_bitmap_ptr s' = q" and "p \<noteq> q"
    and "owned (fs_heap s') = {p, q} \<union> owned (fs_heap s)" and "{p, q} \<inter> owned (fs_heap s) = {}" and "p \<noteq> 0" and "q \<noteq> 0"
    and "open_files s' = open_files s" and "ticks s' = ticks s"
    and "\<And>m. m < 384 \<Longrightarrow> m \<noteq> 0 \<Longrightarrow> inode_at (fs_disk s') m = inode_at (fs_disk s) m"
proof -
  obtain p h cs where p: "fs_kmalloc s = Some (p, s\<lparr>fs_heap := h\<rparr>)" "p \<noteq> 0" "fs_mem (Suc (Suc n)) (s\<lparr>fs_heap := h\<rparr>) cs"
    "p \<notin> owned (fs_heap s)" "owned h = insert p (owned (fs_heap s))"
    by (rule fs_kmalloc_keep [OF assms(2)])
  let ?s1 = "s\<lparr>fs_heap := h, inode_bitmap_ptr := p, inode_bitmap := fresh (s\<lparr>fs_heap := h\<rparr>) p\<rparr>"
  have m1: "fs_mem (Suc (Suc n)) ?s1 cs" using p(3) by (simp add: fs_mem_def)
  obtain q h2 ds where q: "fs_kmalloc ?s1 = Some (q, ?s1\<lparr>fs_heap := h2\<rparr>)" "q \<noteq> 0" "fs_mem (Suc n) (?s1\<lparr>fs_heap := h2\<rparr>) ds"
    "q \<notin> owned (fs_heap ?s1)" "owned h2 = insert q (owned (fs_heap ?s1))"
    by (rule fs_kmalloc_keep [OF m1])
  let ?s2 = "?s1\<lparr>fs_heap := h2, data_bitmap_ptr := q, data_bitmap := fresh (?s1\<lparr>fs_heap := h2\<rparr>) q\<rparr>"
  have init: "ramdisk_is_initialized (fs_disk s) \<noteq> 0" using assms(1) by (simp add: rd_ok_def ramdisk_is_initialized_def)
  have "fs_format s = fs_format ?s2"
    using init assms(3,4) p(1,2) q(1,2) by (simp add: fs_format_def)
  moreover obtain h3 d where b: "fs_format ?s2 = Some (?s2\<lparr>fs_heap := h3, fs_disk := d, superblock := new_superblock,
      inode_bitmap := 1 # replicate 511 0, data_bitmap := 1 # replicate 511 0, fs_initialized := 1\<rparr>)"
    "heap_ok h3 ds" "\<And>x. formatted (ticks ?s2) (x\<lparr>fs_disk := d, inode_bitmap := 1 # replicate 511 0, data_bitmap := 1 # replicate 511 0\<rparr>)"
    "\<And>m. m < 384 \<Longrightarrow> m \<noteq> 0 \<Longrightarrow> inode_at d m = inode_at (fs_disk ?s2) m"
    by (rule fs_format_body [of ?s2 ds]) (use assms(1) q(2,3) p(2) in \<open>simp_all add: fs_mem_def split: option.splits\<close>)
  ultimately have run: "fs_format s = Some (?s2\<lparr>fs_heap := h3, fs_disk := d, superblock := new_superblock,
      inode_bitmap := 1 # replicate 511 0, data_bitmap := 1 # replicate 511 0, fs_initialized := 1\<rparr>)" by simp
  have own: "owned h3 = owned h2" using q(3) b(2) by (intro owned_layout) (simp_all add: fs_mem_def)
  show ?thesis
    by (rule that [OF run, of ds p q])
      (use b(2-4) own p(2,4,5) q(2-5) in \<open>auto simp: fs_mem_def formatted_def maps_ok_def\<close>)
qed

section \<open>Mounting\<close>

lemma fs_init_ok:
  assumes "rd_ok (fs_disk s)" and "fs_mem (Suc (Suc (Suc n))) s bs" and "blk (fs_disk s) 0 = encode_superblock b"
    and "length (sb_reserved b) = 460" and "sb_magic b = FS_MAGIC"
  obtains s' cs p q where "fs_init s = Some s'" and "fs_mem (Suc n) s' cs" and "superblock s' = b" and "fs_initialized s' = 1"
    and "maps_ok s'" and "fs_disk s' = fs_disk s" and "inode_bitmap_ptr s' = p" and "data_bitmap_ptr s' = q" and "p \<noteq> q"
    and "owned (fs_heap s') = {p, q} \<union> owned (fs_heap s)" and "{p, q} \<inter> owned (fs_heap s) = {}"
    and "open_files s' = map (\<lambda>f. f\<lparr>f_in_use := 0\<rparr>) (open_files s)" and "ticks s' = ticks s"
proof -
  obtain p h cs where p: "fs_kmalloc s = Some (p, s\<lparr>fs_heap := h\<rparr>)" "p \<noteq> 0" "fs_mem (Suc (Suc n)) (s\<lparr>fs_heap := h\<rparr>) cs"
    "p \<notin> owned (fs_heap s)" "owned h = insert p (owned (fs_heap s))"
    by (rule fs_kmalloc_keep [OF assms(2)])
  let ?s1 = "s\<lparr>fs_heap := h, inode_bitmap_ptr := p, inode_bitmap := fresh (s\<lparr>fs_heap := h\<rparr>) p\<rparr>"
  have m1: "fs_mem (Suc (Suc n)) ?s1 cs" using p(3) by (simp add: fs_mem_def)
  obtain q h2 ds where q: "fs_kmalloc ?s1 = Some (q, ?s1\<lparr>fs_heap := h2\<rparr>)" "q \<noteq> 0" "fs_mem (Suc n) (?s1\<lparr>fs_heap := h2\<rparr>) ds"
    "q \<notin> owned (fs_heap ?s1)" "owned h2 = insert q (owned (fs_heap ?s1))"
    by (rule fs_kmalloc_keep [OF m1])
  let ?s2 = "?s1\<lparr>fs_heap := h2, data_bitmap_ptr := q, data_bitmap := fresh (?s1\<lparr>fs_heap := h2\<rparr>) q\<rparr>"
  have m2: "fs_mem (Suc n) ?s2 ds" using q(3) by (simp add: fs_mem_def)
  then obtain t h3 es where t: "fs_kmalloc ?s2 = Some (t, ?s2\<lparr>fs_heap := h3\<rparr>)" "t \<noteq> 0" "fs_mem n (?s2\<lparr>fs_heap := h3\<rparr>) es"
    and rel: "\<And>s'. heap_ok (fs_heap s') es \<Longrightarrow> \<exists>h'. fs_kfree t s' = Some (s'\<lparr>fs_heap := h'\<rparr>) \<and> heap_ok h' ds"
    by (rule fs_kmalloc_ok) blast
  let ?s3 = "?s2\<lparr>fs_heap := h3\<rparr>"
  have rb: "read_block ?s3 0 (fresh ?s3 t) = Some (encode_superblock b)" using read_block_ok [of ?s3 0 "fresh ?s3 t"] assms(1,3) by simp
  let ?s4 = "?s3\<lparr>superblock := b\<rparr>"
  obtain h5 where h5: "fs_kfree t ?s4 = Some (?s4\<lparr>fs_heap := h5\<rparr>)" "heap_ok h5 ds"
    using rel [of ?s4] t(3) by (auto simp: fs_mem_def)
  let ?s5 = "?s4\<lparr>fs_heap := h5\<rparr>"
  have ib: "read_block ?s5 1 (inode_bitmap ?s5) = Some (blk (fs_disk s) 1)" "read_block ?s5 2 (data_bitmap ?s5) = Some (blk (fs_disk s) 2)"
    using read_block_ok [of ?s5] assms(1) by simp_all
  have init: "ramdisk_is_initialized (fs_disk s) \<noteq> 0" using assms(1) by (simp add: rd_ok_def ramdisk_is_initialized_def)
  let ?s6 = "?s5\<lparr>inode_bitmap := blk (fs_disk s) 1, data_bitmap := blk (fs_disk s) 2,
    open_files := map (\<lambda>f. f\<lparr>f_in_use := 0\<rparr>) (open_files s), fs_initialized := 1\<rparr>"
  have run: "fs_init s = Some ?s6"
    using init p(1,2) q(1,2) t(1,2) rb h5(1) ib assms(5) decode_encode_superblock [OF assms(4)] by (simp add: fs_init_def)
  have own: "owned h5 = owned h2" using m2 h5(2) by (intro owned_layout) (simp_all add: fs_mem_def)
  show ?thesis
    by (rule that [OF run, of ds p q])
      (use m2 h5(2) own p(4,5) q(4,5) assms(1) in \<open>auto simp: fs_mem_def maps_ok_def\<close>)
qed

end
