(* ===== verification/Fs_Dir.thy ===== *)
theory Fs_Dir
  imports Fs_Mount
begin

text \<open>
  The root directory as a finite map from names to inode numbers. A data block of the directory is 16
  slots of 32 bytes; \<open>entries\<close> lists the used slots of a block and \<open>dir_list\<close> those of the whole directory, in
  the order in which \<open>path_lookup\<close> meets them. Looking up, adding and removing an entry are lookup, insertion
  and deletion in that list.
\<close>

section \<open>Slots of a directory block\<close>

definition slot :: "u8 list \<Rightarrow> nat \<Rightarrow> u8 list" where
  "slot data i = take 32 (drop (32 * i) data)"

definition slot_inode :: "u8 list \<Rightarrow> nat \<Rightarrow> u32" where
  "slot_inode data i = get32 (slot data i) 0"

definition slot_name :: "u8 list \<Rightarrow> nat \<Rightarrow> u8 list" where
  "slot_name data i = cstr (drop 4 (slot data i))"

text \<open>Used slots hold a terminated name.\<close>

definition names_ok :: "u8 list \<Rightarrow> bool" where
  "names_ok data \<longleftrightarrow> length data = 512 \<and> (\<forall>i < 16. slot_inode data i \<noteq> 0 \<longrightarrow> 0 \<in> set (drop 4 (slot data i)))"

lemma length_slot [simp]: "length data = 512 \<Longrightarrow> i < 16 \<Longrightarrow> length (slot data i) = 32"
  by (simp add: slot_def)

lemma slot_nth: "length data = 512 \<Longrightarrow> i < 16 \<Longrightarrow> k < 32 \<Longrightarrow> slot data i ! k = data ! (32 * i + k)"
  by (simp add: slot_def)

lemma de_inode_slot: "length data = 512 \<Longrightarrow> i < 16 \<Longrightarrow> de_inode data i = slot_inode data i"
  by (simp add: de_inode_def slot_inode_def slot_def get32_def)

lemma cstr_prefix: "0 \<in> set xs \<Longrightarrow> cstr (xs @ ys) = cstr xs"
  by (induction xs) auto

lemma de_name_slot:
  assumes "length data = 512" and "i < 16" and "0 \<in> set (drop 4 (slot data i))"
  shows "0 \<in> set (de_name data i)" and "cstr (de_name data i) = slot_name data i"
proof -
  have "de_name data i = drop 4 (slot data i) @ drop (32 * i + 32) data"
    using append_take_drop_id [of 28 "drop (32 * i + 4) data"] by (simp add: de_name_def slot_def drop_take add.commute)
  then show "0 \<in> set (de_name data i)" and "cstr (de_name data i) = slot_name data i"
    using assms(3) by (simp_all add: slot_name_def cstr_prefix)
qed

lemma slot_replace:
  assumes "length data = 512" and "length new = 32" and "i < 16" and "j < 16"
  shows "slot (take (32 * i) data @ new @ drop (32 * i + 32) data) j = (if j = i then new else slot data j)"
proof -
  have nth: "(take (32 * i) data @ new @ drop (32 * i + 32) data) ! k =
      (if 32 * i \<le> k \<and> k < 32 * i + 32 then new ! (k - 32 * i) else data ! k)" if "k < 512" for k
    using splice_nth [of "32 * i" new data k] assms that by simp
  have len: "length (take (32 * i) data @ new @ drop (32 * i + 32) data) = 512" using assms by simp
  show ?thesis
  proof (rule nth_equalityI)
    fix k assume "k < length (slot (take (32 * i) data @ new @ drop (32 * i + 32) data) j)"
    then have k: "k < 32" using len assms(4) by simp
    have "\<not> (32 * i \<le> 32 * j + k \<and> 32 * j + k < 32 * i + 32)" if "j \<noteq> i" by (rule slots_apart [OF that k])
    then show "slot (take (32 * i) data @ new @ drop (32 * i + 32) data) j ! k = (if j = i then new else slot data j) ! k"
      using nth [of "32 * j + k"] k assms(1,4) slot_nth [OF len assms(4) k] slot_nth [OF assms(1,4) k] by auto
  qed (use assms len in simp)
qed

section \<open>Storing an entry\<close>

definition field :: "u8 list \<Rightarrow> u8 list" where
  "field name = take 27 (cstr name) @ replicate (28 - min 27 (length (cstr name))) 0"

lemma length_field [simp]: "length (field name) = 28"
  by (simp add: field_def)

lemma field_nul: "0 \<in> set (field name)"
proof -
  have "min 27 (length (cstr name)) \<le> 27" by (rule min.cobounded1)
  then have "0 < 28 - min 27 (length (cstr name))" by arith
  then have "0 \<in> set (replicate (28 - min 27 (length (cstr name))) (0 :: u8))" by (simp only: in_set_replicate) simp
  then show ?thesis unfolding field_def set_append by blast
qed

lemma cstr_field: "cstr (field name) = take 27 (cstr name)"
proof -
  have nz: "0 \<notin> set (take 27 (cstr name))" using in_set_takeD [of 0 27 "cstr name"] cstr_no_nul by auto
  have "replicate (28 - min 27 (length (cstr name))) (0 :: u8) = 0 # replicate (27 - min 27 (length (cstr name))) 0"
  proof -
    have "28 - min 27 (length (cstr name)) = Suc (27 - min 27 (length (cstr name)))"
      using min.cobounded1 [of 27 "length (cstr name)"] by arith
    then show ?thesis by (simp only: replicate_Suc)
  qed
  then show ?thesis using cstr_append_nul [OF nz] by (simp add: field_def)
qed

lemma strncpy_27:
  assumes "0 \<in> set name" and "28 \<le> length dest"
  shows "\<exists>r. strncpy dest name 27 = Some r \<and> length r = length dest \<and> r[27 := 0] = field name @ drop 28 dest"
proof (cases "27 \<le> length (cstr name)")
  case True
  then have "strncpy dest name 27 = Some (take 27 (cstr name) @ drop 27 dest)"
    using strncpy_loop_eq [OF assms(1), of dest 27] assms(2) by (simp add: strncpy_def)
  moreover have "drop 27 dest = dest ! 27 # drop 28 dest" using Cons_nth_drop_Suc [of 27 dest] assms(2) by simp
  ultimately show ?thesis using True assms(2) by (simp add: field_def list_update_append)
next
  case False
  then have l: "length (cstr name) < 27" by simp
  have "strncpy dest name 27 = Some (cstr name @ replicate (28 - length (cstr name)) 0 @ drop 28 dest)"
    using strncpy_loop_eq [OF assms(1), of dest 27] assms(2) False by (simp add: strncpy_def)
  moreover have "(cstr name @ replicate (28 - length (cstr name)) 0 @ drop 28 dest)[27 := 0] =
      cstr name @ replicate (28 - length (cstr name)) 0 @ drop 28 dest"
    using l by (simp add: list_update_append list_update_same_conv nth_append)
  ultimately show ?thesis using l assms(2) by (simp add: field_def min_def)
qed

lemma put_entry_ok:
  assumes "length data = 512" and "i < 16" and "0 \<in> set name"
  shows "put_entry data i name ino = Some (take (32 * i) data @ (le32 ino @ field name) @ drop (32 * i + 32) data)"
proof -
  let ?d = "take (32 * i) data @ le32 ino @ drop (32 * i + 4) data"
  have sp: "splice data (32 * i) (le32 ino) = Some ?d" using assms by (simp add: splice_def)
  have dn: "de_name ?d i = drop (32 * i + 4) data" using assms by (simp add: de_name_def)
  obtain r where r: "strncpy (drop (32 * i + 4) data) name 27 = Some r" "length r = 508 - 32 * i"
    "r[27 := 0] = field name @ drop (32 * i + 32) data"
  proof -
    have "28 \<le> 508 - 32 * i" using assms(2) by linarith
    then show ?thesis using that strncpy_27 [OF assms(3), of "drop (32 * i + 4) data"] assms(1) by (auto simp: add.commute)
  qed
  have t: "take (32 * i + 4) ?d = take (32 * i) data @ le32 ino" using assms by simp
  have "store (take (32 * i) data @ le32 ino @ r) (32 * i + 4 + 27) 0 = Some (take (32 * i) data @ le32 ino @ r[27 := 0])"
    using assms r(2) by (simp add: store_def list_update_append)
  then show ?thesis using sp dn r(1,3) t assms(1,2) by (simp add: put_entry_def)
qed

section \<open>Entries in lookup order\<close>

definition entries :: "u8 list \<Rightarrow> (u8 list \<times> u32) list" where
  "entries data = map (\<lambda>i. (slot_name data i, slot_inode data i)) (filter (\<lambda>i. slot_inode data i \<noteq> 0) [0..<16])"

definition dir_blocks :: "fs_inode_t \<Rightarrow> u32 list" where
  "dir_blocks i = takeWhile (\<lambda>b. b \<noteq> 0) (i_blocks i)"

definition dir_list :: "ramdisk_t \<Rightarrow> fs_inode_t \<Rightarrow> (u8 list \<times> u32) list" where
  "dir_list d i = concat (map (\<lambda>b. entries (blk d (FS_DATA_BLOCKS_START + b))) (dir_blocks i))"

lemma find_entry_eq:
  assumes "names_ok data" and "0 \<in> set name" and "set is \<subseteq> {..<16}"
  shows "find_entry data name is = Some (List.find (\<lambda>i. slot_inode data i \<noteq> 0 \<and> slot_name data i = cstr name) is)"
  using assms(3)
proof (induction "is")
  case (Cons i "is")
  have i: "i < 16" "length data = 512" using Cons.prems assms(1) by (auto simp: names_ok_def)
  show ?case
  proof (cases "slot_inode data i = 0")
    case False
    then have z: "0 \<in> set (drop 4 (slot data i))" using assms(1) i(1) by (simp add: names_ok_def)
    obtain c where "strcmp (de_name data i) name = Some c" "c = 0 \<longleftrightarrow> cstr (de_name data i) = cstr name"
      using strcmp_terminated [OF de_name_slot(1) [OF i(2,1) z] assms(2)] by blast
    then show ?thesis using Cons False de_name_slot(2) [OF i(2,1) z] by (simp add: de_inode_slot [OF i(2,1)])
  qed (use Cons in \<open>simp add: de_inode_slot [OF i(2,1)]\<close>)
qed simp

lemma map_of_filter_map:
  "map_of (map (\<lambda>i. (f i, g i)) (filter P xs)) x = map_option g (List.find (\<lambda>i. P i \<and> f i = x) xs)"
  by (induction xs) auto

lemma lookup_blocks_eq:
  assumes "rd_ok (fs_disk s)" and "0 \<in> set name" and "length data = 512"
    and "\<And>b. b \<in> set (takeWhile (\<lambda>b. b \<noteq> 0) bs) \<Longrightarrow> unat b < 1981 \<and> names_ok (blk (fs_disk s) (FS_DATA_BLOCKS_START + b))"
  shows "lookup_blocks s name bs data =
    Some (map_of (concat (map (\<lambda>b. entries (blk (fs_disk s) (FS_DATA_BLOCKS_START + b))) (takeWhile (\<lambda>b. b \<noteq> 0) bs))) (cstr name))"
  using assms(3,4)
proof (induction bs arbitrary: data)
  case (Cons b bs)
  show ?case
  proof (cases "b = 0")
    case False
    let ?x = "blk (fs_disk s) (FS_DATA_BLOCKS_START + b)"
    have b: "unat b < 1981" "names_ok ?x" using Cons.prems(2) [of b] False by auto
    have rb: "read_block s (FS_DATA_BLOCKS_START + b) data = Some ?x"
      by (rule read_block_ok [OF assms(1) data_block_less [OF b(1)] Cons.prems(1)])
    have fe: "find_entry ?x name [0..<16] = Some (List.find (\<lambda>i. slot_inode ?x i \<noteq> 0 \<and> slot_name ?x i = cstr name) [0..<16])"
      by (rule find_entry_eq [OF b(2) assms(2)]) auto
    have mo: "map_of (entries ?x) (cstr name) =
        map_option (slot_inode ?x) (List.find (\<lambda>i. slot_inode ?x i \<noteq> 0 \<and> slot_name ?x i = cstr name) [0..<16])"
      by (simp only: entries_def map_of_filter_map)
    have IH: "lookup_blocks s name bs ?x = Some (map_of (concat (map (\<lambda>b. entries (blk (fs_disk s) (FS_DATA_BLOCKS_START + b)))
        (takeWhile (\<lambda>b. b \<noteq> 0) bs))) (cstr name))"
      by (rule Cons.IH) (use Cons.prems(2) False in auto)
    show ?thesis
    proof (cases "List.find (\<lambda>i. slot_inode ?x i \<noteq> 0 \<and> slot_name ?x i = cstr name) [0..<16]")
      case None
      then show ?thesis using False rb fe mo IH by (simp add: map_add_def)
    next
      case (Some i)
      then have "i < 16" using find_SomeD [OF Some] by simp
      then show ?thesis using Some False rb fe mo de_inode_slot [of ?x i] by (simp add: map_add_def)
    qed
  qed simp
qed simp

text \<open>The name a path denotes.\<close>

definition path_name :: "u8 list \<Rightarrow> u8 list" where
  "path_name p = cstr (if p \<noteq> [] \<and> hd p = 47 then tl p else p)"

definition good_path :: "u8 list \<Rightarrow> bool" where
  "good_path p \<longleftrightarrow> 0 \<in> set p \<and> path_name p \<noteq> []"

lemma skip_slash_path:
  assumes "good_path p"
  shows "\<exists>name. skip_slash p = Some name \<and> 0 \<in> set name \<and> cstr name = path_name p \<and> name \<noteq> [] \<and> hd name \<noteq> 0"
proof -
  obtain c r where p: "p = c # r" using assms by (cases p) (auto simp: good_path_def)
  let ?n = "if c = 47 then r else p"
  have "0 \<in> set ?n" "cstr ?n = path_name p" using assms p by (auto simp: good_path_def path_name_def)
  moreover from this have "?n \<noteq> [] \<and> hd ?n \<noteq> 0" using assms by (cases ?n) (auto simp: good_path_def)
  moreover have "skip_slash p = Some ?n" by (simp add: skip_slash_def p)
  ultimately show ?thesis by blast
qed

section \<open>The shape of a directory\<close>

text \<open>The block numbers of a directory are a run of allocated blocks followed by zeros.\<close>

definition dir_shape :: "ramdisk_t \<Rightarrow> fs_inode_t \<Rightarrow> bool" where
  "dir_shape d i \<longleftrightarrow> (\<forall>j < 10. i_blocks i ! j \<noteq> 0 \<longleftrightarrow> j < length (dir_blocks i)) \<and>
     (\<forall>j < length (dir_blocks i). names_ok (blk d (FS_DATA_BLOCKS_START + i_blocks i ! j)))"

lemma dir_blocks_take: "dir_blocks i = take (length (dir_blocks i)) (i_blocks i)"
  unfolding dir_blocks_def by (rule takeWhile_eq_take)

lemma dir_blocks_length: "wf_inode i \<Longrightarrow> length (dir_blocks i) \<le> 10"
  using length_takeWhile_le [of "\<lambda>b. b \<noteq> 0" "i_blocks i"] by (simp add: dir_blocks_def wf_inode_def)

lemma dir_list_upt:
  assumes "wf_inode i"
  shows "dir_list d i = concat (map (\<lambda>j. entries (blk d (FS_DATA_BLOCKS_START + i_blocks i ! j))) [0..<length (dir_blocks i)])"
proof -
  have "dir_blocks i = map (\<lambda>j. i_blocks i ! j) [0..<length (dir_blocks i)]"
    by (rule nth_equalityI) (use dir_blocks_take [of i] in \<open>auto simp: dir_blocks_def takeWhile_nth\<close>)
  then show ?thesis unfolding dir_list_def by (metis (no_types, lifting) map_map comp_apply map_eq_conv)
qed

lemma blk_fbyte: "blk d (FS_DATA_BLOCKS_START + i_blocks i ! j) = map (fbyte d i) [512 * j..<512 * j + 512]"
  by (rule nth_equalityI) (simp_all add: fbyte_def)

lemma upt_split: "j < n \<Longrightarrow> [0..<n] = [0..<j] @ j # [Suc j..<n]"
  using upt_add_eq_append [of 0 j "n - j"] upt_conv_Cons [of j n] by simp

lemma length_takeWhile_run:
  assumes "n \<le> length xs" and "\<And>l. l < length xs \<Longrightarrow> P (xs ! l) \<longleftrightarrow> l < n"
  shows "length (takeWhile P xs) = n"
  using assms
proof (induction xs arbitrary: n)
  case (Cons x xs)
  show ?case
  proof (cases n)
    case 0
    then show ?thesis using Cons.prems(2) [of 0] by simp
  next
    case (Suc m)
    have "P (xs ! l) \<longleftrightarrow> l < m" if "l < length xs" for l using Cons.prems(2) [of "Suc l"] that Suc by simp
    then show ?thesis using Cons.IH [of m] Cons.prems(1) Cons.prems(2) [of 0] Suc by simp
  qed
qed simp

lemma concat_insert:
  assumes "j < n" and "F j = xs @ ys" and "G j = xs @ x # ys" and "\<And>l. l < n \<Longrightarrow> l \<noteq> j \<Longrightarrow> G l = F l"
  shows "\<exists>us vs. concat (map F [0..<n]) = us @ vs \<and> concat (map G [0..<n]) = us @ x # vs"
proof -
  have sp: "[0..<n] = [0..<j] @ j # [Suc j..<n]" by (rule upt_split [OF assms(1)])
  have "map G [0..<j] = map F [0..<j]" "map G [Suc j..<n] = map F [Suc j..<n]" using assms(1,4) by auto
  then have "concat (map F [0..<n]) = (concat (map F [0..<j]) @ xs) @ ys @ concat (map F [Suc j..<n]) \<and>
      concat (map G [0..<n]) = (concat (map F [0..<j]) @ xs) @ x # ys @ concat (map F [Suc j..<n])"
    using sp assms(2,3) by (simp del: map_eq_conv)
  then show ?thesis by blast
qed

text \<open>Filling a free slot of a block inserts one entry.\<close>

lemma get32_field: "get32 (le32 ino @ x) 0 = ino"
  by (rule get32_le32)

lemma entries_insert:
  assumes "names_ok data" and "f < 16" and "slot_inode data f = 0" and "ino \<noteq> 0"
    and "data' = take (32 * f) data @ (le32 ino @ field name) @ drop (32 * f + 32) data"
  shows "names_ok data'" and "\<exists>xs ys. entries data = xs @ ys \<and> entries data' = xs @ (take 27 (cstr name), ino) # ys"
proof -
  have len: "length data = 512" using assms(1) by (simp add: names_ok_def)
  have sl: "slot data' j = (if j = f then le32 ino @ field name else slot data j)" if "j < 16" for j
    unfolding assms(5) by (rule slot_replace [OF len _ assms(2) that]) simp
  have si: "slot_inode data' j = (if j = f then ino else slot_inode data j)"
    and sn: "slot_name data' j = (if j = f then take 27 (cstr name) else slot_name data j)" if "j < 16" for j
    using sl [OF that] by (simp_all add: slot_inode_def slot_name_def get32_field cstr_field)
  show "names_ok data'"
    unfolding names_ok_def
    using assms(1,2,5) len sl si field_nul by (auto simp: names_ok_def)
  let ?e = "\<lambda>data i. (slot_name data i, slot_inode data i)"
  have sp: "[0..<16] = [0..<f] @ f # [Suc f..<16]" by (rule upt_split [OF assms(2)])
  have eq: "map (?e data') (filter (\<lambda>i. slot_inode data' i \<noteq> 0) js) = map (?e data) (filter (\<lambda>i. slot_inode data i \<noteq> 0) js)"
    if "\<forall>j \<in> set js. j < 16 \<and> j \<noteq> f" for js
    using that by (induction js) (auto simp: si sn)
  have "entries data = map (?e data) (filter (\<lambda>i. slot_inode data i \<noteq> 0) [0..<f]) @ map (?e data) (filter (\<lambda>i. slot_inode data i \<noteq> 0) [Suc f..<16])"
    unfolding entries_def sp using assms(3) by simp
  moreover have "entries data' = map (?e data) (filter (\<lambda>i. slot_inode data i \<noteq> 0) [0..<f]) @
      (take 27 (cstr name), ino) # map (?e data) (filter (\<lambda>i. slot_inode data i \<noteq> 0) [Suc f..<16])"
    unfolding entries_def sp using assms(2,4) si [OF assms(2)] sn [OF assms(2)] eq [of "[0..<f]"] eq [of "[Suc f..<16]"] by simp
  ultimately show "\<exists>xs ys. entries data = xs @ ys \<and> entries data' = xs @ (take 27 (cstr name), ino) # ys" by blast
qed

lemma zero_block: "slot_inode (replicate 512 0) i = 0" if "i < 16"
  using that by (simp add: slot_inode_def slot_def get32_def)

lemma names_ok_zero: "names_ok (replicate 512 0)" and entries_zero: "entries (replicate 512 0) = []"
  by (simp_all add: names_ok_def entries_def zero_block filter_empty_conv)

section \<open>Adding an entry\<close>

lemma fbyte_same_block:
  assumes "\<And>k. k div 512 = j \<Longrightarrow> fbyte d' i' k = fbyte d i k"
  shows "blk d' (FS_DATA_BLOCKS_START + i_blocks i' ! j) = blk d (FS_DATA_BLOCKS_START + i_blocks i ! j)"
  unfolding blk_fbyte using assms by (intro map_cong) auto

text \<open>The blocks of the directory after the block under \<open>j\<close>, old or new, has been rewritten.\<close>

lemma dir_after_store:
  assumes good: "good s i" "good s1 i1" and shape: "dir_shape (fs_disk s) i" and j: "j < 10" "j \<le> length (dir_blocks i)"
    and bl: "i_blocks i ! j \<noteq> 0 \<Longrightarrow> i_blocks i1 = i_blocks i"
      "i_blocks i ! j = 0 \<Longrightarrow> \<exists>b. b \<noteq> 0 \<and> i_blocks i1 = (i_blocks i)[j := b]"
    and old: "old = (if i_blocks i ! j = 0 then replicate 512 0 else blk (fs_disk s) (FS_DATA_BLOCKS_START + i_blocks i ! j))"
    and new: "blk d' (FS_DATA_BLOCKS_START + i_blocks i1 ! j) = data'" "names_ok data'"
      "entries old = xs @ ys" "entries data' = xs @ x # ys"
    and same: "\<And>k. k < 5120 \<Longrightarrow> i_blocks i ! (k div 512) \<noteq> 0 \<Longrightarrow> k div 512 \<noteq> j \<Longrightarrow> fbyte d' i1 k = fbyte (fs_disk s) i k"
  shows "dir_shape d' i1" and "\<exists>us vs. dir_list (fs_disk s) i = us @ vs \<and> dir_list d' i1 = us @ x # vs"
proof -
  let ?n = "length (dir_blocks i)" and ?n1 = "length (dir_blocks i1)"
  have wf: "wf_inode i" "wf_inode i1" "length (i_blocks i) = 10" "length (i_blocks i1) = 10"
    using good by (auto simp: good_def wf_inode_def)
  have nz: "i_blocks i ! l \<noteq> 0 \<longleftrightarrow> l < ?n" if "l < 10" for l using shape that by (simp add: dir_shape_def)
  have n1: "?n1 = max ?n (Suc j)" and nz1: "\<And>l. l < 10 \<Longrightarrow> i_blocks i1 ! l \<noteq> 0 \<longleftrightarrow> l < max ?n (Suc j)"
  proof -
    show nz1: "i_blocks i1 ! l \<noteq> 0 \<longleftrightarrow> l < max ?n (Suc j)" if "l < 10" for l
      using nz [OF that] nz [OF j(1)] bl j that wf(3) by (cases "i_blocks i ! j = 0") (auto simp: nth_list_update split: if_splits)
    have "max ?n (Suc j) \<le> 10" using j(1) dir_blocks_length [OF wf(1)] by simp
    then show "?n1 = max ?n (Suc j)"
      using nz1 wf(4) unfolding dir_blocks_def
      by (intro length_takeWhile_run) auto
  qed
  have off: "blk d' (FS_DATA_BLOCKS_START + i_blocks i1 ! l) = blk (fs_disk s) (FS_DATA_BLOCKS_START + i_blocks i ! l)"
    if "l < ?n" "l \<noteq> j" for l
  proof (rule fbyte_same_block)
    fix k assume k: "k div 512 = l"
    have "l < 10" using that(1) dir_blocks_length [OF wf(1)] by linarith
    then have "k < 5120" "i_blocks i ! (k div 512) \<noteq> 0" using k nz that(1) by (linarith, simp)
    then show "fbyte d' i1 k = fbyte (fs_disk s) i k" using same k that(2) by simp
  qed
  have "names_ok (blk d' (FS_DATA_BLOCKS_START + i_blocks i1 ! l))" if "l < max ?n (Suc j)" for l
  proof (cases "l = j")
    case False
    then have "l < ?n" using that j(2) by simp
    then show ?thesis using off [OF _ False] shape by (simp add: dir_shape_def)
  qed (use new in simp)
  then show "dir_shape d' i1" unfolding dir_shape_def n1 using nz1 by simp
  let ?F = "\<lambda>l. entries (blk (fs_disk s) (FS_DATA_BLOCKS_START + i_blocks i ! l))"
    and ?G = "\<lambda>l. entries (blk d' (FS_DATA_BLOCKS_START + i_blocks i1 ! l))"
  show "\<exists>us vs. dir_list (fs_disk s) i = us @ vs \<and> dir_list d' i1 = us @ x # vs"
  proof (cases "i_blocks i ! j = 0")
    case True
    then have e: "j = ?n" using nz [OF j(1)] j(2) by simp
    have "xs = [] \<and> ys = []" using new(3) old True entries_zero by simp
    then have gj: "?G j = [x]" using new(1,4) by simp
    have "map ?G [0..<?n] = map ?F [0..<?n]" using off e by auto
    then show ?thesis
      using gj e n1 dir_list_upt [OF wf(1)] dir_list_upt [OF wf(2)] by (auto simp del: map_eq_conv)
  next
    case False
    then have e: "j < ?n" using nz [OF j(1)] by simp
    have "?F j = xs @ ys" "?G j = xs @ x # ys" using new(1,3,4) old False by simp_all
    then have "\<exists>us vs. concat (map ?F [0..<?n]) = us @ vs \<and> concat (map ?G [0..<?n]) = us @ x # vs"
      using concat_insert [of j ?n ?F xs ys ?G x, OF e] off by simp
    moreover have "?n1 = ?n" using e n1 by simp
    ultimately show ?thesis using dir_list_upt [OF wf(1), of "fs_disk s"] dir_list_upt [OF wf(2), of d'] by metis
  qed
qed

definition dir_ok :: "fs_state \<Rightarrow> bool" where
  "dir_ok s \<longleftrightarrow> file_ok s 0 \<and> i_mode (inode_at (fs_disk s) 0) AND FS_TYPE_DIR \<noteq> 0 \<and>
     dir_shape (fs_disk s) (inode_at (fs_disk s) 0)"

definition root_list :: "fs_state \<Rightarrow> (u8 list \<times> u32) list" where
  "root_list s = dir_list (fs_disk s) (inode_at (fs_disk s) 0)"

text \<open>What a change of the root directory leaves alone.\<close>

definition keeps :: "fs_state \<Rightarrow> fs_state \<Rightarrow> bool" where
  "keeps s s' \<longleftrightarrow> inode_bitmap s' = inode_bitmap s \<and> open_files s' = open_files s \<and> ticks s' = ticks s \<and>
     fs_initialized s' = fs_initialized s \<and> bits (data_bitmap s) \<subseteq> bits (data_bitmap s') \<and>
     card (bits (data_bitmap s')) \<le> card (bits (data_bitmap s)) + 10 \<and>
     (\<forall>m < 384. m \<noteq> 0 \<longrightarrow> inode_at (fs_disk s') m = inode_at (fs_disk s) m) \<and>
     (\<forall>b. unat b < 1981 \<and> unat b \<in> bits (data_bitmap s) \<and> b \<notin> set (i_blocks (inode_at (fs_disk s) 0)) \<longrightarrow>
        blk (fs_disk s') (FS_DATA_BLOCKS_START + b) = blk (fs_disk s) (FS_DATA_BLOCKS_START + b))"

lemma dir_blocks_nth: "j < length (dir_blocks i) \<Longrightarrow> dir_blocks i ! j = i_blocks i ! j"
  by (subst dir_blocks_take) simp

lemma dir_cong:
  assumes "i_blocks i' = i_blocks i" and "wf_inode i" and "wf_inode i'"
    and "\<And>b. b \<in> set (dir_blocks i) \<Longrightarrow> blk d' (FS_DATA_BLOCKS_START + b) = blk d (FS_DATA_BLOCKS_START + b)"
  shows "dir_shape d' i' = dir_shape d i" and "dir_list d' i' = dir_list d i"
proof -
  have db: "dir_blocks i' = dir_blocks i" using assms(1) by (simp add: dir_blocks_def)
  have b: "blk d' (FS_DATA_BLOCKS_START + i_blocks i' ! j) = blk d (FS_DATA_BLOCKS_START + i_blocks i ! j)"
    if "j < length (dir_blocks i)" for j
    using assms(4) [OF nth_mem [OF that]] dir_blocks_nth [OF that] assms(1) by simp
  then show "dir_shape d' i' = dir_shape d i" using assms(1) db by (auto simp: dir_shape_def)
  show "dir_list d' i' = dir_list d i"
    unfolding dir_list_upt [OF assms(2)] dir_list_upt [OF assms(3)] db
    by (rule arg_cong [where f = concat], rule map_cong [OF refl]) (use b in simp)
qed

text \<open>The blocks of a directory are blocks of its inode.\<close>

lemma dir_blocks_good:
  assumes "good s i" and "b \<in> set (dir_blocks i)"
  shows "unat b < 1981" and "unat b \<in> bits (data_bitmap s)" and "b \<noteq> 0" and "b \<in> set (i_blocks i)"
proof -
  show "b \<noteq> 0" and "b \<in> set (i_blocks i)" using assms(2) set_takeWhileD by (fastforce simp: dir_blocks_def)+
  then obtain j where "j < 10" "b = i_blocks i ! j" using assms(1) by (auto simp: good_def wf_inode_def in_set_conv_nth)
  then show "unat b < 1981" and "unat b \<in> bits (data_bitmap s)" using assms(1) by (auto simp: good_def)
qed

lemma dir_block_step:
  "(if i_blocks i ! k = 0
    then do { (new_block, s) \<leftarrow> alloc_data_block s;
              if new_block = NO_BIT then Some (True, i, data, s)
              else do { data \<leftarrow> memset data 0 512;
                        Some (False, i\<lparr>i_blocks := (i_blocks i)[k := new_block]\<rparr>, data, s) } }
    else do { data \<leftarrow> read_block s (FS_DATA_BLOCKS_START + i_blocks i ! k) data; Some (False, i, data, s) }) =
   do { (r, s) \<leftarrow> get_file_block s i k data;
        case r of None \<Rightarrow> Some (True, i, data, s) | Some (i', data') \<Rightarrow> Some (False, i', data', s) }"
  by (auto simp: get_file_block_def split: Option.bind_splits prod.splits)

lemma find_free_slot:
  assumes "length data = 512"
  shows "List.find (\<lambda>i. de_inode data i = 0) [0..<16] = List.find (\<lambda>i. slot_inode data i = 0) [0..<16]"
proof -
  have "List.find (\<lambda>i. de_inode data i = 0) js = List.find (\<lambda>i. slot_inode data i = 0) js" if "set js \<subseteq> {..<16}" for js
    using that by (induction js) (simp_all add: de_inode_slot [OF assms])
  from this [of "[0..<16]"] show ?thesis by (simp add: lessThan_atLeast0)
qed

lemma mult_512_slot: "f < 16 \<Longrightarrow> (512 * k + 32 * f) div 512 = k \<and> (512 * k + 32 * f) mod 512 = (32 * f :: nat)"
  by simp

text \<open>Storing the entry into slot \<open>f\<close> of the block under \<open>k\<close>, and the directory's inode after it.\<close>

lemma dir_store_ok:
  assumes ok: "dir_ok s" and i: "i = inode_at (fs_disk s) 0" and mem: "fs_mem 1 s bs" and k: "k < 10" "k \<le> length (dir_blocks i)"
    and gfb: "get_file_block s i k data = Some (Some (i1, old), s1)" and data: "length data = 512"
    and f: "f < 16" "slot_inode old f = 0" and name: "0 \<in> set name" "ino \<noteq> 0"
  obtains s2 s3 where
    "write_block (FS_DATA_BLOCKS_START + i_blocks i1 ! k) (take (32 * f) old @ (le32 ino @ field name) @ drop (32 * f + 32) old) s1 = Some s2"
    and "write_inode 0 (i1\<lparr>i_size := i_size i1 + 32, i_modified := ticks s2\<rparr>) s2 = Some (0, s3)"
    and "dir_ok s3" and "fs_mem 1 s3 bs" and "keeps s s3" and "length old = 512"
    and "\<exists>us vs. root_list s = us @ vs \<and> root_list s3 = us @ (take 27 (cstr name), ino) # vs"
proof -
  have fo: "file_ok s 0" and shape: "dir_shape (fs_disk s) i" using ok i by (auto simp: dir_ok_def)
  note fd = file_okD [OF fo]
  have g: "good s i" using fd(4) i by simp
  let ?P = "512 * k + 32 * f" and ?xs = "le32 ino @ field name"
  note P = mult_512_slot [OF f(1), of k]
  have P5: "?P < 5120" using k(1) f(1) by linarith
  have "if i_blocks i ! k = 0 then old = replicate 512 0 \<and> (\<exists>b. b \<noteq> 0 \<and> i_blocks i1 = (i_blocks i)[k := b])
      else i1 = i \<and> s1 = s \<and> old = blk (fs_disk s) (FS_DATA_BLOCKS_START + i_blocks i ! k)"
    using fd(1) g k(1) data
  proof (cases rule: get_file_block_ok)
    case (new b d sb m)
    then show ?thesis using gfb good_new_block(2) [OF g k(1) new(1-3), of "s\<lparr>data_bitmap := m\<rparr>"] by auto
  qed (use gfb in simp_all)
  then have case_old: "i_blocks i ! k \<noteq> 0 \<Longrightarrow> i1 = i \<and> s1 = s \<and> old = blk (fs_disk s) (FS_DATA_BLOCKS_START + i_blocks i ! k)"
    and case_new: "i_blocks i ! k = 0 \<Longrightarrow> old = replicate 512 0 \<and> (\<exists>b. b \<noteq> 0 \<and> i_blocks i1 = (i_blocks i)[k := b])" by auto
  from fd(1) g P5 data show ?thesis
  proof (cases rule: get_file_block_cases)
    case full
    then show ?thesis using gfb P by simp
  next
    case (got i1' old' s1')
    then have e: "i1' = i1" "old' = old" "s1' = s1" using gfb P by auto
    define F where "F = (\<lambda>n. ?xs ! (n - ?P))"
    let ?sz = "of_nat (max (unat (i_size i)) (?P + length ?xs)) :: u32"
    have sz: "unat ?sz = max (unat (i_size i)) (?P + length ?xs)" using P5 by (intro unat_of_nat_u32) simp
    have xs: "?xs ! j = F (?P + j)" if "j < length ?xs" for j by (simp add: F_def)
    have xs2: "length ?xs \<le> 512 - ?P mod 512" "?xs \<noteq> []" using f(1) P by (auto simp: le32_def)
    obtain d where d: "write_block (FS_DATA_BLOCKS_START + i_blocks i1 ! (?P div 512))
        (take (?P mod 512) old @ ?xs @ drop (?P mod 512 + length ?xs) old) s1 = Some (s1\<lparr>fs_disk := d\<rparr>)"
      "wrote F s i ?P (s1\<lparr>fs_disk := d\<rparr>) (i1\<lparr>i_size := ?sz\<rparr>) (?P + length ?xs)"
      "blk d (FS_DATA_BLOCKS_START + i_blocks i1 ! (?P div 512)) = take (?P mod 512) old @ ?xs @ drop (?P mod 512 + length ?xs) old"
      by (rule store_block_wrote [OF got(2-5) [unfolded e] P5 xs xs2 got(6-13) [unfolded e] sz]) assumption+
    let ?data = "take (32 * f) old @ ?xs @ drop (32 * f + 32) old" and ?s2 = "s1\<lparr>fs_disk := d\<rparr>"
    have d': "write_block (FS_DATA_BLOCKS_START + i_blocks i1 ! k) ?data s1 = Some ?s2"
      "blk d (FS_DATA_BLOCKS_START + i_blocks i1 ! k) = ?data" using d(1,3) P by simp_all
    have lo: "length old = 512" using got(12) e by simp
    note re = rest_eqD [OF wroteD(3) [OF d(2)]]
    let ?i2 = "i1\<lparr>i_size := i_size i1 + 32, i_modified := ticks ?s2\<rparr>"
    have wf: "wf_inode i1" "wf_inode ?i2" using got(3) e by (auto simp: good_def wf_inode_def)
    have m2: "fs_mem 1 ?s2 bs" using mem re(1) by (simp add: fs_mem_def)
    have rd2: "rd_ok (fs_disk ?s2)" using wroteD(1) [OF d(2)] by (simp add: maps_ok_def)
    obtain h d3 where w: "write_inode 0 ?i2 ?s2 = Some (0, ?s2\<lparr>fs_heap := h, fs_disk := d3\<rparr>)" "heap_ok h bs" "rd_ok d3"
      "inode_at d3 0 = ?i2" "\<forall>m < FS_MAX_INODES. m \<noteq> 0 \<longrightarrow> inode_at d3 m = inode_at (fs_disk ?s2) m"
      "\<forall>b. b \<noteq> inode_block 0 \<longrightarrow> blk d3 b = blk (fs_disk ?s2) b"
      by (rule write_inode_ok [OF rd2 m2 _ wf(2)]) auto
    let ?s3 = "?s2\<lparr>fs_heap := h, fs_disk := d3\<rparr>"
    have ib0: "inode_block 0 = 3" by (simp add: inode_block_def)
    have hi: "blk d3 (FS_DATA_BLOCKS_START + b) = blk d (FS_DATA_BLOCKS_START + b)" if "unat b < 1981" for b
    proof -
      have "unat (FS_DATA_BLOCKS_START + b) \<noteq> unat (3 :: u32)" using unat_data_block [OF that] by simp
      then have "FS_DATA_BLOCKS_START + b \<noteq> 3" by (rule contrapos_nn) (rule arg_cong [where f = unat])
      then show ?thesis using w(6) ib0 by simp
    qed
    have g1: "good ?s2 i1" "good ?s2 ?i2" using wroteD(2) [OF d(2)] by (auto simp: good_def wf_inode_def)
    have names: "names_ok old"
      using case_old case_new shape k(2) names_ok_zero k(1)
      by (cases "i_blocks i ! k = 0") (auto simp: dir_shape_def)
    obtain xs ys where ent: "names_ok ?data" "entries old = xs @ ys" "entries ?data = xs @ (take 27 (cstr name), ino) # ys"
      using entries_insert [OF names f name(2) refl, of name] by blast
    have same: "fbyte d i1 n = fbyte (fs_disk s) i n" if "n < 5120" "i_blocks i ! (n div 512) \<noteq> 0" "n div 512 \<noteq> k" for n
    proof -
      have "\<not> (?P \<le> n \<and> n < ?P + length ?xs)" using that(3) f(1) by auto
      then show ?thesis using wroteD(8) [OF d(2) that(1,2)] by (simp add: fbyte_def)
    qed
    have old_eq: "old = (if i_blocks i ! k = 0 then replicate 512 0 else blk (fs_disk s) (FS_DATA_BLOCKS_START + i_blocks i ! k))"
      using case_old case_new by auto
    have bl: "i_blocks i ! k \<noteq> 0 \<Longrightarrow> i_blocks i1 = i_blocks i" "i_blocks i ! k = 0 \<Longrightarrow> \<exists>b. b \<noteq> 0 \<and> i_blocks i1 = (i_blocks i)[k := b]"
      using case_old case_new by auto
    note da = dir_after_store [OF g g1(1) shape k bl old_eq d'(2) ent same]
    note dc = dir_cong [of ?i2 i1 d3 d, OF _ wf hi [OF dir_blocks_good(1) [OF g1(1)]]]
    have maps3: "maps_ok ?s3" using wroteD(1) [OF d(2)] w(3,6) ib0 by (simp add: maps_ok_def)
    have mode: "i_mode ?i2 AND FS_TYPE_DIR \<noteq> 0" using ok i got(10) e by (simp add: dir_ok_def)
    have ok3: "dir_ok ?s3"
      using maps3 g1(2) w(4) mode da(1) dc(1) by (simp add: dir_ok_def file_ok_def good_def)
    have kp: "keeps s ?s3"
    proof -
      have "inode_at d3 m = inode_at (fs_disk s) m" if "m < 384" "m \<noteq> 0" for m
      proof -
        have m: "unat m < 384" "m < FS_MAX_INODES" using that(1) by (simp_all add: word_less_nat_alt)
        have "unat (inode_block m) = 3 + unat m div 6" by (rule unat_inode_block [OF m(2)])
        then have "inode_block m < 67" "inode_block m \<noteq> 2" using m(1) by (auto simp: word_less_nat_alt)
        then have "inode_at d m = inode_at (fs_disk s) m" using wroteD(9) [OF d(2)] by (simp add: inode_at_def)
        then show ?thesis using w(5) m(2) that(2) by simp
      qed
      moreover have "blk d3 (FS_DATA_BLOCKS_START + b) = blk (fs_disk s) (FS_DATA_BLOCKS_START + b)"
        if "unat b < 1981" "unat b \<in> bits (data_bitmap s)" "b \<notin> set (i_blocks i)" for b
        using wroteD(12) [OF d(2) that] hi [OF that(1)] by simp
      moreover have "card (bits (data_bitmap ?s3)) \<le> card (bits (data_bitmap s)) + 10"
        using wroteD(13) [OF d(2)] nblocks_le [OF wf(1)] by (simp add: took_def nblocks_def)
      ultimately show ?thesis using re wroteD(10) [OF d(2)] i by (simp add: keeps_def)
    qed
    show ?thesis
    proof (rule that [OF d'(1) w(1) ok3 _ kp lo])
      show "fs_mem 1 ?s3 bs" using mem w(2) by (simp add: fs_mem_def)
      show "\<exists>us vs. root_list s = us @ vs \<and> root_list ?s3 = us @ (take 27 (cstr name), ino) # vs"
        using da(2) dc(2) w(4) i by (simp add: root_list_def)
    qed
  qed
qed

lemma full_entries: "\<forall>f < 16. slot_inode data f \<noteq> 0 \<Longrightarrow> length (entries data) = 16"
  by (simp add: entries_def filter_True)

lemma dir_list_full:
  assumes "wf_inode i" and "dir_shape d i" and "\<And>j. j < 10 \<Longrightarrow> i_blocks i ! j \<noteq> 0 \<and> length (entries (blk d (FS_DATA_BLOCKS_START + i_blocks i ! j))) = 16"
  shows "length (dir_list d i) = 160"
proof -
  have "length (dir_blocks i) = 10" using assms dir_blocks_length [OF assms(1)]
    by (metis dir_shape_def le_neq_implies_less less_irrefl)
  then have "dir_list d i = concat (map (\<lambda>j. entries (blk d (FS_DATA_BLOCKS_START + i_blocks i ! j))) [0..<10])"
    using dir_list_upt [OF assms(1)] by simp
  moreover have "length (concat (map (\<lambda>j. entries (blk d (FS_DATA_BLOCKS_START + i_blocks i ! j))) [0..<n])) = 16 * n" if "n \<le> 10" for n
    using that by (induction n) (use assms(3) in auto)
  ultimately show ?thesis by simp
qed

text \<open>An entry is added, or the directory is full (160 entries), or the disk is.\<close>

lemma dir_add_loop_ok:
  assumes "dir_ok s" and "i = inode_at (fs_disk s) 0" and "fs_mem 1 s bs" and "length data = 512" and "0 \<in> set name" and "ino \<noteq> 0"
    and "k \<le> 10" and "\<And>j. j < k \<Longrightarrow> i_blocks i ! j \<noteq> 0 \<and> length (entries (blk (fs_disk s) (FS_DATA_BLOCKS_START + i_blocks i ! j))) = 16"
  shows "\<exists>rc s'. dir_add_loop 0 name ino [k..<10] i data s = Some (rc, s') \<and>
    (if rc < 0 then rc = - 1 \<and> s' = s \<and> (length (root_list s) = 160 \<or> {..<1981} \<subseteq> bits (data_bitmap s))
     else rc = 0 \<and> dir_ok s' \<and> fs_mem 1 s' bs \<and> keeps s s' \<and>
       (\<exists>us vs. root_list s = us @ vs \<and> root_list s' = us @ (take 27 (cstr name), ino) # vs))"
  using assms(4,7,8)
proof (induction "10 - k" arbitrary: k data)
  case 0
  have g: "wf_inode i" "dir_shape (fs_disk s) i" using assms(1,2) by (auto simp: dir_ok_def)
  have "k = 10" using 0 by simp
  then have "length (root_list s) = 160" using dir_list_full [OF g] "0.prems"(3) assms(2) by (simp add: root_list_def)
  then show ?case using \<open>k = 10\<close> by simp
next
  case (Suc x)
  have fo: "file_ok s 0" and shape: "dir_shape (fs_disk s) i" using assms(1,2) by (auto simp: dir_ok_def)
  note fd = file_okD [OF fo]
  have g: "good s i" using fd(4) assms(2) by simp
  have wf: "wf_inode i" using assms(2) by simp
  have k: "k < 10" using Suc.hyps(2) by simp
  have kn: "k \<le> length (dir_blocks i)"
  proof (cases k)
    case (Suc l)
    then show ?thesis using Suc.prems(3) [of l] shape k by (auto simp: dir_shape_def)
  qed simp
  have up: "[k..<10] = k # [Suc k..<10]" using k by (simp add: upt_conv_Cons)
  have step: "dir_add_loop 0 name ino [k..<10] i data s =
    do { (r, s1) \<leftarrow> get_file_block s i k data;
         case r of None \<Rightarrow> Some (- 1, s1)
         | Some (i1, old) \<Rightarrow>
             (case List.find (\<lambda>f. de_inode old f = 0) [0..<16] of
                None \<Rightarrow> dir_add_loop 0 name ino [Suc k..<10] i1 old s1
              | Some f \<Rightarrow>
                  do { data \<leftarrow> put_entry old f name ino;
                       s2 \<leftarrow> write_block (FS_DATA_BLOCKS_START + i_blocks i1 ! k) data s1;
                       (rc, s3) \<leftarrow> write_inode 0 (i1\<lparr>i_size := i_size i1 + 32, i_modified := ticks s2\<rparr>) s2;
                       Some (0, s3) }) }"
    unfolding up dir_add_loop.simps dir_block_step
    by (cases "get_file_block s i k data") (auto split: option.splits prod.splits)
  obtain r s1 where gfb: "get_file_block s i k data = Some (r, s1)"
    using get_file_block_ok [OF fd(1) g k Suc.prems(1)] by metis
  show ?case
  proof (cases r)
    case None
    from fd(1) g k Suc.prems(1) have "s1 = s \<and> {..<1981} \<subseteq> bits (data_bitmap s)"
      by (cases rule: get_file_block_ok) (use gfb None in auto)
    then show ?thesis using step gfb None by simp
  next
    case (Some p)
    obtain i1 old where p: "p = (i1, old)" by (cases p)
    have gfb': "get_file_block s i k data = Some (Some (i1, old), s1)" using gfb Some p by simp
    from fd(1) g k Suc.prems(1) have len: "length old = 512" by (cases rule: get_file_block_ok) (use gfb' in auto)
    show ?thesis
    proof (cases "List.find (\<lambda>f. slot_inode old f = 0) [0..<16]")
      case None
      then have full: "\<forall>f < 16. slot_inode old f \<noteq> 0" by (simp add: find_None_iff)
      have o: "i_blocks i ! k \<noteq> 0 \<and> i1 = i \<and> s1 = s \<and> old = blk (fs_disk s) (FS_DATA_BLOCKS_START + i_blocks i ! k)"
        using fd(1) g k Suc.prems(1)
      proof (cases rule: get_file_block_ok)
        case (new b d sb m)
        then show ?thesis using gfb' full zero_block [of 0] by auto
      qed (use gfb' in auto)
      have "dir_add_loop 0 name ino [k..<10] i data s = dir_add_loop 0 name ino [Suc k..<10] i old s"
        using step gfb' None o find_free_slot [OF len] by simp
      moreover have "i_blocks i ! j \<noteq> 0 \<and> length (entries (blk (fs_disk s) (FS_DATA_BLOCKS_START + i_blocks i ! j))) = 16"
        if "j < Suc k" for j
        using that Suc.prems(3) [of j] o full_entries [OF full] by (cases "j = k") auto
      ultimately show ?thesis using Suc.hyps(1) [of "Suc k" old] Suc.hyps(2) len k by simp
    next
      case (Some f)
      then have f: "f < 16" "slot_inode old f = 0" using find_SomeD [OF Some] by auto
      obtain s2 s3 where r: "write_block (FS_DATA_BLOCKS_START + i_blocks i1 ! k) (take (32 * f) old @ (le32 ino @ field name) @ drop (32 * f + 32) old) s1 = Some s2"
        "write_inode 0 (i1\<lparr>i_size := i_size i1 + 32, i_modified := ticks s2\<rparr>) s2 = Some (0, s3)"
        "dir_ok s3" "fs_mem 1 s3 bs" "keeps s s3" "length old = 512"
        "\<exists>us vs. root_list s = us @ vs \<and> root_list s3 = us @ (take 27 (cstr name), ino) # vs"
        by (rule dir_store_ok [OF assms(1,2,3) k kn gfb' Suc.prems(1) f assms(5,6)])
      have "dir_add_loop 0 name ino [k..<10] i data s = Some (0, s3)"
        using step gfb' Some find_free_slot [OF len] put_entry_ok [OF len f(1) assms(5)] r(1,2) by simp
      then show ?thesis using r by auto
    qed
  qed
qed

lemma dir_heap [simp]:
  "dir_ok (s\<lparr>fs_heap := h\<rparr>) = dir_ok s" "root_list (s\<lparr>fs_heap := h\<rparr>) = root_list s"
  "keeps (s\<lparr>fs_heap := h\<rparr>) t = keeps s t" "keeps s (t\<lparr>fs_heap := h\<rparr>) = keeps s t"
  by (simp_all add: dir_ok_def file_ok_def maps_ok_def good_def root_list_def keeps_def)

text \<open>Looking up a path is looking up its name in the list of entries.\<close>

lemma path_lookup_ok:
  assumes "dir_ok s" and "fs_mem 1 s bs" and "good_path p"
  obtains h where "path_lookup (Some p) s = Some (map_of (root_list s) (path_name p), s\<lparr>fs_heap := h\<rparr>)" and "heap_ok h bs"
proof -
  let ?i = "inode_at (fs_disk s) 0"
  have fo: "file_ok s 0" and shape: "dir_shape (fs_disk s) ?i" and mode: "i_mode ?i AND 2 \<noteq> 0" using assms(1) by (auto simp: dir_ok_def)
  note fd = file_okD [OF fo]
  obtain name where name: "skip_slash p = Some name" "0 \<in> set name" "cstr name = path_name p" "name \<noteq> []" "hd name \<noteq> 0"
    using skip_slash_path [OF assms(3)] by blast
  obtain h where h: "read_inode 0 s = Some (Some ?i, s\<lparr>fs_heap := h\<rparr>)" "heap_ok h bs"
    by (rule read_inode_ok [OF fd(2) assms(2) fd(3)])
  let ?s1 = "s\<lparr>fs_heap := h\<rparr>"
  have m1: "fs_mem (Suc 0) ?s1 bs" using assms(2) h(2) by (simp add: fs_mem_def)
  then obtain q h2 cs where q: "fs_kmalloc ?s1 = Some (q, ?s1\<lparr>fs_heap := h2\<rparr>)" "q \<noteq> 0" "fs_mem 0 (?s1\<lparr>fs_heap := h2\<rparr>) cs"
    and rel: "\<And>s'. heap_ok (fs_heap s') cs \<Longrightarrow> \<exists>h'. fs_kfree q s' = Some (s'\<lparr>fs_heap := h'\<rparr>) \<and> heap_ok h' bs"
    by (rule fs_kmalloc_ok) blast
  let ?s2 = "s\<lparr>fs_heap := h2\<rparr>"
  have blocks: "unat b < 1981 \<and> names_ok (blk (fs_disk ?s2) (FS_DATA_BLOCKS_START + b))"
    if "b \<in> set (takeWhile (\<lambda>b. b \<noteq> 0) (i_blocks ?i))" for b
  proof -
    from that obtain j where j: "j < length (dir_blocks ?i)" "b = dir_blocks ?i ! j" by (auto simp: dir_blocks_def in_set_conv_nth)
    then have "b = i_blocks ?i ! j" by (simp add: dir_blocks_def takeWhile_nth)
    moreover have "j < 10" using j(1) dir_blocks_length [of ?i] by simp
    ultimately show ?thesis using goodD(1) [OF fd(4)] shape j(1) by (simp add: dir_shape_def)
  qed
  have lb: "lookup_blocks ?s2 name (i_blocks ?i) (fresh ?s2 q) = Some (map_of (root_list s) (path_name p))"
    using lookup_blocks_eq [of ?s2 name "fresh ?s2 q" "i_blocks ?i"] fd(2) name(2,3) blocks
    by (simp add: root_list_def dir_list_def dir_blocks_def)
  obtain h3 where h3: "fs_kfree q ?s2 = Some (?s2\<lparr>fs_heap := h3\<rparr>)" "heap_ok h3 bs"
    using rel [of ?s2] q(3) by (auto simp: fs_mem_def)
  have "path_lookup (Some p) s = Some (map_of (root_list s) (path_name p), s\<lparr>fs_heap := h3\<rparr>)"
    using name h(1) mode q(1,2) lb h3(1) by (simp add: path_lookup_def)
  then show ?thesis using that h3(2) by blast
qed

lemma dir_add_entry_ok:
  assumes "dir_ok s" and "fs_mem 2 s bs" and "0 \<in> set name" and "ino \<noteq> 0"
  obtains (full) h where "dir_add_entry 0 name ino s = Some (- 1, s\<lparr>fs_heap := h\<rparr>)" and "heap_ok h bs"
      and "length (root_list s) = 160 \<or> {..<1981} \<subseteq> bits (data_bitmap s)"
  | (added) s' us vs where "dir_add_entry 0 name ino s = Some (0, s')" and "heap_ok (fs_heap s') bs" and "dir_ok s'" and "keeps s s'"
      and "root_list s = us @ vs" and "root_list s' = us @ (take 27 (cstr name), ino) # vs"
proof -
  let ?i = "inode_at (fs_disk s) 0"
  have fo: "file_ok s 0" and mode: "i_mode ?i AND 2 \<noteq> 0" using assms(1) by (auto simp: dir_ok_def)
  note fd = file_okD [OF fo]
  have mem1: "fs_mem 1 s bs" using fs_mem_mono [OF assms(2)] by simp
  obtain h where h: "read_inode 0 s = Some (Some ?i, s\<lparr>fs_heap := h\<rparr>)" "heap_ok h bs"
    by (rule read_inode_ok [OF fd(2) mem1 fd(3)])
  let ?s1 = "s\<lparr>fs_heap := h\<rparr>"
  have "fs_mem (Suc 1) ?s1 bs" using assms(2) h(2) by (simp add: fs_mem_def numeral_2_eq_2)
  then obtain q h2 cs where q: "fs_kmalloc ?s1 = Some (q, ?s1\<lparr>fs_heap := h2\<rparr>)" "q \<noteq> 0" "fs_mem 1 (?s1\<lparr>fs_heap := h2\<rparr>) cs"
    and rel: "\<And>s'. heap_ok (fs_heap s') cs \<Longrightarrow> \<exists>h'. fs_kfree q s' = Some (s'\<lparr>fs_heap := h'\<rparr>) \<and> heap_ok h' bs"
    by (rule fs_kmalloc_ok) blast
  let ?s2 = "s\<lparr>fs_heap := h2\<rparr>"
  have m2: "fs_mem 1 ?s2 cs" using q(3) by simp
  obtain rc s3 where l: "dir_add_loop 0 name ino [0..<10] ?i (fresh ?s2 q) ?s2 = Some (rc, s3)"
    "if rc < 0 then rc = - 1 \<and> s3 = ?s2 \<and> (length (root_list s) = 160 \<or> {..<1981} \<subseteq> bits (data_bitmap s))
     else rc = 0 \<and> dir_ok s3 \<and> fs_mem 1 s3 cs \<and> keeps s s3 \<and>
       (\<exists>us vs. root_list s = us @ vs \<and> root_list s3 = us @ (take 27 (cstr name), ino) # vs)"
    using dir_add_loop_ok [of ?s2 ?i cs "fresh ?s2 q" name ino 0] assms(1,3,4) m2 by (auto cong: if_cong)
  have "heap_ok (fs_heap s3) cs" using l(2) m2 by (auto simp: fs_mem_def split: if_splits)
  then obtain h4 where h4: "fs_kfree q s3 = Some (s3\<lparr>fs_heap := h4\<rparr>)" "heap_ok h4 bs" using rel by blast
  have run: "dir_add_entry 0 name ino s = Some (rc, s3\<lparr>fs_heap := h4\<rparr>)"
    using h(1) mode q(1,2) l(1) h4(1) by (simp add: dir_add_entry_def)
  show ?thesis
  proof (cases "rc < 0")
    case True
    then show ?thesis using full [of h4] run h4(2) l(2) by simp
  next
    case False
    then obtain us vs where "rc = 0" "dir_ok s3" "keeps s s3" "root_list s = us @ vs" "root_list s3 = us @ (take 27 (cstr name), ino) # vs"
      using l(2) by auto
    then show ?thesis using added [of "s3\<lparr>fs_heap := h4\<rparr>" us vs] run h4(2) by simp
  qed
qed

section \<open>Creating a file\<close>

text \<open>A change below the data area that keeps the root's inode keeps the directory.\<close>

lemma dir_ok_cong:
  assumes "dir_ok s" and "maps_ok s'" and "bits (data_bitmap s) \<subseteq> bits (data_bitmap s')"
    and "inode_at (fs_disk s') 0 = inode_at (fs_disk s) 0"
    and "\<And>b. unat b < 1981 \<Longrightarrow> unat b \<in> bits (data_bitmap s) \<Longrightarrow> b \<noteq> 0 \<Longrightarrow> b \<in> set (i_blocks (inode_at (fs_disk s) 0)) \<Longrightarrow>
      blk (fs_disk s') (FS_DATA_BLOCKS_START + b) = blk (fs_disk s) (FS_DATA_BLOCKS_START + b)"
  shows "dir_ok s'" and "root_list s' = root_list s"
proof -
  let ?i = "inode_at (fs_disk s) 0"
  have fo: "file_ok s 0" using assms(1) by (simp add: dir_ok_def)
  have bl: "blk (fs_disk s') (FS_DATA_BLOCKS_START + b) = blk (fs_disk s) (FS_DATA_BLOCKS_START + b)" if "b \<in> set (dir_blocks ?i)" for b
    using assms(5) dir_blocks_good [OF file_okD(4) [OF fo] that] by blast
  note dc = dir_cong [of ?i ?i "fs_disk s'" "fs_disk s", OF refl wf_inode_at wf_inode_at bl]
  have "good s' ?i" using fo assms(3) by (auto simp: file_ok_def good_def)
  then show "dir_ok s'" using assms(1,2,4) dc(1) by (simp add: dir_ok_def file_ok_def)
  show "root_list s' = root_list s" using assms(4) dc(2) by (simp add: root_list_def)
qed

lemma inode_at_low:
  assumes "m < 384" and "\<And>b. 2 < b \<Longrightarrow> b < 67 \<Longrightarrow> blk d' b = blk d b"
  shows "inode_at d' m = inode_at d m"
proof -
  have m: "unat m < 384" "m < FS_MAX_INODES" using assms(1) by (simp_all add: word_less_nat_alt)
  have "unat (inode_block m) = 3 + unat m div 6" by (rule unat_inode_block [OF m(2)])
  then have "2 < inode_block m" "inode_block m < 67" using m(1) by (auto simp: word_less_nat_alt)
  then show ?thesis using assms(2) by (simp add: inode_at_def)
qed

lemma data_block_high: "unat b < 1981 \<Longrightarrow> c < 67 \<Longrightarrow> FS_DATA_BLOCKS_START + b \<noteq> c"
  using unat_data_block [of b] by (auto simp: word_less_nat_alt)

text \<open>The mounted file system: a well-formed root directory, memory for two buffers, the root's inode taken.\<close>

definition fs_ok :: "fs_state \<Rightarrow> tile list \<Rightarrow> bool" where
  "fs_ok s bs \<longleftrightarrow> dir_ok s \<and> fs_mem 2 s bs \<and> fs_initialized s \<noteq> 0 \<and> 0 \<in> bits (inode_bitmap s)"

lemma fs_okD:
  assumes "fs_ok s bs"
  shows "dir_ok s" and "fs_mem 2 s bs" and "fs_mem 1 s bs" and "maps_ok s" and "fs_initialized s \<noteq> 0" and "heap_ok (fs_heap s) bs"
  using assms fs_mem_mono [of 2 s bs 1] by (auto simp: fs_ok_def dir_ok_def file_ok_def fs_mem_def)

text \<open>A free inode before the data area is taken and filled in.\<close>

lemma new_inode_ok:
  assumes ok: "fs_ok s bs" and free: "k < 384" "k \<notin> bits (inode_bitmap s)" and i: "wf_inode i"
  obtains n s1 s2 where "alloc_inode s = Some (n, s1)" and "n \<noteq> NO_BIT" and "n \<noteq> 0" and "n < 384" and "unat n \<notin> bits (inode_bitmap s)"
    and "ticks s1 = ticks s" and "write_inode n i s1 = Some (0, s2)" and "fs_ok s2 bs" and "root_list s2 = root_list s"
    and "inode_at (fs_disk s2) n = i" and "bits (inode_bitmap s2) = insert (unat n) (bits (inode_bitmap s))"
    and "data_bitmap s2 = data_bitmap s" and "open_files s2 = open_files s" and "ticks s2 = ticks s"
    and "\<And>m. m < 384 \<Longrightarrow> m \<noteq> n \<Longrightarrow> inode_at (fs_disk s2) m = inode_at (fs_disk s) m"
    and "\<And>b. unat b < 1981 \<Longrightarrow> blk (fs_disk s2) (FS_DATA_BLOCKS_START + b) = blk (fs_disk s) (FS_DATA_BLOCKS_START + b)"
proof -
  note f = fs_okD [OF ok]
  have nf: "\<not> {..<unat FS_MAX_INODES} \<subseteq> bits (inode_bitmap s)"
  proof
    assume "{..<unat FS_MAX_INODES} \<subseteq> bits (inode_bitmap s)"
    then have "{..<512} \<subseteq> bits (inode_bitmap s)" by simp
    moreover have "k \<in> {..<512}" using free(1) by simp
    ultimately show False using free(2) by blast
  qed
  obtain n d bm where al: "alloc_inode s = Some (n, s\<lparr>fs_disk := d,
      superblock := (superblock s)\<lparr>sb_free_inodes := sb_free_inodes (superblock s) - 1\<rparr>, inode_bitmap := bm\<rparr>)"
    "n \<noteq> NO_BIT" "unat n < 512" "unat n \<notin> bits (inode_bitmap s)" "\<forall>j < unat n. j \<in> bits (inode_bitmap s)"
    "bits bm = insert (unat n) (bits (inode_bitmap s))" "length bm = 512" "rd_ok d" "blk d 1 = bm"
    "\<forall>c. c \<noteq> 1 \<longrightarrow> blk d c = blk (fs_disk s) c"
    by (rule alloc_inode_found [OF f(4) nf])
  let ?s1 = "s\<lparr>fs_disk := d, superblock := (superblock s)\<lparr>sb_free_inodes := sb_free_inodes (superblock s) - 1\<rparr>, inode_bitmap := bm\<rparr>"
  have "\<not> k < unat n" using al(5) free(2) by blast
  then have n: "unat n < 384" "n < 384" "n < FS_MAX_INODES" using free(1) by (auto simp: word_less_nat_alt)
  have n0: "n \<noteq> 0" using al(4) ok by (auto simp: fs_ok_def)
  have m1: "maps_ok ?s1" by (rule maps_ok_update(2)) (use al f(4) in auto)
  have mem1: "fs_mem 1 ?s1 bs" using f(3) by (simp add: fs_mem_def)
  obtain h d2 where w: "write_inode n i ?s1 = Some (0, ?s1\<lparr>fs_heap := h, fs_disk := d2\<rparr>)" "heap_ok h bs" "rd_ok d2"
    "inode_at d2 n = i" "\<forall>m < FS_MAX_INODES. m \<noteq> n \<longrightarrow> inode_at d2 m = inode_at (fs_disk ?s1) m"
    "\<forall>b. b \<noteq> inode_block n \<longrightarrow> blk d2 b = blk (fs_disk ?s1) b"
    by (rule write_inode_ok [OF _ mem1 n(3) i]) (use al(8) in simp)
  let ?s2 = "?s1\<lparr>fs_heap := h, fs_disk := d2\<rparr>"
  have ib: "2 < inode_block n" "inode_block n < 67" using unat_inode_block [OF n(3)] n(1) by (auto simp: word_less_nat_alt)
  have low: "blk d2 c = blk d c" if "c < 3" for c
  proof -
    have "unat c < unat (inode_block n)" using ib(1) that by (simp add: word_less_nat_alt)
    then have "c \<noteq> inode_block n" by auto
    then show ?thesis using w(6) by simp
  qed
  have high: "blk d2 (FS_DATA_BLOCKS_START + b) = blk (fs_disk s) (FS_DATA_BLOCKS_START + b)" if "unat b < 1981" for b
    using w(6) al(10) data_block_high [OF that ib(2)] data_block_high [OF that, of 1] by simp
  have m2: "maps_ok ?s2" using m1 w(3) low [of 1] low [of 2] by (simp add: maps_ok_def)
  have ino: "inode_at d2 m = inode_at (fs_disk s) m" if "m < 384" "m \<noteq> n" for m
  proof -
    have "b \<noteq> 1" if "2 < b" for b :: u32 using that by auto
    then have "inode_at d m = inode_at (fs_disk s) m" using inode_at_low [OF that(1), of d "fs_disk s"] al(10) by blast
    moreover have "m < FS_MAX_INODES" using that(1) by (simp add: word_less_nat_alt)
    ultimately show ?thesis using w(5) that(2) by simp
  qed
  note dk = dir_ok_cong [of s ?s2, OF f(1) m2]
  have d2: "dir_ok ?s2" "root_list ?s2 = root_list s" using dk ino [of 0] n0 high by simp_all
  have mem2: "fs_mem 2 ?s2 bs" using f(2) w(2) by (simp add: fs_mem_def)
  show ?thesis
    by (rule that [OF al(1,2) n0 n(2) al(4) _ w(1)])
      (use d2 mem2 f(5) al(6) w(4) ino high ok in \<open>simp_all add: fs_ok_def\<close>)
qed

lemma fs_ok_heap: "fs_ok s bs \<Longrightarrow> heap_ok h bs \<Longrightarrow> fs_ok (s\<lparr>fs_heap := h\<rparr>) bs"
  by (simp add: fs_ok_def fs_mem_def)

lemma fs_create_existing:
  assumes ok: "fs_ok s bs" and p: "good_path p" and old: "map_of (root_list s) (path_name p) \<noteq> None"
  shows "\<exists>h. fs_create (Some p) ty s = Some (- 1, s\<lparr>fs_heap := h\<rparr>) \<and> heap_ok h bs"
proof -
  note f = fs_okD [OF ok]
  obtain h where h: "path_lookup (Some p) s = Some (map_of (root_list s) (path_name p), s\<lparr>fs_heap := h\<rparr>)" "heap_ok h bs"
    by (rule path_lookup_ok [OF f(1,3) p])
  show ?thesis using skip_slash_path [OF p] h f(5) old by (auto simp: fs_create_def)
qed

lemma keepsD:
  assumes "keeps s s'"
  shows "inode_bitmap s' = inode_bitmap s" and "open_files s' = open_files s" and "ticks s' = ticks s"
    and "fs_initialized s' = fs_initialized s" and "bits (data_bitmap s) \<subseteq> bits (data_bitmap s')"
    and "\<And>m. m < 384 \<Longrightarrow> m \<noteq> 0 \<Longrightarrow> inode_at (fs_disk s') m = inode_at (fs_disk s) m"
    and "\<And>b. unat b < 1981 \<Longrightarrow> unat b \<in> bits (data_bitmap s) \<Longrightarrow> b \<notin> set (i_blocks (inode_at (fs_disk s) 0)) \<Longrightarrow>
        blk (fs_disk s') (FS_DATA_BLOCKS_START + b) = blk (fs_disk s) (FS_DATA_BLOCKS_START + b)"
    and "card (bits (data_bitmap s')) \<le> card (bits (data_bitmap s)) + 10"
  using assms by (simp_all add: keeps_def)

lemma map_of_insert_fresh:
  assumes "map_of (us @ vs) x = None"
  shows "map_of (us @ (x, y) # vs) = (map_of (us @ vs))(x \<mapsto> y)"
proof
  fix z
  have "map_of us x = None" "map_of vs x = None" using assms by (auto simp: map_add_def split: option.splits)
  then show "map_of (us @ (x, y) # vs) z = ((map_of (us @ vs))(x \<mapsto> y)) z" by (auto simp: map_add_def split: option.splits)
qed

lemma new_inode_wf [simp]: "wf_inode (new_inode mode t)"
  by (simp add: new_inode_def wf_inode_def)

lemma fs_create_file_ok:
  assumes ok: "fs_ok s bs" and p: "good_path p" and new: "map_of (root_list s) (path_name p) = None"
    and ty: "ty \<noteq> FS_TYPE_DIR" and free: "k < 384" "k \<notin> bits (inode_bitmap s)"
  obtains (full) s' where "fs_create (Some p) ty s = Some (- 1, s')"
      and "length (root_list s) = 160 \<or> {..<1981} \<subseteq> bits (data_bitmap s)"
      and "fs_ok s' bs" and "root_list s' = root_list s" and "bits (inode_bitmap s') = bits (inode_bitmap s)"
      and "open_files s' = open_files s"
  | (created) n s' us vs where "fs_create (Some p) ty s = Some (0, s')" and "n \<noteq> 0" and "n < 384" and "unat n \<notin> bits (inode_bitmap s)"
      and "fs_ok s' bs" and "root_list s = us @ vs" and "root_list s' = us @ (take 27 (path_name p), n) # vs"
      and "inode_at (fs_disk s') n = new_inode (ty OR FS_PERM_DEFAULT) (ticks s)"
      and "bits (inode_bitmap s') = insert (unat n) (bits (inode_bitmap s))" and "open_files s' = open_files s"
      and "\<And>m. m < 384 \<Longrightarrow> m \<noteq> 0 \<Longrightarrow> m \<noteq> n \<Longrightarrow> inode_at (fs_disk s') m = inode_at (fs_disk s) m"
      and "\<And>b. unat b < 1981 \<Longrightarrow> unat b \<in> bits (data_bitmap s) \<Longrightarrow> b \<notin> set (i_blocks (inode_at (fs_disk s) 0)) \<Longrightarrow>
        blk (fs_disk s') (FS_DATA_BLOCKS_START + b) = blk (fs_disk s) (FS_DATA_BLOCKS_START + b)"
      and "card (bits (data_bitmap s')) \<le> card (bits (data_bitmap s)) + 10"
proof -
  note f = fs_okD [OF ok]
  obtain name where name: "skip_slash p = Some name" "0 \<in> set name" "cstr name = path_name p"
    using skip_slash_path [OF p] by auto
  obtain h where h: "path_lookup (Some p) s = Some (None, s\<lparr>fs_heap := h\<rparr>)" "heap_ok h bs"
    by (rule path_lookup_ok [OF f(1,3) p]) (use new in auto)
  let ?s0 = "s\<lparr>fs_heap := h\<rparr>" and ?i = "new_inode (ty OR FS_PERM_DEFAULT) (ticks s)"
  have ok0: "fs_ok ?s0 bs" by (rule fs_ok_heap [OF ok h(2)])
  have free0: "k \<notin> bits (inode_bitmap ?s0)" using free(2) by simp
  obtain n s1 s2 where a: "alloc_inode ?s0 = Some (n, s1)" "n \<noteq> NO_BIT" "n \<noteq> 0" "n < 384" "unat n \<notin> bits (inode_bitmap ?s0)"
    "ticks s1 = ticks ?s0" "write_inode n ?i s1 = Some (0, s2)" "fs_ok s2 bs" "root_list s2 = root_list ?s0"
    "inode_at (fs_disk s2) n = ?i" "bits (inode_bitmap s2) = insert (unat n) (bits (inode_bitmap ?s0))"
    "data_bitmap s2 = data_bitmap ?s0" "open_files s2 = open_files ?s0" "ticks s2 = ticks ?s0"
    and other: "\<And>m. m < 384 \<Longrightarrow> m \<noteq> n \<Longrightarrow> inode_at (fs_disk s2) m = inode_at (fs_disk ?s0) m"
    and high: "\<And>b. unat b < 1981 \<Longrightarrow> blk (fs_disk s2) (FS_DATA_BLOCKS_START + b) = blk (fs_disk ?s0) (FS_DATA_BLOCKS_START + b)"
    by (rule new_inode_ok [OF ok0 free(1) free0 new_inode_wf]) blast
  note g = fs_okD [OF a(8)]
  from g(1,2) name(2) a(3) show ?thesis
  proof (cases rule: dir_add_entry_ok)
    case (full h')
    let ?s3 = "s2\<lparr>fs_heap := h'\<rparr>"
    have ok3: "fs_ok ?s3 bs" by (rule fs_ok_heap [OF a(8) full(2)])
    have n: "unat n < 4096" using a(4) by (simp add: word_less_nat_alt)
    obtain d bm where fr: "free_inode n ?s3 = Some (?s3\<lparr>fs_disk := d,
        superblock := (superblock ?s3)\<lparr>sb_free_inodes := sb_free_inodes (superblock ?s3) + 1\<rparr>, inode_bitmap := bm\<rparr>)"
      "bits bm = bits (inode_bitmap ?s3) - {unat n}" "length bm = 512" "rd_ok d" "blk d 1 = bm"
      "\<forall>c. c \<noteq> 1 \<longrightarrow> blk d c = blk (fs_disk ?s3) c"
      by (rule free_inode_ok [OF fs_okD(4) [OF ok3] n])
    let ?s4 = "?s3\<lparr>fs_disk := d, superblock := (superblock ?s3)\<lparr>sb_free_inodes := sb_free_inodes (superblock ?s3) + 1\<rparr>, inode_bitmap := bm\<rparr>"
    have m4: "maps_ok ?s4" by (rule maps_ok_update(2)) (use fr fs_okD(4) [OF ok3] in auto)
    have ne1: "b \<noteq> 1" if "2 < b" for b :: u32 using that by auto
    have ino: "inode_at d 0 = inode_at (fs_disk s2) 0"
      using inode_at_low [of 0 d "fs_disk s2"] fr(6) ne1 by simp
    have hi: "blk d (FS_DATA_BLOCKS_START + b) = blk (fs_disk s2) (FS_DATA_BLOCKS_START + b)" if "unat b < 1981" for b
      using fr(6) data_block_high [OF that, of 1] by simp
    have d4: "dir_ok ?s4" "root_list ?s4 = root_list s2"
      using dir_ok_cong [of s2 ?s4, OF g(1) m4] ino hi by simp_all
    have b4: "bits bm = bits (inode_bitmap s)" using fr(2) a(5,11) by auto
    have ok4: "fs_ok ?s4 bs" using d4(1) b4 ok3 ok by (simp add: fs_ok_def fs_mem_def)
    have "fs_create (Some p) ty s = Some (- 1, ?s4)"
      using name(1) h(1) f(5) a(1,2,6,7) ty full(1) fr(1) by (simp add: fs_create_def)
    then show ?thesis using that(1) ok4 d4(2) b4 full(3) a(9,12,13) by simp
  next
    case (added s3 us vs)
    note k = keepsD [OF added(4)]
    have ok3: "fs_ok s3 bs" using added(2,3) k(1,4) a(8) by (simp add: fs_ok_def fs_mem_def)
    have run: "fs_create (Some p) ty s = Some (0, s3)"
      using name(1) h(1) f(5) a(1,2,6,7) ty added(1) by (simp add: fs_create_def)
    have i0: "inode_at (fs_disk s2) 0 = inode_at (fs_disk s) 0" using other [of 0] a(3) by simp
    have data: "blk (fs_disk s3) (FS_DATA_BLOCKS_START + b) = blk (fs_disk s) (FS_DATA_BLOCKS_START + b)"
      if "unat b < 1981" "unat b \<in> bits (data_bitmap s)" "b \<notin> set (i_blocks (inode_at (fs_disk s) 0))" for b
      using k(7) [of b] that high [of b] a(12) i0 by simp
    have ino: "inode_at (fs_disk s3) m = inode_at (fs_disk s) m" if "m < 384" "m \<noteq> 0" "m \<noteq> n" for m
      using k(6) [OF that(1,2)] other [OF that(1,3)] by simp
    show ?thesis
      by (rule that(2) [OF run a(3,4) _ ok3, of us vs])
        (use a added(5,6) name(3) k(1,2,6,8) ino data in simp_all)
  qed
qed

section \<open>A fresh file system\<close>

lemma new_inode_blocks [simp]: "i_blocks (new_inode mode t) = replicate 10 0" "i_mode (new_inode mode t) = mode"
  by (simp_all add: new_inode_def)

lemma formatted_dir:
  assumes "formatted t s"
  shows "dir_ok s" and "root_list s = []"
proof -
  have f: "maps_ok s" "bits (data_bitmap s) = {0}" "inode_at (fs_disk s) 0 = new_inode (FS_TYPE_DIR OR FS_PERM_DEFAULT) t"
    using assms by (simp_all add: formatted_def)
  have db: "dir_blocks (inode_at (fs_disk s) 0) = []" using f(3) by (simp add: dir_blocks_def)
  have g: "good s (inode_at (fs_disk s) 0)" using f(2,3) by (simp add: good_def)
  show "root_list s = []" using db by (simp add: root_list_def dir_list_def)
  show "dir_ok s" using f g db by (simp add: dir_ok_def file_ok_def dir_shape_def)
qed

text \<open>Formatting, then mounting.\<close>

lemma fs_format_init_ok:
  assumes "rd_ok (fs_disk s)" and "fs_mem (6 + n) s bs" and "inode_bitmap_ptr s = 0" and "data_bitmap_ptr s = 0"
  shows "\<exists>s1 s2 cs. fs_format s = Some s1 \<and> fs_init s1 = Some s2 \<and> fs_ok s2 cs \<and> fs_mem (2 + n) s2 cs \<and> root_list s2 = [] \<and>
    superblock s2 = new_superblock \<and> bits (inode_bitmap s2) = {0} \<and> bits (data_bitmap s2) = {0} \<and>
    open_files s2 = map (\<lambda>f. f\<lparr>f_in_use := 0\<rparr>) (open_files s) \<and>
    {inode_bitmap_ptr s1, data_bitmap_ptr s1} \<subseteq> owned (fs_heap s2) \<and>
    {inode_bitmap_ptr s1, data_bitmap_ptr s1} \<inter> {inode_bitmap_ptr s2, data_bitmap_ptr s2} = {}"
proof -
  have m0: "fs_mem (Suc (Suc (Suc (3 + n)))) s bs" using assms(2) by (simp add: add.commute)
  obtain s1 cs p q where f: "fs_format s = Some s1" "fs_mem (Suc (3 + n)) s1 cs" "formatted (ticks s) s1" "superblock s1 = new_superblock"
    "inode_bitmap_ptr s1 = p" "data_bitmap_ptr s1 = q" "owned (fs_heap s1) = {p, q} \<union> owned (fs_heap s)" "open_files s1 = open_files s"
    by (rule fs_format_ok [OF assms(1) m0 assms(3,4)]) blast
  have rd: "rd_ok (fs_disk s1)" "blk (fs_disk s1) 0 = encode_superblock new_superblock" "maps_ok s1"
    using f(3) by (auto simp: formatted_def maps_ok_def)
  have sb: "length (sb_reserved new_superblock) = 460" "sb_magic new_superblock = FS_MAGIC" by (simp_all add: new_superblock_def)
  have m1: "fs_mem (Suc (Suc (Suc (Suc n)))) s1 cs" using f(2) by (simp add: eval_nat_numeral)
  obtain s2 ds p2 q2 where i: "fs_init s1 = Some s2" "fs_mem (Suc (Suc n)) s2 ds" "superblock s2 = new_superblock" "fs_initialized s2 = 1"
    "maps_ok s2" "fs_disk s2 = fs_disk s1" "inode_bitmap_ptr s2 = p2" "data_bitmap_ptr s2 = q2"
    "owned (fs_heap s2) = {p2, q2} \<union> owned (fs_heap s1)" "{p2, q2} \<inter> owned (fs_heap s1) = {}"
    "open_files s2 = map (\<lambda>f. f\<lparr>f_in_use := 0\<rparr>) (open_files s1)"
    by (rule fs_init_ok [OF rd(1) m1 rd(2) sb]) blast
  have bm: "inode_bitmap s2 = inode_bitmap s1" "data_bitmap s2 = data_bitmap s1" using i(5,6) rd(3) by (simp_all add: maps_ok_def)
  have fm: "formatted (ticks s) s2" using f(3) i(5,6) bm by (simp add: formatted_def)
  have mem: "fs_mem (2 + n) s2 ds" using i(2) by simp
  have "fs_ok s2 ds"
    using formatted_dir(1) [OF fm] fs_mem_mono [OF mem] i(4) fm by (simp add: fs_ok_def formatted_def)
  moreover have "{p, q} \<inter> {p2, q2} = {}" using i(10) f(7) by blast
  ultimately show ?thesis
    using f(1,5-8) i formatted_dir(2) [OF fm] fm mem by (intro exI [of _ s1] exI [of _ s2] exI [of _ ds]) (auto simp: formatted_def)
qed

text \<open>
  C15: Formatting a disk and mounting it again gives an empty root directory, the root's inode and block taken, every
  descriptor free and the superblock of \<open>fs_format\<close>. The two bitmap buffers \<open>fs_format\<close> had allocated stay
  allocated, and no pointer to them is left: each mount of a formatted file system loses two heap blocks.
\<close>

theorem format_mount:
  assumes "rd_ok (fs_disk s)" and "fs_mem (6 + n) s bs" and "inode_bitmap_ptr s = 0" and "data_bitmap_ptr s = 0"
  shows "\<exists>s1 s2 cs. fs_format s = Some s1 \<and> fs_init s1 = Some s2 \<and> fs_ok s2 cs \<and> fs_mem (2 + n) s2 cs \<and> root_list s2 = [] \<and>
    superblock s2 = new_superblock \<and> bits (inode_bitmap s2) = {0} \<and> bits (data_bitmap s2) = {0} \<and>
    open_files s2 = map (\<lambda>f. f\<lparr>f_in_use := 0\<rparr>) (open_files s) \<and>
    {inode_bitmap_ptr s1, data_bitmap_ptr s1} \<subseteq> owned (fs_heap s2) \<and>
    {inode_bitmap_ptr s1, data_bitmap_ptr s1} \<inter> {inode_bitmap_ptr s2, data_bitmap_ptr s2} = {}"
  by (rule fs_format_init_ok [OF assms])

lemma format_mount_witness:
  "\<exists>s1 s2 cs. fs_format blank_fs = Some s1 \<and> fs_init s1 = Some s2 \<and> fs_ok s2 cs \<and> root_list s2 = [] \<and>
     inode_bitmap_ptr s1 \<in> owned (fs_heap s2) \<and> inode_bitmap_ptr s1 \<noteq> inode_bitmap_ptr s2"
  using format_mount [of blank_fs 2 "[(HEAP_START, HEAP_SIZE, True)]"] blank_fs_mem [of 8] by (auto simp: blank_fs_def)

section \<open>Creation and lookup\<close>

lemma path_lookup_map:
  assumes "fs_ok s bs" and "good_path q"
  shows "\<exists>h. path_lookup (Some q) s = Some (map_of (root_list s) (path_name q), s\<lparr>fs_heap := h\<rparr>) \<and> heap_ok h bs"
  using path_lookup_ok [OF fs_okD(1,3) [OF assms(1)] assms(2)] by blast

text \<open>
  C13: Creating a file with a new name of at most 27 bytes, while an inode, a directory slot and a data block are free, succeeds:
  afterwards every path is looked up as before except the new name, which denotes a fresh inode with the default
  permissions and no blocks; all other files keep their inodes; creating the same name again fails.
\<close>

theorem create_then_lookup:
  assumes "fs_ok s bs" and "good_path p" and "length (path_name p) \<le> 27" and "map_of (root_list s) (path_name p) = None"
    and "ty \<noteq> FS_TYPE_DIR" and "k < 384" and "k \<notin> bits (inode_bitmap s)" and "length (root_list s) < 160" and "\<not> {..<1981} \<subseteq> bits (data_bitmap s)"
  shows "\<exists>n s'. fs_create (Some p) ty s = Some (0, s') \<and> fs_ok s' bs \<and> n < 384 \<and> unat n \<notin> bits (inode_bitmap s) \<and>
    (\<forall>q. good_path q \<longrightarrow> (\<exists>h. path_lookup (Some q) s' =
       Some (((map_of (root_list s))(path_name p \<mapsto> n)) (path_name q), s'\<lparr>fs_heap := h\<rparr>))) \<and>
    inode_at (fs_disk s') n = new_inode (ty OR FS_PERM_DEFAULT) (ticks s) \<and>
    (\<forall>m < 384. m \<noteq> 0 \<and> m \<noteq> n \<longrightarrow> inode_at (fs_disk s') m = inode_at (fs_disk s) m) \<and>
    (\<exists>h. fs_create (Some p) ty s' = Some (- 1, s'\<lparr>fs_heap := h\<rparr>))"
  using assms(1,2,4-7)
proof (cases rule: fs_create_file_ok)
  case (full s')
  then show ?thesis using assms(8,9) by simp
next
  case (created n s' us vs)
  have m: "map_of (root_list s') = (map_of (root_list s))(path_name p \<mapsto> n)"
    using created(6,7) map_of_insert_fresh [of us vs "path_name p" n] assms(3,4) by simp
  then have again: "\<exists>h. fs_create (Some p) ty s' = Some (- 1, s'\<lparr>fs_heap := h\<rparr>)"
    using fs_create_existing [OF created(5) assms(2)] by auto
  have look: "\<forall>q. good_path q \<longrightarrow> (\<exists>h. path_lookup (Some q) s' =
      Some (((map_of (root_list s))(path_name p \<mapsto> n)) (path_name q), s'\<lparr>fs_heap := h\<rparr>))"
    using path_lookup_map [OF created(5)] unfolding m by blast
  have other: "\<forall>m < 384. m \<noteq> 0 \<and> m \<noteq> n \<longrightarrow> inode_at (fs_disk s') m = inode_at (fs_disk s) m" using created(11) by blast
  show ?thesis
    by (rule exI [of _ n], rule exI [of _ s'], intro conjI) (fact created(1,5,3,4,8) look other again)+
qed

text \<open>
  A name of more than 27 bytes is lost: \<open>fs_create\<close> stores only its first 27 bytes and reports success, but the
  file does not exist under the name it was created with, although an inode and a slot are gone.
\<close>

theorem long_name_lost:
  assumes "fs_ok s bs" and "good_path p" and "27 < length (path_name p)" and "map_of (root_list s) (path_name p) = None"
    and "ty \<noteq> FS_TYPE_DIR" and "k < 384" and "k \<notin> bits (inode_bitmap s)" and "length (root_list s) < 160" and "\<not> {..<1981} \<subseteq> bits (data_bitmap s)"
  shows "\<exists>s' h. fs_create (Some p) ty s = Some (0, s') \<and> fs_exists (Some p) s' = Some (False, s'\<lparr>fs_heap := h\<rparr>) \<and>
    length (root_list s') = Suc (length (root_list s)) \<and> bits (inode_bitmap s) \<subset> bits (inode_bitmap s')"
  using assms(1,2,4-7)
proof (cases rule: fs_create_file_ok)
  case (full s')
  then show ?thesis using assms(8,9) by simp
next
  case (created n s' us vs)
  have "take 27 (path_name p) \<noteq> path_name p"
  proof
    assume "take 27 (path_name p) = path_name p"
    then have "length (take 27 (path_name p)) = length (path_name p)" by (rule arg_cong)
    then show False using assms(3) by simp
  qed
  then have "path_name p \<noteq> take 27 (path_name p)" by (rule not_sym)
  then have "map_of (root_list s') (path_name p) = map_of (root_list s) (path_name p)"
    using created(6,7) by (simp add: map_add_def del: take_all_iff split: option.split)
  then have "map_of (root_list s') (path_name p) = None" using assms(4) by simp
  then obtain h where "fs_exists (Some p) s' = Some (False, s'\<lparr>fs_heap := h\<rparr>)"
    using path_lookup_map [OF created(5) assms(2)] by (auto simp: fs_exists_def)
  then show ?thesis using created(1,4,6,7,9) by (intro exI [of _ s'] exI [of _ h]) auto
qed

text \<open>A mounted empty file system, for the witnesses.\<close>

lemma empty_fs_exists:
  obtains s bs where "fs_ok s bs" and "root_list s = []" and "bits (inode_bitmap s) = {0}" and "bits (data_bitmap s) = {0}"
    and "open_files s = replicate 16 \<lparr>f_inode = 0, f_position = 0, f_flags = 0, f_in_use = 0\<rparr>"
proof -
  have m: "fs_mem (6 + 2) blank_fs [(HEAP_START, HEAP_SIZE, True)]" by (rule blank_fs_mem) simp
  have b: "rd_ok (fs_disk blank_fs)" "inode_bitmap_ptr blank_fs = 0" "data_bitmap_ptr blank_fs = 0" by (simp_all add: blank_fs_def)
  obtain s1 s2 cs where f: "fs_format blank_fs = Some s1 \<and> fs_init s1 = Some s2 \<and> fs_ok s2 cs \<and> fs_mem (2 + 2) s2 cs \<and> root_list s2 = [] \<and>
    superblock s2 = new_superblock \<and> bits (inode_bitmap s2) = {0} \<and> bits (data_bitmap s2) = {0} \<and>
    open_files s2 = map (\<lambda>f. f\<lparr>f_in_use := 0\<rparr>) (open_files blank_fs) \<and>
    {inode_bitmap_ptr s1, data_bitmap_ptr s1} \<subseteq> owned (fs_heap s2) \<and>
    {inode_bitmap_ptr s1, data_bitmap_ptr s1} \<inter> {inode_bitmap_ptr s2, data_bitmap_ptr s2} = {}"
    using fs_format_init_ok [OF b(1) m b(2,3)] by (elim exE)
  have "open_files s2 = replicate 16 \<lparr>f_inode = 0, f_position = 0, f_flags = 0, f_in_use = 0\<rparr>" using f by (simp add: blank_fs_def)
  then show ?thesis using that [of s2 cs] f by simp
qed

lemma not_full_singleton: "\<not> {..<1981} \<subseteq> {0 :: nat}"
proof
  assume "{..<1981} \<subseteq> {0 :: nat}"
  from subsetD [OF this, of 1] show False by simp
qed

lemma create_then_lookup_witness:
  "\<exists>s n s'. fs_create (Some [47, 97, 0]) FS_TYPE_FILE s = Some (0, s') \<and> n < 384 \<and> inode_at (fs_disk s') n = new_inode 7 (ticks s) \<and>
     (\<exists>h. path_lookup (Some [47, 97, 0]) s' = Some (Some n, s'\<lparr>fs_heap := h\<rparr>)) \<and> root_list s = []"
proof -
  obtain s bs where s: "fs_ok s bs" "root_list s = []" "bits (inode_bitmap s) = {0}" "bits (data_bitmap s) = {0}"
    by (rule empty_fs_exists)
  have p: "good_path [47, 97, 0]" "path_name [47, 97, 0] = [97]" by (simp_all add: good_path_def path_name_def)
  have free: "1 \<notin> bits (inode_bitmap s)" "\<not> {..<1981} \<subseteq> bits (data_bitmap s)" using s(3,4) not_full_singleton by simp_all
  show ?thesis using create_then_lookup [OF s(1) p(1) _ _ _ _ free(1) _ free(2), of FS_TYPE_FILE] s(2) p by fastforce
qed

lemma long_name_lost_witness:
  "\<exists>s s' h. fs_create (Some (replicate 30 97 @ [0])) FS_TYPE_FILE s = Some (0, s') \<and>
     fs_exists (Some (replicate 30 97 @ [0])) s' = Some (False, s'\<lparr>fs_heap := h\<rparr>) \<and> length (root_list s') = 1"
proof -
  obtain s bs where s: "fs_ok s bs" "root_list s = []" "bits (inode_bitmap s) = {0}" "bits (data_bitmap s) = {0}"
    by (rule empty_fs_exists)
  have p: "path_name (replicate 30 97 @ [0]) = replicate 30 97" by (simp add: path_name_def cstr_append_nul hd_append)
  then have g: "good_path (replicate 30 97 @ [0])" by (simp add: good_path_def)
  have free: "1 \<notin> bits (inode_bitmap s)" "\<not> {..<1981} \<subseteq> bits (data_bitmap s)" using s(3,4) not_full_singleton by simp_all
  show ?thesis using long_name_lost [OF s(1) g _ _ _ _ free(1) _ free(2), of FS_TYPE_FILE] s(2) p by auto
qed

section \<open>Reading back through the name\<close>

lemma fs_open_existing:
  assumes ok: "fs_ok s bs" and p: "good_path p" and n: "map_of (root_list s) (path_name p) = Some n"
    and fd: "List.find (\<lambda>i. f_in_use (open_files s ! i) = 0) [0..<16] = Some fd"
  obtains h where "fs_open (Some p) flags s = Some (int fd, s\<lparr>fs_heap := h, open_files := (open_files s)[fd :=
      \<lparr>f_inode = n, f_position = 0, f_flags = flags, f_in_use = 1\<rparr>]\<rparr>)" and "heap_ok h bs"
proof -
  obtain h where h: "path_lookup (Some p) s = Some (Some n, s\<lparr>fs_heap := h\<rparr>)" "heap_ok h bs"
    using path_lookup_map [OF ok p] n by auto
  show ?thesis by (rule that [OF _ h(2)]) (use h(1) fd fs_okD(5) [OF ok] in \<open>simp add: fs_open_def\<close>)
qed

lemma file_ok_files [simp]:
  "file_ok (s\<lparr>open_files := xs\<rparr>) n = file_ok s n" "file_ok (s\<lparr>fs_heap := h\<rparr>) n = file_ok s n"
  "dir_ok (s\<lparr>open_files := xs\<rparr>) = dir_ok s" "root_list (s\<lparr>open_files := xs\<rparr>) = root_list s"
  by (simp_all add: file_ok_def good_def maps_ok_def dir_ok_def root_list_def)

lemma find_free_fd:
  assumes "List.find P [0..<16] = Some fd"
  shows "fd < 16" and "P fd"
  using assms by (auto simp: find_Some_iff)

text \<open>
  C14: What is written at the start of a file of the root directory through one descriptor is what a descriptor that is then
  opened by the file's name reads: with room for ten more blocks a write of up to 5120 bytes stores all of them, the
  other descriptor gets the same bytes, and the directory stays intact.
\<close>

theorem file_write_read:
  assumes ok: "fs_ok s bs" and p: "good_path p" and n: "map_of (root_list s) (path_name p) = Some n" "n \<noteq> 0" "file_ok s n"
    and own: "set (i_blocks (inode_at (fs_disk s) n)) \<inter> set (i_blocks (inode_at (fs_disk s) 0)) \<subseteq> {0}"
    and fd: "open_on s fd n 0 FS_OPEN_WRITE" and fd': "List.find (\<lambda>i. f_in_use (open_files s ! i) = 0) [0..<16] = Some fd'"
    and sz: "unat sz \<le> length buf" "sz \<noteq> 0" "unat sz \<le> 5120" "unat sz \<le> length out"
    and room: "card (bits (data_bitmap s)) + 10 < 1981"
  shows "\<exists>s1 s2 s3. fs_write fd buf sz s = Some (int (unat sz), s1) \<and> fs_open (Some p) FS_OPEN_READ s1 = Some (int fd', s2) \<and>
    fs_read (int fd') out sz s2 = Some (int (unat sz), take (unat sz) buf @ drop (unat sz) out, s3) \<and>
    fs_ok s1 bs \<and> root_list s1 = root_list s"
proof -
  note f = fs_okD [OF ok]
  have bound: "unat (0 :: u32) + unat sz < 2147483648" using sz(3) by simp
  obtain m s1 where w: "fs_write fd buf sz s = Some (int (unat m), s1)" "m \<le> sz" "file_ok s1 n" "fs_mem 1 s1 bs"
    "open_files s1 = (open_files s)[nat fd := (open_files s ! nat fd)\<lparr>f_position := 0 + m\<rparr>]"
    and stored: "\<And>k. k < unat m \<Longrightarrow> unat (0 :: u32) + k < 5120 \<and> i_blocks (inode_at (fs_disk s1) n) ! ((unat (0 :: u32) + k) div 512) \<noteq> 0 \<and>
        fbyte (fs_disk s1) (inode_at (fs_disk s1) n) (unat (0 :: u32) + k) = buf ! k"
    and stop: "m = sz \<or> 5120 \<le> unat (0 :: u32) + unat m \<or> {..<1981} \<subseteq> bits (data_bitmap s1)"
    and size: "m \<noteq> 0 \<Longrightarrow> unat (0 :: u32) + unat m \<le> unat (i_size (inode_at (fs_disk s1) n))"
    and blocks: "\<And>b. unat b < 1981 \<Longrightarrow> unat b \<in> bits (data_bitmap s) \<Longrightarrow> b \<notin> set (i_blocks (inode_at (fs_disk s) n)) \<Longrightarrow>
        blk (fs_disk s1) (FS_DATA_BLOCKS_START + b) = blk (fs_disk s) (FS_DATA_BLOCKS_START + b)"
    and inodes: "\<And>j. j < 384 \<Longrightarrow> j \<noteq> n \<Longrightarrow> inode_at (fs_disk s1) j = inode_at (fs_disk s) j"
    and maps: "bits (data_bitmap s) \<subseteq> bits (data_bitmap s1)" "card (bits (data_bitmap s1)) \<le> card (bits (data_bitmap s)) + 10"
      "inode_bitmap s1 = inode_bitmap s" "fs_initialized s1 = fs_initialized s"
    by (rule fs_write_ok [OF n(3) f(3) fd sz(1) bound]) (rule that)
  have "\<not> {..<1981} \<subseteq> bits (data_bitmap s1)"
    using card_mono [of "bits (data_bitmap s1)" "{..<1981}"] room maps(2) by auto
  then have m: "m = sz" using stop w(2) sz(3) by (auto simp: word_le_nat_alt intro!: word_unat_eq_iff [THEN iffD2])
  have i0: "inode_at (fs_disk s1) 0 = inode_at (fs_disk s) 0" using inodes [of 0] n(2) by simp
  have root: "blk (fs_disk s1) (FS_DATA_BLOCKS_START + b) = blk (fs_disk s) (FS_DATA_BLOCKS_START + b)"
    if "unat b < 1981" "unat b \<in> bits (data_bitmap s)" "b \<noteq> 0" "b \<in> set (i_blocks (inode_at (fs_disk s) 0))" for b
    using blocks [OF that(1,2)] own that(3,4) by blast
  note d1 = dir_ok_cong [OF f(1) file_okD(1) [OF w(3)] maps(1) i0 root]
  have ok1: "fs_ok s1 bs" using ok d1(1) w(4) maps(3,4) by (simp add: fs_ok_def fs_mem_def)
  have free: "List.find (\<lambda>i. f_in_use (open_files s1 ! i) = 0) [0..<16] = Some fd'"
  proof -
    have "nat fd < length (open_files s)" using fd by (auto simp: open_on_def fd_valid_def)
    then have "f_in_use (open_files s1 ! i) = f_in_use (open_files s ! i)" for i using w(5) by (cases "i = nat fd") simp_all
    then show ?thesis using fd' by simp
  qed
  have n1: "map_of (root_list s1) (path_name p) = Some n" using n(1) d1(2) by simp
  let ?f = "\<lparr>f_inode = n, f_position = 0, f_flags = FS_OPEN_READ, f_in_use = 1\<rparr>"
  obtain h where o: "fs_open (Some p) FS_OPEN_READ s1 = Some (int fd', s1\<lparr>fs_heap := h, open_files := (open_files s1)[fd' := ?f]\<rparr>)" "heap_ok h bs"
    by (rule fs_open_existing [OF ok1 p n1 free])
  let ?s2 = "s1\<lparr>fs_heap := h, open_files := (open_files s1)[fd' := ?f]\<rparr>"
  have len: "length (open_files s1) = 16" using w(5) fd by (simp add: open_on_def)
  have fd2: "open_on ?s2 (int fd') n 0 FS_OPEN_READ" using len find_free_fd(1) [OF fd'] by (simp add: open_on_def fd_valid_def)
  have mem2: "fs_mem 1 ?s2 bs" using w(4) o(2) by (simp add: fs_mem_def)
  have fo2: "file_ok ?s2 n" using w(3) by simp
  obtain s3 where r: "fs_read (int fd') out sz ?s2 = Some (int (unat sz),
      map (fbyte (fs_disk ?s2) (inode_at (fs_disk ?s2) n)) [unat (0 :: u32)..<unat (0 :: u32) + unat sz] @ drop (unat sz) out, s3)"
    by (rule fs_read_ok [OF fo2 mem2 fd2 sz(4,2) bound]) (use size stored m sz(2) in auto)
  have "map (fbyte (fs_disk s1) (inode_at (fs_disk s1) n)) [0..<unat sz] = take (unat sz) buf"
    by (rule nth_equalityI) (use stored m sz(1) in auto)
  then show ?thesis using w(1) m o(1) r ok1 d1(2) by auto
qed

lemma file_write_read_witness:
  "\<exists>s s1 s2 s3. fs_write 0 [104, 105] 2 s = Some (2, s1) \<and> fs_open (Some [47, 97, 0]) FS_OPEN_READ s1 = Some (1, s2) \<and>
     fs_read 1 [0, 0, 0] 2 s2 = Some (2, [104, 105, 0], s3)"
proof -
  obtain s bs where s: "fs_ok s bs" "root_list s = []" "bits (inode_bitmap s) = {0}" "bits (data_bitmap s) = {0}"
    "open_files s = replicate 16 \<lparr>f_inode = 0, f_position = 0, f_flags = 0, f_in_use = 0\<rparr>"
    by (rule empty_fs_exists)
  have p: "good_path [47, 97, 0]" "path_name [47, 97, 0] = [97]" by (simp_all add: good_path_def path_name_def)
  have free: "map_of (root_list s) (path_name [47, 97, 0]) = None" "FS_TYPE_FILE \<noteq> FS_TYPE_DIR" "1 < (384 :: nat)" "1 \<notin> bits (inode_bitmap s)"
    using s(2,3) by simp_all
  from s(1) p(1) free show ?thesis
  proof (cases rule: fs_create_file_ok)
    case (full s')
    then show ?thesis using s(2,4) not_full_singleton by simp
  next
    case (created n s' us vs)
    have r: "map_of (root_list s') (path_name [47, 97, 0]) = Some n" using created(6,7) s(2) p(2) by simp
    have of: "open_files s' = replicate 16 \<lparr>f_inode = 0, f_position = 0, f_flags = 0, f_in_use = 0\<rparr>" using created(10) s(5) by simp
    have fd: "List.find (\<lambda>i. f_in_use (open_files s' ! i) = 0) [0..<16] = Some 0" using of by (simp add: upt_rec)
    obtain h where h: "heap_ok h bs" by (rule fs_open_existing [OF created(5) p(1) r fd])
    let ?t = "s'\<lparr>fs_heap := h, open_files := (open_files s')[0 := \<lparr>f_inode = n, f_position = 0, f_flags = FS_OPEN_WRITE, f_in_use = 1\<rparr>]\<rparr>"
    have ok: "fs_ok ?t bs" using created(5) h by (simp add: fs_ok_def fs_mem_def)
    have g: "good s' (inode_at (fs_disk s') 0)" using fs_okD(1) [OF created(5)] by (simp add: dir_ok_def file_ok_def)
    then have fo: "file_ok ?t n" using created(3,8) fs_okD(4) [OF created(5)] by (simp add: file_ok_def good_def maps_ok_def)
    have own: "set (i_blocks (inode_at (fs_disk ?t) n)) \<inter> set (i_blocks (inode_at (fs_disk ?t) 0)) \<subseteq> {0}" using created(8) by auto
    have op: "open_on ?t 0 n 0 FS_OPEN_WRITE" using of by (simp add: open_on_def fd_valid_def)
    have fd2: "List.find (\<lambda>i. f_in_use (open_files ?t ! i) = 0) [0..<16] = Some 1" using of by (simp add: upt_rec)
    have r2: "map_of (root_list ?t) (path_name [47, 97, 0]) = Some n" using r by simp
    have room: "card (bits (data_bitmap ?t)) + 10 < 1981" using created(13) s(4) by simp
    show ?thesis
      using file_write_read [OF ok p(1) r2 created(2) fo own op fd2 _ _ _ _ room, of 2 "[104, 105]" "[0, 0, 0]"] by auto
  qed
qed

end
