(* ===== verification/Fs_Unlink.thy ===== *)
theory Fs_Unlink
  imports Fs_Dir
begin

text \<open>
  Deleting a file: \<open>fs_unlink\<close> and \<open>fs_rmdir\<close> of \<open>fs.c\<close>. The entry leaves the directory, the inode and the data blocks return to the
  free maps, and nothing else changes.
\<close>

section \<open>Clearing a slot of a directory block\<close>

lemma entries_remove:
  assumes "names_ok data" and "f < 16" and "slot_inode data f \<noteq> 0"
    and "data' = take (32 * f) data @ le32 0 @ drop (32 * f + 4) data"
  shows "names_ok data'" and "\<exists>xs ys. entries data = xs @ (slot_name data f, slot_inode data f) # ys \<and> entries data' = xs @ ys"
proof -
  have len: "length data = 512" using assms(1) by (simp add: names_ok_def)
  have "drop (32 * f + 4) data = drop 4 (slot data f) @ drop (32 * f + 32) data"
    using append_take_drop_id [of 28 "drop (32 * f + 4) data"] by (simp add: slot_def drop_take add.commute)
  then have d': "data' = take (32 * f) data @ (le32 0 @ drop 4 (slot data f)) @ drop (32 * f + 32) data" using assms(4) by simp
  have sl: "slot data' j = (if j = f then le32 0 @ drop 4 (slot data f) else slot data j)" if "j < 16" for j
    unfolding d' by (rule slot_replace [OF len _ assms(2) that]) (use len assms(2) in simp)
  have si: "slot_inode data' j = (if j = f then 0 else slot_inode data j)" if "j < 16" for j
    using sl [OF that] by (simp add: slot_inode_def get32_field)
  have sn: "slot_name data' j = slot_name data j" if "j < 16" for j
    using sl [OF that] by (simp add: slot_name_def)
  have "length data' = 512" using len assms(2,4) by simp
  then show "names_ok data'" using assms(1) sl si by (auto simp: names_ok_def)
  let ?e = "\<lambda>data i. (slot_name data i, slot_inode data i)"
  have sp: "[0..<16] = [0..<f] @ f # [Suc f..<16]" by (rule upt_split [OF assms(2)])
  have eq: "map (?e data') (filter (\<lambda>i. slot_inode data' i \<noteq> 0) js) = map (?e data) (filter (\<lambda>i. slot_inode data i \<noteq> 0) js)"
    if "\<forall>j \<in> set js. j < 16 \<and> j \<noteq> f" for js
    using that by (induction js) (auto simp: si sn)
  have "entries data' = map (?e data) (filter (\<lambda>i. slot_inode data i \<noteq> 0) [0..<f]) @ map (?e data) (filter (\<lambda>i. slot_inode data i \<noteq> 0) [Suc f..<16])"
    unfolding entries_def sp using assms(2) si [OF assms(2)] eq [of "[0..<f]"] eq [of "[Suc f..<16]"] by simp
  moreover have "entries data = map (?e data) (filter (\<lambda>i. slot_inode data i \<noteq> 0) [0..<f]) @
      ?e data f # map (?e data) (filter (\<lambda>i. slot_inode data i \<noteq> 0) [Suc f..<16])"
    unfolding entries_def sp using assms(3) by simp
  ultimately show "\<exists>xs ys. entries data = xs @ (slot_name data f, slot_inode data f) # ys \<and> entries data' = xs @ ys" by blast
qed

section \<open>Freeing the blocks of a file\<close>

lemma free_blocks_loop_ok:
  assumes "maps_ok s" and "\<And>b. b \<in> set (takeWhile (\<lambda>b. b \<noteq> 0) bs) \<Longrightarrow> unat b < 1981"
  shows "\<exists>d sb m. free_blocks_loop bs s = Some (s\<lparr>fs_disk := d, superblock := sb, data_bitmap := m\<rparr>) \<and>
    maps_ok (s\<lparr>fs_disk := d, superblock := sb, data_bitmap := m\<rparr>) \<and>
    bits m = bits (data_bitmap s) - unat ` set (takeWhile (\<lambda>b. b \<noteq> 0) bs) \<and> (\<forall>c. c \<noteq> 2 \<longrightarrow> blk d c = blk (fs_disk s) c)"
  using assms
proof (induction bs arbitrary: s)
  case Nil
  then show ?case by (intro exI [of _ "fs_disk s"] exI [of _ "superblock s"] exI [of _ "data_bitmap s"]) simp
next
  case (Cons b bs)
  show ?case
  proof (cases "b = 0")
    case True
    then show ?thesis using Cons.prems(1) by (intro exI [of _ "fs_disk s"] exI [of _ "superblock s"] exI [of _ "data_bitmap s"]) simp
  next
    case False
    then have b: "unat b < 4096" using Cons.prems(2) [of b] by simp
    obtain d m where f: "free_data_block b s = Some (s\<lparr>fs_disk := d,
        superblock := (superblock s)\<lparr>sb_free_blocks := sb_free_blocks (superblock s) + 1\<rparr>, data_bitmap := m\<rparr>)" (is "_ = Some ?s1")
      "bits m = bits (data_bitmap s) - {unat b}" "length m = 512" "rd_ok d" "blk d 2 = m" "\<forall>c. c \<noteq> 2 \<longrightarrow> blk d c = blk (fs_disk s) c"
      by (rule free_data_block_ok [OF Cons.prems(1) b])
    have m1: "maps_ok ?s1" by (rule maps_ok_update(1)) (use f Cons.prems(1) in auto)
    obtain d' sb' m' where r: "free_blocks_loop bs ?s1 = Some (?s1\<lparr>fs_disk := d', superblock := sb', data_bitmap := m'\<rparr>)"
      "maps_ok (?s1\<lparr>fs_disk := d', superblock := sb', data_bitmap := m'\<rparr>)"
      "bits m' = bits (data_bitmap ?s1) - unat ` set (takeWhile (\<lambda>b. b \<noteq> 0) bs)" "\<forall>c. c \<noteq> 2 \<longrightarrow> blk d' c = blk (fs_disk ?s1) c"
      using Cons.IH [OF m1] Cons.prems(2) False by auto
    then show ?thesis using False f(1,2,6) by (intro exI [of _ d'] exI [of _ sb'] exI [of _ m']) auto
  qed
qed

section \<open>Removing an entry\<close>

text \<open>What removing an entry leaves alone: everything but the root's inode and blocks.\<close>

definition only_root :: "fs_state \<Rightarrow> fs_state \<Rightarrow> bool" where
  "only_root s s' \<longleftrightarrow> inode_bitmap s' = inode_bitmap s \<and> data_bitmap s' = data_bitmap s \<and> open_files s' = open_files s \<and>
     ticks s' = ticks s \<and> fs_initialized s' = fs_initialized s \<and>
     (\<forall>m < 384. m \<noteq> 0 \<longrightarrow> inode_at (fs_disk s') m = inode_at (fs_disk s) m) \<and>
     (\<forall>b. unat b < 1981 \<and> b \<notin> set (i_blocks (inode_at (fs_disk s) 0)) \<longrightarrow>
        blk (fs_disk s') (FS_DATA_BLOCKS_START + b) = blk (fs_disk s) (FS_DATA_BLOCKS_START + b))"

lemma dir_clear_ok:
  assumes ok: "dir_ok s" and i: "i = inode_at (fs_disk s) 0" and mem: "fs_mem 1 s bs" and j: "j < length (dir_blocks i)"
    and data: "data = blk (fs_disk s) (FS_DATA_BLOCKS_START + i_blocks i ! j)"
    and f: "f < 16" "slot_inode data f \<noteq> 0" and i': "i' = i\<lparr>i_size := n, i_modified := t\<rparr>"
  obtains s2 s3 us vs where
    "write_block (FS_DATA_BLOCKS_START + i_blocks i ! j) (take (32 * f) data @ le32 0 @ drop (32 * f + 4) data) s = Some s2"
    and "ticks s2 = ticks s" and "write_inode 0 i' s2 = Some (0, s3)" and "dir_ok s3" and "fs_mem 1 s3 bs" and "only_root s s3"
    and "root_list s = us @ (slot_name data f, slot_inode data f) # vs" and "root_list s3 = us @ vs"
proof -
  have fo: "file_ok s 0" and shape: "dir_shape (fs_disk s) i" using ok i by (auto simp: dir_ok_def)
  note fd = file_okD [OF fo]
  have g: "good s i" using fd(4) i by simp
  have wf: "wf_inode i" "wf_inode i'" using i i' g by (auto simp: good_def wf_inode_def)
  let ?n = "length (dir_blocks i)" and ?b = "i_blocks i ! j"
  let ?data = "take (32 * f) data @ le32 0 @ drop (32 * f + 4) data"
  have n10: "?n \<le> 10" by (rule dir_blocks_length [OF wf(1)])
  have j10: "j < 10" using j n10 by simp
  have bl: "unat (i_blocks i ! l) < 1981" if "l < 10" for l using goodD(1) [OF g that] .
  have nz: "i_blocks i ! l \<noteq> 0" if "l < ?n" for l using shape that n10 by (auto simp: dir_shape_def)
  have names: "names_ok data" using shape j data by (simp add: dir_shape_def)
  have len: "length ?data = 512" using names f(1) by (simp add: names_ok_def)
  note er = entries_remove [OF names f refl]
  obtain d where d: "write_block (FS_DATA_BLOCKS_START + ?b) ?data s = Some (s\<lparr>fs_disk := d\<rparr>)" "rd_ok d"
    "blk d (FS_DATA_BLOCKS_START + ?b) = ?data" "\<forall>c. c \<noteq> FS_DATA_BLOCKS_START + ?b \<longrightarrow> blk d c = blk (fs_disk s) c"
    using write_block_ok [OF fd(2) data_block_less [OF bl [OF j10]] len] by auto
  let ?s2 = "s\<lparr>fs_disk := d\<rparr>"
  have m2: "fs_mem 1 ?s2 bs" using mem by simp
  obtain h d3 where w: "write_inode 0 i' ?s2 = Some (0, ?s2\<lparr>fs_heap := h, fs_disk := d3\<rparr>)" "heap_ok h bs" "rd_ok d3"
    "inode_at d3 0 = i'" "\<forall>m < FS_MAX_INODES. m \<noteq> 0 \<longrightarrow> inode_at d3 m = inode_at (fs_disk ?s2) m"
    "\<forall>b. b \<noteq> inode_block 0 \<longrightarrow> blk d3 b = blk (fs_disk ?s2) b"
    by (rule write_inode_ok [OF _ m2 _ wf(2)]) (use d(2) in auto)
  let ?s3 = "?s2\<lparr>fs_heap := h, fs_disk := d3\<rparr>"
  have ib0: "inode_block 0 = 3" by (simp add: inode_block_def)
  have low: "blk d c = blk (fs_disk s) c" if "c < 67" for c using d(4) data_block_high [OF bl [OF j10] that] by metis
  have hi: "blk d3 (FS_DATA_BLOCKS_START + b) = blk d (FS_DATA_BLOCKS_START + b)" if "unat b < 1981" for b
    using w(6) data_block_high [OF that, of 3] ib0 by simp
  have at: "blk d3 (FS_DATA_BLOCKS_START + i_blocks i ! l) = (if l = j then ?data else blk (fs_disk s) (FS_DATA_BLOCKS_START + i_blocks i ! l))"
    if "l < ?n" for l
  proof (cases "l = j")
    case False
    have l: "l < 10" using that n10 by simp
    have "i_blocks i ! l \<noteq> ?b" using good_inj [OF g l j10 nz [OF j]] False by blast
    then show ?thesis using False d(4) hi [OF bl [OF l]] by simp
  qed (use d(3) hi [OF bl [OF j10]] in simp)
  have maps3: "maps_ok ?s3" using fd(1) w(3,6) ib0 low [of 1] low [of 2] by (simp add: maps_ok_def)
  have db: "dir_blocks i' = dir_blocks i" "i_blocks i' = i_blocks i" using i' by (simp_all add: dir_blocks_def)
  have shape3: "dir_shape d3 i'"
    using shape er(1) at by (auto simp: dir_shape_def db)
  have ok3: "dir_ok ?s3"
    using maps3 g w(4) ok i i' shape3 by (simp add: dir_ok_def file_ok_def good_def wf_inode_def)
  have kept: "only_root s ?s3"
  proof -
    have "inode_at d3 m = inode_at (fs_disk s) m" if "m < 384" "m \<noteq> 0" for m
    proof -
      have "m < FS_MAX_INODES" using that(1) by (simp add: word_less_nat_alt)
      then show ?thesis using w(5) that(2) inode_at_low [OF that(1), of d "fs_disk s"] low by simp
    qed
    moreover have "blk d3 (FS_DATA_BLOCKS_START + b) = blk (fs_disk s) (FS_DATA_BLOCKS_START + b)"
      if "unat b < 1981" "b \<notin> set (i_blocks i)" for b
    proof -
      have "?b \<in> set (i_blocks i)" using j10 wf(1) by (simp add: wf_inode_def)
      then have "b \<noteq> ?b" using that(2) by blast
      then show ?thesis using hi [OF that(1)] d(4) by simp
    qed
    ultimately show ?thesis using i by (simp add: only_root_def)
  qed
  from er(2) obtain xs ys where e: "entries data = xs @ (slot_name data f, slot_inode data f) # ys" "entries ?data = xs @ ys" by blast
  let ?F = "\<lambda>l. entries (blk d3 (FS_DATA_BLOCKS_START + i_blocks i ! l))" and ?G = "\<lambda>l. entries (blk (fs_disk s) (FS_DATA_BLOCKS_START + i_blocks i ! l))"
  have "\<exists>us vs. concat (map ?F [0..<?n]) = us @ vs \<and> concat (map ?G [0..<?n]) = us @ (slot_name data f, slot_inode data f) # vs"
    by (rule concat_insert [OF j, of ?F xs ys]) (use e at j data in auto)
  then obtain us vs where "root_list s = us @ (slot_name data f, slot_inode data f) # vs" "root_list ?s3 = us @ vs"
    using dir_list_upt [OF wf(1), of "fs_disk s"] dir_list_upt [OF wf(2), of d3] w(4) i by (auto simp: root_list_def db)
  then show ?thesis using that [OF d(1) _ w(1) ok3 _ kept] mem w(2) by (simp add: fs_mem_def)
qed

lemma dir_remove_loop_ok:
  assumes ok: "dir_ok s" and i: "i = inode_at (fs_disk s) 0" and mem: "fs_mem 1 s bs" and name: "0 \<in> set name"
    and "length data = 512" and "k \<le> 10"
    and "cstr name \<in> fst ` set (concat (map (\<lambda>j. entries (blk (fs_disk s) (FS_DATA_BLOCKS_START + i_blocks i ! j))) [k..<length (dir_blocks i)]))"
  shows "\<exists>s' us vs x. dir_remove_loop 0 name (drop k (i_blocks i)) i data s = Some (0, s') \<and> dir_ok s' \<and> fs_mem 1 s' bs \<and>
    only_root s s' \<and> root_list s = us @ (cstr name, x) # vs \<and> root_list s' = us @ vs"
  using assms(5-7)
proof (induction "10 - k" arbitrary: k data)
  have g: "good s i" and shape: "dir_shape (fs_disk s) i" using ok i by (auto simp: dir_ok_def file_ok_def)
  have wf: "wf_inode i" using i by simp
  have n10: "length (dir_blocks i) \<le> 10" by (rule dir_blocks_length [OF wf])
  {
    case 0
    then show ?case using n10 by simp
  next
    case (Suc x)
    let ?n = "length (dir_blocks i)" and ?b = "i_blocks i ! k"
    let ?d = "blk (fs_disk s) (FS_DATA_BLOCKS_START + ?b)"
    have kn: "k < ?n" using Suc.prems(3) by (cases "k < ?n") auto
    then have k: "k < 10" using n10 by simp
    have b: "?b \<noteq> 0" "unat ?b < 1981" "names_ok ?d" using shape kn k goodD(1) [OF g k] by (auto simp: dir_shape_def)
    have dr: "drop k (i_blocks i) = ?b # drop (Suc k) (i_blocks i)"
      using Cons_nth_drop_Suc [of k "i_blocks i"] k wf by (simp add: wf_inode_def)
    have up: "[k..<?n] = k # [Suc k..<?n]" using kn by (simp add: upt_conv_Cons)
    have rd: "rd_ok (fs_disk s)" using ok by (auto simp: dir_ok_def file_ok_def maps_ok_def)
    have rb: "read_block s (FS_DATA_BLOCKS_START + ?b) data = Some ?d"
      by (rule read_block_ok [OF rd data_block_less [OF b(2)] Suc.prems(1)])
    have fe: "find_entry ?d name [0..<16] = Some (List.find (\<lambda>i. slot_inode ?d i \<noteq> 0 \<and> slot_name ?d i = cstr name) [0..<16])"
      by (rule find_entry_eq [OF b(3) name]) auto
    show ?case
    proof (cases "List.find (\<lambda>i. slot_inode ?d i \<noteq> 0 \<and> slot_name ?d i = cstr name) [0..<16]")
      case None
      then have "\<forall>f < 16. slot_inode ?d f \<noteq> 0 \<longrightarrow> slot_name ?d f \<noteq> cstr name" by (auto simp: find_None_iff simp del: upt_rec_numeral)
      then have "cstr name \<notin> fst ` set (entries ?d)" by (auto simp: entries_def simp del: upt_rec_numeral)
      then have rest: "cstr name \<in> fst ` set (concat (map (\<lambda>j. entries (blk (fs_disk s) (FS_DATA_BLOCKS_START + i_blocks i ! j))) [Suc k..<?n]))"
        using Suc.prems(3) unfolding up by auto
      have "dir_remove_loop 0 name (drop k (i_blocks i)) i data s = dir_remove_loop 0 name (drop (Suc k) (i_blocks i)) i ?d s"
        unfolding dr using b(1) rb fe None by simp
      then show ?thesis using Suc.hyps(1) [of "Suc k" ?d] Suc.hyps(2) rest k by simp
    next
      case (Some f)
      then have f: "f < 16" "slot_inode ?d f \<noteq> 0" "slot_name ?d f = cstr name" using find_SomeD [OF Some] by auto
      obtain s2 s3 us vs where c: "write_block (FS_DATA_BLOCKS_START + ?b) (take (32 * f) ?d @ le32 0 @ drop (32 * f + 4) ?d) s = Some s2"
        "ticks s2 = ticks s" "write_inode 0 (i\<lparr>i_size := i_size i - 32, i_modified := ticks s\<rparr>) s2 = Some (0, s3)"
        "dir_ok s3" "fs_mem 1 s3 bs" "only_root s s3"
        "root_list s = us @ (slot_name ?d f, slot_inode ?d f) # vs" "root_list s3 = us @ vs"
        by (rule dir_clear_ok [OF ok i mem kn refl f(1,2) refl])
      have "splice ?d (32 * f) (le32 0) = Some (take (32 * f) ?d @ le32 0 @ drop (32 * f + 4) ?d)"
        using f(1) by (simp add: splice_def)
      then have "dir_remove_loop 0 name (drop k (i_blocks i)) i data s = Some (0, s3)"
        unfolding dr using b(1) rb fe Some c(1-3) by simp
      then show ?thesis using c(4-8) f(3) by auto
    qed
  }
qed

lemma dir_remove_entry_ok:
  assumes ok: "dir_ok s" and mem: "fs_mem 2 s bs" and name: "0 \<in> set name" "cstr name \<in> fst ` set (root_list s)"
  obtains s' us vs x where "dir_remove_entry 0 name s = Some (0, s')" and "heap_ok (fs_heap s') bs" and "dir_ok s'" and "only_root s s'"
    and "root_list s = us @ (cstr name, x) # vs" and "root_list s' = us @ vs"
proof -
  let ?i = "inode_at (fs_disk s) 0"
  have fo: "file_ok s 0" using ok by (simp add: dir_ok_def)
  note fd = file_okD [OF fo]
  have mem1: "fs_mem 1 s bs" using fs_mem_mono [OF mem] by simp
  obtain h where h: "read_inode 0 s = Some (Some ?i, s\<lparr>fs_heap := h\<rparr>)" "heap_ok h bs"
    by (rule read_inode_ok [OF fd(2) mem1 fd(3)])
  let ?s1 = "s\<lparr>fs_heap := h\<rparr>"
  have "fs_mem (Suc 1) ?s1 bs" using mem h(2) by (simp add: fs_mem_def numeral_2_eq_2)
  then obtain q h2 cs where q: "fs_kmalloc ?s1 = Some (q, ?s1\<lparr>fs_heap := h2\<rparr>)" "q \<noteq> 0" "fs_mem 1 (?s1\<lparr>fs_heap := h2\<rparr>) cs"
    and rel: "\<And>s'. heap_ok (fs_heap s') cs \<Longrightarrow> \<exists>h'. fs_kfree q s' = Some (s'\<lparr>fs_heap := h'\<rparr>) \<and> heap_ok h' bs"
    by (rule fs_kmalloc_ok) blast
  let ?s2 = "s\<lparr>fs_heap := h2\<rparr>"
  have m2: "fs_mem 1 ?s2 cs" "dir_ok ?s2" using q(3) ok by simp_all
  have "cstr name \<in> fst ` set (concat (map (\<lambda>j. entries (blk (fs_disk ?s2) (FS_DATA_BLOCKS_START + i_blocks ?i ! j))) [0..<length (dir_blocks ?i)]))"
    using name(2) dir_list_upt [of ?i "fs_disk s"] by (simp add: root_list_def)
  from dir_remove_loop_ok [OF m2(2) _ m2(1) name(1) _ _ this, of "fresh ?s2 q"] obtain s3 us vs x where
    l: "dir_remove_loop 0 name (i_blocks ?i) ?i (fresh ?s2 q) ?s2 = Some (0, s3)" "dir_ok s3" "fs_mem 1 s3 cs" "only_root ?s2 s3"
      "root_list ?s2 = us @ (cstr name, x) # vs" "root_list s3 = us @ vs" by auto
  obtain h4 where h4: "fs_kfree q s3 = Some (s3\<lparr>fs_heap := h4\<rparr>)" "heap_ok h4 bs" using rel [of s3] l(3) by (auto simp: fs_mem_def)
  have "dir_remove_entry 0 name s = Some (0, s3\<lparr>fs_heap := h4\<rparr>)"
    using h(1) q(1,2) l(1) h4(1) by (simp add: dir_remove_entry_def)
  then show ?thesis using that [of "s3\<lparr>fs_heap := h4\<rparr>" us x vs] h4(2) l(2,4-6) by (simp add: only_root_def)
qed

section \<open>Deleting a file\<close>

text \<open>Freeing blocks and inodes that are not the root's keeps the directory.\<close>

lemma dir_ok_freed:
  assumes "dir_ok s" and "maps_ok s'" and "good s' (inode_at (fs_disk s) 0)" and "\<And>c. 2 < c \<Longrightarrow> blk (fs_disk s') c = blk (fs_disk s) c"
  shows "dir_ok s'" and "root_list s' = root_list s"
    and "\<And>m. m < 384 \<Longrightarrow> inode_at (fs_disk s') m = inode_at (fs_disk s) m"
    and "\<And>b. unat b < 1981 \<Longrightarrow> blk (fs_disk s') (FS_DATA_BLOCKS_START + b) = blk (fs_disk s) (FS_DATA_BLOCKS_START + b)"
proof -
  let ?i = "inode_at (fs_disk s) 0"
  show ino: "inode_at (fs_disk s') m = inode_at (fs_disk s) m" if "m < 384" for m
    by (rule inode_at_low [OF that]) (rule assms(4))
  show hi: "blk (fs_disk s') (FS_DATA_BLOCKS_START + b) = blk (fs_disk s) (FS_DATA_BLOCKS_START + b)" if "unat b < 1981" for b
    by (rule assms(4)) (use unat_data_block [OF that] in \<open>simp add: word_less_nat_alt\<close>)
  have g: "good s ?i" using assms(1) by (simp add: dir_ok_def file_ok_def)
  note dc = dir_cong [of ?i ?i "fs_disk s'" "fs_disk s", OF refl wf_inode_at wf_inode_at hi [OF dir_blocks_good(1) [OF g]]]
  show "dir_ok s'" using assms(1-3) ino [of 0] dc(1) by (simp add: dir_ok_def file_ok_def)
  show "root_list s' = root_list s" using ino [of 0] dc(2) by (simp add: root_list_def)
qed

lemma map_of_remove_distinct:
  assumes "distinct (map fst (us @ (x, y) # vs))"
  shows "map_of (us @ vs) = (map_of (us @ (x, y) # vs))(x := None)"
proof
  fix z
  have "x \<notin> fst ` set us" "x \<notin> fst ` set vs" using assms by auto
  then have "map_of us x = None" "map_of vs x = None" by (simp_all add: map_of_eq_None_iff)
  then show "map_of (us @ vs) z = ((map_of (us @ (x, y) # vs))(x := None)) z" by (auto simp: map_add_def split: option.splits)
qed

lemma free_file_ok:
  assumes ok: "dir_ok s" and fo: "file_ok s n"
    and own: "set (i_blocks (inode_at (fs_disk s) n)) \<inter> set (i_blocks (inode_at (fs_disk s) 0)) \<subseteq> {0}"
  obtains s1 t where "free_blocks_loop (i_blocks (inode_at (fs_disk s) n)) s = Some s1" and "free_inode n s1 = Some t"
    and "dir_ok t" and "root_list t = root_list s" and "fs_heap t = fs_heap s" and "fs_initialized t = fs_initialized s"
    and "bits (inode_bitmap t) = bits (inode_bitmap s) - {unat n}"
    and "bits (data_bitmap t) = bits (data_bitmap s) - unat ` set (takeWhile (\<lambda>b. b \<noteq> 0) (i_blocks (inode_at (fs_disk s) n)))"
    and "\<And>m. m < 384 \<Longrightarrow> inode_at (fs_disk t) m = inode_at (fs_disk s) m"
    and "\<And>b. unat b < 1981 \<Longrightarrow> blk (fs_disk t) (FS_DATA_BLOCKS_START + b) = blk (fs_disk s) (FS_DATA_BLOCKS_START + b)"
proof -
  note fd = file_okD [OF fo]
  let ?i = "inode_at (fs_disk s) n" and ?root = "inode_at (fs_disk s) 0"
  let ?gone = "set (takeWhile (\<lambda>b. b \<noteq> 0) (i_blocks ?i))"
  have gone: "unat b < 1981 \<and> b \<noteq> 0" if "b \<in> ?gone" for b
  proof -
    have b: "b \<in> set (i_blocks ?i)" "b \<noteq> 0" using set_takeWhileD [OF that] by auto
    then obtain k where "k < 10" "b = i_blocks ?i ! k" using fd(4) by (auto simp: good_def wf_inode_def in_set_conv_nth)
    then show ?thesis using goodD(1) [OF fd(4)] b(2) by auto
  qed
  from free_blocks_loop_ok [OF fd(1)] gone obtain d sb m where
    fb: "free_blocks_loop (i_blocks ?i) s = Some (s\<lparr>fs_disk := d, superblock := sb, data_bitmap := m\<rparr>)"
      "maps_ok (s\<lparr>fs_disk := d, superblock := sb, data_bitmap := m\<rparr>)"
      "bits m = bits (data_bitmap s) - unat ` ?gone" "\<forall>c. c \<noteq> 2 \<longrightarrow> blk d c = blk (fs_disk s) c" by blast
  let ?s1 = "s\<lparr>fs_disk := d, superblock := sb, data_bitmap := m\<rparr>"
  have n4: "unat n < 4096" using fo by (simp add: file_ok_def word_less_nat_alt)
  obtain d' bm where fi: "free_inode n ?s1 = Some (?s1\<lparr>fs_disk := d',
      superblock := (superblock ?s1)\<lparr>sb_free_inodes := sb_free_inodes (superblock ?s1) + 1\<rparr>, inode_bitmap := bm\<rparr>)"
    "bits bm = bits (inode_bitmap ?s1) - {unat n}" "length bm = 512" "rd_ok d'" "blk d' 1 = bm"
    "\<forall>c. c \<noteq> 1 \<longrightarrow> blk d' c = blk (fs_disk ?s1) c"
    by (rule free_inode_ok [OF fb(2) n4])
  let ?t = "?s1\<lparr>fs_disk := d', superblock := (superblock ?s1)\<lparr>sb_free_inodes := sb_free_inodes (superblock ?s1) + 1\<rparr>, inode_bitmap := bm\<rparr>"
  have mt: "maps_ok ?t" by (rule maps_ok_update(2)) (use fi fb(2) in auto)
  have "good s ?root" using ok by (simp add: dir_ok_def file_ok_def)
  moreover have "unat (i_blocks ?root ! k) \<notin> unat ` ?gone" if "k < 10" for k
  proof
    assume "unat (i_blocks ?root ! k) \<in> unat ` ?gone"
    then have g: "i_blocks ?root ! k \<in> ?gone" by (metis imageE unsigned_word_eqI)
    have "i_blocks ?root ! k \<in> set (i_blocks ?root)" using wf_inode_at [of "fs_disk s" 0] that by (simp add: wf_inode_def)
    then show False using own gone [OF g] set_takeWhileD [OF g] by blast
  qed
  moreover have "0 \<notin> unat ` ?gone" using gone by (auto simp: unat_eq_0)
  ultimately have good: "good ?t ?root" using fb(3) by (simp add: good_def)
  have "blk (fs_disk ?t) c = blk (fs_disk s) c" if "2 < c" for c
  proof -
    have "c \<noteq> 1" "c \<noteq> 2" using that by auto
    then show ?thesis using fi(6) fb(4) by simp
  qed
  note dt = dir_ok_freed [OF ok mt good this]
  show ?thesis by (rule that [OF fb(1) fi(1) dt(1,2)]) (use fi(2) fb(3) dt(3,4) in simp_all)
qed

lemma unlink_ok:
  assumes ok: "fs_ok s bs" and p: "good_path p" and n: "map_of (root_list s) (path_name p) = Some n" "n \<noteq> 0"
    and fo: "file_ok s n" and own: "set (i_blocks (inode_at (fs_disk s) n)) \<inter> set (i_blocks (inode_at (fs_disk s) 0)) \<subseteq> {0}"
    and dist: "distinct (map fst (root_list s))"
  shows "\<exists>s'. fs_unlink (Some p) s = Some (0, s') \<and> fs_rmdir (Some p) s = Some (0, s') \<and> fs_ok s' bs \<and>
    map_of (root_list s') = (map_of (root_list s))(path_name p := None) \<and>
    distinct (map fst (root_list s')) \<and> bits (inode_bitmap s') = bits (inode_bitmap s) - {unat n} \<and>
    bits (data_bitmap s') = bits (data_bitmap s) - unat ` set (takeWhile (\<lambda>b. b \<noteq> 0) (i_blocks (inode_at (fs_disk s) n))) \<and>
    (\<forall>m < 384. m \<noteq> 0 \<longrightarrow> inode_at (fs_disk s') m = inode_at (fs_disk s) m) \<and>
    (\<forall>b. unat b < 1981 \<and> b \<notin> set (i_blocks (inode_at (fs_disk s) 0)) \<longrightarrow>
       blk (fs_disk s') (FS_DATA_BLOCKS_START + b) = blk (fs_disk s) (FS_DATA_BLOCKS_START + b))"
proof -
  note f = fs_okD [OF ok] and fd = file_okD [OF fo]
  let ?i = "inode_at (fs_disk s) n"
  obtain name where name: "skip_slash p = Some name" "0 \<in> set name" "cstr name = path_name p" using skip_slash_path [OF p] by auto
  obtain h where h: "path_lookup (Some p) s = Some (Some n, s\<lparr>fs_heap := h\<rparr>)" "heap_ok h bs"
    using path_lookup_map [OF ok p] n(1) by auto
  have mem0: "fs_mem 1 (s\<lparr>fs_heap := h\<rparr>) bs" and rd: "rd_ok (fs_disk (s\<lparr>fs_heap := h\<rparr>))" using f(3) h(2) fd(2) by (simp_all add: fs_mem_def)
  obtain h1 where h1: "read_inode n (s\<lparr>fs_heap := h\<rparr>) = Some (Some ?i, s\<lparr>fs_heap := h1\<rparr>)" "heap_ok h1 bs"
    using read_inode_ok [OF rd mem0 fd(3)] by auto
  let ?s0 = "s\<lparr>fs_heap := h1\<rparr>"
  have s0: "dir_ok ?s0" "file_ok ?s0 n" using f(1) fo by (simp_all add: file_ok_def maps_ok_def good_def)
  obtain s1 t where t: "free_blocks_loop (i_blocks ?i) ?s0 = Some s1" "free_inode n s1 = Some t" "dir_ok t" "root_list t = root_list s"
      "fs_heap t = h1" "fs_initialized t = fs_initialized s" "bits (inode_bitmap t) = bits (inode_bitmap s) - {unat n}"
      "bits (data_bitmap t) = bits (data_bitmap s) - unat ` set (takeWhile (\<lambda>b. b \<noteq> 0) (i_blocks ?i))"
    and same: "\<And>m. m < 384 \<Longrightarrow> inode_at (fs_disk t) m = inode_at (fs_disk s) m"
      "\<And>b. unat b < 1981 \<Longrightarrow> blk (fs_disk t) (FS_DATA_BLOCKS_START + b) = blk (fs_disk s) (FS_DATA_BLOCKS_START + b)"
    by (rule free_file_ok [OF s0]) (use own in simp_all)
  have memt: "fs_mem 2 t bs" using f(2) h1(2) t(5) by (simp add: fs_mem_def)
  have "cstr name \<in> fst ` set (root_list t)" unfolding t(4) name(3) using n(1) by (metis map_of_eq_None_iff option.discI)
  then obtain s' us vs x where r: "dir_remove_entry 0 name t = Some (0, s')" "heap_ok (fs_heap s') bs" "dir_ok s'" "only_root t s'"
    "root_list t = us @ (cstr name, x) # vs" "root_list s' = us @ vs"
    by (rule dir_remove_entry_ok [OF t(3) memt name(2)])
  have run: "fs_unlink (Some p) s = Some (0, s')" "fs_rmdir (Some p) s = Some (0, s')"
    using f(5) h(1) h1(1) t(1,2) name(1) r(1) by (simp_all add: fs_unlink_def fs_rmdir_def)
  have kept: "bits (inode_bitmap s') = bits (inode_bitmap s) - {unat n}"
    "bits (data_bitmap s') = bits (data_bitmap s) - unat ` set (takeWhile (\<lambda>b. b \<noteq> 0) (i_blocks ?i))"
    "\<forall>m < 384. m \<noteq> 0 \<longrightarrow> inode_at (fs_disk s') m = inode_at (fs_disk s) m"
    "\<forall>b. unat b < 1981 \<and> b \<notin> set (i_blocks (inode_at (fs_disk s) 0)) \<longrightarrow>
       blk (fs_disk s') (FS_DATA_BLOCKS_START + b) = blk (fs_disk s) (FS_DATA_BLOCKS_START + b)"
    using r(4) t(7,8) same same(1) [of 0] unfolding only_root_def by auto
  have ok': "fs_ok s' bs"
    using ok r(2-4) kept(1) n(2) t(6) by (auto simp: fs_ok_def fs_mem_def only_root_def unat_eq_0)
  have m': "map_of (root_list s') = (map_of (root_list s))(path_name p := None)"
    using map_of_remove_distinct [of us "cstr name" x vs] dist r(5,6) t(4) name(3) by metis
  have d2: "distinct (map fst (root_list s'))" using dist r(5,6) t(4) by auto
  show ?thesis by (intro exI [of _ s'] conjI) (fact run ok' m' d2 kept)+
qed

text \<open>
  C16: Deleting an existing file succeeds: afterwards its name is not found and every other path is looked up as before; its
  inode and its data blocks, up to the first unused block number, are free again and no others; all other files keep their inodes and their
  blocks. \<open>fs_rmdir\<close> does the same, whatever a directory contains.
\<close>

theorem unlink_removes:
  assumes ok: "fs_ok s bs" and p: "good_path p" and n: "map_of (root_list s) (path_name p) = Some n" "n \<noteq> 0"
    and fo: "file_ok s n" and own: "set (i_blocks (inode_at (fs_disk s) n)) \<inter> set (i_blocks (inode_at (fs_disk s) 0)) \<subseteq> {0}"
    and dist: "distinct (map fst (root_list s))"
  shows "\<exists>s'. fs_unlink (Some p) s = Some (0, s') \<and> fs_rmdir (Some p) s = Some (0, s') \<and> fs_ok s' bs \<and>
    (\<forall>q. good_path q \<longrightarrow> (\<exists>h. path_lookup (Some q) s' =
       Some (((map_of (root_list s))(path_name p := None)) (path_name q), s'\<lparr>fs_heap := h\<rparr>))) \<and>
    distinct (map fst (root_list s')) \<and> bits (inode_bitmap s') = bits (inode_bitmap s) - {unat n} \<and>
    bits (data_bitmap s') = bits (data_bitmap s) - unat ` set (takeWhile (\<lambda>b. b \<noteq> 0) (i_blocks (inode_at (fs_disk s) n))) \<and>
    (\<forall>m < 384. m \<noteq> 0 \<longrightarrow> inode_at (fs_disk s') m = inode_at (fs_disk s) m) \<and>
    (\<forall>b. unat b < 1981 \<and> b \<notin> set (i_blocks (inode_at (fs_disk s) 0)) \<longrightarrow>
       blk (fs_disk s') (FS_DATA_BLOCKS_START + b) = blk (fs_disk s) (FS_DATA_BLOCKS_START + b))"
  using unlink_ok [OF assms] path_lookup_map by metis

lemma unlink_removes_witness:
  "\<exists>s s' n h. map_of (root_list s) [97] = Some n \<and> fs_unlink (Some [47, 97, 0]) s = Some (0, s') \<and>
     path_lookup (Some [47, 97, 0]) s' = Some (None, s'\<lparr>fs_heap := h\<rparr>) \<and> unat n \<in> bits (inode_bitmap s) \<and> unat n \<notin> bits (inode_bitmap s')"
proof -
  obtain s bs where s: "fs_ok s bs" "root_list s = []" "bits (inode_bitmap s) = {0}" "bits (data_bitmap s) = {0}"
    by (rule empty_fs_exists)
  have p: "good_path [47, 97, 0]" "path_name [47, 97, 0] = [97]" by (simp_all add: good_path_def path_name_def)
  have free: "map_of (root_list s) (path_name [47, 97, 0]) = None" "FS_TYPE_FILE \<noteq> FS_TYPE_DIR" "1 < (384 :: nat)" "1 \<notin> bits (inode_bitmap s)"
    using s(2,3) by simp_all
  from s(1) p(1) free show ?thesis
  proof (cases rule: fs_create_file_ok)
    case (full s')
    then show ?thesis using s(2,4) not_full_singleton by simp
  next
    case (created n s' us vs)
    have r: "root_list s' = [([97], n)]" using created(6,7) s(2) p(2) by simp
    have "good s' (inode_at (fs_disk s') 0)" using fs_okD(1) [OF created(5)] by (simp add: dir_ok_def file_ok_def)
    then have fo: "file_ok s' n" using created(3,8) fs_okD(4) [OF created(5)] by (simp add: file_ok_def good_def)
    have own: "set (i_blocks (inode_at (fs_disk s') n)) \<inter> set (i_blocks (inode_at (fs_disk s') 0)) \<subseteq> {0}" using created(8) by auto
    have "map_of (root_list s') (path_name [47, 97, 0]) = Some n" using r p(2) by simp
    from unlink_removes [OF created(5) p(1) this created(2) fo own] r obtain t where
      "fs_unlink (Some [47, 97, 0]) s' = Some (0, t)" "unat n \<notin> bits (inode_bitmap t)"
      "\<exists>h. path_lookup (Some [47, 97, 0]) t = Some (None, t\<lparr>fs_heap := h\<rparr>)" using p by auto
    then show ?thesis using r created(9) by (intro exI [of _ s'] exI [of _ t] exI [of _ n]) simp
  qed
qed

end
