(* ===== verification/Paging.thy ===== *)
theory Paging
  imports Pmm
begin

text \<open>
  Virtual memory, \<open>kernel/paging.c\<close>, over the physical page allocator. Page directories and page tables
  are 4096-byte frames of 1024 words; all of them are page aligned (the static ones by attribute, the
  others because \<open>pmm_alloc_page\<close> returns multiples of 4096 and entries are masked), so memory is
  modelled by frame address and word index: \<open>frames s a i\<close> is \<open>((page_table_t *)a)->entries[i]\<close>. The
  addresses of the two static objects are fields of the state. The registers CR0 and CR3 are words;
  the translation cache is not modelled, so an \<open>invlpg\<close> has no effect here. \<open>None\<close> is inherited from the
  page allocator (an access outside its bitmap).
\<close>

section \<open>Flags and state (paging.h)\<close>

abbreviation PAGE_PRESENT :: u32 where "PAGE_PRESENT \<equiv> 1"
abbreviation PAGE_WRITE :: u32 where "PAGE_WRITE \<equiv> 2"
abbreviation PAGE_USER :: u32 where "PAGE_USER \<equiv> 4"
abbreviation PAGE_KERNEL :: u32 where "PAGE_KERNEL \<equiv> 3"
abbreviation PAGE_USER_MODE :: u32 where "PAGE_USER_MODE \<equiv> 7"
abbreviation ENTRIES :: nat where "ENTRIES \<equiv> 1024"
abbreviation USER_CODE_BASE :: u32 where "USER_CODE_BASE \<equiv> 0x40000000"
abbreviation USER_STACK_BASE :: u32 where "USER_STACK_BASE \<equiv> 0x80000000"
abbreviation FRAME_MASK :: u32 where "FRAME_MASK \<equiv> 0xFFFFF000"

record paging_state =
  frames :: "u32 \<Rightarrow> nat \<Rightarrow> u32"
  kernel_directory :: u32
  early_page_tables :: u32
  current_directory :: u32
  cr0 :: u32
  cr3 :: u32
  pg_pmm :: pmm_state

section \<open>Operations (paging.c)\<close>

definition get_page_dir_index :: "u32 \<Rightarrow> u32" where
  "get_page_dir_index v = drop_bit 22 v"

definition get_page_table_index :: "u32 \<Rightarrow> u32" where
  "get_page_table_index v = drop_bit 12 v AND 0x3FF"

definition get_page_offset :: "u32 \<Rightarrow> u32" where
  "get_page_offset v = v AND 0xFFF"

definition make_pde :: "u32 \<Rightarrow> u32 \<Rightarrow> u32" where
  "make_pde page_table_addr flags = (page_table_addr AND FRAME_MASK) OR (flags AND 0xFFF)"

definition make_pte :: "u32 \<Rightarrow> u32 \<Rightarrow> u32" where
  "make_pte physical_addr flags = (physical_addr AND FRAME_MASK) OR (flags AND 0xFFF)"

definition load_page_directory :: "u32 \<Rightarrow> paging_state \<Rightarrow> paging_state" where
  "load_page_directory dir s = s\<lparr>cr3 := dir\<rparr>"

definition paging_enable :: "paging_state \<Rightarrow> paging_state" where
  "paging_enable s = s\<lparr>cr0 := cr0 s OR 0x80000000\<rparr>"

definition paging_disable :: "paging_state \<Rightarrow> paging_state" where
  "paging_disable s = s\<lparr>cr0 := cr0 s AND NOT 0x80000000\<rparr>"

definition paging_flush_tlb :: "paging_state \<Rightarrow> paging_state" where
  "paging_flush_tlb s = s\<lparr>cr3 := cr3 s\<rparr>"

definition set_entry :: "u32 \<Rightarrow> nat \<Rightarrow> u32 \<Rightarrow> paging_state \<Rightarrow> paging_state" where
  "set_entry a i v s = s\<lparr>frames := (frames s)(a := (frames s a)(i := v))\<rparr>"

definition zero_frame :: "u32 \<Rightarrow> paging_state \<Rightarrow> paging_state" where
  "zero_frame a s = s\<lparr>frames := (frames s)(a := (\<lambda>i. 0))\<rparr>"

definition paging_map_page :: "u32 \<Rightarrow> u32 \<Rightarrow> u32 \<Rightarrow> paging_state \<Rightarrow> paging_state option" where
  "paging_map_page virtual_addr physical_addr flags s =
     (let pd_index = unat (get_page_dir_index virtual_addr);
          pt_index = unat (get_page_table_index virtual_addr);
          dir = current_directory s;
          pde = frames s dir pd_index in
      if pde AND PAGE_PRESENT = 0 then
        do { (pt_physical, q) \<leftarrow> pmm_alloc_page (pg_pmm s);
             let s = s\<lparr>pg_pmm := q\<rparr>;
             if pt_physical = 0 then Some s
             else Some (set_entry pt_physical pt_index (make_pte physical_addr flags)
                    (set_entry dir pd_index (make_pde pt_physical (PAGE_PRESENT OR PAGE_WRITE))
                      (zero_frame pt_physical s))) }
      else Some (set_entry (pde AND FRAME_MASK) pt_index (make_pte physical_addr flags) s))"

definition paging_unmap_page :: "u32 \<Rightarrow> paging_state \<Rightarrow> paging_state" where
  "paging_unmap_page virtual_addr s =
     (let pd_index = unat (get_page_dir_index virtual_addr);
          pt_index = unat (get_page_table_index virtual_addr);
          pde = frames s (current_directory s) pd_index in
      if pde AND PAGE_PRESENT = 0 then s else set_entry (pde AND FRAME_MASK) pt_index 0 s)"

definition paging_get_physical_address :: "u32 \<Rightarrow> paging_state \<Rightarrow> u32" where
  "paging_get_physical_address virtual_addr s =
     (let pd_index = unat (get_page_dir_index virtual_addr);
          pt_index = unat (get_page_table_index virtual_addr);
          offset = get_page_offset virtual_addr;
          pde = frames s (current_directory s) pd_index in
      if pde AND PAGE_PRESENT = 0 then 0
      else let pte = frames s (pde AND FRAME_MASK) pt_index in
        if pte AND PAGE_PRESENT = 0 then 0 else (pte AND FRAME_MASK) OR offset)"

definition paging_get_directory :: "paging_state \<Rightarrow> u32" where
  "paging_get_directory s = current_directory s"

definition paging_switch_directory :: "u32 \<Rightarrow> paging_state \<Rightarrow> paging_state" where
  "paging_switch_directory dir s = paging_flush_tlb (load_page_directory dir (s\<lparr>current_directory := dir\<rparr>))"

text \<open>One pass of the identity-mapping loop, with the counter of early tables, and the loop.\<close>

definition init_step :: "u32 \<Rightarrow> nat \<times> paging_state \<Rightarrow> nat \<times> paging_state" where
  "init_step i = (\<lambda>(pt_count, s).
     let pd_index = unat (get_page_dir_index i);
         pt_index = unat (get_page_table_index i);
         dir = kernel_directory s;
         (pt_count, s) =
           (if frames s dir pd_index AND PAGE_PRESENT = 0
            then (pt_count + 1, set_entry dir pd_index
                   (make_pde (early_page_tables s + of_nat (4096 * pt_count)) PAGE_KERNEL) s)
            else (pt_count, s))
     in (pt_count, set_entry (frames s dir pd_index AND FRAME_MASK) pt_index (make_pte i PAGE_KERNEL) s))"

fun init_loop :: "nat \<Rightarrow> nat \<Rightarrow> nat \<times> paging_state \<Rightarrow> nat \<times> paging_state" where
  "init_loop k 0 st = st"
| "init_loop k (Suc n) st = init_loop (Suc k) n (init_step (of_nat (4096 * k)) st)"

fun zero_frames :: "u32 \<Rightarrow> nat \<Rightarrow> paging_state \<Rightarrow> paging_state" where
  "zero_frames a 0 s = s"
| "zero_frames a (Suc n) s = zero_frames (a + 4096) n (zero_frame a s)"

definition paging_init :: "paging_state \<Rightarrow> paging_state" where
  "paging_init s =
     (let s = zero_frame (kernel_directory s) s;
          s = zero_frames (early_page_tables s) 16 s;
          (pt_count, s) = init_loop 0 4096 (0, s);
          s = s\<lparr>current_directory := kernel_directory s\<rparr>
      in paging_enable (load_page_directory (kernel_directory s) s))"

fun copy_kernel_entries :: "u32 \<Rightarrow> nat \<Rightarrow> nat \<Rightarrow> paging_state \<Rightarrow> paging_state" where
  "copy_kernel_entries dir i 0 s = s"
| "copy_kernel_entries dir i (Suc n) s =
     copy_kernel_entries dir (Suc i) n (set_entry dir i (frames s (kernel_directory s) i) s)"

definition paging_create_user_directory :: "paging_state \<Rightarrow> (u32 \<times> paging_state) option" where
  "paging_create_user_directory s =
     do { (dir, q) \<leftarrow> pmm_alloc_page (pg_pmm s);
          let s = s\<lparr>pg_pmm := q\<rparr>;
          if dir = 0 then Some (0, s) else Some (dir, copy_kernel_entries dir 0 4 (zero_frame dir s)) }"

definition paging_clone_directory :: "u32 \<Rightarrow> paging_state \<Rightarrow> (u32 \<times> paging_state) option" where
  "paging_clone_directory src s = paging_create_user_directory s"

definition pg_free_page :: "u32 \<Rightarrow> paging_state \<Rightarrow> paging_state option" where
  "pg_free_page a s = do { q \<leftarrow> pmm_free_page a (pg_pmm s); Some (s\<lparr>pg_pmm := q\<rparr>) }"

fun free_table_loop :: "u32 \<Rightarrow> nat \<Rightarrow> nat \<Rightarrow> paging_state \<Rightarrow> paging_state option" where
  "free_table_loop pt j 0 s = Some s"
| "free_table_loop pt j (Suc n) s =
     do { s \<leftarrow> (if frames s pt j AND PAGE_PRESENT \<noteq> 0 then pg_free_page (frames s pt j AND FRAME_MASK) s else Some s);
          free_table_loop pt (Suc j) n s }"

fun free_directory_loop :: "u32 \<Rightarrow> nat \<Rightarrow> nat \<Rightarrow> paging_state \<Rightarrow> paging_state option" where
  "free_directory_loop dir i 0 s = Some s"
| "free_directory_loop dir i (Suc n) s =
     do { s \<leftarrow> (if frames s dir i AND PAGE_PRESENT \<noteq> 0
                 then do { let pt = frames s dir i AND FRAME_MASK;
                           s \<leftarrow> free_table_loop pt 0 ENTRIES s;
                           pg_free_page pt s }
                 else Some s);
          free_directory_loop dir (Suc i) n s }"

definition paging_free_directory :: "u32 \<Rightarrow> paging_state \<Rightarrow> paging_state option" where
  "paging_free_directory dir s =
     (if dir = 0 then Some s
      else do { s \<leftarrow> free_directory_loop dir 4 (ENTRIES - 4) s; pg_free_page dir s })"

fun map_user_loop :: "u32 \<Rightarrow> u32 \<Rightarrow> nat \<Rightarrow> nat \<Rightarrow> paging_state \<Rightarrow> paging_state option" where
  "map_user_loop virtual_addr physical_addr i 0 s = Some s"
| "map_user_loop virtual_addr physical_addr i (Suc n) s =
     do { s \<leftarrow> paging_map_page (virtual_addr + of_nat i * PAGE_SIZE) (physical_addr + of_nat i * PAGE_SIZE) PAGE_USER_MODE s;
          map_user_loop virtual_addr physical_addr (Suc i) n s }"

definition paging_map_user_code :: "u32 \<Rightarrow> u32 \<Rightarrow> u32 \<Rightarrow> u32 \<Rightarrow> paging_state \<Rightarrow> paging_state option" where
  "paging_map_user_code dir virtual_addr physical_addr sz s =
     do { let old_dir = current_directory s;
          let num_pages = (sz + PAGE_SIZE - 1) div PAGE_SIZE;
          s \<leftarrow> map_user_loop virtual_addr physical_addr 0 (unat num_pages) (s\<lparr>current_directory := dir\<rparr>);
          Some (s\<lparr>current_directory := old_dir\<rparr>) }"

text \<open>
  The page fault handler. \<open>cr2\<close> is the faulting address and \<open>proc\<close> the result of \<open>process_current\<close>: NULL, or the
  process's \<open>is_user_mode\<close> and \<open>page_directory\<close>. It returns to retry the access, or reports and halts.
\<close>

datatype fault_outcome = Retry paging_state | Halt paging_state

definition demand_region :: "u32 \<Rightarrow> bool" where
  "demand_region a \<longleftrightarrow>
     (a \<ge> USER_STACK_BASE - 0x100000 \<and> a < USER_STACK_BASE) \<or>
     (a \<ge> USER_CODE_BASE + 0x40000 \<and> a < USER_STACK_BASE)"

definition page_fault_handler :: "u32 \<Rightarrow> u32 \<Rightarrow> (u32 \<times> u32) option \<Rightarrow> paging_state \<Rightarrow> fault_outcome option" where
  "page_fault_handler error_code cr2 proc s =
     (if error_code AND 1 = 0 \<and> drop_bit 3 (error_code AND 8) = 0
      then case proc of
             None \<Rightarrow> Some (Halt s)
           | Some (is_user_mode, page_directory) \<Rightarrow>
               if is_user_mode \<noteq> 0 \<and> demand_region cr2
               then do { (page_physical, q) \<leftarrow> pmm_alloc_page (pg_pmm s);
                         let s = s\<lparr>pg_pmm := q\<rparr>;
                         if page_physical \<noteq> 0
                         then do { s \<leftarrow> paging_map_user_code page_directory (cr2 AND FRAME_MASK) page_physical PAGE_SIZE s;
                                   Some (Retry s) }
                         else Some (Halt s) }
               else Some (Halt s)
      else Some (Halt s))"

section \<open>Entries and indices\<close>

lemma FRAME_MASK_eq: "FRAME_MASK = NOT (mask 12)" and OFFSET_MASK_eq: "(0xFFF :: u32) = mask 12"
  and INDEX_MASK_eq: "(0x3FF :: u32) = mask 10"
  by (simp_all add: mask_eq_exp_minus_1)

definition aligned :: "u32 \<Rightarrow> bool" where
  "aligned a \<longleftrightarrow> a AND FRAME_MASK = a"

lemma aligned_mask [simp]: "aligned (a AND FRAME_MASK)"
  by (simp add: aligned_def)

lemma make_entry_frame [simp]:
  "make_pde a f AND FRAME_MASK = a AND FRAME_MASK" "make_pte a f AND FRAME_MASK = a AND FRAME_MASK"
  unfolding make_pde_def make_pte_def FRAME_MASK_eq OFFSET_MASK_eq
  by (rule bit_word_eqI; auto simp: bit_simps)+

lemma low_bit_eq: "n < 12 \<Longrightarrow> bit (make_pde a f) n = bit f n" "n < 12 \<Longrightarrow> bit (make_pte a f) n = bit f n"
  unfolding make_pde_def make_pte_def FRAME_MASK_eq OFFSET_MASK_eq
  by (auto simp: bit_simps)

lemma and_1_bit: "(x :: u32) AND 1 = 0 \<longleftrightarrow> \<not> bit x 0" and and_4_bit: "(x :: u32) AND 4 = 0 \<longleftrightarrow> \<not> bit x 2"
  using and_pow2_iff [of 0 x] and_pow2_iff [of 2 x] by simp_all

lemma make_entry_present [simp]:
  "make_pde a f AND PAGE_PRESENT = 0 \<longleftrightarrow> f AND PAGE_PRESENT = 0"
  "make_pte a f AND PAGE_PRESENT = 0 \<longleftrightarrow> f AND PAGE_PRESENT = 0"
  by (simp_all add: and_1_bit low_bit_eq)

lemma dir_index_less [simp]: "unat (get_page_dir_index v) < 1024"
proof -
  have "unat (get_page_dir_index v) = unat v div 4194304"
    by (simp add: get_page_dir_index_def drop_bit_eq_div unat_div)
  moreover have "unat v div 4194304 < 1024"
    using unat_u32_less [of v] by (intro less_mult_imp_div_less) simp
  ultimately show ?thesis by simp
qed

text \<open>Two addresses lie in the same page when they agree above bit 12.\<close>

definition same_page :: "u32 \<Rightarrow> u32 \<Rightarrow> bool" where
  "same_page v w \<longleftrightarrow> drop_bit 12 v = drop_bit 12 w"

lemma same_page_iff:
  "same_page v w \<longleftrightarrow> get_page_dir_index v = get_page_dir_index w \<and> get_page_table_index v = get_page_table_index w"
proof
  assume "same_page v w"
  then have e: "drop_bit 12 v = drop_bit 12 w" by (simp add: same_page_def)
  then have "drop_bit 10 (drop_bit 12 v) = drop_bit 10 (drop_bit 12 w)" by (rule arg_cong)
  then have "drop_bit 22 v = drop_bit 22 w" unfolding drop_bit_drop_bit by simp
  with e show "get_page_dir_index v = get_page_dir_index w \<and> get_page_table_index v = get_page_table_index w"
    by (simp add: get_page_dir_index_def get_page_table_index_def)
next
  assume h: "get_page_dir_index v = get_page_dir_index w \<and> get_page_table_index v = get_page_table_index w"
  have "bit (drop_bit 12 v) n = bit (drop_bit 12 w) n" if "n < 20" for n
  proof (cases "n < 10")
    case True
    from h have "bit (drop_bit 12 v AND mask 10) n = bit (drop_bit 12 w AND mask 10) n"
      by (simp add: get_page_table_index_def INDEX_MASK_eq)
    then show ?thesis using True that by (simp add: bit_simps)
  next
    case False
    from h have "bit (drop_bit 22 v) (n - 10) = bit (drop_bit 22 w) (n - 10)" by (simp add: get_page_dir_index_def)
    then show ?thesis using False that by (simp add: bit_simps)
  qed
  moreover have "\<not> bit (drop_bit 12 x) n" if "20 \<le> n" for n and x :: u32
    using that by (auto simp: bit_simps dest: bit_imp_le_length)
  ultimately show "same_page v w"
    unfolding same_page_def by (metis bit_word_eqI not_le)
qed

lemma same_page_unat:
  "same_page v w \<longleftrightarrow> unat (get_page_dir_index v) = unat (get_page_dir_index w) \<and>
     unat (get_page_table_index v) = unat (get_page_table_index w)"
  by (simp add: same_page_iff word_unat_eq_iff)

section \<open>Well-formed page tables\<close>

abbreviation present :: "u32 \<Rightarrow> bool" where "present e \<equiv> e AND PAGE_PRESENT \<noteq> 0"
abbreviation frame_of :: "u32 \<Rightarrow> u32" where "frame_of e \<equiv> e AND FRAME_MASK"
abbreviation page_no :: "u32 \<Rightarrow> nat" where "page_no a \<equiv> unat a div 4096"

text \<open>The directory and its tables are distinct frames, all marked used by the page allocator.\<close>

definition pg_wf :: "paging_state \<Rightarrow> bool" where
  "pg_wf s \<longleftrightarrow> (let dir = current_directory s in
     pmm_inv (pg_pmm s) \<and> page_no dir \<in> used_set (pg_pmm s) \<and> aligned dir \<and>
     (\<forall>i < ENTRIES. present (frames s dir i) \<longrightarrow>
        frame_of (frames s dir i) \<noteq> dir \<and> page_no (frame_of (frames s dir i)) \<in> used_set (pg_pmm s) \<and>
        (\<forall>j < ENTRIES. present (frames s dir j) \<and> j \<noteq> i \<longrightarrow> frame_of (frames s dir j) \<noteq> frame_of (frames s dir i))))"

lemma set_entry_simps [simp]:
  "frames (set_entry a i v s) b j = (if b = a \<and> j = i then v else frames s b j)"
  "current_directory (set_entry a i v s) = current_directory s" "pg_pmm (set_entry a i v s) = pg_pmm s"
  "kernel_directory (set_entry a i v s) = kernel_directory s" "early_page_tables (set_entry a i v s) = early_page_tables s"
  by (auto simp: set_entry_def)

lemma zero_frame_simps [simp]:
  "frames (zero_frame a s) b j = (if b = a then 0 else frames s b j)"
  "current_directory (zero_frame a s) = current_directory s" "pg_pmm (zero_frame a s) = pg_pmm s"
  "kernel_directory (zero_frame a s) = kernel_directory s" "early_page_tables (zero_frame a s) = early_page_tables s"
  by (auto simp: zero_frame_def)

lemma pool_frame:
  assumes "p \<in> {512..<4096}"
  shows "aligned (of_nat p * 4096)" and "page_no (of_nat p * 4096) = p" and "(of_nat p * 4096 :: u32) \<noteq> 0"
proof -
  have u: "unat (of_nat p * 4096 :: u32) = p * 4096" using assms by (simp add: unat_mult_u32)
  then show "page_no (of_nat p * 4096) = p" by simp
  show "(of_nat p * 4096 :: u32) \<noteq> 0" using u assms by (metis mult_eq_0_iff unat_0 zero_neq_numeral atLeastLessThan_iff le_zero_eq)
  have "(of_nat p * 4096 :: u32) = push_bit 12 (of_nat p)" by (simp add: push_bit_eq_mult)
  then show "aligned (of_nat p * 4096)"
    unfolding aligned_def FRAME_MASK_eq by (auto intro: bit_word_eqI simp: bit_simps)
qed

section \<open>Mapping and unmapping\<close>

text \<open>The effect of storing one entry of a table of the current directory on all translations.\<close>

lemma get_physical_set_entry:
  assumes "pg_wf s" and "present (frames s (current_directory s) (unat (get_page_dir_index v)))"
  defines "t \<equiv> frame_of (frames s (current_directory s) (unat (get_page_dir_index v)))"
  shows "paging_get_physical_address w (set_entry t (unat (get_page_table_index v)) e s) =
    (if same_page w v then if present e then frame_of e OR get_page_offset w else 0
     else paging_get_physical_address w s)"
    and "pg_wf (set_entry t (unat (get_page_table_index v)) e s)"
proof -
  let ?dir = "current_directory s"
  have td: "t \<noteq> ?dir" using assms(1,2) by (auto simp: pg_wf_def Let_def t_def)
  then show "pg_wf (set_entry t (unat (get_page_table_index v)) e s)"
    using assms(1) by (simp add: pg_wf_def Let_def)
  have other: "frame_of (frames s ?dir (unat (get_page_dir_index w))) \<noteq> t"
    if "present (frames s ?dir (unat (get_page_dir_index w)))" "unat (get_page_dir_index w) \<noteq> unat (get_page_dir_index v)"
    using assms(1,2) that unfolding pg_wf_def Let_def t_def by (metis dir_index_less)
  show "paging_get_physical_address w (set_entry t (unat (get_page_table_index v)) e s) =
    (if same_page w v then if present e then frame_of e OR get_page_offset w else 0
     else paging_get_physical_address w s)"
  proof (cases "unat (get_page_dir_index w) = unat (get_page_dir_index v)")
    case True
    then show ?thesis
      using assms(2) td by (simp add: paging_get_physical_address_def Let_def same_page_unat t_def)
  next
    case False
    then show ?thesis
      using td other by (auto simp: paging_get_physical_address_def Let_def same_page_unat)
  qed
qed

text \<open>Giving the current directory a fresh, empty table changes no translation.\<close>

lemma new_table:
  assumes wf: "pg_wf s" and absent: "\<not> present (frames s (current_directory s) i)" and i: "i < ENTRIES"
    and q: "pmm_inv q" "used_set q = insert p (used_set (pg_pmm s))" and p: "p \<in> {512..<4096}" "p \<notin> used_set (pg_pmm s)"
  defines "s' \<equiv> set_entry (current_directory s) i (make_pde (of_nat p * 4096) 3) (zero_frame (of_nat p * 4096) (s\<lparr>pg_pmm := q\<rparr>))"
  shows "pg_wf s'" and "paging_get_physical_address w s' = paging_get_physical_address w s"
    and "frames s' (current_directory s) i = make_pde (of_nat p * 4096) 3"
    and "frame_of (frames s' (current_directory s) i) = of_nat p * 4096" and "present (frames s' (current_directory s) i)"
proof -
  let ?dir = "current_directory s" and ?t = "of_nat p * 4096 :: u32"
  note f = pool_frame [OF p(1)]
  have td: "?t \<noteq> ?dir" using wf p(2) f(2) by (auto simp: pg_wf_def Let_def)
  have tt: "frame_of (frames s ?dir j) \<noteq> ?t" if "present (frames s ?dir j)" "j < ENTRIES" for j
    using wf p(2) f(2) that by (auto simp: pg_wf_def Let_def)
  show fr: "frames s' ?dir i = make_pde ?t 3" by (simp add: s'_def)
  show ft: "frame_of (frames s' ?dir i) = ?t" unfolding fr using f(1) by (simp add: aligned_def)
  show pr: "present (frames s' ?dir i)" unfolding fr by simp
  have cd: "current_directory s' = ?dir" "pg_pmm s' = q" by (simp_all add: s'_def)
  have keep: "frames s' ?dir j = frames s ?dir j" if "j \<noteq> i" for j using that td by (simp add: s'_def)
  show "pg_wf s'"
    unfolding pg_wf_def Let_def cd
  proof (intro conjI allI impI)
    show "pmm_inv q" by (rule q(1))
    show "page_no ?dir \<in> used_set q" "aligned ?dir" using wf q(2) by (auto simp: pg_wf_def Let_def)
    fix j assume j: "j < ENTRIES" "present (frames s' ?dir j)"
    show "frame_of (frames s' ?dir j) \<noteq> ?dir" "page_no (frame_of (frames s' ?dir j)) \<in> used_set q"
      using j ft td f(2) keep [of j] wf q(2) by (cases "j = i"; auto simp: pg_wf_def Let_def)+
    fix k assume k: "k < ENTRIES" "present (frames s' ?dir k) \<and> k \<noteq> j"
    show "frame_of (frames s' ?dir k) \<noteq> frame_of (frames s' ?dir j)"
      using j k ft keep [of j] keep [of k] tt [of j] tt [of k] wf
      by (cases "j = i"; cases "k = i") (auto simp: pg_wf_def Let_def)
  qed
  show "paging_get_physical_address w s' = paging_get_physical_address w s"
  proof (cases "unat (get_page_dir_index w) = i")
    case True
    have "frames s' ?t k = 0" for k using td by (simp add: s'_def)
    then show ?thesis using True absent cd ft pr by (simp add: paging_get_physical_address_def Let_def)
  next
    case False
    have "frames s' a k = frames s a k" if "a \<noteq> ?t" "a \<noteq> ?dir" for a k using that by (simp add: s'_def)
    moreover have "frames s' ?dir k = frames s ?dir k" if "k \<noteq> i" for k using keep that by simp
    ultimately show ?thesis
      using False cd tt [of "unat (get_page_dir_index w)"] wf
      by (auto simp: paging_get_physical_address_def Let_def pg_wf_def)
  qed
qed

lemma paging_map_page_ok:
  assumes wf: "pg_wf s"
  shows "\<exists>s'. paging_map_page v a f s = Some s' \<and> pg_wf s' \<and>
    ((\<not> present (frames s (current_directory s) (unat (get_page_dir_index v))) \<and> {512..<4096} \<subseteq> used_set (pg_pmm s) \<and> s' = s) \<or>
     (\<forall>w. paging_get_physical_address w s' =
       (if same_page w v then if present f then frame_of a OR get_page_offset w else 0
        else paging_get_physical_address w s)))"
proof (cases "present (frames s (current_directory s) (unat (get_page_dir_index v)))")
  case True
  note e = get_physical_set_entry [OF wf True, where e = "make_pte a f"]
  have "paging_map_page v a f s = Some (set_entry (frame_of (frames s (current_directory s) (unat (get_page_dir_index v))))
      (unat (get_page_table_index v)) (make_pte a f) s)"
    using True by (simp add: paging_map_page_def Let_def)
  then show ?thesis using e by simp
next
  case False
  have inv: "pmm_inv (pg_pmm s)" using wf by (simp add: pg_wf_def Let_def)
  obtain t q where tq: "pmm_alloc_page (pg_pmm s) = Some (t, q)" using pages.alloc_total [OF inv] by blast
  from inv tq show ?thesis
  proof (cases rule: pages.alloc_cases)
    case 1
    then have "paging_map_page v a f s = Some s" using False tq by (simp add: paging_map_page_def Let_def)
    then show ?thesis using False 1 wf by auto
  next
    case (2 p)
    let ?i = "unat (get_page_dir_index v)" and ?dir = "current_directory s"
    let ?s = "set_entry ?dir ?i (make_pde (of_nat p * 4096) 3) (zero_frame (of_nat p * 4096) (s\<lparr>pg_pmm := q\<rparr>))"
    note n = new_table [OF wf False dir_index_less 2(6,5,3,4)]
    have cd: "current_directory ?s = ?dir" by simp
    have t: "t = frame_of (frames ?s (current_directory ?s) ?i)" using n(4) 2(1) unfolding cd by simp
    have pr: "present (frames ?s (current_directory ?s) ?i)" using n(5) unfolding cd .
    have "paging_map_page v a f s = Some (set_entry t (unat (get_page_table_index v)) (make_pte a f) ?s)"
      using False tq 2(1,2) by (simp add: paging_map_page_def Let_def)
    then show ?thesis
      using get_physical_set_entry [OF n(1) pr, where e = "make_pte a f"] n(2) unfolding t by simp
  qed
qed

section \<open>The identity map\<close>

lemma aligned_iff: "aligned a \<longleftrightarrow> unat a mod 4096 = 0"
proof -
  have "aligned a \<longleftrightarrow> take_bit 12 a = 0"
    unfolding aligned_def FRAME_MASK_eq by (auto simp: bit_eq_iff bit_simps)
  also have "\<dots> \<longleftrightarrow> unat (take_bit 12 a) = 0" by (simp only: unat_eq_zero)
  also have "unat (take_bit 12 a) = unat a mod 4096"
    by (simp only: unsigned_take_bit_eq) (simp add: take_bit_eq_mod)
  finally show ?thesis .
qed

definition early :: "u32 \<Rightarrow> nat \<Rightarrow> u32" where
  "early E i = E + of_nat (4096 * i)"

text \<open>Where the linker puts the two static objects: page aligned, apart, without wrap-around.\<close>

definition statics_ok :: "u32 \<Rightarrow> u32 \<Rightarrow> bool" where
  "statics_ok D E \<longleftrightarrow> aligned D \<and> aligned E \<and> unat E + 65536 \<le> 4294967296 \<and>
     (unat D + 4096 \<le> unat E \<or> unat E + 65536 \<le> unat D)"

lemma early_simps:
  assumes "statics_ok D E" and "i < 16"
  shows "unat (early E i) = unat E + 4096 * i" and "aligned (early E i)" and "early E i \<noteq> D"
    and "j < 16 \<Longrightarrow> early E j = early E i \<longleftrightarrow> j = i"
proof -
  have u: "unat (early E j) = unat E + 4096 * j" if "j < 16" for j
  proof -
    have "unat (of_nat (4096 * j) :: u32) = 4096 * j" using that by (intro unat_of_nat_u32) simp
    then show ?thesis unfolding early_def using assms(1) that by (subst unat_add_u32) (simp_all add: statics_ok_def)
  qed
  show un: "unat (early E i) = unat E + 4096 * i" by (rule u [OF assms(2)])
  have "(unat E + 4096 * i) mod 4096 = unat E mod 4096" by simp
  then show "aligned (early E i)" using assms(1) un by (simp add: aligned_iff statics_ok_def)
  show "early E i \<noteq> D" using un assms by (auto simp: statics_ok_def)
  show "early E j = early E i \<longleftrightarrow> j = i" if "j < 16" using u [OF that] un by (metis add_left_cancel mult_cancel1 zero_neq_numeral)
qed

lemma zero_frames_simps [simp]:
  "kernel_directory (zero_frames a n s) = kernel_directory s" "early_page_tables (zero_frames a n s) = early_page_tables s"
  "pg_pmm (zero_frames a n s) = pg_pmm s" "frames s b j = 0 \<Longrightarrow> frames (zero_frames a n s) b j = 0"
  by (induction a n s rule: zero_frames.induct) auto

lemma zero_frames_early: "i < n \<Longrightarrow> frames (zero_frames E n s) (early E i) j = 0"
proof (induction E n s arbitrary: i rule: zero_frames.induct)
  case (2 a n s)
  show ?case
  proof (cases i)
    case 0
    then show ?thesis by (simp add: early_def)
  next
    case (Suc k)
    have "early a i = early (a + 4096) k" by (simp add: early_def Suc algebra_simps)
    then show ?thesis using 2 Suc by simp
  qed
qed simp

lemma page_indices:
  assumes "k < 4096"
  shows "unat (get_page_dir_index (of_nat (4096 * k))) = k div 1024"
    and "unat (get_page_table_index (of_nat (4096 * k))) = k mod 1024"
proof -
  have u: "unat (of_nat (4096 * k) :: u32) = 4096 * k" using assms by (intro unat_of_nat_u32) simp
  have "unat (get_page_dir_index (of_nat (4096 * k))) = 4096 * k div 4194304"
    unfolding get_page_dir_index_def drop_bit_eq_div using u by (simp add: unat_div)
  then show "unat (get_page_dir_index (of_nat (4096 * k))) = k div 1024" by (simp add: div_mult2_eq [of _ 4096 1024, simplified])
  have "unat (drop_bit 12 (of_nat (4096 * k) :: u32)) = k"
    unfolding drop_bit_eq_div using u by (simp add: unat_div)
  moreover have "get_page_table_index v = take_bit 10 (drop_bit 12 v)" for v
    by (simp add: get_page_table_index_def INDEX_MASK_eq take_bit_eq_mask)
  ultimately show "unat (get_page_table_index (of_nat (4096 * k))) = k mod 1024"
    by (simp only: unsigned_take_bit_eq) (simp add: take_bit_eq_mod)
qed

definition init_inv :: "u32 \<Rightarrow> u32 \<Rightarrow> nat \<Rightarrow> nat \<times> paging_state \<Rightarrow> bool" where
  "init_inv D E k st \<longleftrightarrow> (case st of (c, s) \<Rightarrow>
     c = (k + 1023) div 1024 \<and> kernel_directory s = D \<and> early_page_tables s = E \<and>
     (\<forall>i. frames s D i = (if i < c then make_pde (early E i) 3 else 0)) \<and>
     (\<forall>i < 4. \<forall>j < 1024. frames s (early E i) j = (if 1024 * i + j < k then make_pte (of_nat (4096 * (1024 * i + j))) 3 else 0)))"

lemma ceil_1024: "(k + 1023) div 1024 = (if k mod 1024 = 0 then k div 1024 else Suc (k div 1024 :: nat))"
proof -
  define q r where "q = k div 1024" and "r = k mod 1024"
  have k: "k = 1024 * q + r" "r < 1024" by (simp_all add: q_def r_def)
  have "(1024 * q + (r + 1023)) div 1024 = q + (r + 1023) div 1024" by (rule div_mult_self4) simp
  then have "(k + 1023) div 1024 = q + (r + 1023) div 1024" using k(1) by (simp add: ac_simps)
  moreover have "(r + 1023) div 1024 = (if r = 0 then 0 else 1)" using k(2) by auto
  ultimately show ?thesis by (simp add: q_def r_def)
qed

lemma init_step_inv:
  assumes st: "statics_ok D E" and inv: "init_inv D E k (c, s)" and k: "k < 4096"
  shows "init_inv D E (Suc k) (init_step (of_nat (4096 * k)) (c, s)) \<and>
    pg_pmm (snd (init_step (of_nat (4096 * k)) (c, s))) = pg_pmm s"
proof -
  let ?i = "k div 1024" and ?j = "k mod 1024" and ?v = "make_pte (of_nat (4096 * k)) 3"
  have i4: "?i < 4" using k by simp
  note es = early_simps [OF st, of ?i]
  have c': "(Suc k + 1023) div 1024 = Suc ?i" by simp
  define s1 where "s1 = (if ?j = 0 then set_entry D ?i (make_pde (early E ?i) 3) s else s)"
  have cj: "c = (if ?j = 0 then ?i else Suc ?i)" using inv ceil_1024 [of k] by (simp add: init_inv_def)
  from inv have kd: "kernel_directory s = D" "early_page_tables s = E"
    and dir: "\<And>i. frames s D i = (if i < c then make_pde (early E i) 3 else 0)"
    and tbl: "\<And>i j. i < 4 \<Longrightarrow> j < 1024 \<Longrightarrow>
      frames s (early E i) j = (if 1024 * i + j < k then make_pte (of_nat (4096 * (1024 * i + j))) 3 else 0)"
    by (auto simp: init_inv_def)
  have abs: "frames s D ?i AND 1 = 0 \<longleftrightarrow> ?j = 0" unfolding dir cj by simp
  have d1: "frames s1 D i = (if i < Suc ?i then make_pde (early E i) 3 else 0)" for i
    unfolding s1_def by (auto simp: dir cj)
  have f: "frame_of (make_pde (early E ?i) 3) = early E ?i" using es(2) i4 by (simp add: aligned_def)
  have step: "init_step (of_nat (4096 * k)) (c, s) = (Suc ?i, set_entry (early E ?i) ?j ?v s1)"
  proof (cases "?j = 0")
    case True
    then show ?thesis using abs cj f kd page_indices [OF k]
      by (simp add: init_step_def Let_def s1_def early_def)
  next
    case False
    then show ?thesis using abs cj f kd page_indices [OF k] dir [of ?i]
      by (simp add: init_step_def Let_def s1_def)
  qed
  have t1: "frames s1 (early E i) j = frames s (early E i) j" if "i < 4" for i j
    using early_simps(3) [OF st, of i] that by (simp add: s1_def)
  have tab: "frames (set_entry (early E ?i) ?j ?v s1) (early E i) j =
      (if 1024 * i + j < Suc k then make_pte (of_nat (4096 * (1024 * i + j))) 3 else 0)" if "i < 4" "j < 1024" for i j
  proof (cases "1024 * i + j = k")
    case True
    then have "i = ?i" "j = ?j" using that by auto
    then show ?thesis using True by simp
  next
    case False
    then have "\<not> (i = ?i \<and> j = ?j)" by (metis mult_div_mod_eq)
    then have "\<not> (early E i = early E ?i \<and> j = ?j)" using early_simps(4) [OF st, of ?i i] that i4 by auto
    then have "frames (set_entry (early E ?i) ?j ?v s1) (early E i) j = frames s (early E i) j" using t1 [OF that(1)] by auto
    then show ?thesis using tbl [OF that] False by auto
  qed
  have "early E ?i \<noteq> D" using es(3) i4 by simp
  then show ?thesis
    using step tab d1 c' kd by (simp add: init_inv_def) (simp add: s1_def)
qed

lemma init_loop_inv:
  "statics_ok D E \<Longrightarrow> init_inv D E k st \<Longrightarrow> k + n \<le> 4096 \<Longrightarrow>
     init_inv D E (k + n) (init_loop k n st) \<and> pg_pmm (snd (init_loop k n st)) = pg_pmm (snd st)"
proof (induction k n st rule: init_loop.induct)
  case (2 k n st)
  obtain c s where st: "st = (c, s)" by (cases st)
  have "init_inv D E (Suc k) (init_step (of_nat (4096 * k)) st) \<and>
      pg_pmm (snd (init_step (of_nat (4096 * k)) st)) = pg_pmm (snd st)"
    using init_step_inv [of D E k c s] "2.prems" st by simp
  then show ?case using "2.IH" "2.prems" by simp
qed simp

lemma paging_init_state:
  assumes "statics_ok (kernel_directory s) (early_page_tables s)"
  obtains c where "init_inv (kernel_directory s) (early_page_tables s) 4096 (c, paging_init s)"
    and "current_directory (paging_init s) = kernel_directory s" and "pg_pmm (paging_init s) = pg_pmm s"
    and "cr3 (paging_init s) = kernel_directory s" and "bit (cr0 (paging_init s)) 31"
proof -
  let ?D = "kernel_directory s" and ?E = "early_page_tables s"
  let ?s0 = "zero_frames ?E 16 (zero_frame ?D s)"
  have "frames ?s0 (early ?E i) j = 0" if "i < 4" for i j using zero_frames_early [of i 16] that by simp
  then have "init_inv ?D ?E 0 (0, ?s0)" by (simp add: init_inv_def)
  then have l: "init_inv ?D ?E 4096 (init_loop 0 4096 (0, ?s0)) \<and> pg_pmm (snd (init_loop 0 4096 (0, ?s0))) = pg_pmm s"
    using init_loop_inv [OF assms, of 0 "(0, ?s0)" 4096] by simp
  obtain c s1 where s1: "init_loop 0 4096 (0, ?s0) = (c, s1)" by (cases "init_loop 0 4096 (0, ?s0)")
  have kd: "kernel_directory s1 = ?D" using l s1 by (simp add: init_inv_def)
  have pi: "paging_init s = s1\<lparr>current_directory := ?D, cr3 := ?D, cr0 := cr0 s1 OR 0x80000000\<rparr>"
    using s1 kd by (simp add: paging_init_def Let_def paging_enable_def load_page_directory_def)
  have "bit (cr0 s1 OR 2 ^ 31) 31" by (simp add: bit_or_iff)
  then have "bit (cr0 s1 OR 0x80000000) 31" by simp
  then show ?thesis using that [of c] l s1 pi by (simp add: init_inv_def)
qed

lemma page_split:
  assumes "v < 0x1000000"
  obtains k where "k < 4096" and "unat (get_page_dir_index v) = k div 1024" and "unat (get_page_table_index v) = k mod 1024"
    and "of_nat (4096 * k) = v AND FRAME_MASK"
proof -
  let ?k = "unat v div 4096"
  have v: "unat v < 16777216" using assms by (simp add: word_less_nat_alt)
  then have k: "?k < 4096" by (simp add: less_mult_imp_div_less)
  have "v AND FRAME_MASK = push_bit 12 (drop_bit 12 v)"
    unfolding FRAME_MASK_eq by (rule bit_word_eqI) (auto simp: bit_simps not_less elim!: nat_le_iff_add [THEN iffD1, THEN exE])
  also have "\<dots> = of_nat (4096 * ?k)"
  proof -
    have "unat (drop_bit 12 v) = ?k" unfolding drop_bit_eq_div by (simp add: unat_div)
    then have "drop_bit 12 v = of_nat ?k" by (metis word_unat_eq_iff unat_of_nat_u32 unat_u32_less)
    then show ?thesis by (simp add: push_bit_eq_mult mult.commute)
  qed
  finally have e: "of_nat (4096 * ?k) = v AND FRAME_MASK" by simp
  have "same_page v (of_nat (4096 * ?k))"
    unfolding same_page_def e FRAME_MASK_eq by (rule bit_word_eqI) (auto simp: bit_simps dest: bit_imp_le_length)
  then show ?thesis using that [OF k] page_indices [OF k] e by (simp add: same_page_unat)
qed

lemma frame_or_offset: "(v AND FRAME_MASK) OR get_page_offset v = v"
  unfolding get_page_offset_def FRAME_MASK_eq OFFSET_MASK_eq by (rule bit_word_eqI) (auto simp: bit_simps)

lemma paging_init_translation:
  assumes "statics_ok (kernel_directory s) (early_page_tables s)"
  shows "paging_get_physical_address v (paging_init s) = (if v < 0x1000000 then v else 0)"
proof -
  let ?D = "kernel_directory s" and ?E = "early_page_tables s" and ?s = "paging_init s"
  from assms obtain c where inv: "init_inv ?D ?E 4096 (c, ?s)" and cd: "current_directory ?s = ?D"
    by (rule paging_init_state)
  have c4: "c = 4" and dir: "\<And>i. frames ?s ?D i = (if i < 4 then make_pde (early ?E i) 3 else 0)"
    and tbl: "\<And>i j. i < 4 \<Longrightarrow> j < 1024 \<Longrightarrow> frames ?s (early ?E i) j = make_pte (of_nat (4096 * (1024 * i + j))) 3"
    using inv by (auto simp: init_inv_def)
  show ?thesis
  proof (cases "v < 0x1000000")
    case True
    then obtain k where k: "k < 4096" "unat (get_page_dir_index v) = k div 1024" "unat (get_page_table_index v) = k mod 1024"
      "of_nat (4096 * k) = v AND FRAME_MASK" by (rule page_split)
    have i4: "k div 1024 < 4" using k(1) by simp
    have f: "frame_of (make_pde (early ?E (k div 1024)) 3) = early ?E (k div 1024)"
      using early_simps(2) [OF assms, of "k div 1024"] i4 by (simp add: aligned_def)
    have "frames ?s (early ?E (k div 1024)) (k mod 1024) = make_pte (of_nat (4096 * k)) 3"
      using tbl [OF i4, of "k mod 1024"] by simp
    then show ?thesis
      using True k cd dir [of "k div 1024"] i4 f frame_or_offset [of v] by (simp add: paging_get_physical_address_def Let_def)
  next
    case False
    then have "16777216 \<le> unat v" by (simp add: word_less_nat_alt not_less)
    moreover have "unat (get_page_dir_index v) = unat v div 4194304"
      by (simp add: get_page_dir_index_def drop_bit_eq_div unat_div)
    ultimately have "4 \<le> unat (get_page_dir_index v)" by simp
    then show ?thesis using False cd dir by (simp add: paging_get_physical_address_def Let_def)
  qed
qed

section \<open>Properties\<close>

text \<open>C18: After \<open>paging_init\<close> the first 16 MB are mapped to themselves and nothing else is mapped, the
  directory is loaded, paging is on, and no page of the allocator was taken.\<close>

theorem paging_init_identity:
  assumes "statics_ok (kernel_directory s) (early_page_tables s)"
  shows "(\<forall>v. paging_get_physical_address v (paging_init s) = (if v < 0x1000000 then v else 0)) \<and>
    cr3 (paging_init s) = kernel_directory s \<and> bit (cr0 (paging_init s)) 31 \<and> pg_pmm (paging_init s) = pg_pmm s"
proof -
  from assms obtain c where "pg_pmm (paging_init s) = pg_pmm s" "cr3 (paging_init s) = kernel_directory s"
    "bit (cr0 (paging_init s)) 31" by (rule paging_init_state)
  then show ?thesis using paging_init_translation [OF assms] by blast
qed

definition boot_paging :: "pmm_state \<Rightarrow> paging_state" where
  "boot_paging q = \<lparr>frames = (\<lambda>_ _. 0), kernel_directory = 0x20000, early_page_tables = 0x21000,
     current_directory = 0, cr0 = 0, cr3 = 0, pg_pmm = q\<rparr>"

lemma boot_statics [simp]: "statics_ok (kernel_directory (boot_paging q)) (early_page_tables (boot_paging q))"
  by (simp add: statics_ok_def aligned_iff boot_paging_def)

definition boot_pmm :: pmm_state where
  "boot_pmm = the pmm_init"

lemma boot_pmm_ok: "pmm_inv boot_pmm \<and> used_set boot_pmm = {0..<512}"
  unfolding boot_pmm_def using pmm_init_spec by (metis option.sel)

lemmas boot_pmm_inv = boot_pmm_ok [THEN conjunct1] and boot_pmm_used = boot_pmm_ok [THEN conjunct2]

lemma paging_init_identity_witness:
  "statics_ok (kernel_directory (boot_paging boot_pmm)) (early_page_tables (boot_paging boot_pmm)) \<and>
   paging_get_physical_address 0xB8000 (paging_init (boot_paging boot_pmm)) = 0xB8000"
proof -
  have "\<forall>v. paging_get_physical_address v (paging_init (boot_paging boot_pmm)) = (if v < 0x1000000 then v else 0)"
    using paging_init_identity [OF boot_statics, of boot_pmm] by (rule conjunct1)
  then show ?thesis using boot_statics by simp
qed

text \<open>C17: \<open>paging_map_page\<close> with the present flag makes every address of that page translate to the given frame,
  and changes the translation of no other page, whether or not it had to allocate a page table; when no
  memory is left for the table it changes nothing.\<close>

theorem paging_map_page_translates:
  assumes "pg_wf s" and "present f"
  shows "\<exists>s'. paging_map_page v a f s = Some s' \<and> pg_wf s' \<and>
    (s' = s \<and> {512..<4096} \<subseteq> used_set (pg_pmm s) \<or>
     (\<forall>w. paging_get_physical_address w s' =
       (if same_page w v then (a AND FRAME_MASK) OR get_page_offset w else paging_get_physical_address w s)))"
  using paging_map_page_ok [OF assms(1), of v a f] assms(2) by auto

lemma boot_wf: "pg_wf (paging_init (boot_paging boot_pmm))"
proof -
  let ?b = "boot_paging boot_pmm"
  from boot_statics obtain c where inv: "init_inv (kernel_directory ?b) (early_page_tables ?b) 4096 (c, paging_init ?b)"
    and cd: "current_directory (paging_init ?b) = kernel_directory ?b" "pg_pmm (paging_init ?b) = pg_pmm ?b"
    by (rule paging_init_state)
  have kd: "kernel_directory ?b = 0x20000" "early_page_tables ?b = 0x21000" "pg_pmm ?b = boot_pmm"
    by (simp_all add: boot_paging_def)
  note st = boot_statics [of boot_pmm, unfolded kd]
  have dir: "frames (paging_init ?b) 0x20000 i = (if i < 4 then make_pde (early 0x21000 i) 3 else 0)" for i
    using inv by (simp add: init_inv_def kd)
  have fr: "frame_of (make_pde (early 0x21000 i) 3) = early 0x21000 i" if "i < 4" for i
    using early_simps(2) [OF st, of i] that by (simp add: aligned_def)
  show ?thesis
    unfolding pg_wf_def Let_def cd kd
  proof (intro conjI allI impI)
    show "pmm_inv boot_pmm" by (rule boot_pmm_inv)
    show "page_no 0x20000 \<in> used_set boot_pmm" "aligned 0x20000" by (simp_all add: boot_pmm_used aligned_iff)
    fix i assume "i < ENTRIES" "present (frames (paging_init ?b) 0x20000 i)"
    then have i: "i < 4" using dir by (auto split: if_splits)
    then show "frame_of (frames (paging_init ?b) 0x20000 i) \<noteq> 0x20000"
      using dir fr early_simps(3) [OF st, of i] by simp
    show "page_no (frame_of (frames (paging_init ?b) 0x20000 i)) \<in> used_set boot_pmm"
      using i dir fr early_simps(1) [OF st, of i] by (simp add: boot_pmm_used)
    fix j assume "j < ENTRIES" "present (frames (paging_init ?b) 0x20000 j) \<and> j \<noteq> i"
    then have "j < 4" "j \<noteq> i" using dir by (auto split: if_splits)
    then show "frame_of (frames (paging_init ?b) 0x20000 j) \<noteq> frame_of (frames (paging_init ?b) 0x20000 i)"
      using i dir fr early_simps(4) [OF st, of i j] by simp
  qed
qed

lemma boot_pool_free: "\<not> {512..<4096} \<subseteq> used_set (pg_pmm (paging_init (boot_paging boot_pmm)))"
proof -
  from boot_statics obtain c where "pg_pmm (paging_init (boot_paging boot_pmm)) = pg_pmm (boot_paging boot_pmm)"
    by (rule paging_init_state)
  moreover have "pg_pmm (boot_paging boot_pmm) = boot_pmm" by (simp add: boot_paging_def)
  ultimately have "512 \<notin> used_set (pg_pmm (paging_init (boot_paging boot_pmm)))" by (simp add: boot_pmm_used)
  moreover have "512 \<in> {512..<4096 :: nat}" by simp
  ultimately show ?thesis by blast
qed

lemma paging_map_page_translates_witness:
  "\<exists>s'. paging_map_page 0x40000000 0x300000 7 (paging_init (boot_paging boot_pmm)) = Some s' \<and>
     paging_get_physical_address 0x40000010 s' = 0x300010"
proof -
  let ?s = "paging_init (boot_paging boot_pmm)"
  have nf: "\<not> {512..<4096} \<subseteq> used_set (pg_pmm ?s)" by (rule boot_pool_free)
  have sp: "same_page 0x40000010 0x40000000" and off: "get_page_offset 0x40000010 = 0x10"
    by (simp_all add: same_page_def get_page_offset_def)
  from paging_map_page_translates [OF boot_wf, of 7 "0x40000000" "0x300000"] nf
  obtain s' where s': "paging_map_page 0x40000000 0x300000 7 ?s = Some s'"
    and tr: "\<forall>w. paging_get_physical_address w s' = (if same_page w 0x40000000 then (0x300000 AND FRAME_MASK) OR get_page_offset w
       else paging_get_physical_address w ?s)" by auto
  show ?thesis using s' spec [OF tr, of "0x40000010"] sp off by simp
qed

text \<open>\<open>paging_unmap_page\<close> unmaps exactly the page of its argument.\<close>

theorem paging_unmap_page_exact:
  assumes "pg_wf s"
  shows "pg_wf (paging_unmap_page v s) \<and>
    paging_get_physical_address w (paging_unmap_page v s) = (if same_page w v then 0 else paging_get_physical_address w s)"
proof (cases "present (frames s (current_directory s) (unat (get_page_dir_index v)))")
  case True
  then show ?thesis
    using get_physical_set_entry(1) [OF assms True, of w 0] get_physical_set_entry(2) [OF assms True, of 0] by (simp add: paging_unmap_page_def Let_def)
next
  case False
  then show ?thesis
    using assms by (auto simp: paging_unmap_page_def paging_get_physical_address_def Let_def same_page_unat)
qed

lemma paging_unmap_page_exact_witness:
  "paging_get_physical_address 0x1234 (paging_unmap_page 0x1000 (paging_init (boot_paging boot_pmm))) = 0"
  using paging_unmap_page_exact [OF boot_wf, of "0x1000" "0x1234"] by (simp add: same_page_def)

text \<open>A page mapped for user mode cannot be reached from user mode: the directory entry that
  \<open>paging_map_page\<close> creates never has the user bit, whatever flags the caller passes, and the processor
  requires the bit at both levels.\<close>

theorem user_mapping_lacks_user_bit:
  assumes "pg_wf s" and "\<not> present (frames s (current_directory s) (unat (get_page_dir_index v)))"
    and "\<not> {512..<4096} \<subseteq> used_set (pg_pmm s)"
  shows "\<exists>s'. paging_map_page v a PAGE_USER_MODE s = Some s' \<and>
    paging_get_physical_address v s' = (a AND FRAME_MASK) OR get_page_offset v \<and>
    frames s' (current_directory s) (unat (get_page_dir_index v)) AND PAGE_USER = 0"
proof -
  let ?i = "unat (get_page_dir_index v)" and ?dir = "current_directory s"
  have inv: "pmm_inv (pg_pmm s)" using assms(1) by (simp add: pg_wf_def Let_def)
  obtain t q where tq: "pmm_alloc_page (pg_pmm s) = Some (t, q)" using pages.alloc_total [OF inv] by blast
  from inv tq show ?thesis
  proof (cases rule: pages.alloc_cases)
    case 1
    then show ?thesis using assms(3) by simp
  next
    case (2 p)
    have "page_no t = p" using pool_frame(2) [OF 2(3)] 2(1) by simp
    then have td: "t \<noteq> ?dir" using assms(1) 2(4) by (auto simp: pg_wf_def Let_def)
    let ?s' = "set_entry t (unat (get_page_table_index v)) (make_pte a 7) (set_entry ?dir ?i (make_pde t 3) (zero_frame t (s\<lparr>pg_pmm := q\<rparr>)))"
    have m: "paging_map_page v a PAGE_USER_MODE s = Some ?s'"
      using assms(2) tq 2(2) by (simp add: paging_map_page_def Let_def)
    have "frames ?s' ?dir ?i = make_pde t 3" using td by simp
    moreover have "make_pde t 3 AND 4 = 0" by (simp add: and_4_bit low_bit_eq bit_numeral_rec)
    ultimately have u: "frames ?s' ?dir ?i AND 4 = 0" by simp
    have "paging_get_physical_address v ?s' = (a AND FRAME_MASK) OR get_page_offset v"
      using paging_map_page_ok [OF assms(1), of v a PAGE_USER_MODE] m assms(3) by (auto simp: same_page_def)
    then show ?thesis using m u by blast
  qed
qed

lemma user_mapping_lacks_user_bit_witness:
  "\<exists>s'. paging_map_page 0x40000000 0x300000 PAGE_USER_MODE (paging_init (boot_paging boot_pmm)) = Some s' \<and>
     frames s' 0x20000 256 AND PAGE_USER = 0"
proof -
  let ?s = "paging_init (boot_paging boot_pmm)"
  from boot_statics obtain c where inv: "init_inv (kernel_directory (boot_paging boot_pmm)) (early_page_tables (boot_paging boot_pmm)) 4096 (c, ?s)"
    and cd: "current_directory ?s = kernel_directory (boot_paging boot_pmm)" by (rule paging_init_state)
  have i: "unat (get_page_dir_index 0x40000000) = 256" by (simp add: get_page_dir_index_def)
  have d: "kernel_directory (boot_paging boot_pmm) = 0x20000" by (simp add: boot_paging_def)
  have "frames ?s 0x20000 256 = 0" using inv by (simp add: init_inv_def d)
  then have "\<not> present (frames ?s (current_directory ?s) (unat (get_page_dir_index 0x40000000)))"
    using cd d i by simp
  from user_mapping_lacks_user_bit [OF boot_wf this boot_pool_free, of "0x300000"] show ?thesis
    using cd d i by auto
qed

end
