(* ===== verification/Process.thy ===== *)
theory Process
  imports CString Heap Paging
begin

text \<open>
  Process management, \<open>kernel/process.c\<close>: the process table, the scheduler, sleeping and messages.
  Process control blocks and message queues live in heap memory and are reached by pointer, so the
  state holds a store for each (\<open>pcbs\<close>, \<open>queues\<close>): a fresh block starts with whatever the store holds there,
  and fields the code does not set keep it. The heap, the paging state (which holds the page
  allocator) and the tick counter are part of the state.

  \<open>process_switch\<close> (assembly) saves the registers of the old process and resumes the new one; here it is
  an entry in \<open>switch_log\<close>. Code after the call runs only when the old process is resumed, so an operation
  that calls the scheduler returns whether a switch happened, and the model stops there when it did.
  The registers saved by the switch are the subject of \<open>Context_Switch\<close>. \<open>None\<close> is an access outside a
  buffer or a heap block, or an allocator call that does not return.
\<close>

section \<open>Data (process.h)\<close>

abbreviation READY :: u32 where "READY \<equiv> 0"
abbreviation RUNNING :: u32 where "RUNNING \<equiv> 1"
abbreviation BLOCKED :: u32 where "BLOCKED \<equiv> 2"
abbreviation TERMINATED :: u32 where "TERMINATED \<equiv> 3"
abbreviation MAX_PROCESSES :: nat where "MAX_PROCESSES \<equiv> 16"
abbreviation MAX_MESSAGE_SIZE :: u32 where "MAX_MESSAGE_SIZE \<equiv> 256"
abbreviation MESSAGE_QUEUE_SIZE :: u32 where "MESSAGE_QUEUE_SIZE \<equiv> 8"
abbreviation SIZEOF_PCB :: u32 where "SIZEOF_PCB \<equiv> 144"
abbreviation SIZEOF_QUEUE :: u32 where "SIZEOF_QUEUE \<equiv> 2124"

record ipc_message_t =
  m_sender :: u32
  m_data :: "u8 list"
  m_length :: u32

record message_queue_t =
  messages :: "ipc_message_t list"
  q_head :: u32
  q_tail :: u32
  q_count :: u32

record cpu_state_t =
  c_eax :: u32
  c_ebx :: u32
  c_ecx :: u32
  c_edx :: u32
  c_esi :: u32
  c_edi :: u32
  c_esp :: u32
  c_ebp :: u32
  c_eip :: u32
  c_eflags :: u32
  c_cr3 :: u32
  c_cs :: u16
  c_ds :: u16
  c_es :: u16
  c_fs :: u16
  c_gs :: u16
  c_ss :: u16

record process_t =
  pr_pid :: u32
  pr_name :: "u8 list"
  pr_state :: u32
  pr_cpu_state :: cpu_state_t
  pr_stack_base :: u32
  pr_stack_size :: u32
  pr_user_stack :: u32
  pr_kernel_stack :: u32
  pr_is_user_mode :: u32
  pr_priority :: u32
  pr_time_slice :: u32
  pr_total_time :: u32
  pr_wake_time :: u32
  pr_msg_queue :: u32
  pr_page_directory :: u32
  pr_next :: u32

record proc_state =
  process_table :: "u32 list"
  process_count_val :: int
  next_pid :: u32
  current_process :: u32
  idle_process :: u32
  pcbs :: "u32 \<Rightarrow> process_t"
  queues :: "u32 \<Rightarrow> message_queue_t"
  pr_heap :: heap_state
  pr_paging :: paging_state
  system_ticks :: u32
  tss_esp0 :: u32
  switch_log :: "(u32 \<times> u32) list"

section \<open>Helpers\<close>

definition upd_pcb :: "u32 \<Rightarrow> (process_t \<Rightarrow> process_t) \<Rightarrow> proc_state \<Rightarrow> proc_state" where
  "upd_pcb p f s = s\<lparr>pcbs := (pcbs s)(p := f (pcbs s p))\<rparr>"

definition pr_kmalloc :: "u32 \<Rightarrow> proc_state \<Rightarrow> (u32 \<times> proc_state) option" where
  "pr_kmalloc n s = do { (p, h) \<leftarrow> kmalloc n (pr_heap s); Some (p, s\<lparr>pr_heap := h\<rparr>) }"

definition pr_kfree :: "u32 \<Rightarrow> proc_state \<Rightarrow> proc_state option" where
  "pr_kfree p s = do { h \<leftarrow> kfree p (pr_heap s); Some (s\<lparr>pr_heap := h\<rparr>) }"

text \<open>\<open>*a = v\<close> for an address computed from the stack block at \<open>base\<close>: a little-endian word stored in the
  byte view of the heap, \<open>None\<close> where it would leave the block.\<close>

definition poke32 :: "u32 \<Rightarrow> u32 \<Rightarrow> u32 \<Rightarrow> proc_state \<Rightarrow> proc_state option" where
  "poke32 base a v s =
     do { h \<leftarrow> heap_store base a [ucast v, ucast (drop_bit 8 v), ucast (drop_bit 16 v), ucast (drop_bit 24 v)] (pr_heap s);
          Some (s\<lparr>pr_heap := h\<rparr>) }"

definition kernel_cpu_state :: "u32 \<Rightarrow> u32 \<Rightarrow> cpu_state_t \<Rightarrow> cpu_state_t" where
  "kernel_cpu_state entry stack c = c\<lparr>c_eip := entry, c_esp := stack, c_ebp := stack, c_eflags := 0x202,
     c_cs := 0x08, c_ds := 0x10, c_es := 0x10, c_fs := 0x10, c_gs := 0x10, c_ss := 0x10\<rparr>"

section \<open>Lookup and initialisation\<close>

definition process_get :: "u32 \<Rightarrow> proc_state \<Rightarrow> u32" where
  "process_get pid s =
     (case List.find (\<lambda>p. p \<noteq> 0 \<and> pr_pid (pcbs s p) = pid) (process_table s) of None \<Rightarrow> 0 | Some p \<Rightarrow> p)"

definition process_current :: "proc_state \<Rightarrow> u32" where
  "process_current s = current_process s"

definition process_count :: "proc_state \<Rightarrow> int" where
  "process_count s = process_count_val s"

definition process_init :: "u32 \<Rightarrow> proc_state \<Rightarrow> proc_state option" where
  "process_init idle_task s =
     do { let s = s\<lparr>process_table := replicate MAX_PROCESSES 0\<rparr>;
          (p, s) \<leftarrow> pr_kmalloc SIZEOF_PCB s;
          let s = s\<lparr>idle_process := p\<rparr>;
          if p = 0 then Some s
          else do { name \<leftarrow> strcpy (pr_name (pcbs s p)) [105, 100, 108, 101, 0];
                    let s = upd_pcb p (\<lambda>b. b\<lparr>pr_pid := 0, pr_name := name, pr_state := READY, pr_priority := 0,
                              pr_time_slice := 10, pr_total_time := 0, pr_next := 0,
                              pr_page_directory := paging_get_directory (pr_paging s), pr_stack_size := 4096\<rparr>) s;
                    (base, s) \<leftarrow> pr_kmalloc 4096 s;
                    let stack = base + 4096 - 4;
                    s \<leftarrow> poke32 base stack idle_task s;
                    let s = upd_pcb p (\<lambda>b. b\<lparr>pr_stack_base := base, pr_cpu_state := kernel_cpu_state idle_task stack (pr_cpu_state b)\<rparr>) s;
                    Some (s\<lparr>process_table := (process_table s)[0 := p], current_process := p, process_count_val := 1\<rparr>) } }"

section \<open>Creating processes\<close>

definition fill_pcb :: "u8 list \<Rightarrow> u32 \<Rightarrow> u32 \<Rightarrow> u32 \<Rightarrow> process_t \<Rightarrow> process_t" where
  "fill_pcb name pid stack_base stack_size b =
     b\<lparr>pr_pid := pid, pr_name := name, pr_state := READY, pr_stack_size := stack_size, pr_user_stack := 0,
       pr_kernel_stack := stack_base + stack_size, pr_is_user_mode := 0, pr_priority := 5, pr_time_slice := 10,
       pr_total_time := 0, pr_wake_time := 0, pr_next := 0\<rparr>"

text \<open>The last part of \<open>process_create\<close>: the initial stack, the registers and the table slot.\<close>

definition enter_process :: "u32 \<Rightarrow> u32 \<Rightarrow> u32 \<Rightarrow> u32 \<Rightarrow> proc_state \<Rightarrow> (u32 \<times> proc_state) option" where
  "enter_process p base entry_point stack_size s =
     do { let stack = base + stack_size - 4;
          s \<leftarrow> poke32 base stack entry_point s;
          let s = upd_pcb p (\<lambda>b. b\<lparr>pr_page_directory := paging_get_directory (pr_paging s),
                    pr_cpu_state := kernel_cpu_state entry_point stack (pr_cpu_state b)\<rparr>) s;
          (case List.find (\<lambda>i. process_table s ! i = 0) [0..<MAX_PROCESSES] of
             Some i \<Rightarrow> Some (pr_pid (pcbs s p),
               s\<lparr>process_table := (process_table s)[i := p], process_count_val := process_count_val s + 1\<rparr>)
           | None \<Rightarrow> do { s \<leftarrow> pr_kfree base s; s \<leftarrow> pr_kfree p s; Some (0, s) }) }"

definition process_create :: "u8 list \<Rightarrow> u32 \<Rightarrow> u32 \<Rightarrow> proc_state \<Rightarrow> (u32 \<times> proc_state) option" where
  "process_create name entry_point stack_size s =
     (if process_count_val s \<ge> int MAX_PROCESSES then Some (0, s)
      else do { (p, s) \<leftarrow> pr_kmalloc SIZEOF_PCB s;
                if p = 0 then Some (0, s)
                else do { (base, s) \<leftarrow> pr_kmalloc stack_size s;
                          let s = upd_pcb p (\<lambda>b. b\<lparr>pr_stack_base := base\<rparr>) s;
                          if base = 0 then do { s \<leftarrow> pr_kfree p s; Some (0, s) }
                          else do { let pid = next_pid s;
                                    let s = s\<lparr>next_pid := pid + 1\<rparr>;
                                    field \<leftarrow> strncpy (pr_name (pcbs s p)) name 31;
                                    field \<leftarrow> store field 31 0;
                                    let s = upd_pcb p (fill_pcb field pid base stack_size) s;
                                    (q, s) \<leftarrow> pr_kmalloc SIZEOF_QUEUE s;
                                    let s = upd_pcb p (\<lambda>b. b\<lparr>pr_msg_queue := q\<rparr>) s;
                                    if q = 0 then do { s \<leftarrow> pr_kfree base s; s \<leftarrow> pr_kfree p s; Some (0, s) }
                                    else do { let s = s\<lparr>queues := (queues s)(q := (queues s q)\<lparr>q_head := 0, q_tail := 0, q_count := 0\<rparr>)\<rparr>;
                                              enter_process p base entry_point stack_size s } } } })"

definition clamp_priority :: "u32 \<Rightarrow> u32" where
  "clamp_priority n = (if n > 255 then 255 else n)"

definition process_create_with_priority :: "u8 list \<Rightarrow> u32 \<Rightarrow> u32 \<Rightarrow> u32 \<Rightarrow> proc_state \<Rightarrow> (u32 \<times> proc_state) option" where
  "process_create_with_priority name entry_point stack_size priority s =
     do { (pid, s) \<leftarrow> process_create name entry_point stack_size s;
          let p = process_get pid s;
          Some (pid, if pid > 0 \<and> p \<noteq> 0 then upd_pcb p (\<lambda>b. b\<lparr>pr_priority := clamp_priority priority\<rparr>) s else s) }"

definition process_set_priority :: "u32 \<Rightarrow> u32 \<Rightarrow> proc_state \<Rightarrow> int \<times> proc_state" where
  "process_set_priority pid priority s =
     (let p = process_get pid s in
      if p = 0 then (- 1, s) else (0, upd_pcb p (\<lambda>b. b\<lparr>pr_priority := clamp_priority priority\<rparr>) s))"

definition process_get_priority :: "u32 \<Rightarrow> proc_state \<Rightarrow> int" where
  "process_get_priority pid s =
     (let p = process_get pid s in if p = 0 then - 1 else sint (pr_priority (pcbs s p)))"

section \<open>The scheduler\<close>

fun first_index :: "u32 \<Rightarrow> u32 list \<Rightarrow> nat \<Rightarrow> nat option" where
  "first_index x [] j = None"
| "first_index x (y # ys) j = (if y = x then Some j else first_index x ys (Suc j))"

text \<open>One pass of the selection loop on slot \<open>i\<close>, with the candidate and its priority so far.\<close>

definition sched_step :: "proc_state \<Rightarrow> nat \<Rightarrow> u32 \<times> u32 \<Rightarrow> u32 \<times> u32" where
  "sched_step s i = (\<lambda>(next, highest).
     let p = process_table s ! i; prio = pr_priority (pcbs s p); cur = current_process s in
     if p \<noteq> 0 \<and> pr_state (pcbs s p) = READY then
       if next = 0 \<or> prio > highest then (p, prio)
       else if prio = highest then
         (if cur \<noteq> 0
          then case first_index cur (process_table s) 0 of
                 None \<Rightarrow> (next, highest)
               | Some j \<Rightarrow> if i > j \<and> prio = highest then (p, highest) else (next, highest)
          else (next, highest))
       else (next, highest)
     else (next, highest))"

definition sched_pick :: "proc_state \<Rightarrow> u32" where
  "sched_pick s = fst (fold (sched_step s) [0..<MAX_PROCESSES] (0, 0))"

definition process_schedule :: "proc_state \<Rightarrow> bool \<times> proc_state" where
  "process_schedule s =
     (if process_count_val s = 0 then (False, s)
      else
        let cur = current_process s;
            s = (if cur \<noteq> 0 \<and> pr_state (pcbs s cur) = RUNNING then upd_pcb cur (\<lambda>b. b\<lparr>pr_state := READY\<rparr>) s else s);
            pick = sched_pick s;
            next = (if pick = 0 then idle_process s else pick) in
        if next \<noteq> cur then
          let s = upd_pcb next (\<lambda>b. b\<lparr>pr_state := RUNNING\<rparr>) (s\<lparr>current_process := next\<rparr>);
              s = s\<lparr>tss_esp0 := pr_kernel_stack (pcbs s next)\<rparr>;
              dir = pr_page_directory (pcbs s next);
              s = (if dir \<noteq> 0 then s\<lparr>pr_paging := paging_switch_directory dir (pr_paging s)\<rparr> else s)
          in (True, s\<lparr>switch_log := switch_log s @ [(cur, next)]\<rparr>)
        else (False, upd_pcb cur (\<lambda>b. b\<lparr>pr_state := RUNNING\<rparr>) s))"

definition process_yield :: "proc_state \<Rightarrow> bool \<times> proc_state" where
  "process_yield s = process_schedule s"

section \<open>Termination\<close>

definition release_process :: "nat \<Rightarrow> proc_state \<Rightarrow> proc_state option" where
  "release_process i s =
     (let p = process_table s ! i in
      do { s \<leftarrow> pr_kfree (pr_stack_base (pcbs s p)) s;
           s \<leftarrow> (if pr_msg_queue (pcbs s p) \<noteq> 0 then pr_kfree (pr_msg_queue (pcbs s p)) s else Some s);
           s \<leftarrow> (if pr_is_user_mode (pcbs s p) \<noteq> 0 \<and> pr_page_directory (pcbs s p) \<noteq> 0
                 then do { g \<leftarrow> paging_free_directory (pr_page_directory (pcbs s p)) (pr_paging s); Some (s\<lparr>pr_paging := g\<rparr>) }
                 else Some s);
           s \<leftarrow> pr_kfree p s;
           Some (s\<lparr>process_table := (process_table s)[i := 0], process_count_val := process_count_val s - 1\<rparr>) })"

definition process_kill :: "u32 \<Rightarrow> proc_state \<Rightarrow> (bool \<times> proc_state) option" where
  "process_kill pid s =
     (if pid = 0 then Some (False, s)
      else case List.find (\<lambda>i. process_table s ! i \<noteq> 0 \<and> pr_pid (pcbs s (process_table s ! i)) = pid) [0..<MAX_PROCESSES] of
        None \<Rightarrow> Some (False, s)
      | Some i \<Rightarrow>
          let p = process_table s ! i;
              (switched, s) = (if p = current_process s
                               then process_schedule (upd_pcb p (\<lambda>b. b\<lparr>pr_state := TERMINATED\<rparr>) s) else (False, s)) in
          if switched then Some (True, s) else do { s \<leftarrow> release_process i s; Some (False, s) })"

text \<open>\<open>process_exit\<close>: when \<open>process_kill\<close> returns, the code halts in a loop, which is the outcome \<open>None\<close> of the pair.\<close>

definition process_exit :: "proc_state \<Rightarrow> (bool option \<times> proc_state) option" where
  "process_exit s =
     (if current_process s = 0 then Some (Some False, s)
      else if pr_pid (pcbs s (current_process s)) = 0 then Some (Some False, s)
      else do { (switched, s) \<leftarrow> process_kill (pr_pid (pcbs s (current_process s))) s;
                Some (if switched then Some True else None, s) })"

section \<open>Sleeping\<close>

definition process_sleep :: "u32 \<Rightarrow> proc_state \<Rightarrow> bool \<times> proc_state" where
  "process_sleep ms s =
     (let cur = current_process s in
      if cur = 0 then (False, s)
      else if pr_pid (pcbs s cur) = 0 then (False, s)
      else process_schedule (upd_pcb cur (\<lambda>b. b\<lparr>pr_wake_time := system_ticks s + ms, pr_state := BLOCKED\<rparr>) s))"

definition process_wake :: "u32 \<Rightarrow> proc_state \<Rightarrow> int \<times> proc_state" where
  "process_wake pid s =
     (let p = process_get pid s in
      if p = 0 then (- 1, s)
      else if pr_state (pcbs s p) = BLOCKED then (0, upd_pcb p (\<lambda>b. b\<lparr>pr_state := READY, pr_wake_time := 0\<rparr>) s)
      else (- 2, s))"

definition wake_slot :: "nat \<Rightarrow> proc_state \<Rightarrow> proc_state" where
  "wake_slot i s =
     (let p = process_table s ! i in
      if p \<noteq> 0 \<and> pr_state (pcbs s p) = BLOCKED \<and> pr_wake_time (pcbs s p) > 0 \<and> system_ticks s \<ge> pr_wake_time (pcbs s p)
      then upd_pcb p (\<lambda>b. b\<lparr>pr_state := READY, pr_wake_time := 0\<rparr>) s else s)"

definition process_check_sleeping :: "proc_state \<Rightarrow> proc_state" where
  "process_check_sleeping s = fold wake_slot [0..<MAX_PROCESSES] s"

section \<open>Messages\<close>

text \<open>Storing at the tail and taking from the head, the queue part of sending and receiving.\<close>

definition queue_put :: "u32 \<Rightarrow> u8 list \<Rightarrow> message_queue_t \<Rightarrow> message_queue_t option" where
  "queue_put sender bytes q =
     (let tail = unat (q_tail q); msg = messages q ! tail in
      if tail < length (messages q) then
        do { data \<leftarrow> memcpy (m_data msg) bytes (length bytes);
             Some (q\<lparr>messages := (messages q)[tail := \<lparr>m_sender = sender, m_data = data, m_length = of_nat (length bytes)\<rparr>],
                     q_tail := (q_tail q + 1) mod MESSAGE_QUEUE_SIZE, q_count := q_count q + 1\<rparr>) }
      else None)"

definition process_send_message :: "u32 \<Rightarrow> u8 list option \<Rightarrow> u32 \<Rightarrow> proc_state \<Rightarrow> (int \<times> proc_state) option" where
  "process_send_message target_pid message len s =
     (if message = None \<or> len = 0 \<or> len > MAX_MESSAGE_SIZE then Some (- 1, s)
      else
        let target = process_get target_pid s; qp = pr_msg_queue (pcbs s target) in
        if target = 0 \<or> qp = 0 then Some (- 2, s)
        else if q_count (queues s qp) \<ge> MESSAGE_QUEUE_SIZE then Some (- 3, s)
        else if unat len > length (the message) then None
        else
          do { let sender = (if current_process s \<noteq> 0 then pr_pid (pcbs s (current_process s)) else 0);
               q \<leftarrow> queue_put sender (take (unat len) (the message)) (queues s qp);
               let s = s\<lparr>queues := (queues s)(qp := q)\<rparr>;
               Some (0, if pr_state (pcbs s target) = BLOCKED \<and> pr_wake_time (pcbs s target) = 0
                        then upd_pcb target (\<lambda>b. b\<lparr>pr_state := READY\<rparr>) s else s) })"

definition queue_get :: "message_queue_t \<Rightarrow> (ipc_message_t \<times> message_queue_t) option" where
  "queue_get q =
     (let head = unat (q_head q) in
      if head < length (messages q)
      then Some (messages q ! head, q\<lparr>q_head := (q_head q + 1) mod MESSAGE_QUEUE_SIZE, q_count := q_count q - 1\<rparr>)
      else None)"

definition process_receive_message :: "u8 list option \<Rightarrow> u32 \<Rightarrow> proc_state \<Rightarrow> (int \<times> u8 list option \<times> u32 option \<times> proc_state) option" where
  "process_receive_message buffer max_length s =
     (let cur = current_process s; qp = pr_msg_queue (pcbs s cur) in
      if cur = 0 \<or> qp = 0 then Some (- 1, buffer, None, s)
      else if buffer = None \<or> max_length = 0 then Some (- 2, buffer, None, s)
      else if q_count (queues s qp) = 0 then Some (- 3, buffer, None, s)
      else
        do { (msg, q) \<leftarrow> queue_get (queues s qp);
             let copy_length = (if m_length msg < max_length then m_length msg else max_length);
             buf \<leftarrow> memcpy (the buffer) (m_data msg) (unat copy_length);
             Some (sint copy_length, Some buf, Some (m_sender msg), s\<lparr>queues := (queues s)(qp := q)\<rparr>) })"

definition process_has_messages :: "proc_state \<Rightarrow> int" where
  "process_has_messages s =
     (let cur = current_process s; qp = pr_msg_queue (pcbs s cur) in
      if cur = 0 \<or> qp = 0 then 0 else sint (q_count (queues s qp)))"

section \<open>User mode processes and the timer tick\<close>

definition pr_paging_op :: "(paging_state \<Rightarrow> ('a \<times> paging_state) option) \<Rightarrow> proc_state \<Rightarrow> ('a \<times> proc_state) option" where
  "pr_paging_op f s = do { (a, g) \<leftarrow> f (pr_paging s); Some (a, s\<lparr>pr_paging := g\<rparr>) }"

definition pr_alloc_page :: "proc_state \<Rightarrow> (u32 \<times> proc_state) option" where
  "pr_alloc_page = pr_paging_op (\<lambda>g. do { (a, q) \<leftarrow> pmm_alloc_page (pg_pmm g); Some (a, g\<lparr>pg_pmm := q\<rparr>) })"

definition pr_map_user :: "u32 \<Rightarrow> u32 \<Rightarrow> u32 \<Rightarrow> proc_state \<Rightarrow> proc_state option" where
  "pr_map_user dir virt phys s =
     do { g \<leftarrow> paging_map_user_code dir virt phys PAGE_SIZE (pr_paging s); Some (s\<lparr>pr_paging := g\<rparr>) }"

text \<open>\<open>code\<close> is the 4096 bytes, as words, found at the entry point.\<close>

definition process_create_user_mode :: "u8 list \<Rightarrow> (nat \<Rightarrow> u32) \<Rightarrow> u32 \<Rightarrow> u32 \<Rightarrow> u32 \<Rightarrow> proc_state \<Rightarrow> (u32 \<times> proc_state) option" where
  "process_create_user_mode name code wrapper stack_size priority s =
     do { (pid, s) \<leftarrow> process_create name wrapper stack_size s;
          let p = process_get pid s;
          if pid = 0 \<or> p = 0 then Some (0, s)
          else do { let s = upd_pcb p (\<lambda>b. b\<lparr>pr_is_user_mode := 1\<rparr>) s;
                    (stack_physical, s) \<leftarrow> pr_alloc_page s;
                    if stack_physical = 0 then do { (_, s) \<leftarrow> process_kill pid s; Some (0, s) }
                    else do { (dir, s) \<leftarrow> pr_paging_op paging_create_user_directory s;
                              let s = upd_pcb p (\<lambda>b. b\<lparr>pr_page_directory := dir\<rparr>) s;
                              if dir = 0 then do { (_, s) \<leftarrow> process_kill pid s; Some (0, s) }
                              else do { (code_physical, s) \<leftarrow> pr_alloc_page s;
                                        if code_physical = 0 then do { (_, s) \<leftarrow> process_kill pid s; Some (0, s) }
                                        else do { let s = s\<lparr>pr_paging := (pr_paging s)\<lparr>frames := (frames (pr_paging s))(code_physical := code)\<rparr>\<rparr>;
                                                  s \<leftarrow> pr_map_user dir USER_CODE_BASE code_physical s;
                                                  s \<leftarrow> pr_map_user dir (USER_STACK_BASE - PAGE_SIZE) stack_physical s;
                                                  Some (pid, upd_pcb p (\<lambda>b. b\<lparr>pr_user_stack := USER_STACK_BASE,
                                                    pr_priority := clamp_priority priority,
                                                    pr_cpu_state := (pr_cpu_state b)\<lparr>c_eip := USER_CODE_BASE, c_cs := 0x1B,
                                                      c_ds := 0x23, c_es := 0x23, c_fs := 0x23, c_gs := 0x23, c_ss := 0x23\<rparr>\<rparr>) s) } } } } }"

text \<open>The timer interrupt (\<open>timer.c\<close>): count, wake sleepers, schedule every tenth tick.\<close>

definition timer_handler :: "proc_state \<Rightarrow> bool \<times> proc_state" where
  "timer_handler s =
     (let s = process_check_sleeping (s\<lparr>system_ticks := system_ticks s + 1\<rparr>) in
      if system_ticks s mod 10 = 0 then process_schedule s else (False, s))"

section \<open>Message queues are bounded FIFO queues\<close>

type_synonym msg = "u32 \<times> u8 list" \<comment> \<open>sender and contents\<close>

definition msg_of :: "ipc_message_t \<Rightarrow> msg" where
  "msg_of m = (m_sender m, take (unat (m_length m)) (m_data m))"

definition q_msgs :: "message_queue_t \<Rightarrow> msg list" where
  "q_msgs q = map (\<lambda>k. msg_of (messages q ! ((unat (q_head q) + k) mod 8))) [0..<unat (q_count q)]"

definition q_ok :: "message_queue_t \<Rightarrow> bool" where
  "q_ok q \<longleftrightarrow> length (messages q) = 8 \<and> (\<forall>m\<in>set (messages q). length (m_data m) = 256) \<and>
     unat (q_head q) < 8 \<and> unat (q_count q) \<le> 8 \<and> unat (q_tail q) = (unat (q_head q) + unat (q_count q)) mod 8 \<and>
     (\<forall>k < unat (q_count q). m_length (messages q ! ((unat (q_head q) + k) mod 8)) \<le> MAX_MESSAGE_SIZE)"

definition msg_ok :: "msg \<Rightarrow> bool" where
  "msg_ok m \<longleftrightarrow> length (snd m) \<le> 256"

lemma memcpy_list: "n \<le> length d \<Longrightarrow> n \<le> length c \<Longrightarrow> memcpy d c n = Some (take n c @ drop n d)"
  by (induction d c n rule: memcpy.induct) auto

lemma unat_succ_mod_8: "unat (x :: u32) < 8 \<Longrightarrow> unat ((x + 1) mod 8) = (unat x + 1) mod 8"
  by (simp add: unat_mod unat_add_u32)

lemma slots_distinct:
  assumes "k < c" and "(c :: nat) < 8"
  shows "(h + k) mod 8 \<noteq> (h + c) mod 8"
proof
  assume "(h + k) mod 8 = (h + c) mod 8"
  then have "8 dvd (h + c) - (h + k)" using assms(1) by (metis mod_eq_dvd_iff_nat nat_add_left_cancel_le less_imp_le)
  then have "8 dvd c - k" by simp
  then have "8 \<le> c - k" using assms(1) by (intro dvd_imp_le) auto
  then show False using assms(2) by simp
qed

lemma queue_put_law:
  assumes "q_ok q" and "msg_ok m" and "length (q_msgs q) < 8"
  shows "\<exists>q'. queue_put (fst m) (snd m) q = Some q' \<and> q_ok q' \<and> q_msgs q' = q_msgs q @ [m]"
proof -
  let ?h = "unat (q_head q)" and ?c = "unat (q_count q)" and ?t = "unat (q_tail q)" and ?b = "snd m"
  have c: "?c < 8" using assms(3) by (simp add: q_msgs_def)
  have t: "?t < 8" "?t = (?h + ?c) mod 8" using assms(1) by (auto simp: q_ok_def)
  have l: "length (messages q) = 8" "length (m_data (messages q ! ?t)) = 256" using assms(1) t(1) by (auto simp: q_ok_def)
  have b: "length ?b \<le> 256" using assms(2) by (simp add: msg_ok_def)
  let ?m = "\<lparr>m_sender = fst m, m_data = ?b @ drop (length ?b) (m_data (messages q ! ?t)), m_length = of_nat (length ?b)\<rparr>"
  let ?q = "q\<lparr>messages := (messages q)[?t := ?m], q_tail := (q_tail q + 1) mod 8, q_count := q_count q + 1\<rparr>"
  have put: "queue_put (fst m) ?b q = Some ?q"
    using t(1) l b memcpy_list [of "length ?b" "m_data (messages q ! ?t)" ?b] by (simp add: queue_put_def Let_def)
  have c1: "unat (q_count q + 1) = ?c + 1" using c by (simp add: unat_add_u32)
  have "unat ((q_tail q + 1) mod 8) = (?h + ?c + 1) mod 8" using unat_succ_mod_8 [OF t(1)] t(2) by (simp add: mod_Suc_eq)
  moreover have "\<forall>x\<in>set ((messages q)[?t := ?m]). length (m_data x) = 256"
    using set_update_subset_insert [of "messages q" ?t ?m] assms(1) l b by (fastforce simp: q_ok_def)
  moreover note tl_data = calculation
  have un: "unat (of_nat (length ?b) :: u32) = length ?b" using b by (intro unat_of_nat_u32) simp
  have new: "msg_of (messages ?q ! ((?h + ?c) mod 8)) = m"
    using t l(1) un by (simp add: msg_of_def)
  have old: "messages ?q ! ((?h + k) mod 8) = messages q ! ((?h + k) mod 8)" if "k < ?c" for k
  proof -
    have "(?h + k) mod 8 \<noteq> (?h + ?c) mod 8" by (rule slots_distinct [OF that c])
    then show ?thesis using t(2) by simp
  qed
  have "m_length (messages ?q ! ((?h + k) mod 8)) \<le> 256" if "k < ?c + 1" for k
  proof (cases "k = ?c")
    case True
    then show ?thesis using t l(1) b by (simp add: word_le_nat_alt un)
  next
    case False
    then have "k < ?c" using that by simp
    then show ?thesis using old [of k] assms(1) by (simp add: q_ok_def)
  qed
  then have ok: "q_ok ?q" using tl_data assms(1) c c1 l by (simp add: q_ok_def)
  have "q_msgs ?q = q_msgs q @ [m]" using c1 new old by (simp add: q_msgs_def)
  then show ?thesis using put ok by blast
qed

lemma queue_get_law:
  assumes "q_ok q" and "q_msgs q = m # ms"
  shows "\<exists>x q'. queue_get q = Some (x, q') \<and> msg_of x = m \<and> q_ok q' \<and> q_msgs q' = ms \<and>
    length (m_data x) = 256 \<and> m_length x \<le> MAX_MESSAGE_SIZE"
proof -
  let ?h = "unat (q_head q)" and ?c = "unat (q_count q)"
  have "length (q_msgs q) = ?c" by (simp add: q_msgs_def)
  then have c: "0 < ?c" "?c = Suc (length ms)" using assms(2) by auto
  have h: "?h < 8" "length (messages q) = 8" "?c \<le> 8" using assms(1) by (auto simp: q_ok_def)
  let ?q = "q\<lparr>q_head := (q_head q + 1) mod 8, q_count := q_count q - 1\<rparr>"
  have get: "queue_get q = Some (messages q ! ?h, ?q)" using h by (simp add: queue_get_def Let_def)
  have h1: "unat ((q_head q + 1) mod 8) = (?h + 1) mod 8" by (rule unat_succ_mod_8 [OF h(1)])
  have c1: "unat (q_count q - 1) = ?c - 1" using c by (simp add: unat_sub_u32)
  have "((?h + 1) mod 8 + (?c - 1)) mod 8 = (?h + 1 + (?c - 1)) mod 8" by (rule mod_add_left_eq)
  then have "((?h + 1) mod 8 + (?c - 1)) mod 8 = (?h + ?c) mod 8" using c(2) by simp
  moreover have sh: "((?h + 1) mod 8 + k) mod 8 = (?h + Suc k) mod 8" for k by (simp add: mod_add_left_eq)
  moreover have "m_length (messages q ! ((?h + Suc k) mod 8)) \<le> 256" if "k < ?c - 1" for k
  proof -
    have "Suc k < ?c" using that by simp
    then show ?thesis using assms(1) unfolding q_ok_def by blast
  qed
  ultimately have ok: "q_ok ?q" using assms(1) h1 c1 h by (simp add: q_ok_def)
  have "q_msgs q = msg_of (messages q ! (?h mod 8)) # q_msgs ?q"
    using c(2) c1 h1 sh by (simp add: q_msgs_def upt_conv_Cons map_Suc_upt [symmetric] del: upt_Suc)
  moreover have "length (m_data (messages q ! ?h)) = 256" using assms(1) h by (simp add: q_ok_def)
  moreover have "m_length (messages q ! ?h) \<le> 256"
    using assms(1) c(1) h(1) unfolding q_ok_def by (metis add_0_right mod_less)
  ultimately show ?thesis using get assms(2) ok h by auto
qed

interpretation ipc: bounded_queue "\<lambda>m. queue_put (fst m) (snd m)" "\<lambda>q. map_option (apfst msg_of) (queue_get q)" q_msgs q_ok msg_ok 8
proof (unfold_locales, goal_cases)
  case (1 q m)
  then show ?case by (rule queue_put_law)
next
  case (2 q m ms)
  then show ?case using queue_get_law [of q m ms] by fastforce
qed

section \<open>What the scheduler picks\<close>

definition ready_at :: "proc_state \<Rightarrow> nat \<Rightarrow> bool" where
  "ready_at s i \<longleftrightarrow> process_table s ! i \<noteq> 0 \<and> pr_state (pcbs s (process_table s ! i)) = READY"

definition prio_at :: "proc_state \<Rightarrow> nat \<Rightarrow> u32" where
  "prio_at s i = pr_priority (pcbs s (process_table s ! i))"

text \<open>The ready slots below \<open>n\<close> that have the highest priority among them.\<close>

definition top_slots :: "proc_state \<Rightarrow> nat \<Rightarrow> nat set" where
  "top_slots s n = {i. i < n \<and> ready_at s i \<and> (\<forall>k < n. ready_at s k \<longrightarrow> prio_at s k \<le> prio_at s i)}"

definition cur_slot :: "proc_state \<Rightarrow> nat option" where
  "cur_slot s = (if current_process s = 0 then None else first_index (current_process s) (process_table s) 0)"

definition pick_slot :: "nat option \<Rightarrow> nat set \<Rightarrow> nat" where
  "pick_slot c A = (case c of None \<Rightarrow> Min A | Some j \<Rightarrow> if j < Max A then Max A else Min A)"

lemma finite_top_slots [simp]: "finite (top_slots s n)"
  by (simp add: top_slots_def)

lemma top_slots_empty: "top_slots s n = {} \<longleftrightarrow> (\<forall>i < n. \<not> ready_at s i)"
proof
  assume e: "top_slots s n = {}"
  show "\<forall>i < n. \<not> ready_at s i"
  proof (rule ccontr)
    assume "\<not> (\<forall>i < n. \<not> ready_at s i)"
    then have ne: "{i. i < n \<and> ready_at s i} \<noteq> {}" by auto
    define hp where "hp = Max (prio_at s ` {i. i < n \<and> ready_at s i})"
    have "hp \<in> prio_at s ` {i. i < n \<and> ready_at s i}" unfolding hp_def using ne by (intro Max_in) auto
    then obtain i where i: "i < n" "ready_at s i" "prio_at s i = hp" by auto
    then have "i \<in> top_slots s n" by (auto simp: top_slots_def hp_def intro!: Max_ge)
    with e show False by simp
  qed
qed (auto simp: top_slots_def)

lemma pick_slot_in: "finite A \<Longrightarrow> A \<noteq> {} \<Longrightarrow> pick_slot c A \<in> A"
  by (auto simp: pick_slot_def split: option.splits)

lemma top_slots_Suc:
  "top_slots s (Suc n) =
     (if \<not> ready_at s n then top_slots s n
      else if top_slots s n = {} then {n}
      else let hp = prio_at s (pick_slot c (top_slots s n)) in
        if hp < prio_at s n then {n} else if prio_at s n = hp then insert n (top_slots s n) else top_slots s n)"
proof -
  let ?p = "pick_slot c (top_slots s n)"
  have pin: "?p \<in> top_slots s n" if "top_slots s n \<noteq> {}" by (rule pick_slot_in [OF finite_top_slots that])
  consider "\<not> ready_at s n" | "ready_at s n" "top_slots s n = {}"
    | "ready_at s n" "top_slots s n \<noteq> {}" by blast
  then show ?thesis
  proof cases
    case 2
    then have "\<forall>i < n. \<not> ready_at s i" by (simp only: top_slots_empty)
    then show ?thesis using 2 by (auto simp: top_slots_def less_Suc_eq)
  next
    case 3
    have p: "?p < n" "ready_at s ?p" "\<forall>k < n. ready_at s k \<longrightarrow> prio_at s k \<le> prio_at s ?p"
      using pin [OF 3(2)] by (auto simp: top_slots_def)
    have eq: "i \<in> top_slots s n \<longleftrightarrow> i < n \<and> ready_at s i \<and> prio_at s i = prio_at s ?p" for i
      using p by (auto simp: top_slots_def intro: antisym)
    have mem: "i \<in> top_slots s (Suc n) \<longleftrightarrow> i < Suc n \<and> ready_at s i \<and> prio_at s ?p \<le> prio_at s i \<and> prio_at s n \<le> prio_at s i" for i
      using p 3(1) by (auto simp: top_slots_def less_Suc_eq intro: order_trans)
    show ?thesis
      using 3 p unfolding Let_def set_eq_iff by (auto simp: mem eq less_Suc_eq not_less intro: antisym dest: leD)
  qed (auto simp: top_slots_def less_Suc_eq)
qed

lemma sched_fold:
  "fold (sched_step s) [0..<n] (0, 0) =
     (if top_slots s n = {} then (0, 0)
      else (process_table s ! pick_slot (cur_slot s) (top_slots s n), prio_at s (pick_slot (cur_slot s) (top_slots s n))))"
proof (induction n)
  case 0
  then show ?case by (simp add: top_slots_def)
next
  case (Suc n)
  let ?A = "top_slots s n" and ?c = "cur_slot s"
  let ?p = "pick_slot ?c ?A"
  have step: "fold (sched_step s) [0..<Suc n] (0, 0) = sched_step s n (fold (sched_step s) [0..<n] (0, 0))" by simp
  note top = top_slots_Suc [of s n ?c]
  show ?case
  proof (cases "ready_at s n")
    case False
    then have "sched_step s n x = x" for x by (cases x) (auto simp: sched_step_def ready_at_def Let_def)
    then show ?thesis using step Suc False top by simp
  next
    case True
    then have p0: "process_table s ! n \<noteq> 0" and st: "pr_state (pcbs s (process_table s ! n)) = READY"
      by (auto simp: ready_at_def)
    show ?thesis
    proof (cases "?A = {}")
      case A: True
      have "top_slots s (Suc n) = {n}" using top True A by simp
      then show ?thesis using step Suc A p0 st by (simp add: sched_step_def Let_def prio_at_def pick_slot_def split: option.splits)
    next
      case A: False
      have pin: "?p \<in> ?A" by (rule pick_slot_in [OF finite_top_slots A])
      then have p: "?p < n" "process_table s ! ?p \<noteq> 0" by (auto simp: top_slots_def ready_at_def)
      have lt: "Max ?A < n" using Max_in [OF finite_top_slots A] by (simp add: top_slots_def)
      consider "prio_at s ?p < prio_at s n" | "prio_at s n = prio_at s ?p" | "prio_at s n < prio_at s ?p" by (meson linorder_neqE)
      then show ?thesis
      proof cases
        case 1
        then have "top_slots s (Suc n) = {n}" using top True A by (simp add: Let_def)
        then show ?thesis using step Suc A p0 st 1
          by (simp add: sched_step_def Let_def prio_at_def pick_slot_def split: option.splits)
      next
        case 2
        then have B: "top_slots s (Suc n) = insert n ?A" using top True A by (simp add: Let_def)
        have mx: "Max (insert n ?A) = n" unfolding Max_insert [OF finite_top_slots A] using lt by (rule max_absorb1 [OF less_imp_le])
        have mn: "Min (insert n ?A) = Min ?A"
          unfolding Min_insert [OF finite_top_slots A]
          using Min_in [OF finite_top_slots A] by (intro min_absorb2) (simp add: top_slots_def)
        have pk: "pick_slot ?c (insert n ?A) = (case ?c of Some j \<Rightarrow> if j < n then n else ?p | None \<Rightarrow> ?p)"
          using mx mn lt by (auto simp: pick_slot_def split: option.splits)
        have "sched_step s n (process_table s ! ?p, prio_at s ?p) =
            (process_table s ! pick_slot ?c (insert n ?A), prio_at s ?p)"
          unfolding pk using p(2) p0 st 2 by (auto simp: sched_step_def Let_def prio_at_def cur_slot_def split: option.splits)
        moreover have "prio_at s (pick_slot ?c (insert n ?A)) = prio_at s ?p"
          unfolding pk using 2 by (auto split: option.splits)
        ultimately show ?thesis using step Suc A B by simp
      next
        case 3
        then have "\<not> prio_at s ?p < prio_at s n" "prio_at s n \<noteq> prio_at s ?p" by auto
        then have "top_slots s (Suc n) = ?A" using top True A by (simp add: Let_def)
        then show ?thesis using step Suc A p0 p(2) st 3 by (auto simp: sched_step_def Let_def prio_at_def)
      qed
    qed
  qed
qed

lemma sched_pick_eq:
  "sched_pick s = (if top_slots s 16 = {} then 0 else process_table s ! pick_slot (cur_slot s) (top_slots s 16))"
  unfolding sched_pick_def sched_fold by simp

text \<open>The state in which the scheduler looks for the next process: a running current process is ready again.\<close>

definition demote :: "proc_state \<Rightarrow> proc_state" where
  "demote s = (let cur = current_process s in
     if cur \<noteq> 0 \<and> pr_state (pcbs s cur) = RUNNING then upd_pcb cur (\<lambda>b. b\<lparr>pr_state := READY\<rparr>) s else s)"

lemma upd_pcb_simps [simp]:
  "process_table (upd_pcb p f s) = process_table s" "current_process (upd_pcb p f s) = current_process s"
  "idle_process (upd_pcb p f s) = idle_process s" "process_count_val (upd_pcb p f s) = process_count_val s"
  "pr_heap (upd_pcb p f s) = pr_heap s" "pr_paging (upd_pcb p f s) = pr_paging s" "queues (upd_pcb p f s) = queues s"
  "next_pid (upd_pcb p f s) = next_pid s" "system_ticks (upd_pcb p f s) = system_ticks s"
  "pcbs (upd_pcb p f s) q = (if q = p then f (pcbs s p) else pcbs s q)"
  by (simp_all add: upd_pcb_def)

lemma demote_simps [simp]:
  "process_table (demote s) = process_table s" "current_process (demote s) = current_process s"
  "idle_process (demote s) = idle_process s" "process_count_val (demote s) = process_count_val s"
  "pr_heap (demote s) = pr_heap s"
  by (simp_all add: demote_def Let_def)

definition sched_next :: "proc_state \<Rightarrow> u32" where
  "sched_next s = (if top_slots s 16 = {} then idle_process s else process_table s ! pick_slot (cur_slot s) (top_slots s 16))"

lemma process_schedule_next:
  assumes "process_count_val s \<noteq> 0"
  defines "n \<equiv> sched_next (demote s)" and "s' \<equiv> snd (process_schedule s)"
  shows "current_process s' = n" and "pr_state (pcbs s' n) = RUNNING" and "fst (process_schedule s) = (n \<noteq> current_process s)"
    and "process_table s' = process_table s" and "process_count_val s' = process_count_val s" and "pr_heap s' = pr_heap s"
    and "idle_process s' = idle_process s"
    and "\<forall>q. q \<noteq> n \<longrightarrow> pcbs s' q = pcbs (demote s) q"
proof -
  have nz: "process_table (demote s) ! pick_slot (cur_slot (demote s)) (top_slots (demote s) 16) \<noteq> 0"
    if "top_slots (demote s) 16 \<noteq> {}"
    using pick_slot_in [OF finite_top_slots that] by (fastforce simp: top_slots_def ready_at_def)
  have n: "(if sched_pick (demote s) = 0 then idle_process (demote s) else sched_pick (demote s)) = n"
    using nz by (simp add: sched_pick_eq n_def sched_next_def)
  show "current_process s' = n" "pr_state (pcbs s' n) = RUNNING" "fst (process_schedule s) = (n \<noteq> current_process s)"
    "process_table s' = process_table s" "process_count_val s' = process_count_val s" "pr_heap s' = pr_heap s"
    "idle_process s' = idle_process s" "\<forall>q. q \<noteq> n \<longrightarrow> pcbs s' q = pcbs (demote s) q"
    using assms(1) n by (auto simp: process_schedule_def s'_def Let_def demote_def [unfolded Let_def, symmetric])
qed

text \<open>The table has 16 slots and no process is in two of them.\<close>

definition table_ok :: "proc_state \<Rightarrow> bool" where
  "table_ok s \<longleftrightarrow> length (process_table s) = 16 \<and>
     (\<forall>i < 16. \<forall>j < 16. process_table s ! i = process_table s ! j \<and> process_table s ! i \<noteq> 0 \<longrightarrow> i = j)"

text \<open>An example: the idle process in slot 0 and three processes of equal priority, the first one running.\<close>

definition demo_pcb :: "u32 \<Rightarrow> process_t" where
  "demo_pcb p = \<lparr>pr_pid = p div 0x1000 - 1, pr_name = replicate 32 0, pr_state = (if p = 0x2000 then RUNNING else READY),
     pr_cpu_state = \<lparr>c_eax = 0, c_ebx = 0, c_ecx = 0, c_edx = 0, c_esi = 0, c_edi = 0, c_esp = 0, c_ebp = 0, c_eip = 0, c_eflags = 0, c_cr3 = 0,
       c_cs = 0, c_ds = 0, c_es = 0, c_fs = 0, c_gs = 0, c_ss = 0\<rparr>, pr_stack_base = 0, pr_stack_size = 4096, pr_user_stack = 0, pr_kernel_stack = 0,
     pr_is_user_mode = 0, pr_priority = (if p = 0x1000 then 0 else 5), pr_time_slice = 10, pr_total_time = 0,
     pr_wake_time = 0, pr_msg_queue = p + 0x100, pr_page_directory = 0, pr_next = 0\<rparr>"

definition empty_queue :: message_queue_t where
  "empty_queue = \<lparr>messages = replicate 8 \<lparr>m_sender = 0, m_data = replicate 256 0, m_length = 0\<rparr>, q_head = 0, q_tail = 0, q_count = 0\<rparr>"

definition demo_procs :: proc_state where
  "demo_procs = \<lparr>process_table = [0x1000, 0x2000, 0x3000, 0x4000] @ replicate 12 0, process_count_val = 4, next_pid = 4,
     current_process = 0x2000, idle_process = 0x1000, pcbs = demo_pcb, queues = (\<lambda>_. empty_queue),
     pr_heap = zero_heap, pr_paging = boot_paging boot_pmm, system_ticks = 0, tss_esp0 = 0, switch_log = []\<rparr>"

lemma demo_table: "4 \<le> k \<Longrightarrow> k < 16 \<Longrightarrow> process_table demo_procs ! k = 0"
  by (simp add: demo_procs_def nth_append nth_Cons')

lemma demo_table_simps [simp]:
  "process_table demo_procs ! 0 = 0x1000" "process_table demo_procs ! Suc 0 = 0x2000"
  "process_table demo_procs ! 2 = 0x3000" "process_table demo_procs ! 3 = 0x4000"
  by (simp_all add: demo_procs_def nth_append numeral_3_eq_3)

lemma demo_fields [simp]:
  "current_process demo_procs = 0x2000" "pcbs demo_procs = demo_pcb" "process_count_val demo_procs = 4"
  "idle_process demo_procs = 0x1000" "length (process_table demo_procs) = 16" "pr_heap demo_procs = zero_heap"
  "queues demo_procs = (\<lambda>_. empty_queue)"
  by (simp_all add: demo_procs_def)

lemma demo_ready:
  "ready_at (demote demo_procs) k \<longleftrightarrow> process_table demo_procs ! k \<noteq> 0"
  "prio_at (demote demo_procs) k = (if process_table demo_procs ! k = 0x1000 then 0 else 5)"
  by (auto simp: ready_at_def prio_at_def demote_def Let_def demo_pcb_def)

lemma demo_top: "{1, 2, 3} \<subseteq> top_slots (demote demo_procs) 16"
proof -
  have "\<forall>k < 16. ready_at (demote demo_procs) k \<longrightarrow> prio_at (demote demo_procs) k \<le> 5" by (simp add: demo_ready)
  then show ?thesis by (simp add: top_slots_def demo_ready)
qed

lemma demo_table_ok: "table_ok demo_procs"
proof -
  have z: "process_table demo_procs ! i = 0" if "i < 16" "i \<notin> {0, 1, 2, 3}" for i
    using that by (intro demo_table) auto
  have "i = j" if "i < 16" "j < 16" "process_table demo_procs ! i = process_table demo_procs ! j"
    "process_table demo_procs ! i \<noteq> 0" for i j
  proof -
    have "i \<in> {0, 1, 2, 3}" "j \<in> {0, 1, 2, 3}" using that z [of i] z [of j] by auto
    then show ?thesis using that(3) by auto
  qed
  then show ?thesis by (auto simp: table_ok_def)
qed

section \<open>Properties of scheduling\<close>

text \<open>C19: The scheduler hands the processor to a ready process of the highest priority, to the idle
  process when none is ready, marks it running and switches exactly when it is not the current one.\<close>

theorem schedule_highest_priority:
  assumes "process_count_val s \<noteq> 0"
  shows "\<exists>b s'. process_schedule s = (b, s') \<and> (b \<longleftrightarrow> current_process s' \<noteq> current_process s) \<and>
    pr_state (pcbs s' (current_process s')) = RUNNING \<and>
    (if \<forall>i < 16. \<not> ready_at (demote s) i then current_process s' = idle_process s
     else \<exists>i < 16. ready_at (demote s) i \<and> current_process s' = process_table s ! i \<and>
       (\<forall>k < 16. ready_at (demote s) k \<longrightarrow> prio_at (demote s) k \<le> prio_at (demote s) i))"
proof -
  note n = process_schedule_next [OF assms]
  show ?thesis
  proof (cases "top_slots (demote s) 16 = {}")
    case True
    then have "\<forall>i < 16. \<not> ready_at (demote s) i" by (simp only: top_slots_empty)
    then show ?thesis using n True by (cases "process_schedule s") (simp add: sched_next_def)
  next
    case False
    let ?i = "pick_slot (cur_slot (demote s)) (top_slots (demote s) 16)"
    have i: "?i \<in> top_slots (demote s) 16" by (rule pick_slot_in [OF finite_top_slots False])
    moreover have "\<not> (\<forall>i < 16. \<not> ready_at (demote s) i)" using False top_slots_empty [of "demote s" 16] by blast
    moreover have "sched_next (demote s) = process_table s ! ?i" using False by (simp add: sched_next_def)
    ultimately show ?thesis using n by (cases "process_schedule s") (auto simp: top_slots_def)
  qed
qed

text \<open>C23: The tie-break is not round robin: of the ready processes of the highest priority only the one in
  the lowest and the one in the highest table slot are ever chosen, so any process between them starves.\<close>

theorem schedule_middle_starves:
  assumes "process_count_val s \<noteq> 0" and "table_ok s"
    and "{a, i, b} \<subseteq> top_slots (demote s) 16" and "a < i" and "i < b"
  shows "current_process (snd (process_schedule s)) \<noteq> process_table s ! i"
proof -
  let ?A = "top_slots (demote s) 16"
  have A: "?A \<noteq> {}" "a \<in> ?A" "i \<in> ?A" "b \<in> ?A" using assms(3) by auto
  let ?k = "pick_slot (cur_slot (demote s)) ?A"
  have "Min ?A \<le> a" "b \<le> Max ?A" using A by simp_all
  then have "?k \<noteq> i" using assms(4,5) by (auto simp: pick_slot_def split: option.splits)
  moreover have "?k < 16" "i < 16" "process_table s ! i \<noteq> 0"
    using pick_slot_in [OF finite_top_slots A(1)] A(3) by (auto simp: top_slots_def ready_at_def)
  ultimately have "process_table s ! ?k \<noteq> process_table s ! i" using assms(2) unfolding table_ok_def by metis
  then show ?thesis using process_schedule_next(1) [OF assms(1)] A(1) by (simp add: sched_next_def)
qed

lemma schedule_highest_priority_witness:
  "process_count_val demo_procs \<noteq> 0 \<and> (\<exists>b s'. process_schedule demo_procs = (b, s') \<and> pr_state (pcbs s' (current_process s')) = RUNNING)"
  using schedule_highest_priority [of demo_procs] by auto

lemma schedule_middle_starves_witness:
  "current_process (snd (process_schedule demo_procs)) \<noteq> 0x3000"
  using schedule_middle_starves [of demo_procs 1 2 3] demo_table_ok demo_top by simp

section \<open>Properties of messages\<close>

definition sender_pid :: "proc_state \<Rightarrow> u32" where
  "sender_pid s = (if current_process s \<noteq> 0 then pr_pid (pcbs s (current_process s)) else 0)"

text \<open>C20: Sending to a process with a message queue appends the message with the sender's pid to that
  queue and touches no other queue. A receiver that is blocked with wake time 0 becomes ready; one that
  sleeps until a wake time stays blocked, and no other control block changes. A full queue gives -3 and
  changes nothing.\<close>

theorem send_message_appends:
  assumes "process_get t s = p" and "p \<noteq> 0" and "pr_msg_queue (pcbs s p) = qp" and "qp \<noteq> 0" and "q_ok (queues s qp)"
    and "0 < n" and "n \<le> MAX_MESSAGE_SIZE" and "unat n \<le> length m"
  shows "\<exists>rc s'. process_send_message t (Some m) n s = Some (rc, s') \<and>
    (if length (q_msgs (queues s qp)) < 8
     then rc = 0 \<and> q_ok (queues s' qp) \<and>
       q_msgs (queues s' qp) = q_msgs (queues s qp) @ [(sender_pid s, take (unat n) m)] \<and>
       (\<forall>x. x \<noteq> qp \<longrightarrow> queues s' x = queues s x) \<and>
       pcbs s' = (if pr_state (pcbs s p) = BLOCKED \<and> pr_wake_time (pcbs s p) = 0
         then (pcbs s)(p := (pcbs s p)\<lparr>pr_state := READY\<rparr>) else pcbs s)
     else rc = - 3 \<and> s' = s)"
proof -
  have len: "length (q_msgs (queues s qp)) = unat (q_count (queues s qp))" by (simp add: q_msgs_def)
  show ?thesis
  proof (cases "length (q_msgs (queues s qp)) < 8")
    case True
    have nf: "\<not> q_count (queues s qp) \<ge> 8" using True len by (simp add: word_le_nat_alt)
    have "msg_ok (sender_pid s, take (unat n) m)" using assms(7) by (simp add: msg_ok_def word_le_nat_alt)
    from queue_put_law [OF assms(5) this True] obtain q where
      q: "queue_put (sender_pid s) (take (unat n) m) (queues s qp) = Some q" "q_ok q"
        "q_msgs q = q_msgs (queues s qp) @ [(sender_pid s, take (unat n) m)]" by auto
    have ne: "n \<noteq> 0" "\<not> n > 256" using assms(6,7) by auto
    show ?thesis
      using True assms(1-4,8) ne nf q by (auto simp: process_send_message_def Let_def sender_pid_def)
  next
    case False
    then have "q_count (queues s qp) \<ge> 8" using len by (simp add: word_le_nat_alt)
    moreover have "n \<noteq> 0" "\<not> n > 256" using assms(6,7) by auto
    ultimately show ?thesis using False assms by (simp add: process_send_message_def Let_def)
  qed
qed

lemma empty_queue_ok: "q_ok empty_queue" "q_msgs empty_queue = []"
  by (simp_all add: q_ok_def empty_queue_def q_msgs_def)

lemma demo_get: "process_get 2 demo_procs = 0x3000"
  by (simp add: process_get_def demo_procs_def demo_pcb_def)

lemma send_message_appends_witness:
  "\<exists>s'. process_send_message 2 (Some [104, 105]) 2 demo_procs = Some (0, s') \<and>
     q_msgs (queues s' 0x3100) = [(1, [104, 105])] \<and> pr_state (pcbs s' 0x3000) = READY"
  using send_message_appends [of 2 demo_procs "0x3000" "0x3100" 2 "[104, 105]"] demo_get empty_queue_ok
  by (auto simp: demo_pcb_def sender_pid_def)

text \<open>C21: Receiving takes the oldest message: it copies the message, cut to the buffer size, reports the
  sender, and leaves the rest of the queue in order and every control block as it was. It never blocks,
  although \<open>process.h\<close> announces that it does: an empty queue gives -3 at once and changes nothing.\<close>

theorem receive_message_takes_oldest:
  assumes "current_process s = p" and "p \<noteq> 0" and "pr_msg_queue (pcbs s p) = qp" and "qp \<noteq> 0" and "q_ok (queues s qp)"
    and "0 < n" and "unat n \<le> length buf"
  shows "case q_msgs (queues s qp) of
      [] \<Rightarrow> process_receive_message (Some buf) n s = Some (- 3, Some buf, None, s)
    | (sender, text) # rest \<Rightarrow> \<exists>s'. process_receive_message (Some buf) n s =
          Some (int (min (length text) (unat n)), Some (take (unat n) text @ drop (min (length text) (unat n)) buf), Some sender, s') \<and>
        q_ok (queues s' qp) \<and> q_msgs (queues s' qp) = rest \<and> (\<forall>x. x \<noteq> qp \<longrightarrow> queues s' x = queues s x) \<and>
        pcbs s' = pcbs s"
proof (cases "q_msgs (queues s qp)")
  case Nil
  then have "unat (q_count (queues s qp)) = 0" by (simp add: q_msgs_def)
  then have "q_count (queues s qp) = 0" by (simp add: unat_eq_zero)
  then show ?thesis using Nil assms by (auto simp: process_receive_message_def Let_def)
next
  case (Cons m rest)
  have "length (q_msgs (queues s qp)) = unat (q_count (queues s qp))" by (simp add: q_msgs_def)
  then have c0: "q_count (queues s qp) \<noteq> 0" using Cons by auto
  from queue_get_law [OF assms(5) Cons] obtain x q' where x: "queue_get (queues s qp) = Some (x, q')" "msg_of x = m"
    "q_ok q'" "q_msgs q' = rest" "length (m_data x) = 256" "m_length x \<le> 256" by blast
  have l: "unat (m_length x) \<le> 256" "length (m_data x) = 256" using x(5,6) by (auto simp: word_le_nat_alt)
  let ?c = "if m_length x < n then m_length x else n"
  have uc: "unat ?c = min (unat (m_length x)) (unat n)" by (simp add: word_less_nat_alt)
  have cpy: "memcpy buf (m_data x) (unat ?c) = Some (take (unat ?c) (m_data x) @ drop (unat ?c) buf)"
    using uc l assms(7) by (intro memcpy_list) auto
  have sc: "sint ?c = int (unat ?c)" using uc l by (intro sint_small) simp
  have m: "m = (m_sender x, take (unat (m_length x)) (m_data x))" using x(2) by (simp add: msg_of_def)
  have lm: "length (snd m) = unat (m_length x)" using m l by simp
  have n0: "n \<noteq> 0" using assms(6) by auto
  have "process_receive_message (Some buf) n s =
      Some (sint ?c, Some (take (unat ?c) (m_data x) @ drop (unat ?c) buf), Some (m_sender x), s\<lparr>queues := (queues s)(qp := q')\<rparr>)"
    using assms(1-4) n0 c0 x(1) cpy by (simp add: process_receive_message_def Let_def)
  then show ?thesis
    using Cons m lm x(3,4) uc sc by (auto simp: min.commute)
qed

definition demo_inbox :: proc_state where
  "demo_inbox = demo_procs\<lparr>queues := (\<lambda>_. \<lparr>messages = (messages empty_queue)[0 := \<lparr>m_sender = 3, m_data = 65 # replicate 255 0, m_length = 1\<rparr>],
     q_head = 0, q_tail = 1, q_count = 1\<rparr>)\<rparr>"

lemma receive_message_takes_oldest_witness:
  "\<exists>s'. process_receive_message (Some [0, 0]) 2 demo_inbox = Some (1, Some [65, 0], Some 3, s') \<and> q_msgs (queues s' 0x2100) = []"
proof -
  let ?q = "queues demo_inbox 0x2100"
  have "length (messages ?q) = 8" by (simp add: demo_inbox_def empty_queue_def)
  moreover have m0: "messages ?q ! 0 = \<lparr>m_sender = 3, m_data = 65 # replicate 255 0, m_length = 1\<rparr>"
    by (simp add: demo_inbox_def empty_queue_def)
  moreover have "\<forall>m\<in>set (messages ?q). length (m_data m) = 256"
    using set_update_subset_insert [of "messages empty_queue" 0 "\<lparr>m_sender = 3, m_data = 65 # replicate 255 0, m_length = 1\<rparr>"]
    by (fastforce simp: demo_inbox_def empty_queue_def)
  moreover have hc: "q_head ?q = 0" "q_tail ?q = 1" "q_count ?q = 1" by (simp_all add: demo_inbox_def)
  ultimately have ok: "q_ok ?q" by (simp add: q_ok_def)
  have ms: "q_msgs ?q = [(3, [65])]" using hc m0 by (simp add: q_msgs_def msg_of_def)
  have f: "current_process demo_inbox = 0x2000" "pr_msg_queue (pcbs demo_inbox 0x2000) = 0x2100"
    by (simp_all add: demo_inbox_def demo_pcb_def)
  from receive_message_takes_oldest [OF f(1) _ f(2) _ ok, of 2 "[0, 0]"] show ?thesis
    unfolding ms by auto
qed

section \<open>Properties of sleeping\<close>

definition due :: "proc_state \<Rightarrow> u32 \<Rightarrow> bool" where
  "due s p \<longleftrightarrow> pr_state (pcbs s p) = BLOCKED \<and> pr_wake_time (pcbs s p) > 0 \<and> pr_wake_time (pcbs s p) \<le> system_ticks s"

lemma wake_slot_simps [simp]:
  "process_table (wake_slot i s) = process_table s" "system_ticks (wake_slot i s) = system_ticks s"
  "queues (wake_slot i s) = queues s" "pr_heap (wake_slot i s) = pr_heap s"
  by (simp_all add: wake_slot_def Let_def)

lemma fold_wake_slot:
  "process_table (fold wake_slot is s) = process_table s \<and> pcbs (fold wake_slot is s) p =
     (if p \<noteq> 0 \<and> due s p \<and> (\<exists>i\<in>set is. process_table s ! i = p)
      then (pcbs s p)\<lparr>pr_state := READY, pr_wake_time := 0\<rparr> else pcbs s p)"
proof (induction "is" arbitrary: s)
  case (Cons i "is")
  let ?s = "wake_slot i s"
  have d: "due ?s p \<longleftrightarrow> due s p \<and> \<not> (process_table s ! i = p \<and> p \<noteq> 0)"
    by (auto simp: wake_slot_def Let_def due_def)
  have m: "pcbs ?s p = (if process_table s ! i = p \<and> p \<noteq> 0 \<and> due s p then (pcbs s p)\<lparr>pr_state := READY, pr_wake_time := 0\<rparr> else pcbs s p)"
    by (auto simp: wake_slot_def Let_def due_def)
  show ?case using Cons [of ?s] d m by auto
qed simp

text \<open>The timer's check wakes exactly the processes of the table that are blocked with a nonzero wake time
  that has come, and changes no other control block; a process whose wake time wrapped to 0 is never
  woken by it.\<close>

theorem check_sleeping_exact:
  assumes "length (process_table s) = 16"
  shows "pcbs (process_check_sleeping s) p =
    (if p \<noteq> 0 \<and> p \<in> set (process_table s) \<and> pr_state (pcbs s p) = BLOCKED \<and> 0 < pr_wake_time (pcbs s p) \<and>
        pr_wake_time (pcbs s p) \<le> system_ticks s
     then (pcbs s p)\<lparr>pr_state := READY, pr_wake_time := 0\<rparr> else pcbs s p)"
proof -
  have "(\<exists>i\<in>set [0..<16]. process_table s ! i = p) \<longleftrightarrow> p \<in> set (process_table s)"
    using assms by (auto simp: in_set_conv_nth)
  then show ?thesis
    using fold_wake_slot [of "[0..<16]" s p] by (simp add: process_check_sleeping_def due_def)
qed

lemma check_sleeping_exact_witness:
  "pcbs (process_check_sleeping demo_procs) 0x3000 = demo_pcb 0x3000"
  using check_sleeping_exact [of demo_procs "0x3000"] by (simp add: demo_pcb_def)

section \<open>Properties of creation and termination\<close>

lemma pr_kmalloc_ok:
  assumes "heap_inv (pr_heap s)"
  obtains p h where "pr_kmalloc n s = Some (p, s\<lparr>pr_heap := h\<rparr>)" and "heap_inv h" and "p = 0 \<Longrightarrow> h = pr_heap s"
    and "p \<noteq> 0 \<Longrightarrow> p \<notin> owned (pr_heap s) \<and> owned h = insert p (owned (pr_heap s)) \<and>
      (n \<le> 0xFFFFFFEC \<longrightarrow> unat n \<le> room h p) \<and> (\<forall>q\<in>owned (pr_heap s). room h q = room (pr_heap s) q)"
proof -
  from kheap.alloc_law [OF assms, of n] obtain p h where "kmalloc n (pr_heap s) = Some (p, h)" "heap_inv h"
    "p = 0 \<Longrightarrow> h = pr_heap s" "p \<noteq> 0 \<Longrightarrow> p \<notin> owned (pr_heap s) \<and> owned h = insert p (owned (pr_heap s)) \<and>
      (n \<le> 0xFFFFFFEC \<longrightarrow> unat n \<le> room h p) \<and> (\<forall>q\<in>owned (pr_heap s). room h q = room (pr_heap s) q)"
    by (auto split: if_splits)
  then show ?thesis using that [of p h] by (simp add: pr_kmalloc_def)
qed

lemma pr_kfree_ok:
  assumes "heap_inv (pr_heap s)" and "p \<in> owned (pr_heap s)"
  shows "\<exists>h. pr_kfree p s = Some (s\<lparr>pr_heap := h\<rparr>) \<and> heap_inv h \<and> owned h = owned (pr_heap s) - {p}"
  using kheap.release_law [OF assms] by (auto simp: pr_kfree_def)

lemma poke32_SomeD:
  assumes "poke32 base a v s = Some t"
  shows "\<exists>h. t = s\<lparr>pr_heap := h\<rparr> \<and> heap_inv h = heap_inv (pr_heap s) \<and> owned h = owned (pr_heap s)"
  using assms heap_store_inv [of base a _ "pr_heap s"] by (auto simp: poke32_def bind_eq_Some_conv)

lemma poke32_ok:
  assumes "heap_inv (pr_heap s)" and "base \<in> owned (pr_heap s)" and "unat (a - base) + 4 \<le> room (pr_heap s) base"
  shows "\<exists>t. poke32 base a v s = Some t"
  using assms by (auto simp: poke32_def heap_store_ok)

lemma poke32_low: "unat a + 4 \<le> unat HEAP_START \<Longrightarrow> \<exists>t. poke32 0 a v s = Some t"
  by (simp add: poke32_def heap_store_def in_block_def)

text \<open>The control blocks in the table are heap blocks.\<close>

definition proc_ok :: "proc_state \<Rightarrow> bool" where
  "proc_ok s \<longleftrightarrow> length (process_table s) = 16 \<and> heap_inv (pr_heap s) \<and> set (process_table s) \<subseteq> insert 0 (owned (pr_heap s)) \<and>
     (\<forall>p. length (pr_name (pcbs s p)) = 32)"

lemma strncpy_name:
  assumes "length buf = 32" and "0 \<in> set name"
  shows "\<exists>f g. strncpy buf name 31 = Some f \<and> store f 31 0 = Some g \<and> length g = 32"
  using strncpy_loop_eq [OF assms(2), of buf 31] assms(1) by (auto simp: strncpy_def store_def)

lemma find_free_pcb:
  assumes "\<exists>i < 16. t ! i = (0 :: u32)"
  obtains i where "List.find (\<lambda>i. t ! i = 0) [0..<16] = Some i" and "i < 16" and "t ! i = 0"
proof (cases "List.find (\<lambda>i. t ! i = 0) [0..<16]")
  case None
  then show ?thesis using assms by (auto simp: find_None_iff)
next
  case (Some i)
  then show ?thesis using that find_SomeD [OF Some] by simp
qed

lemma enter_process_ok:
  assumes "\<exists>i < 16. process_table s ! i = 0" and "poke32 base (base + n - 4) entry s = Some t"
  obtains i s' where "enter_process p base entry n s = Some (pr_pid (pcbs s p), s')" and "i < 16" and "process_table s ! i = 0"
    and "process_table s' = (process_table s)[i := p]" and "process_count_val s' = process_count_val s + 1"
    and "current_process s' = current_process s" and "pr_paging s' = pr_paging s"
    and "heap_inv (pr_heap s') = heap_inv (pr_heap s)" and "owned (pr_heap s') = owned (pr_heap s)"
    and "pcbs s' = (pcbs s)(p := (pcbs s p)\<lparr>pr_page_directory := paging_get_directory (pr_paging s),
      pr_cpu_state := kernel_cpu_state entry (base + n - 4) (pr_cpu_state (pcbs s p))\<rparr>)"
proof -
  obtain i where i: "List.find (\<lambda>i. process_table s ! i = 0) [0..<16] = Some i" "i < 16" "process_table s ! i = 0"
    using assms(1) by (metis find_free_pcb)
  obtain h where h: "t = s\<lparr>pr_heap := h\<rparr>" "heap_inv h = heap_inv (pr_heap s)" "owned h = owned (pr_heap s)"
    using poke32_SomeD [OF assms(2)] by blast
  show ?thesis
    by (rule that [OF _ i(2,3)], simp add: enter_process_def assms(2) h(1) i(1) upd_pcb_def)
      (simp_all add: h upd_pcb_def)
qed

lemma process_create_run:
  assumes ok: "proc_ok s" and name: "0 \<in> set name"
  obtains (refused) s' where "process_create name entry n s = Some (0, s')" and "heap_inv (pr_heap s')"
      and "owned (pr_heap s') = owned (pr_heap s)" and "process_table s' = process_table s" and "process_count_val s' = process_count_val s"
  | (built) p base q s5 where "process_create name entry n s = enter_process p base entry n s5"
      and "process_table s5 = process_table s" and "process_count_val s5 = process_count_val s"
      and "current_process s5 = current_process s" and "pr_paging s5 = pr_paging s" and "heap_inv (pr_heap s5)"
      and "owned (pr_heap s5) = {p, base, q} \<union> owned (pr_heap s)" and "distinct [p, base, q]" and "0 \<notin> {p, base, q}"
      and "{p, base, q} \<inter> owned (pr_heap s) = {}" and "\<forall>x. x \<noteq> p \<longrightarrow> pcbs s5 x = pcbs s x"
      and "pr_pid (pcbs s5 p) = next_pid s \<and> pr_stack_base (pcbs s5 p) = base \<and> pr_msg_queue (pcbs s5 p) = q \<and> pr_is_user_mode (pcbs s5 p) = 0"
      and "n \<le> 0xFFFFFFEC \<Longrightarrow> unat n \<le> room (pr_heap s5) base"
proof (cases "process_count_val s \<ge> 16")
  case True
  then show ?thesis using refused [of s] ok by (simp add: process_create_def proc_ok_def)
next
  case cnt: False
  have h: "heap_inv (pr_heap s)" "\<And>p. length (pr_name (pcbs s p)) = 32" using ok by (auto simp: proc_ok_def)
  obtain p h1 where p: "pr_kmalloc SIZEOF_PCB s = Some (p, s\<lparr>pr_heap := h1\<rparr>)" "heap_inv h1" "p = 0 \<Longrightarrow> h1 = pr_heap s"
    "p \<noteq> 0 \<Longrightarrow> p \<notin> owned (pr_heap s) \<and> owned h1 = insert p (owned (pr_heap s))" by (rule pr_kmalloc_ok [OF h(1), where n = SIZEOF_PCB]) blast
  show ?thesis
  proof (cases "p = 0")
    case True
    then show ?thesis using refused [of s] cnt p h(1) by (simp add: process_create_def)
  next
    case p0: False
    have "heap_inv (pr_heap (s\<lparr>pr_heap := h1\<rparr>))" using p(2) by simp
    then obtain base h2 where b: "pr_kmalloc n (s\<lparr>pr_heap := h1\<rparr>) = Some (base, s\<lparr>pr_heap := h2\<rparr>)" "heap_inv h2" "base = 0 \<Longrightarrow> h2 = h1"
      "base \<noteq> 0 \<Longrightarrow> base \<notin> owned h1 \<and> owned h2 = insert base (owned h1) \<and> (n \<le> 0xFFFFFFEC \<longrightarrow> unat n \<le> room h2 base)"
      by (rule pr_kmalloc_ok [where n = n]) simp
    define s2 where "s2 = upd_pcb p (\<lambda>b. b\<lparr>pr_stack_base := base\<rparr>) (s\<lparr>pr_heap := h2\<rparr>)"
    show ?thesis
    proof (cases "base = 0")
      case True
      obtain h3 where "pr_kfree p s2 = Some (s2\<lparr>pr_heap := h3\<rparr>)" "heap_inv h3" "owned h3 = owned h1 - {p}"
        using pr_kfree_ok [of s2 p] p(4) [OF p0] b True by (auto simp: s2_def)
      then show ?thesis
        using refused [of "s2\<lparr>pr_heap := h3\<rparr>"] cnt p(1,4) p0 b(1) True by (simp add: process_create_def s2_def)
    next
      case b0: False
      obtain f g where fg: "strncpy (pr_name (pcbs s p)) name 31 = Some f" "store f 31 0 = Some g"
        using strncpy_name [OF h(2) name] by blast
      define s3 where "s3 = upd_pcb p (fill_pcb g (next_pid s) base n) (s2\<lparr>next_pid := next_pid s + 1\<rparr>)"
      have h3: "pr_heap s3 = h2" by (simp add: s3_def s2_def)
      then have "heap_inv (pr_heap s3)" using b(2) by simp
      then obtain q h3 where q: "pr_kmalloc SIZEOF_QUEUE s3 = Some (q, s3\<lparr>pr_heap := h3\<rparr>)" "heap_inv h3" "q = 0 \<Longrightarrow> h3 = h2"
        "q \<noteq> 0 \<Longrightarrow> q \<notin> owned h2 \<and> owned h3 = insert q (owned h2) \<and> (\<forall>x\<in>owned h2. room h3 x = room h2 x)"
        by (rule pr_kmalloc_ok [where n = SIZEOF_QUEUE]) (simp add: h3)
      define s4 where "s4 = upd_pcb p (\<lambda>b. b\<lparr>pr_msg_queue := q\<rparr>) (s3\<lparr>pr_heap := h3\<rparr>)"
      have pb: "p \<notin> owned (pr_heap s)" "base \<notin> owned (pr_heap s)" "base \<noteq> p" "owned h2 = {base, p} \<union> owned (pr_heap s)"
        using p(4) [OF p0] b(4) [OF b0] by auto
      show ?thesis
      proof (cases "q = 0")
        case True
        obtain h4 where h4: "pr_kfree base s4 = Some (s4\<lparr>pr_heap := h4\<rparr>)" "heap_inv h4" "owned h4 = owned h2 - {base}"
          using pr_kfree_ok [of s4 base] q True pb by (auto simp: s4_def)
        obtain h5 where h5: "pr_kfree p (s4\<lparr>pr_heap := h4\<rparr>) = Some (s4\<lparr>pr_heap := h5\<rparr>)" "heap_inv h5" "owned h5 = owned h4 - {p}"
          using pr_kfree_ok [of "s4\<lparr>pr_heap := h4\<rparr>" p] h4 pb by auto
        have "process_create name entry n s = Some (0, s4\<lparr>pr_heap := h5\<rparr>)"
          using cnt p(1) p0 b(1) b0 fg q(1) True h4(1) h5(1) by (simp add: process_create_def s2_def s3_def s4_def Let_def)
        moreover have "owned h5 = owned (pr_heap s)" using h4(3) h5(3) pb by auto
        ultimately show ?thesis
          using refused [of "s4\<lparr>pr_heap := h5\<rparr>"] h5(2) by (simp add: s4_def s3_def s2_def)
      next
        case q0: False
        define s5 where "s5 = s4\<lparr>queues := (queues s4)(q := (queues s4 q)\<lparr>q_head := 0, q_tail := 0, q_count := 0\<rparr>)\<rparr>"
        have "process_create name entry n s = enter_process p base entry n s5"
          using cnt p(1) p0 b(1) b0 fg q(1) q0 by (simp add: process_create_def s2_def s3_def s4_def s5_def Let_def)
        moreover have "pr_pid (pcbs s5 p) = next_pid s \<and> pr_stack_base (pcbs s5 p) = base \<and> pr_msg_queue (pcbs s5 p) = q \<and> pr_is_user_mode (pcbs s5 p) = 0"
          by (simp add: s5_def s4_def s3_def s2_def fill_pcb_def)
        moreover have "owned h3 = {p, base, q} \<union> owned (pr_heap s)" "distinct [p, base, q]" "{p, base, q} \<inter> owned (pr_heap s) = {}"
          "n \<le> 0xFFFFFFEC \<longrightarrow> unat n \<le> room h3 base"
          using pb q(4) [OF q0] b(4) [OF b0] by auto
        ultimately show ?thesis
          using built [where p = p and base = base and q = q and ?s5.0 = s5] q(2) p0 b0 q0 by (simp add: s5_def s4_def s3_def s2_def)
      qed
    qed
  qed
qed

lemma process_create_ok:
  assumes ok: "proc_ok s" and name: "0 \<in> set name" and slot: "\<exists>i < 16. process_table s ! i = 0"
    and cr: "process_create name entry n s = Some (pid, s')" and pid: "pid \<noteq> 0"
  obtains p base q i where "pid = next_pid s" and "i < 16" and "process_table s ! i = 0"
    and "process_table s' = (process_table s)[i := p]" and "process_count_val s' = process_count_val s + 1"
    and "current_process s' = current_process s" and "pr_paging s' = pr_paging s" and "heap_inv (pr_heap s')"
    and "owned (pr_heap s') = {p, base, q} \<union> owned (pr_heap s)" and "distinct [p, base, q]" and "0 \<notin> {p, base, q}"
    and "{p, base, q} \<inter> owned (pr_heap s) = {}" and "\<forall>x. x \<noteq> p \<longrightarrow> pcbs s' x = pcbs s x"
    and "pr_pid (pcbs s' p) = pid \<and> pr_stack_base (pcbs s' p) = base \<and> pr_msg_queue (pcbs s' p) = q \<and> pr_is_user_mode (pcbs s' p) = 0"
proof (rule process_create_run [OF ok name, of entry n])
  fix s1 assume "process_create name entry n s = Some (0, s1)"
  then show ?thesis using cr pid by simp
next
  fix p base q s5
  assume run: "process_create name entry n s = enter_process p base entry n s5" and t: "process_table s5 = process_table s"
    and c: "process_count_val s5 = process_count_val s" "current_process s5 = current_process s" "pr_paging s5 = pr_paging s"
    and h: "heap_inv (pr_heap s5)" "owned (pr_heap s5) = {p, base, q} \<union> owned (pr_heap s)" "distinct [p, base, q]" "0 \<notin> {p, base, q}"
    "{p, base, q} \<inter> owned (pr_heap s) = {}" and o: "\<forall>x. x \<noteq> p \<longrightarrow> pcbs s5 x = pcbs s x"
    and m: "pr_pid (pcbs s5 p) = next_pid s \<and> pr_stack_base (pcbs s5 p) = base \<and> pr_msg_queue (pcbs s5 p) = q \<and> pr_is_user_mode (pcbs s5 p) = 0"
  obtain u where u: "poke32 base (base + n - 4) entry s5 = Some u"
    using run cr by (cases "poke32 base (base + n - 4) entry s5") (auto simp: enter_process_def)
  have slot5: "\<exists>i < 16. process_table s5 ! i = 0" using slot t by simp
  show ?thesis
  proof (rule enter_process_ok [OF slot5 u, of p])
    fix i s2
    assume e: "enter_process p base entry n s5 = Some (pr_pid (pcbs s5 p), s2)" and "i < 16" "process_table s5 ! i = 0"
      "process_table s2 = (process_table s5)[i := p]" "process_count_val s2 = process_count_val s5 + 1"
      "current_process s2 = current_process s5" "pr_paging s2 = pr_paging s5" "heap_inv (pr_heap s2) = heap_inv (pr_heap s5)"
      "owned (pr_heap s2) = owned (pr_heap s5)" and "pcbs s2 = (pcbs s5)(p := (pcbs s5 p)\<lparr>pr_page_directory := paging_get_directory (pr_paging s5),
        pr_cpu_state := kernel_cpu_state entry (base + n - 4) (pr_cpu_state (pcbs s5 p))\<rparr>)"
    moreover have "pid = next_pid s" "s' = s2" using e run cr m by auto
    ultimately show ?thesis using that [of i p base q] t c h o m by simp
  qed
qed

text \<open>A stack of 4 bytes or more holds the word the code stores at its top, so creation returns.\<close>

lemma process_create_returns:
  assumes ok: "proc_ok s" and name: "0 \<in> set name" and slot: "\<exists>i < 16. process_table s ! i = 0"
    and n: "4 \<le> n" "n \<le> 0xFFFFFFEC" and np: "next_pid s \<noteq> 0"
  shows "\<exists>pid s'. process_create name entry n s = Some (pid, s') \<and>
    (pid = 0 \<longrightarrow> heap_inv (pr_heap s') \<and> owned (pr_heap s') = owned (pr_heap s) \<and>
       process_table s' = process_table s \<and> process_count_val s' = process_count_val s)"
proof (rule process_create_run [OF ok name, of entry n])
  fix p base q s5
  assume run: "process_create name entry n s = enter_process p base entry n s5" and t: "process_table s5 = process_table s"
    and h: "heap_inv (pr_heap s5)" "owned (pr_heap s5) = {p, base, q} \<union> owned (pr_heap s)"
    and m: "pr_pid (pcbs s5 p) = next_pid s \<and> pr_stack_base (pcbs s5 p) = base \<and> pr_msg_queue (pcbs s5 p) = q \<and> pr_is_user_mode (pcbs s5 p) = 0"
    and r: "n \<le> 0xFFFFFFEC \<Longrightarrow> unat n \<le> room (pr_heap s5) base"
  have "unat (n - 4) = unat n - 4" "4 \<le> unat n" using n(1) by (simp_all add: unat_sub_u32 word_le_nat_alt)
  then have "unat (base + n - 4 - base) + 4 \<le> room (pr_heap s5) base" using r [OF n(2)] by (simp add: algebra_simps)
  then obtain u where u: "poke32 base (base + n - 4) entry s5 = Some u" using poke32_ok [OF h(1)] h(2) by blast
  have slot5: "\<exists>i < 16. process_table s5 ! i = 0" using slot t by simp
  obtain s2 where "enter_process p base entry n s5 = Some (pr_pid (pcbs s5 p), s2)" by (rule enter_process_ok [OF slot5 u, of p]) blast
  then show ?thesis using run m np by simp
qed simp

lemma find_slot:
  assumes "i < 16" and "P i" and "\<forall>k < 16. P k \<longrightarrow> k = i"
  shows "List.find P [0..<16] = Some i"
proof (cases "List.find P [0..<16]")
  case None
  then show ?thesis using assms(1,2) by (auto simp: find_None_iff)
next
  case (Some k)
  then show ?thesis using find_SomeD [OF Some] assms(3) by simp
qed

lemma release_process_ok:
  assumes "process_table s ! i = p" and "pr_is_user_mode (pcbs s p) = 0" and "pr_msg_queue (pcbs s p) = q" and "q \<noteq> 0"
    and "pr_stack_base (pcbs s p) = base" and "heap_inv (pr_heap s)" and "owned (pr_heap s) = {p, base, q} \<union> A"
    and "distinct [p, base, q]" and "{p, base, q} \<inter> A = {}"
  shows "\<exists>s'. release_process i s = Some s' \<and> heap_inv (pr_heap s') \<and> owned (pr_heap s') = A \<and>
    process_table s' = (process_table s)[i := 0] \<and> process_count_val s' = process_count_val s - 1"
proof -
  obtain h1 where h1: "pr_kfree base s = Some (s\<lparr>pr_heap := h1\<rparr>)" "heap_inv h1" "owned h1 = owned (pr_heap s) - {base}"
    using pr_kfree_ok [of s base] assms(6,7) by auto
  obtain h2 where h2: "pr_kfree q (s\<lparr>pr_heap := h1\<rparr>) = Some (s\<lparr>pr_heap := h2\<rparr>)" "heap_inv h2" "owned h2 = owned h1 - {q}"
    using pr_kfree_ok [of "s\<lparr>pr_heap := h1\<rparr>" q] h1 assms(7,8) by auto
  obtain h3 where h3: "pr_kfree p (s\<lparr>pr_heap := h2\<rparr>) = Some (s\<lparr>pr_heap := h3\<rparr>)" "heap_inv h3" "owned h3 = owned h2 - {p}"
    using pr_kfree_ok [of "s\<lparr>pr_heap := h2\<rparr>" p] h1 h2 assms(7,8) by auto
  have "owned h3 = A" using h1(3) h2(3) h3(3) assms(7,9) by auto
  moreover have "release_process i s = Some (s\<lparr>pr_heap := h3, process_table := (process_table s)[i := 0],
      process_count_val := process_count_val s - 1\<rparr>)"
    using assms(1-5) h1(1) h2(1) h3(1) by (simp add: release_process_def Let_def)
  ultimately show ?thesis using h3(2) by simp
qed

lemma create_kill_restores:
  assumes ok: "proc_ok s" and name: "0 \<in> set name" and slot: "\<exists>i < 16. process_table s ! i = 0"
    and cur: "current_process s \<in> insert 0 (owned (pr_heap s))"
    and uniq: "\<forall>x\<in>set (process_table s). x \<noteq> 0 \<longrightarrow> pr_pid (pcbs s x) \<noteq> next_pid s"
    and cr: "process_create name entry n s = Some (pid, s')" and pid: "pid \<noteq> 0"
  shows "\<exists>s''. process_kill pid s' = Some (False, s'') \<and> heap_inv (pr_heap s'') \<and> owned (pr_heap s'') = owned (pr_heap s) \<and>
    process_table s'' = process_table s \<and> process_count_val s'' = process_count_val s"
proof -
  from ok name slot cr pid obtain p base q i where pid': "pid = next_pid s" and i: "i < 16" "process_table s ! i = 0"
    and t: "process_table s' = (process_table s)[i := p]" and cnt: "process_count_val s' = process_count_val s + 1"
    and cp: "current_process s' = current_process s" and hp: "heap_inv (pr_heap s')"
    "owned (pr_heap s') = {p, base, q} \<union> owned (pr_heap s)" "distinct [p, base, q]"
    and nz: "0 \<notin> {p, base, q}" and dis: "{p, base, q} \<inter> owned (pr_heap s) = {}"
    and oth: "\<forall>x. x \<noteq> p \<longrightarrow> pcbs s' x = pcbs s x"
    and pcb: "pr_pid (pcbs s' p) = pid \<and> pr_stack_base (pcbs s' p) = base \<and> pr_msg_queue (pcbs s' p) = q \<and> pr_is_user_mode (pcbs s' p) = 0"
    by (rule process_create_ok)
  have len: "length (process_table s) = 16" and sub: "set (process_table s) \<subseteq> insert 0 (owned (pr_heap s))"
    using ok by (auto simp: proc_ok_def)
  have ti: "process_table s' ! i = p" using t i len by simp
  have only: "k = i" if "k < 16" "process_table s' ! k \<noteq> 0" "pr_pid (pcbs s' (process_table s' ! k)) = pid" for k
  proof (rule ccontr)
    assume ki: "k \<noteq> i"
    then have k: "process_table s' ! k = process_table s ! k" using t by simp
    have m: "process_table s ! k \<in> set (process_table s)" using that(1) len by simp
    then have "process_table s ! k \<noteq> p" using sub dis nz k that(2) by auto
    then show False using uniq m that k oth pid' by auto
  qed
  have find: "List.find (\<lambda>i. process_table s' ! i \<noteq> 0 \<and> pr_pid (pcbs s' (process_table s' ! i)) = pid) [0..<16] = Some i"
  proof (rule find_slot [OF i(1)])
    show "process_table s' ! i \<noteq> 0 \<and> pr_pid (pcbs s' (process_table s' ! i)) = pid" unfolding ti using nz pcb by simp
    show "\<forall>k < 16. process_table s' ! k \<noteq> 0 \<and> pr_pid (pcbs s' (process_table s' ! k)) = pid \<longrightarrow> k = i" using only by blast
  qed
  have "p \<noteq> current_process s'" using cp cur dis nz by auto
  then have k: "process_kill pid s' = (do { s \<leftarrow> release_process i s'; Some (False, s) })"
    using pid find ti by (simp add: process_kill_def)
  have "q \<noteq> 0" using nz by simp
  from release_process_ok [OF ti _ _ this _ hp dis] pcb obtain s'' where
    "release_process i s' = Some s''" "heap_inv (pr_heap s'')" "owned (pr_heap s'') = owned (pr_heap s)"
    "process_table s'' = (process_table s')[i := 0]" "process_count_val s'' = process_count_val s' - 1" by auto
  moreover have "(process_table s')[i := 0] = process_table s" using t i len list_update_id [of "process_table s" i] by simp
  ultimately show ?thesis using k cnt by simp
qed

text \<open>C22: Creation with a stack of 4 to 0xFFFFFFEC bytes returns, and leaks nothing: where it fails (pid 0),
  the heap blocks, the table and the count are as before; where it succeeds, killing the new process
  while another one runs gives back every heap block, the table slot and the count.\<close>

theorem create_kill_no_leak:
  assumes "proc_ok s" and "0 \<in> set name" and "\<exists>i < 16. process_table s ! i = 0"
    and "current_process s \<in> insert 0 (owned (pr_heap s))"
    and "\<forall>x\<in>set (process_table s). x \<noteq> 0 \<longrightarrow> pr_pid (pcbs s x) \<noteq> next_pid s"
    and "4 \<le> n" and "n \<le> 0xFFFFFFEC" and "next_pid s \<noteq> 0"
  shows "\<exists>pid s'. process_create name entry n s = Some (pid, s') \<and>
    (\<exists>s''. (if pid = 0 then s'' = s' else process_kill pid s' = Some (False, s'')) \<and>
       heap_inv (pr_heap s'') \<and> owned (pr_heap s'') = owned (pr_heap s) \<and>
       process_table s'' = process_table s \<and> process_count_val s'' = process_count_val s)"
proof -
  from process_create_returns [OF assms(1-3,6-8)] obtain pid s' where
    cr: "process_create name entry n s = Some (pid, s')" "pid = 0 \<longrightarrow> heap_inv (pr_heap s') \<and>
      owned (pr_heap s') = owned (pr_heap s) \<and> process_table s' = process_table s \<and> process_count_val s' = process_count_val s"
    by blast
  show ?thesis
    using cr create_kill_restores [OF assms(1-5) cr(1)] by (intro exI [of _ pid] exI [of _ s']) (cases "pid = 0", auto)
qed

text \<open>A process that kills itself, also by \<open>process_exit\<close>, is switched away before its resources are freed:
  its table slot stays taken, the count stays and no heap block is given back.\<close>

theorem self_kill_leaks:
  assumes "process_count_val s \<noteq> 0" and "i < 16" and "process_table s ! i = current_process s"
    and "current_process s \<noteq> 0" and "current_process s \<noteq> idle_process s"
    and "pid = pr_pid (pcbs s (current_process s))" and "pid \<noteq> 0"
    and "\<forall>k < 16. process_table s ! k \<noteq> 0 \<and> pr_pid (pcbs s (process_table s ! k)) = pid \<longrightarrow> k = i"
  shows "\<exists>s'. process_kill pid s = Some (True, s') \<and> process_exit s = Some (Some True, s') \<and>
    process_table s' = process_table s \<and> process_count_val s' = process_count_val s \<and> pr_heap s' = pr_heap s"
proof -
  let ?cur = "current_process s"
  let ?s = "upd_pcb ?cur (\<lambda>b. b\<lparr>pr_state := TERMINATED\<rparr>) s"
  have find: "List.find (\<lambda>i. process_table s ! i \<noteq> 0 \<and> pr_pid (pcbs s (process_table s ! i)) = pid) [0..<16] = Some i"
    by (rule find_slot [OF assms(2) _ assms(8)]) (use assms(3,4,6) in simp)
  have d: "demote ?s = ?s" by (simp add: demote_def)
  have "sched_next ?s \<noteq> ?cur"
  proof (cases "top_slots ?s 16 = {}")
    case True
    then show ?thesis using assms(5) by (simp add: sched_next_def)
  next
    case False
    have "ready_at ?s (pick_slot (cur_slot ?s) (top_slots ?s 16))"
      using pick_slot_in [OF finite_top_slots False] by (auto simp: top_slots_def)
    then show ?thesis using False by (auto simp: sched_next_def ready_at_def)
  qed
  moreover have cnt: "process_count_val ?s \<noteq> 0" using assms(1) by simp
  note n = process_schedule_next [OF cnt, unfolded d]
  ultimately obtain s' where s': "process_schedule ?s = (True, s')" "process_table s' = process_table s"
    "process_count_val s' = process_count_val s" "pr_heap s' = pr_heap s"
    using n(3-6) by (cases "process_schedule ?s") simp
  then have k: "process_kill pid s = Some (True, s')" using find assms(3,7) by (simp add: process_kill_def)
  then have "process_exit s = Some (Some True, s')" using assms(4,6,7) by (simp add: process_exit_def)
  then show ?thesis using k s' by blast
qed

lemma self_kill_leaks_witness:
  "\<exists>s'. process_kill 1 demo_procs = Some (True, s') \<and> process_table s' = process_table demo_procs \<and> pr_heap s' = zero_heap"
proof -
  have u: "k = 1" if "k < 16" "process_table demo_procs ! k \<noteq> 0" "pr_pid (demo_pcb (process_table demo_procs ! k)) = 1" for k
  proof -
    have "k < 4" using demo_table [of k] that(1,2) by (meson not_le)
    then consider "k = 0" | "k = 1" | "k = 2" | "k = 3" by linarith
    then show ?thesis using that(3) by cases (simp_all add: demo_pcb_def)
  qed
  have "1 = pr_pid (pcbs demo_procs (current_process demo_procs))" by (simp add: demo_pcb_def)
  from self_kill_leaks [OF _ _ _ _ _ this, of 1] u show ?thesis by auto
qed

text \<open>An example for creation: an empty table and a fresh heap.\<close>

definition lone_procs :: proc_state where
  "lone_procs = demo_procs\<lparr>process_table := replicate 16 0, current_process := 0, process_count_val := 0\<rparr>"

lemma lone_ok: "proc_ok lone_procs"
  using zero_heap_ok by (auto simp: proc_ok_def lone_procs_def demo_pcb_def heap_inv_def)

lemma lone_run:
  assumes "block_total n = m" and "n \<noteq> 0" and "m = 32 \<or> m = 4112"
  obtains h s where "process_create [112, 0] 0x1234 n lone_procs = enter_process 0x200010 0x2000B0 0x1234 n s"
    and "pr_heap s = h" and "hb_size (hmem h 0x2000A0) = m" and "process_table s = replicate 16 0" and "pr_pid (pcbs s 0x200010) = 4"
proof -
  have bt: "block_total 144 = 160" "block_total 2124 = 2140" by (simp_all add: block_total_def align_size_def Let_def)
  obtain h1 where h1: "kmalloc 144 zero_heap = Some (0x200010, h1)" "heap_ok h1 [(0x200000, 160, False), (0x2000A0, 0x3FFF60, True)]"
    using kmalloc_ok [OF zero_heap_ok, of 144] bt by auto
  obtain h2 where h2: "kmalloc n h1 = Some (0x2000B0, h2)"
    "heap_ok h2 [(0x200000, 160, False), (0x2000A0, m, False), (0x2000A0 + m, 0x3FFF60 - m, True)]"
    using kmalloc_ok [OF h1(2), of n] assms by auto
  obtain q h3 bs where h3: "kmalloc 2124 h2 = Some (q, h3)" "q \<noteq> 0" "heap_ok h3 ((0x200000, 160, False) # (0x2000A0, m, False) # bs)"
    using kmalloc_ok [OF h2(2), of 2124] bt assms(3) by auto
  obtain f g where fg: "strncpy (replicate 32 0) [112, 0] 31 = Some f" "store f 31 0 = Some g"
    using strncpy_name [of "replicate 32 0" "[112, 0]"] by auto
  have f: "pr_heap lone_procs = zero_heap" "pcbs lone_procs = demo_pcb" "process_table lone_procs = replicate 16 0"
    "process_count_val lone_procs = 0" "next_pid lone_procs = 4" "pr_name (demo_pcb p) = replicate 32 0" for p
    by (simp_all add: lone_procs_def demo_pcb_def) (simp add: demo_procs_def)
  have size: "hb_size (hmem h3 0x2000A0) = m" using h3(3) by (simp add: heap_ok_def)
  define s3 where "s3 = upd_pcb 0x200010 (fill_pcb g 4 0x2000B0 n)
    (upd_pcb 0x200010 (\<lambda>b. b\<lparr>pr_stack_base := 0x2000B0\<rparr>) (lone_procs\<lparr>pr_heap := h2\<rparr>)\<lparr>next_pid := 5\<rparr>)"
  define s4 where "s4 = upd_pcb 0x200010 (\<lambda>b. b\<lparr>pr_msg_queue := q\<rparr>) (s3\<lparr>pr_heap := h3\<rparr>)"
  show ?thesis
  proof (rule that [of "s4\<lparr>queues := (queues s4)(q := (queues s4 q)\<lparr>q_head := 0, q_tail := 0, q_count := 0\<rparr>)\<rparr>" h3])
    show "process_create [112, 0] 0x1234 n lone_procs = enter_process 0x200010 0x2000B0 0x1234 n
      (s4\<lparr>queues := (queues s4)(q := (queues s4 q)\<lparr>q_head := 0, q_tail := 0, q_count := 0\<rparr>)\<rparr>)"
      using h1(1) h2(1) h3(1,2) fg f by (simp add: process_create_def pr_kmalloc_def Let_def s3_def s4_def)
  qed (use size f in \<open>simp_all add: s3_def s4_def fill_pcb_def\<close>)
qed

lemma lone_create: "\<exists>s'. process_create [112, 0] 0x1234 4096 lone_procs = Some (4, s')"
proof -
  have "block_total 4096 = 4112" by (simp add: block_total_def align_size_def Let_def)
  then obtain h s where s: "process_create [112, 0] 0x1234 4096 lone_procs = enter_process 0x200010 0x2000B0 0x1234 4096 s"
    "pr_heap s = h" "hb_size (hmem h 0x2000A0) = 4112" "process_table s = replicate 16 0" "pr_pid (pcbs s 0x200010) = 4"
    by (rule lone_run) auto
  have slot: "\<exists>i < 16. process_table s ! i = 0" by (intro exI [of _ 0]) (simp add: s(4))
  have "poke32 0x2000B0 (0x2000B0 + 4096 - 4) 0x1234 s \<noteq> None" using s(2,3) by (simp add: poke32_def heap_store_def in_block_def)
  then obtain t where t: "poke32 0x2000B0 (0x2000B0 + 4096 - 4) 0x1234 s = Some t" by blast
  obtain s' where "enter_process 0x200010 0x2000B0 0x1234 4096 s = Some (pr_pid (pcbs s 0x200010), s')"
    by (rule enter_process_ok [OF slot t, of "0x200010"]) blast
  then show ?thesis using s(1,5) by simp
qed

text \<open>The stack size is not checked: below 4 bytes the word at the top of the stack lies before the block, in
  its header.\<close>

lemma small_stack_overruns: "process_create [112, 0] 0x1234 2 lone_procs = None"
proof -
  have "block_total 2 = 32" by (simp add: block_total_def align_size_def Let_def)
  then obtain h s where "process_create [112, 0] 0x1234 2 lone_procs = enter_process 0x200010 0x2000B0 0x1234 2 s"
    "pr_heap s = h" "hb_size (hmem h 0x2000A0) = 32" by (rule lone_run) auto
  then show ?thesis by (simp add: enter_process_def poke32_def heap_store_def in_block_def)
qed

lemma create_kill_no_leak_witness:
  "\<exists>s' s''. process_create [112, 0] 0x1234 4096 lone_procs = Some (4, s') \<and> process_kill 4 s' = Some (False, s'') \<and>
     owned (pr_heap s'') = owned (pr_heap lone_procs)"
proof -
  obtain s' where s': "process_create [112, 0] 0x1234 4096 lone_procs = Some (4, s')" using lone_create by blast
  have "\<exists>i < 16. process_table lone_procs ! i = 0" by (intro exI [of _ 0]) (simp add: lone_procs_def)
  moreover have "current_process lone_procs = 0" "set (process_table lone_procs) = {0}" "next_pid lone_procs = 4"
    by (simp_all add: lone_procs_def demo_procs_def)
  ultimately show ?thesis
    using create_kill_no_leak [OF lone_ok, of "[112, 0]" 4096 "0x1234"] s' by auto
qed

end
