(* ===== verification/Screen.thy ===== *)
theory Screen
  imports CString
begin

text \<open>
  The VGA text driver of \<open>kernel/screen.c\<close>. The state is the driver's three static variables, the 2000 cells of text
  memory at \<open>0xB8000\<close> and the list of bytes sent to I/O ports, oldest first. A store outside the 25 x 80 cells is
  \<open>None\<close>. The loops that fill or move cells are folds over their index ranges, in the order of the code.
\<close>

abbreviation SCREEN_WIDTH :: int where "SCREEN_WIDTH \<equiv> 80"
abbreviation SCREEN_HEIGHT :: int where "SCREEN_HEIGHT \<equiv> 25"
abbreviation VGA_CTRL_REGISTER :: u16 where "VGA_CTRL_REGISTER \<equiv> 0x3D4"
abbreviation VGA_DATA_REGISTER :: u16 where "VGA_DATA_REGISTER \<equiv> 0x3D5"
abbreviation VGA_CURSOR_HIGH :: u8 where "VGA_CURSOR_HIGH \<equiv> 14"
abbreviation VGA_CURSOR_LOW :: u8 where "VGA_CURSOR_LOW \<equiv> 15"

definition MAKE_COLOR :: "u8 \<Rightarrow> u8 \<Rightarrow> u8" where
  "MAKE_COLOR fg bg = push_bit 4 bg OR (fg AND 0x0F)"

definition DEFAULT_COLOR :: u8 where
  "DEFAULT_COLOR = MAKE_COLOR 7 0"

record screen_t =
  cursor_row :: int
  cursor_col :: int
  current_color :: u8
  video_memory :: "u16 list"
  out_ports :: "(u16 \<times> u8) list"

definition outb :: "u16 \<Rightarrow> u8 \<Rightarrow> screen_t \<Rightarrow> screen_t" where
  "outb port data s = s\<lparr>out_ports := out_ports s @ [(port, data)]\<rparr>"

text \<open>A cell: the attribute in the high byte, and the \<open>char\<close>, sign extended to \<open>int\<close>, or-ed into it.\<close>

definition cell :: "u8 \<Rightarrow> u8 \<Rightarrow> u16" where
  "cell color c = push_bit 8 (ucast color) OR scast c"

definition put_cell :: "int \<Rightarrow> u16 \<Rightarrow> screen_t \<Rightarrow> screen_t option" where
  "put_cell position v s =
     (if 0 \<le> position \<and> position < SCREEN_WIDTH * SCREEN_HEIGHT
      then Some (s\<lparr>video_memory := (video_memory s)[nat position := v]\<rparr>) else None)"

definition screen_update_cursor :: "screen_t \<Rightarrow> screen_t" where
  "screen_update_cursor s =
     (let position = word_of_int (cursor_row s * SCREEN_WIDTH + cursor_col s) :: u16;
          s = outb VGA_CTRL_REGISTER VGA_CURSOR_HIGH s;
          s = outb VGA_DATA_REGISTER (ucast (drop_bit 8 position AND 0xFF)) s;
          s = outb VGA_CTRL_REGISTER VGA_CURSOR_LOW s
      in outb VGA_DATA_REGISTER (ucast (position AND 0xFF)) s)"

definition fill_cells :: "u16 \<Rightarrow> nat list \<Rightarrow> u16 list \<Rightarrow> u16 list" where
  "fill_cells blank is vm = fold (\<lambda>i vm. vm[i := blank]) is vm"

definition screen_init :: "screen_t \<Rightarrow> screen_t" where
  "screen_init s =
     (let s = s\<lparr>cursor_row := 0, cursor_col := 0, current_color := DEFAULT_COLOR\<rparr>;
          s = s\<lparr>video_memory := fill_cells (cell DEFAULT_COLOR 32) [0..<2000] (video_memory s)\<rparr>
      in screen_update_cursor (s\<lparr>cursor_row := 0, cursor_col := 0\<rparr>))"

definition screen_clear :: "screen_t \<Rightarrow> screen_t" where
  "screen_clear s =
     (let s = s\<lparr>video_memory := fill_cells (cell (current_color s) 32) [0..<2000] (video_memory s)\<rparr>
      in screen_update_cursor (s\<lparr>cursor_row := 0, cursor_col := 0\<rparr>))"

definition scroll_rows :: "u16 list \<Rightarrow> u16 list" where
  "scroll_rows vm =
     fold (\<lambda>row. fold (\<lambda>col vm. vm[row * 80 + col := vm ! ((row + 1) * 80 + col)]) [0..<80]) [0..<24] vm"

definition screen_scroll :: "screen_t \<Rightarrow> screen_t" where
  "screen_scroll s =
     (let vm = scroll_rows (video_memory s);
          vm = fill_cells (cell (current_color s) 32) (map (\<lambda>col. 24 * 80 + col) [0..<80]) vm
      in s\<lparr>video_memory := vm, cursor_row := SCREEN_HEIGHT - 1, cursor_col := 0\<rparr>)"

definition screen_putchar_internal :: "u8 \<Rightarrow> screen_t \<Rightarrow> screen_t option" where
  "screen_putchar_internal c s =
     do { s \<leftarrow>
            (if c = 10 then Some (s\<lparr>cursor_col := 0, cursor_row := cursor_row s + 1\<rparr>)
             else if c = 13 then Some (s\<lparr>cursor_col := 0\<rparr>)
             else if c = 9 then Some (s\<lparr>cursor_col := (cursor_col s + 4) AND NOT 3\<rparr>)
             else if c = 8
             then if cursor_col s > 0
                  then put_cell (cursor_row s * SCREEN_WIDTH + (cursor_col s - 1)) (cell (current_color s) 32)
                         (s\<lparr>cursor_col := cursor_col s - 1\<rparr>)
                  else if cursor_row s > 0
                  then Some (s\<lparr>cursor_row := cursor_row s - 1, cursor_col := SCREEN_WIDTH - 1\<rparr>)
                  else Some s
             else do { s \<leftarrow> put_cell (cursor_row s * SCREEN_WIDTH + cursor_col s) (cell (current_color s) c) s;
                       Some (s\<lparr>cursor_col := cursor_col s + 1\<rparr>) });
          let s = (if cursor_col s \<ge> SCREEN_WIDTH then s\<lparr>cursor_col := 0, cursor_row := cursor_row s + 1\<rparr> else s);
          Some (if cursor_row s \<ge> SCREEN_HEIGHT then screen_scroll s else s) }"

definition screen_putchar_internal_for_kprintf :: "u8 \<Rightarrow> screen_t \<Rightarrow> screen_t option" where
  "screen_putchar_internal_for_kprintf c s = screen_putchar_internal c s"

definition screen_putchar :: "u8 \<Rightarrow> screen_t \<Rightarrow> screen_t option" where
  "screen_putchar c s = do { s \<leftarrow> screen_putchar_internal c s; Some (screen_update_cursor s) }"

text \<open>Printing until the terminator; running off the buffer is \<open>None\<close>.\<close>

fun put_string :: "u8 list \<Rightarrow> screen_t \<Rightarrow> screen_t option" where
  "put_string [] s = None"
| "put_string (c # str) s =
     (if c = 0 then Some s else do { s \<leftarrow> screen_putchar_internal c s; put_string str s })"

definition screen_write :: "u8 list option \<Rightarrow> screen_t \<Rightarrow> screen_t option" where
  "screen_write str s =
     (case str of None \<Rightarrow> Some s
      | Some str \<Rightarrow> do { s \<leftarrow> put_string str s; Some (screen_update_cursor s) })"

definition screen_write_color :: "u8 list option \<Rightarrow> u8 \<Rightarrow> screen_t \<Rightarrow> screen_t option" where
  "screen_write_color str color s =
     (case str of None \<Rightarrow> Some s
      | Some str \<Rightarrow>
          do { let old_color = current_color s;
               s \<leftarrow> put_string str (s\<lparr>current_color := color\<rparr>);
               Some (screen_update_cursor (s\<lparr>current_color := old_color\<rparr>)) })"

definition hex_chars :: "u8 list" where
  "hex_chars = [48, 49, 50, 51, 52, 53, 54, 55, 56, 57, 65, 66, 67, 68, 69, 70]"

definition screen_write_hex :: "u32 \<Rightarrow> screen_t \<Rightarrow> screen_t option" where
  "screen_write_hex num s =
     (let (buffer, num) = fold (\<lambda>i (buffer, num). (buffer[i := hex_chars ! unat (num AND 0xF)], drop_bit 4 num))
            (rev [2..<10]) ([48, 120, 48, 48, 48, 48, 48, 48, 48, 48, 0], num)
      in do { s \<leftarrow> put_string buffer s; Some (screen_update_cursor s) })"

text \<open>The digits are stored backwards into 12 bytes and printed from the last to the first.\<close>

function dec_loop :: "u32 \<Rightarrow> u8 list \<Rightarrow> nat \<Rightarrow> (u8 list \<times> nat) option" where
  "dec_loop num buffer i =
     (if num > 0
      then do { buffer \<leftarrow> store buffer i (48 + ucast (num mod 10)); dec_loop (num div 10) buffer (i + 1) }
      else Some (buffer, i))"
  by pat_completeness auto
termination
proof (relation "measure (\<lambda>(num, _). unat num)")
  fix num :: u32 and i x assume "0 < num"
  then have "0 < unat num" by (simp add: word_less_nat_alt)
  then show "((num div 10, x, i + 1), num, buffer, i) \<in> measure (\<lambda>(num, _). unat num)" for buffer :: "u8 list"
    by (simp add: unat_div)
qed simp

fun put_chars :: "u8 list \<Rightarrow> screen_t \<Rightarrow> screen_t option" where
  "put_chars [] s = Some s"
| "put_chars (c # cs) s = do { s \<leftarrow> screen_putchar_internal c s; put_chars cs s }"

definition screen_write_dec :: "u32 \<Rightarrow> u8 list \<Rightarrow> screen_t \<Rightarrow> screen_t option" where
  "screen_write_dec num buffer s =
     (if num = 0 then do { s \<leftarrow> screen_putchar_internal 48 s; Some (screen_update_cursor s) }
      else do { (buffer, i) \<leftarrow> dec_loop num buffer 0;
                s \<leftarrow> put_chars (rev (take i buffer)) s;
                Some (screen_update_cursor s) })"

definition screen_set_color :: "u8 \<Rightarrow> screen_t \<Rightarrow> screen_t" where
  "screen_set_color color s = s\<lparr>current_color := color\<rparr>"

definition screen_get_color :: "screen_t \<Rightarrow> u8" where
  "screen_get_color s = current_color s"

definition screen_get_cursor_row :: "screen_t \<Rightarrow> int" where
  "screen_get_cursor_row s = cursor_row s"

definition screen_get_cursor_col :: "screen_t \<Rightarrow> int" where
  "screen_get_cursor_col s = cursor_col s"

definition screen_set_cursor :: "int \<Rightarrow> int \<Rightarrow> screen_t \<Rightarrow> screen_t" where
  "screen_set_cursor row col s =
     (if row \<ge> 0 \<and> row < SCREEN_HEIGHT \<and> col \<ge> 0 \<and> col < SCREEN_WIDTH
      then screen_update_cursor (s\<lparr>cursor_row := row, cursor_col := col\<rparr>) else s)"

declare dec_loop.simps [simp del]


section \<open>Moving and filling cells\<close>

lemma length_fill_cells [simp]: "length (fill_cells b is vm) = length vm"
  by (induction "is" arbitrary: vm) (simp_all add: fill_cells_def)

lemma nth_fill_cells: "k < length vm \<Longrightarrow> fill_cells b is vm ! k = (if k \<in> set is then b else vm ! k)"
proof (induction "is" arbitrary: vm)
  case (Cons i "is")
  then show ?case using Cons.IH [of "vm[i := b]"] by (auto simp: fill_cells_def nth_list_update)
qed (simp add: fill_cells_def)

lemma fill_all: "length vm = 2000 \<Longrightarrow> fill_cells b [0..<2000] vm = replicate 2000 b"
  by (rule nth_equalityI) (simp_all add: nth_fill_cells)

text \<open>The cells after the first \<open>m\<close> of them have been overwritten by the cell one row below.\<close>

definition shifted :: "nat \<Rightarrow> u16 list \<Rightarrow> u16 list" where
  "shifted m vm = map (\<lambda>k. if k < m then vm ! (k + 80) else vm ! k) [0..<length vm]"

lemma shifted_0 [simp]: "shifted 0 vm = vm"
  by (simp add: shifted_def map_nth)

lemma shifted_Suc: "m + 80 < length vm \<Longrightarrow> (shifted m vm)[m := shifted m vm ! (m + 80)] = shifted (Suc m) vm"
  by (rule nth_equalityI) (auto simp: shifted_def nth_list_update)

lemma scroll_row:
  assumes "row * 80 + 80 + n \<le> length vm"
  shows "fold (\<lambda>col vm. vm[row * 80 + col := vm ! ((row + 1) * 80 + col)]) [0..<n] (shifted (row * 80) vm) = shifted (row * 80 + n) vm"
  using assms
proof (induction n)
  case (Suc n)
  have eq: "row * 80 + n + 80 = 80 + row * 80 + n" by simp
  show ?case using Suc shifted_Suc [of "row * 80 + n" vm, unfolded eq] by simp
qed simp

lemma scroll_some_rows:
  assumes "r * 80 + 80 \<le> length vm"
  shows "fold (\<lambda>row. fold (\<lambda>col vm. vm[row * 80 + col := vm ! ((row + 1) * 80 + col)]) [0..<80]) [0..<r] vm = shifted (r * 80) vm"
  using assms
proof (induction r)
  case (Suc r)
  then show ?case using scroll_row [of r 80 vm] by (simp add: add.commute)
qed simp

lemma scroll_rows_eq: "length vm = 2000 \<Longrightarrow> scroll_rows vm = shifted 1920 vm"
  using scroll_some_rows [of 24 vm] by (simp add: scroll_rows_def)

lemma scrolled:
  assumes "length vm = 2000"
  shows "fill_cells b (map (\<lambda>col. 24 * 80 + col) [0..<80]) (scroll_rows vm) = drop 80 vm @ replicate 80 b"
proof (rule nth_equalityI)
  have l: "length (scroll_rows vm) = 2000" using assms by (simp add: scroll_rows_eq shifted_def)
  then show "length (fill_cells b (map (\<lambda>col. 24 * 80 + col) [0..<80]) (scroll_rows vm)) = length (drop 80 vm @ replicate 80 b)"
    using assms by simp
  fix k assume "k < length (fill_cells b (map (\<lambda>col. 24 * 80 + col) [0..<80]) (scroll_rows vm))"
  then have k: "k < 2000" using l by simp
  have last: "k \<in> set (map (\<lambda>col. 24 * 80 + col) [0..<80]) \<longleftrightarrow> 1920 \<le> k"
  proof
    assume "1920 \<le> k"
    then have "k = 24 * 80 + (k - 1920)" "k - 1920 \<in> {0..<80}" using k by auto
    then show "k \<in> set (map (\<lambda>col. 24 * 80 + col) [0..<80])" unfolding set_map set_upt by (rule image_eqI)
  qed auto
  have "fill_cells b (map (\<lambda>col. 24 * 80 + col) [0..<80]) (scroll_rows vm) ! k = (if 1920 \<le> k then b else scroll_rows vm ! k)"
    using nth_fill_cells [of k "scroll_rows vm"] l k last by simp
  also have "\<dots> = (drop 80 vm @ replicate 80 b) ! k"
    using k assms by (simp add: scroll_rows_eq shifted_def nth_append add.commute)
  finally show "fill_cells b (map (\<lambda>col. 24 * 80 + col) [0..<80]) (scroll_rows vm) ! k = (drop 80 vm @ replicate 80 b) ! k" .
qed

section \<open>The screen as a flat text\<close>

text \<open>
  What a character does to the 2000 cells and the position of the cursor in them: the two-dimensional bookkeeping of
  the driver (row, column, wrap) disappears, since the end of a row is the start of the next.
\<close>

definition spec_move :: "u8 \<Rightarrow> u8 \<Rightarrow> u16 list \<times> nat \<Rightarrow> u16 list \<times> nat" where
  "spec_move color c = (\<lambda>(vm, p).
     if c = 10 then (vm, (p div 80 + 1) * 80)
     else if c = 13 then (vm, p div 80 * 80)
     else if c = 9 then (vm, (p div 4 + 1) * 4)
     else if c = 8 then (if p mod 80 > 0 then vm[p - 1 := cell color 32] else vm, p - 1)
     else (vm[p := cell color c], p + 1))"

definition spec_char :: "u8 \<Rightarrow> u8 \<Rightarrow> u16 list \<times> nat \<Rightarrow> u16 list \<times> nat" where
  "spec_char color c x = (let (vm, p) = spec_move color c x in
     if p \<ge> 2000 then (drop 80 vm @ replicate 80 (cell color 32), 1920) else (vm, p))"

definition screen_ok :: "screen_t \<Rightarrow> bool" where
  "screen_ok s \<longleftrightarrow> 0 \<le> cursor_row s \<and> cursor_row s < SCREEN_HEIGHT \<and> 0 \<le> cursor_col s \<and> cursor_col s < SCREEN_WIDTH \<and>
     length (video_memory s) = 2000"

definition flat :: "screen_t \<Rightarrow> u16 list \<times> nat" where
  "flat s = (video_memory s, nat (cursor_row s * 80 + cursor_col s))"

text \<open>The row and column of a valid screen as natural numbers.\<close>

lemma screen_ok_nat:
  assumes "screen_ok s"
  obtains r c where "cursor_row s = int r" and "cursor_col s = int c" and "r < 25" and "c < 80" and "length (video_memory s) = 2000"
    and "flat s = (video_memory s, r * 80 + c)"
proof -
  have "cursor_row s = int (nat (cursor_row s))" "cursor_col s = int (nat (cursor_col s))" using assms by (simp_all add: screen_ok_def)
  moreover have "nat (cursor_row s) < 25" "nat (cursor_col s) < 80" using assms by (auto simp: screen_ok_def)
  ultimately show ?thesis
    using that [of "nat (cursor_row s)" "nat (cursor_col s)"] assms
    by (simp add: screen_ok_def flat_def nat_add_distrib nat_mult_distrib)
qed

lemma and_not_mask_int: "(x :: int) AND NOT (mask n) = push_bit n (drop_bit n x)"
  by (auto simp: bit_eq_iff bit_simps)

lemma and_not_3: "(int c + 4) AND NOT 3 = int ((c div 4 + 1) * 4)"
proof -
  have "(int c + 4) AND NOT 3 = push_bit 2 (drop_bit 2 (int c + 4))"
    using and_not_mask_int [of "int c + 4" 2] by (simp add: mask_eq_exp_minus_1)
  also have "\<dots> = (int c + 4) div 4 * 4" by (simp add: push_bit_eq_mult drop_bit_eq_div)
  also have "(int c + 4) div 4 = int c div 4 + 1" by (rule div_add_self2) simp
  finally show ?thesis by (simp add: of_nat_div)
qed

lemma screen_ok_intro:
  "r < 25 \<Longrightarrow> c < 80 \<Longrightarrow> length vm = 2000 \<Longrightarrow> cursor_row s = int r \<Longrightarrow> cursor_col s = int c \<Longrightarrow> video_memory s = vm \<Longrightarrow>
     screen_ok s \<and> flat s = (vm, r * 80 + c)"
  by (simp add: screen_ok_def flat_def nat_add_distrib nat_mult_distrib)

text \<open>Wrapping and scrolling at the end of \<open>screen_putchar_internal\<close>.\<close>

definition wrap :: "screen_t \<Rightarrow> screen_t" where
  "wrap s = (let s = (if cursor_col s \<ge> SCREEN_WIDTH then s\<lparr>cursor_col := 0, cursor_row := cursor_row s + 1\<rparr> else s)
     in if cursor_row s \<ge> SCREEN_HEIGHT then screen_scroll s else s)"

lemma wrap_ok:
  assumes "cursor_row s = int r" and "cursor_col s = int c" and "length (video_memory s) = 2000" and "r < 25 \<and> c \<le> 80 \<or> r = 25 \<and> c = 0"
  shows "screen_ok (wrap s)" and "current_color (wrap s) = current_color s" and "out_ports (wrap s) = out_ports s"
    and "flat (wrap s) = (if r * 80 + c \<ge> 2000 then (drop 80 (video_memory s) @ replicate 80 (cell (current_color s) 32), 1920)
           else (video_memory s, r * 80 + c))"
proof -
  show "current_color (wrap s) = current_color s" and "out_ports (wrap s) = out_ports s"
    by (simp_all add: wrap_def screen_scroll_def Let_def)
  consider "r < 25" "c < 80" | "r < 24" "c = 80" | "r = 24" "c = 80" | "r = 25" "c = 0" using assms(4) by linarith
  then have "screen_ok (wrap s) \<and> flat (wrap s) = (if r * 80 + c \<ge> 2000
      then (drop 80 (video_memory s) @ replicate 80 (cell (current_color s) 32), 1920) else (video_memory s, r * 80 + c))"
    by cases (use assms scrolled [OF assms(3)] in
      \<open>simp_all add: wrap_def screen_scroll_def Let_def screen_ok_def flat_def nat_add_distrib nat_mult_distrib\<close>)
  then show "screen_ok (wrap s)" and "flat (wrap s) = (if r * 80 + c \<ge> 2000
      then (drop 80 (video_memory s) @ replicate 80 (cell (current_color s) 32), 1920) else (video_memory s, r * 80 + c))" by auto
qed

lemma putchar_wrap:
  "screen_putchar_internal c s =
     do { s \<leftarrow>
            (if c = 10 then Some (s\<lparr>cursor_col := 0, cursor_row := cursor_row s + 1\<rparr>)
             else if c = 13 then Some (s\<lparr>cursor_col := 0\<rparr>)
             else if c = 9 then Some (s\<lparr>cursor_col := (cursor_col s + 4) AND NOT 3\<rparr>)
             else if c = 8
             then if cursor_col s > 0
                  then put_cell (cursor_row s * SCREEN_WIDTH + (cursor_col s - 1)) (cell (current_color s) 32)
                         (s\<lparr>cursor_col := cursor_col s - 1\<rparr>)
                  else if cursor_row s > 0
                  then Some (s\<lparr>cursor_row := cursor_row s - 1, cursor_col := SCREEN_WIDTH - 1\<rparr>)
                  else Some s
             else do { s \<leftarrow> put_cell (cursor_row s * SCREEN_WIDTH + cursor_col s) (cell (current_color s) c) s;
                       Some (s\<lparr>cursor_col := cursor_col s + 1\<rparr>) });
          Some (wrap s) }"
  unfolding screen_putchar_internal_def wrap_def Let_def by (rule refl)

lemma putchar_internal_step:
  assumes "cursor_row s = int r" and "cursor_col s = int k" and "r < 25" and "k < 80" and "length (video_memory s) = 2000"
  obtains t r' k' where "screen_putchar_internal c s = Some (wrap t)" and "cursor_row t = int r'" and "cursor_col t = int k'"
    and "r' < 25 \<and> k' \<le> 80 \<or> r' = 25 \<and> k' = 0" and "length (video_memory t) = 2000"
    and "(video_memory t, r' * 80 + k') = spec_move (current_color s) c (video_memory s, r * 80 + k)"
    and "current_color t = current_color s" and "out_ports t = out_ports s"
proof -
  let ?p = "r * 80 + k"
  have ip: "int r * 80 + int k = int ?p" by simp
  have p: "?p < 2000" "int ?p < 80 * 25" "0 \<le> int ?p" using assms(3,4) by auto
  have dm: "?p div 80 = r" "?p mod 80 = k" using assms(4) by simp_all
  consider (nl) "c = 10" | (cr) "c = 13" | (tab) "c = 9" | (bs) "c = 8" | (ch) "c \<notin> {8, 9, 10, 13}" by auto
  then show ?thesis
  proof cases
    case nl
    show ?thesis
      by (rule that [of "s\<lparr>cursor_col := 0, cursor_row := cursor_row s + 1\<rparr>" "Suc r" 0])
        (use nl assms dm in \<open>auto simp: putchar_wrap spec_move_def\<close>)
  next
    case cr
    show ?thesis
      by (rule that [of "s\<lparr>cursor_col := 0\<rparr>" r 0]) (use cr assms dm in \<open>auto simp: putchar_wrap spec_move_def\<close>)
  next
    case tab
    have "k div 4 < 20" using assms(4) by (simp add: div_less_iff_less_mult)
    then have "(k div 4 + 1) * 4 \<le> 80" by simp
    moreover have "(r * 80 + k) div 4 = 20 * r + k div 4" by (simp add: div_mult_self1 add.commute)
    ultimately show ?thesis
      by (intro that [of "s\<lparr>cursor_col := (cursor_col s + 4) AND NOT 3\<rparr>" r "(k div 4 + 1) * 4"])
        (use tab assms and_not_3 [of k] in \<open>auto simp: putchar_wrap spec_move_def\<close>)
  next
    case bs
    show ?thesis
    proof (cases "k = 0")
      case True
      show ?thesis
        by (rule that [of "if r = 0 then s else s\<lparr>cursor_row := cursor_row s - 1, cursor_col := SCREEN_WIDTH - 1\<rparr>" "r - 1" "if r = 0 then 0 else 79"])
          (use bs True assms dm in \<open>auto simp: putchar_wrap spec_move_def\<close>)
    next
      case False
      then have i: "int r * 80 + (int k - 1) = int (?p - 1)" by simp
      have b: "0 \<le> int (?p - 1)" "int (?p - 1) < 80 * 25" using p by auto
      have pc: "put_cell (cursor_row s * 80 + (cursor_col s - 1)) v t = Some (t\<lparr>video_memory := (video_memory t)[?p - 1 := v]\<rparr>)" for v t
        using b unfolding put_cell_def assms(1,2) i by simp
      show ?thesis
        by (rule that [of "s\<lparr>cursor_col := cursor_col s - 1, video_memory := (video_memory s)[?p - 1 := cell (current_color s) 32]\<rparr>" r "k - 1"])
          (use bs False assms dm pc in \<open>auto simp: putchar_wrap spec_move_def\<close>)
    qed
  next
    case ch
    have pc: "put_cell (cursor_row s * 80 + cursor_col s) v t = Some (t\<lparr>video_memory := (video_memory t)[?p := v]\<rparr>)" for v t
      using p(2,3) unfolding put_cell_def assms(1,2) ip by (simp del: of_nat_add of_nat_mult)
    show ?thesis
      by (rule that [of "s\<lparr>video_memory := (video_memory s)[?p := cell (current_color s) c], cursor_col := cursor_col s + 1\<rparr>" r "k + 1"])
        (use ch assms pc in \<open>auto simp: putchar_wrap spec_move_def\<close>)
  qed
qed

lemma putchar_internal_ok:
  assumes "screen_ok s"
  obtains s' where "screen_putchar_internal c s = Some s'" and "screen_ok s'" and "flat s' = spec_char (current_color s) c (flat s)"
    and "current_color s' = current_color s" and "out_ports s' = out_ports s"
proof -
  obtain r k where s: "cursor_row s = int r" "cursor_col s = int k" "r < 25" "k < 80" "length (video_memory s) = 2000"
    "flat s = (video_memory s, r * 80 + k)"
    by (rule screen_ok_nat [OF assms])
  obtain t r' k' where t: "screen_putchar_internal c s = Some (wrap t)" "cursor_row t = int r'" "cursor_col t = int k'"
    "r' < 25 \<and> k' \<le> 80 \<or> r' = 25 \<and> k' = 0" "length (video_memory t) = 2000"
    "(video_memory t, r' * 80 + k') = spec_move (current_color s) c (video_memory s, r * 80 + k)"
    "current_color t = current_color s" "out_ports t = out_ports s"
    by (rule putchar_internal_step [OF s(1-5)])
  note w = wrap_ok [OF t(2,3,5,4)]
  have "flat (wrap t) = spec_char (current_color s) c (flat s)"
    using w(4) t(7) s(6) by (simp add: spec_char_def t(6) [symmetric])
  then show ?thesis using that [OF t(1) w(1)] w(2,3) t(7,8) by simp
qed

section \<open>Strings of characters\<close>

text \<open>Output through a function that may fail, character by character.\<close>

primrec puts :: "(u8 \<Rightarrow> 's \<Rightarrow> 's option) \<Rightarrow> u8 list \<Rightarrow> 's \<Rightarrow> 's option" where
  "puts put [] s = Some s"
| "puts put (c # cs) s = do { s \<leftarrow> put c s; puts put cs s }"

lemma puts_append: "puts put (xs @ ys) s = do { s \<leftarrow> puts put xs s; puts put ys s }"
  by (induction xs arbitrary: s) (simp_all add: Option.bind_assoc cong: Option.bind_cong)

text \<open>
  What the clients of the console rely on: every character is accepted, in every good state, and its effect on what is
  shown is a function of what is shown. Then every string is accepted and shown character by character.
\<close>

locale console =
  fixes put :: "u8 \<Rightarrow> 's \<Rightarrow> 's option" and ok :: "'s \<Rightarrow> bool" and shown :: "'s \<Rightarrow> 'v" and attr :: "'s \<Rightarrow> 'a" and draw :: "'a \<Rightarrow> u8 \<Rightarrow> 'v \<Rightarrow> 'v"
  assumes put_law: "ok s \<Longrightarrow> \<exists>s'. put c s = Some s' \<and> ok s' \<and> attr s' = attr s \<and> shown s' = draw (attr s) c (shown s)"
begin

lemma puts_law: "ok s \<Longrightarrow> \<exists>s'. puts put cs s = Some s' \<and> ok s' \<and> attr s' = attr s \<and> shown s' = fold (draw (attr s)) cs (shown s)"
proof (induction cs arbitrary: s)
  case (Cons c cs)
  obtain t where t: "put c s = Some t" "ok t" "attr t = attr s" "shown t = draw (attr s) c (shown s)" using put_law [OF Cons.prems] by blast
  from Cons.IH [OF t(2)] show ?case using t by auto
qed simp

end

interpretation vga: console screen_putchar_internal screen_ok flat "\<lambda>s. (current_color s, out_ports s)" "\<lambda>(color, _). spec_char color"
proof unfold_locales
  fix c s assume "screen_ok s"
  then show "\<exists>s'. screen_putchar_internal c s = Some s' \<and> screen_ok s' \<and> (current_color s', out_ports s') = (current_color s, out_ports s) \<and>
      flat s' = (case (current_color s, out_ports s) of (color, _) \<Rightarrow> spec_char color) c (flat s)"
    by (rule putchar_internal_ok) auto
qed

lemma put_string_puts: "0 \<in> set str \<Longrightarrow> put_string str s = puts screen_putchar_internal (cstr str) s"
  by (induction str arbitrary: s) (auto cong: Option.bind_cong)

lemma put_chars_puts: "put_chars cs s = puts screen_putchar_internal cs s"
  by (induction cs arbitrary: s) (auto cong: Option.bind_cong)

text \<open>The position the hardware was last told.\<close>

definition hw_cursor :: "screen_t \<Rightarrow> nat" where
  "hw_cursor s = (case rev (out_ports s) of
     (_, low) # _ # (_, high) # _ \<Rightarrow> 256 * unat high + unat low | _ \<Rightarrow> 0)"

lemma update_cursor_simps [simp]:
  "flat (screen_update_cursor s) = flat s" "screen_ok (screen_update_cursor s) = screen_ok s"
  "current_color (screen_update_cursor s) = current_color s" "video_memory (screen_update_cursor s) = video_memory s"
  "cursor_row (screen_update_cursor s) = cursor_row s" "cursor_col (screen_update_cursor s) = cursor_col s"
  by (simp_all add: screen_update_cursor_def outb_def Let_def flat_def screen_ok_def)

lemma low_byte: "ucast (p AND 0xFF :: u16) = (ucast p :: u8)"
proof (rule bit_word_eqI)
  have "(0xFF :: u16) = mask 8" by (simp add: mask_eq_exp_minus_1)
  then show "bit (ucast (p AND 0xFF :: u16) :: u8) n = bit (ucast p :: u8) n" if "n < LENGTH(8)" for n
    using that by (simp only: bit_simps) auto
qed

lemma unat_low_byte: "unat (ucast (p :: u16) :: u8) = unat p mod 256"
  by (simp add: unsigned_ucast_eq take_bit_eq_mod)

lemma update_cursor_hw:
  assumes "screen_ok s"
  shows "hw_cursor (screen_update_cursor s) = snd (flat s)"
proof -
  obtain r c where s: "cursor_row s = int r" "cursor_col s = int c" "r < 25" "c < 80" "flat s = (video_memory s, r * 80 + c)"
    by (rule screen_ok_nat [OF assms])
  define p where "p = (of_nat (r * 80 + c) :: u16)"
  have w: "word_of_int (cursor_row s * 80 + cursor_col s) = p" using s(1,2) by (simp add: p_def)
  have p: "unat p = r * 80 + c"
    using s(3,4) unfolding p_def unat_of_nat by (intro mod_less) simp
  have hi: "unat (ucast (drop_bit 8 p AND 0xFF) :: u8) = unat p div 256"
  proof -
    have "(r * 80 + c) div 256 < 256" using s(3,4) by (simp add: div_less_iff_less_mult)
    then show ?thesis using p by (simp add: low_byte unat_low_byte drop_bit_eq_div unat_div)
  qed
  have lo: "unat (ucast (p AND 0xFF) :: u8) = unat p mod 256" by (simp add: low_byte unat_low_byte)
  show ?thesis using s(5) p hi lo unfolding screen_update_cursor_def w Let_def by (simp add: hw_cursor_def outb_def)
qed

section \<open>Decimal output\<close>

lemma dec_loop_rdigits:
  assumes "0 < n" and "n < 4294967296" and "i + length (rdigits n) \<le> length buffer"
  shows "\<exists>rest. dec_loop (of_nat n) buffer i = Some (take i buffer @ rdigits n @ rest, i + length (rdigits n))"
  using assms
proof (induction n arbitrary: buffer i rule: rdigits.induct)
  case (1 n)
  let ?c = "digit_char (int (n mod 10))"
  let ?b = "buffer[i := ?c]"
  have i: "i < length buffer" using "1.prems"(3) by (subst (asm) rdigits.simps) simp
  have pos: "(0 :: u32) < of_nat n" using "1.prems"(1,2) by (simp add: word_less_nat_alt)
  have dm: "(of_nat n :: u32) div 10 = of_nat (n div 10)" "(of_nat n :: u32) mod 10 = of_nat (n mod 10)"
    using "1.prems"(2) by (simp_all add: word_unat_eq_iff unat_div unat_mod)
  have ch: "48 + ucast (of_nat (n mod 10) :: u32) = ?c"
  proof (rule word_uint_eqI)
    have m: "n mod 10 < 10" by simp
    have "unat (ucast (of_nat (n mod 10) :: u32) :: u8) = n mod 10"
      using m by (simp add: unsigned_ucast_eq take_bit_eq_mod)
    then have "unat (48 + ucast (of_nat (n mod 10) :: u32) :: u8) = 48 + n mod 10"
      using m by (simp add: unat_word_ariths)
    then have "uint (48 + ucast (of_nat (n mod 10) :: u32) :: u8) = int (n mod 10) + 48" unfolding uint_nat by simp
    moreover have "uint ?c = int (n mod 10) + 48" by (rule digit_char_uint) simp_all
    ultimately show "uint (48 + ucast (of_nat (n mod 10) :: u32) :: u8) = uint ?c" by (simp only:)
  qed
  have step: "dec_loop (of_nat n) buffer i = dec_loop (of_nat (n div 10)) ?b (i + 1)"
    using pos dm ch i by (subst dec_loop.simps) (simp add: store_def)
  have t: "take (i + 1) ?b = take i buffer @ [?c]" using i by (simp add: take_Suc_conv_app_nth)
  show ?case
  proof (cases "n div 10 > 0")
    case True
    have r: "rdigits n = ?c # rdigits (n div 10)" using True by (subst rdigits.simps) simp
    have "n div 10 < 4294967296" using "1.prems"(2) by simp
    then obtain rest where "dec_loop (of_nat (n div 10)) ?b (i + 1) =
        Some (take (i + 1) ?b @ rdigits (n div 10) @ rest, i + 1 + length (rdigits (n div 10)))"
      using "1.IH" [OF True True, of "i + 1" ?b] "1.prems"(3) r by auto
    then show ?thesis using step t r by simp
  next
    case False
    then have z: "n div 10 = 0" by simp
    have r: "rdigits n = [?c]" using False by (subst rdigits.simps) simp
    have "dec_loop 0 ?b (i + 1) = Some (?b, i + 1)" by (subst dec_loop.simps) simp
    moreover have "?b = take i buffer @ [?c] @ drop (i + 1) buffer" using i by (simp add: upd_conv_take_nth_drop)
    ultimately show ?thesis using step r z by auto
  qed
qed

lemma cstr_terminated [simp]: "0 \<notin> set xs \<Longrightarrow> cstr (xs @ [0]) = xs"
  using cstr_append_nul [of xs "[]"] by simp

section \<open>Properties\<close>

lemma screen_write_law:
  assumes "screen_ok s" and "0 \<in> set str"
  shows "\<exists>s'. screen_write (Some str) s = Some s' \<and> screen_ok s' \<and> current_color s' = current_color s \<and>
    flat s' = fold (spec_char (current_color s)) (cstr str) (flat s) \<and> hw_cursor s' = snd (flat s')"
  using vga.puts_law [OF assms(1), of "cstr str"] put_string_puts [OF assms(2)] by (auto simp: screen_write_def update_cursor_hw)

lemma screen_write_color_law:
  assumes "screen_ok s" and "0 \<in> set str"
  shows "\<exists>s'. screen_write_color (Some str) color s = Some s' \<and> screen_ok s' \<and> current_color s' = current_color s \<and>
    flat s' = fold (spec_char color) (cstr str) (flat s) \<and> hw_cursor s' = snd (flat s')"
proof -
  have c: "screen_ok (s\<lparr>current_color := color\<rparr>)" "flat (s\<lparr>current_color := color\<rparr>) = flat s"
    using assms(1) by (simp_all add: screen_ok_def flat_def)
  obtain t where t: "put_string str (s\<lparr>current_color := color\<rparr>) = Some t" "screen_ok t" "flat t = fold (spec_char color) (cstr str) (flat s)"
    using vga.puts_law [OF c(1), of "cstr str"] put_string_puts [OF assms(2)] c(2) by auto
  let ?t = "t\<lparr>current_color := current_color s\<rparr>"
  have u: "screen_ok ?t" "flat ?t = flat t" using t(2) by (simp_all add: screen_ok_def flat_def)
  have "screen_write_color (Some str) color s = Some (screen_update_cursor ?t)" using t(1) by (simp add: screen_write_color_def)
  then show ?thesis using update_cursor_hw [OF u(1)] u t(3) by simp
qed

lemma lit_nul [simp]: "0 \<in> set (lit s)"
  by (simp add: lit_def)

text \<open>
  C24: Writing a terminated string never leaves the text memory, keeps the cursor on the screen, and shows each character
  as the flat text specification says (wrap at column 80, scroll after the last row); the hardware cursor ends where
  the driver's cursor is. In a given colour the same holds with that colour, which is reset afterwards.
\<close>

theorem screen_write_shows:
  assumes "screen_ok s" and "0 \<in> set str"
  shows "\<exists>s' s''. screen_write (Some str) s = Some s' \<and> screen_ok s' \<and> current_color s' = current_color s \<and>
    flat s' = fold (spec_char (current_color s)) (cstr str) (flat s) \<and> hw_cursor s' = snd (flat s') \<and>
    screen_write_color (Some str) color s = Some s'' \<and> screen_ok s'' \<and> current_color s'' = current_color s \<and>
    flat s'' = fold (spec_char color) (cstr str) (flat s) \<and> hw_cursor s'' = snd (flat s'')"
  using screen_write_law [OF assms] screen_write_color_law [OF assms] by blast

definition blank_screen :: screen_t where
  "blank_screen = screen_init \<lparr>cursor_row = 3, cursor_col = 9, current_color = 0, video_memory = replicate 2000 0, out_ports = []\<rparr>"

lemma blank_screen_ok: "screen_ok blank_screen"
  by (simp add: blank_screen_def screen_init_def Let_def screen_ok_def)

lemma screen_write_shows_witness:
  "\<exists>s'. screen_write (Some [72, 105, 10, 0]) blank_screen = Some s' \<and> screen_ok s' \<and> hw_cursor s' = snd (flat s') \<and>
     flat s' = fold (spec_char (current_color blank_screen)) [72, 105, 10] (flat blank_screen)"
  using screen_write_shows [OF blank_screen_ok, of "[72, 105, 10, 0]"] by auto

text \<open>
  \<open>screen_write_dec\<close> stays inside its buffer of 12 bytes for every 32-bit number and shows its decimal digits, the
  most significant first.
\<close>

theorem screen_write_dec_digits:
  assumes "length buffer = 12"
  shows "screen_write_dec num buffer s = screen_write (Some (rev (rdigits (unat num)) @ [0])) s"
proof -
  let ?r = "rdigits (unat num)"
  have nz: "0 \<notin> set (rev ?r)" using rdigits_digits is_digit_neq by fastforce
  have w: "screen_write (Some (rev ?r @ [0])) s = do { s \<leftarrow> put_chars (rev ?r) s; Some (screen_update_cursor s) }"
    using nz by (simp add: screen_write_def put_string_puts put_chars_puts)
  show ?thesis
  proof (cases "num = 0")
    case True
    have "rdigits 0 = [48]" by (subst rdigits.simps) (simp add: digit_char_def)
    then show ?thesis using True w by (simp add: screen_write_dec_def)
  next
    case False
    then have "0 < unat num" by (simp add: unat_gt_0)
    moreover have "length ?r \<le> 10" using rdigits_length [of "unat num" 9] unat_u32_less [of num] by simp
    ultimately obtain rest where "dec_loop num buffer 0 = Some (?r @ rest, length ?r)"
      using dec_loop_rdigits [of "unat num" 0 buffer] assms by auto
    then show ?thesis using False w by (simp add: screen_write_dec_def)
  qed
qed

lemma screen_write_dec_digits_witness:
  "screen_write_dec 1024 (replicate 12 0) blank_screen = screen_write (Some (rev (rdigits 1024) @ [0])) blank_screen"
  using screen_write_dec_digits [of "replicate 12 0" 1024 blank_screen] by simp

text \<open>A byte from 128 on is sign extended, and its upper half replaces the attribute of the cell.\<close>

lemma high_char_attribute:
  assumes "bit c 7"
  shows "drop_bit 8 (cell color c) = 0xFF"
proof -
  have "drop_bit 8 (cell color c) = mask 8"
    using assms by (intro bit_word_eqI) (auto simp: cell_def bit_simps)
  then show ?thesis by (simp add: mask_eq_exp_minus_1)
qed

end
