(* ===== verification/Timer.thy ===== *)
theory Timer
  imports Screen
begin

text \<open>
  The PIT driver of \<open>kernel/timer.c\<close>, except the interrupt handler, which is with the processes it schedules. The tick
  count is a 32-bit word. \<open>timer_wait\<close> reads it again after every interrupt; the values it reads are a list, and the
  outcome is how often it halted, or \<open>None\<close> when it still waits at the end of the list.
\<close>

abbreviation PIT_CHANNEL0 :: u16 where "PIT_CHANNEL0 \<equiv> 0x40"
abbreviation PIT_COMMAND :: u16 where "PIT_COMMAND \<equiv> 0x43"
abbreviation PIT_BASE_FREQUENCY :: u32 where "PIT_BASE_FREQUENCY \<equiv> 1193182"
abbreviation TIMER_FREQUENCY :: u32 where "TIMER_FREQUENCY \<equiv> 1000"

definition timer_init :: "u8 list \<Rightarrow> screen_t \<Rightarrow> (u32 \<times> screen_t) option" where
  "timer_init buffer s =
     do { let divisor = PIT_BASE_FREQUENCY div TIMER_FREQUENCY;
          let s = outb PIT_COMMAND 0x36 s;
          let s = outb PIT_CHANNEL0 (ucast (divisor AND 0xFF)) s;
          let s = outb PIT_CHANNEL0 (ucast (drop_bit 8 divisor AND 0xFF)) s;
          s \<leftarrow> screen_write_color (Some (lit ''[TIMER] '')) (MAKE_COLOR 2 0) s;
          s \<leftarrow> screen_write (Some (lit ''PIT initialized at '')) s;
          s \<leftarrow> screen_write_dec TIMER_FREQUENCY buffer s;
          s \<leftarrow> screen_write (Some (lit '' Hz ('')) s;
          s \<leftarrow> screen_write_dec (1000 div TIMER_FREQUENCY) buffer s;
          s \<leftarrow> screen_write (Some (lit (''ms per tick)'' @ [CHR 10]))) s;
          Some (0, s) }"

definition timer_get_ticks :: "u32 \<Rightarrow> u32" where
  "timer_get_ticks system_ticks = system_ticks"

definition timer_get_seconds :: "u32 \<Rightarrow> u32" where
  "timer_get_seconds system_ticks = system_ticks div TIMER_FREQUENCY"

fun timer_wait_loop :: "u32 \<Rightarrow> u32 list \<Rightarrow> nat option" where
  "timer_wait_loop limit [] = None"
| "timer_wait_loop limit (now # later) =
     (if now < limit then do { n \<leftarrow> timer_wait_loop limit later; Some (n + 1) } else Some 0)"

definition timer_wait :: "u32 \<Rightarrow> u32 \<Rightarrow> u32 list \<Rightarrow> nat option" where
  "timer_wait ticks start reads = timer_wait_loop (start + ticks) reads"

definition timer_format_uptime :: "u32 \<Rightarrow> u8 list \<Rightarrow> u8 list option" where
  "timer_format_uptime system_ticks buffer =
     do { let seconds = timer_get_seconds system_ticks;
          let hours = seconds div 3600;
          let minutes = (seconds mod 3600) div 60;
          let secs = seconds mod 60;
          buffer \<leftarrow> store buffer 0 (ucast (48 + (hours div 10) mod 10));
          buffer \<leftarrow> store buffer 1 (ucast (48 + hours mod 10));
          buffer \<leftarrow> store buffer 2 58;
          buffer \<leftarrow> store buffer 3 (ucast (48 + minutes div 10));
          buffer \<leftarrow> store buffer 4 (ucast (48 + minutes mod 10));
          buffer \<leftarrow> store buffer 5 58;
          buffer \<leftarrow> store buffer 6 (ucast (48 + secs div 10));
          buffer \<leftarrow> store buffer 7 (ucast (48 + secs mod 10));
          store buffer 8 0 }"

section \<open>Waiting\<close>

text \<open>The reads of a tick count that advances by one between two of them.\<close>

definition readings :: "u32 \<Rightarrow> nat \<Rightarrow> u32 list" where
  "readings start n = map (\<lambda>k. start + of_nat k) [0..<n]"

lemma wait_loop_run:
  assumes "\<forall>x\<in>set xs. x < limit" and "\<not> y < limit"
  shows "timer_wait_loop limit (xs @ y # ys) = Some (length xs)"
  using assms by (induction xs) auto

lemma unat_reading: "unat start + k < 4294967296 \<Longrightarrow> unat (start + of_nat k :: u32) = unat start + k"
  by (subst unat_add_u32) auto

text \<open>
  C27: While the tick count does not wrap, \<open>timer_wait(ticks)\<close> returns after exactly \<open>ticks\<close> interrupts. When
  \<open>start + ticks\<close> wraps around, it returns at once instead.
\<close>

theorem timer_wait_exact:
  assumes "unat ticks < n"
  shows "timer_wait ticks start (readings start n) =
    Some (if unat start + unat ticks < 4294967296 then unat ticks else 0)"
proof (cases "unat start + unat ticks < 4294967296")
  case True
  let ?t = "unat ticks"
  have l: "unat (start + ticks) = unat start + ?t" using True by (rule unat_add_u32)
  have "[0..<n] = [0..<?t] @ ?t # [Suc ?t..<n]"
    using assms upt_add_eq_append [of 0 ?t "n - ?t"] by (simp add: upt_conv_Cons)
  then have r: "readings start n = readings start ?t @ (start + ticks) # map (\<lambda>k. start + of_nat k) [Suc ?t..<n]"
    by (simp add: readings_def)
  have small: "\<forall>x\<in>set (readings start ?t). x < start + ticks"
    using True l by (auto simp: readings_def word_less_nat_alt unat_reading)
  have "timer_wait_loop (start + ticks) (readings start n) = Some (length (readings start ?t))"
    unfolding r by (rule wait_loop_run [OF small]) simp
  then show ?thesis using True by (simp add: timer_wait_def readings_def)
next
  case False
  have "unat (start + ticks) = unat start + unat ticks - 4294967296"
  proof -
    have "unat (start + ticks) = (unat start + unat ticks) mod 4294967296" by (simp add: unat_word_ariths)
    also have "\<dots> = (unat start + unat ticks - 4294967296) mod 4294967296" by (rule le_mod_geq) (use False in linarith)
    finally show ?thesis using unat_u32_less [of start] unat_u32_less [of ticks] by simp
  qed
  then have "\<not> unat start < unat (start + ticks)" using unat_u32_less [of ticks] by linarith
  then have "\<not> start < start + ticks" by (simp add: word_less_nat_alt)
  moreover obtain m where "n = Suc m" using assms by (cases n) auto
  ultimately show ?thesis using False by (simp add: timer_wait_def readings_def upt_conv_Cons del: upt_Suc)
qed

lemma timer_wait_exact_witness:
  "timer_wait 5 0xFFFFFFFF (readings 0xFFFFFFFF 6) = Some 0 \<and> timer_wait 5 100 (readings 100 6) = Some 5"
  using timer_wait_exact [of 5 6 "0xFFFFFFFF"] timer_wait_exact [of 5 6 100] by simp

section \<open>Uptime\<close>

definition two_digits :: "nat \<Rightarrow> u8 list" where
  "two_digits n = [of_nat (48 + n div 10), of_nat (48 + n mod 10)]"

lemma ucast_digit:
  assumes "unat e < 200"
  shows "ucast (48 + e :: u32) = (of_nat (48 + unat e) :: u8)"
proof -
  have "unat (48 + e) = 48 + unat e" using assms by (subst unat_add_u32) simp_all
  then have "unat (ucast (48 + e) :: u8) = (48 + unat e) mod 256" by (simp add: unsigned_ucast_eq take_bit_eq_mod)
  also have "\<dots> = unat (of_nat (48 + unat e) :: u8)" unfolding unat_of_nat by simp
  finally show ?thesis by (simp only: word_unat_eq_iff)
qed

lemma two_digits_mod: "n mod 100 div 10 = n div 10 mod 10" "n mod 100 mod 10 = n mod (10 :: nat)"
  using mod_mult2_eq [of n 10 10] by (simp_all add: mod_mod_cancel)

text \<open>
  \<open>timer_format_uptime\<close> stores nine bytes, the uptime as hours, minutes and seconds of two digits each and the
  terminator; the hours are shown modulo 100.
\<close>

theorem timer_format_uptime_clock:
  assumes "9 \<le> length buffer"
  shows "timer_format_uptime t buffer = Some (two_digits (unat t div 1000 div 3600 mod 100) @ [58] @
    two_digits (unat t div 1000 mod 3600 div 60) @ [58] @ two_digits (unat t div 1000 mod 60) @ [0] @ drop 9 buffer)"
proof -
  obtain b0 b1 b2 b3 b4 b5 b6 b7 b8 rest where b: "buffer = b0 # b1 # b2 # b3 # b4 # b5 # b6 # b7 # b8 # rest"
    using assms by (auto simp: eval_nat_numeral Suc_le_length_iff)
  let ?s = "timer_get_seconds t"
  have s: "unat ?s = unat t div 1000" by (simp add: timer_get_seconds_def unat_div)
  have d: "ucast (48 + e :: u32) = (of_nat (48 + unat e) :: u8)" if "unat e < 10" for e
    using that by (intro ucast_digit) simp
  have m: "unat ((?s mod 3600) div 60) = unat t div 1000 mod 3600 div 60" "unat (?s div 3600) = unat t div 1000 div 3600"
    "unat (?s mod 60) = unat t div 1000 mod 60" "unat (?s div 3600 div 10) = unat t div 1000 div 3600 div 10" using s by (simp_all add: unat_div unat_mod)
  have lt: "unat t div 1000 mod 3600 div 60 < 60" "unat t div 1000 mod 60 < 60" by (simp_all add: div_less_iff_less_mult)
  have digits: "ucast (48 + x div 10 :: u32) = (of_nat (48 + unat x div 10) :: u8)" "ucast (48 + x mod 10 :: u32) = (of_nat (48 + unat x mod 10) :: u8)"
    if "unat x < 60" for x
    using that d [of "x div 10"] d [of "x mod 10"] by (simp_all add: unat_div unat_mod)
  have hour: "ucast (48 + (x div 10) mod 10 :: u32) = (of_nat (48 + unat x div 10 mod 10) :: u8)"
    "ucast (48 + x mod 10 :: u32) = (of_nat (48 + unat x mod 10) :: u8)" for x
    using d [of "(x div 10) mod 10"] d [of "x mod 10"] by (simp_all add: unat_div unat_mod)
  show ?thesis
    unfolding timer_format_uptime_def Let_def hour digits [of "(?s mod 3600) div 60", unfolded m, OF lt(1)]
      digits [of "?s mod 60", unfolded m, OF lt(2)] m two_digits_def two_digits_mod
    by (simp add: b store_def m(4))
qed

lemma timer_format_uptime_clock_witness:
  "timer_format_uptime 3723000 (replicate 9 0) = Some [48, 49, 58, 48, 50, 58, 48, 51, 0]"
  using timer_format_uptime_clock [of "replicate 9 0" 3723000] by (simp add: two_digits_def)

end
