(* ===== verification/Keyboard.thy ===== *)
theory Keyboard
  imports Screen
begin

text \<open>
  The keyboard driver of \<open>kernel/keyboard.c\<close>: the ring buffer, the interrupt handler and the line editor. The scan
  code the handler reads from port 0x60 is its argument. The positions of the ring, C \<open>int\<close>s that only ever take the values
  of \<open>(pos + 1) % 256\<close>, are natural numbers.
\<close>

abbreviation KEY_LSHIFT :: u8 where "KEY_LSHIFT \<equiv> 0x2A"
abbreviation KEY_RSHIFT :: u8 where "KEY_RSHIFT \<equiv> 0x36"
abbreviation KEY_LCTRL :: u8 where "KEY_LCTRL \<equiv> 0x1D"
abbreviation KEY_CAPS :: u8 where "KEY_CAPS \<equiv> 0x3A"
abbreviation KEY_UP :: u8 where "KEY_UP \<equiv> 0x48"
abbreviation KEY_DOWN :: u8 where "KEY_DOWN \<equiv> 0x50"
abbreviation KEY_LEFT :: u8 where "KEY_LEFT \<equiv> 0x4B"
abbreviation KEY_RIGHT :: u8 where "KEY_RIGHT \<equiv> 0x4D"
abbreviation KEY_HOME :: u8 where "KEY_HOME \<equiv> 0x47"
abbreviation KEY_END :: u8 where "KEY_END \<equiv> 0x4F"
abbreviation KEY_DELETE :: u8 where "KEY_DELETE \<equiv> 0x53"
abbreviation SPECIAL_KEY_UP :: u8 where "SPECIAL_KEY_UP \<equiv> 1"
abbreviation SPECIAL_KEY_DOWN :: u8 where "SPECIAL_KEY_DOWN \<equiv> 2"
abbreviation SPECIAL_KEY_LEFT :: u8 where "SPECIAL_KEY_LEFT \<equiv> 3"
abbreviation SPECIAL_KEY_RIGHT :: u8 where "SPECIAL_KEY_RIGHT \<equiv> 4"
abbreviation SPECIAL_KEY_HOME :: u8 where "SPECIAL_KEY_HOME \<equiv> 5"
abbreviation SPECIAL_KEY_END :: u8 where "SPECIAL_KEY_END \<equiv> 6"
abbreviation SPECIAL_KEY_DELETE :: u8 where "SPECIAL_KEY_DELETE \<equiv> 7"
abbreviation KEYBOARD_BUFFER_SIZE :: nat where "KEYBOARD_BUFFER_SIZE \<equiv> 256"

record keyboard_t =
  shift_pressed :: int
  caps_lock :: int
  ctrl_pressed :: int
  extended_key :: int
  keyboard_buffer :: "u8 list"
  buffer_read_pos :: nat
  buffer_write_pos :: nat

definition scancode_to_ascii_lower :: "u8 list" where
  "scancode_to_ascii_lower =
     [0, 0, 49, 50, 51, 52, 53, 54, 55, 56, 57, 48, 45, 61, 8,
      9, 113, 119, 101, 114, 116, 121, 117, 105, 111, 112, 91, 93, 10,
      0, 97, 115, 100, 102, 103, 104, 106, 107, 108, 59, 39, 96,
      0, 92, 122, 120, 99, 118, 98, 110, 109, 44, 46, 47, 0,
      42, 0, 32]"

definition scancode_to_ascii_upper :: "u8 list" where
  "scancode_to_ascii_upper =
     [0, 0, 33, 64, 35, 36, 37, 94, 38, 42, 40, 41, 95, 43, 8,
      9, 81, 87, 69, 82, 84, 89, 85, 73, 79, 80, 123, 125, 10,
      0, 65, 83, 68, 70, 71, 72, 74, 75, 76, 58, 34, 126,
      0, 124, 90, 88, 67, 86, 66, 78, 77, 60, 62, 63, 0,
      42, 0, 32]"

section \<open>Ring buffer\<close>

definition keyboard_buffer_add :: "u8 \<Rightarrow> keyboard_t \<Rightarrow> keyboard_t" where
  "keyboard_buffer_add c k =
     (let next_pos = (buffer_write_pos k + 1) mod KEYBOARD_BUFFER_SIZE in
      if next_pos \<noteq> buffer_read_pos k
      then k\<lparr>keyboard_buffer := (keyboard_buffer k)[buffer_write_pos k := c], buffer_write_pos := next_pos\<rparr>
      else k)"

definition keyboard_getchar :: "keyboard_t \<Rightarrow> u8 \<times> keyboard_t" where
  "keyboard_getchar k =
     (if buffer_read_pos k = buffer_write_pos k then (0, k)
      else (keyboard_buffer k ! buffer_read_pos k,
            k\<lparr>buffer_read_pos := (buffer_read_pos k + 1) mod KEYBOARD_BUFFER_SIZE\<rparr>))"

definition keyboard_has_input :: "keyboard_t \<Rightarrow> bool" where
  "keyboard_has_input k \<longleftrightarrow> buffer_read_pos k \<noteq> buffer_write_pos k"

section \<open>Interrupt handler\<close>

definition special_key_of :: "u8 \<Rightarrow> u8" where
  "special_key_of scancode =
     (if scancode = KEY_LEFT then SPECIAL_KEY_LEFT
      else if scancode = KEY_RIGHT then SPECIAL_KEY_RIGHT
      else if scancode = KEY_UP then SPECIAL_KEY_UP
      else if scancode = KEY_DOWN then SPECIAL_KEY_DOWN
      else if scancode = KEY_HOME then SPECIAL_KEY_HOME
      else if scancode = KEY_END then SPECIAL_KEY_END
      else if scancode = KEY_DELETE then SPECIAL_KEY_DELETE
      else 0)"

definition key_release :: "u8 \<Rightarrow> keyboard_t \<Rightarrow> keyboard_t" where
  "key_release scancode k =
     (let k = (if scancode = KEY_LSHIFT \<or> scancode = KEY_RSHIFT then k\<lparr>shift_pressed := 0\<rparr>
               else if scancode = KEY_LCTRL then k\<lparr>ctrl_pressed := 0\<rparr> else k)
      in k\<lparr>extended_key := 0\<rparr>)"

definition ascii_of :: "u8 \<Rightarrow> keyboard_t \<Rightarrow> u8" where
  "ascii_of scancode k =
     (if unat scancode < length scancode_to_ascii_lower
      then if shift_pressed k XOR caps_lock k \<noteq> 0 \<and> unat scancode < length scancode_to_ascii_upper
           then scancode_to_ascii_upper ! unat scancode
           else scancode_to_ascii_lower ! unat scancode
      else 0)"

definition keyboard_handler :: "u8 \<Rightarrow> keyboard_t \<Rightarrow> keyboard_t" where
  "keyboard_handler scancode k =
     (if scancode = 0xE0 then k\<lparr>extended_key := 1\<rparr>
      else if scancode AND 0x80 \<noteq> 0 then key_release (scancode AND 0x7F) k
      else if extended_key k \<noteq> 0
      then (let k = k\<lparr>extended_key := 0\<rparr>; special_key = special_key_of scancode in
            if special_key \<noteq> 0 then keyboard_buffer_add special_key k else k)
      else if scancode = KEY_LSHIFT \<or> scancode = KEY_RSHIFT then k\<lparr>shift_pressed := 1\<rparr>
      else if scancode = KEY_CAPS then k\<lparr>caps_lock := (if caps_lock k = 0 then 1 else 0)\<rparr>
      else if scancode = KEY_LCTRL then k\<lparr>ctrl_pressed := 1\<rparr>
      else (let ascii = ascii_of scancode k in
            if ascii \<noteq> 0 then keyboard_buffer_add ascii k else k))"

definition keyboard_init :: "keyboard_t \<Rightarrow> screen_t \<Rightarrow> (keyboard_t \<times> screen_t) option" where
  "keyboard_init k s =
     do { let k = k\<lparr>buffer_read_pos := 0, buffer_write_pos := 0, shift_pressed := 0, caps_lock := 0, ctrl_pressed := 0\<rparr>;
          s \<leftarrow> screen_write_color (Some (lit ''[KEYBOARD] '')) (MAKE_COLOR 2 0) s;
          s \<leftarrow> screen_write (Some (lit (''Keyboard driver initialized'' @ [CHR 10]))) s;
          Some (k, s) }"

section \<open>Line editor\<close>

text \<open>
  The state of \<open>keyboard_get_line\<close>: its local variables, the caller's buffer and the screen. The characters it takes from
  the ring, in order, are a list; when they run out the editor waits, so the outcome of the loop is a finished line or the
  state in which it waits. A buffer access out of bounds is \<open>None\<close>.
\<close>

record line_t =
  l_buffer :: "u8 list"
  l_length :: nat
  l_cursor :: nat
  l_screen :: screen_t

datatype line_outcome = Finished "u8 list" screen_t | Waiting line_t

fun move_left :: "nat list \<Rightarrow> u8 list \<Rightarrow> u8 list option" where
  "move_left [] buffer = Some buffer"
| "move_left (i # is) buffer =
     (if i + 1 < length buffer then move_left is (buffer[i := buffer ! (i + 1)]) else None)"

fun move_right :: "nat list \<Rightarrow> u8 list \<Rightarrow> u8 list option" where
  "move_right [] buffer = Some buffer"
| "move_right (i # is) buffer =
     (if 0 < i \<and> i < length buffer then move_right is (buffer[i := buffer ! (i - 1)]) else None)"

fun draw_chars :: "u8 list \<Rightarrow> screen_t \<Rightarrow> screen_t option" where
  "draw_chars [] s = Some s"
| "draw_chars (c # cs) s = do { s \<leftarrow> screen_putchar c s; draw_chars cs s }"

definition redraw :: "int \<Rightarrow> int \<Rightarrow> bool \<Rightarrow> line_t \<Rightarrow> line_t option" where
  "redraw start_row start_col blank l =
     (if l_length l \<le> length (l_buffer l)
      then do { s \<leftarrow> draw_chars (take (l_length l) (l_buffer l)) (screen_set_cursor start_row start_col (l_screen l));
                s \<leftarrow> (if blank then screen_putchar 32 s else Some s);
                Some (l\<lparr>l_screen := screen_set_cursor start_row (start_col + int (l_cursor l)) s\<rparr>) }
      else None)"

definition line_key :: "int \<Rightarrow> int \<Rightarrow> int \<Rightarrow> u8 \<Rightarrow> line_t \<Rightarrow> line_t option" where
  "line_key start_row start_col max_length c l =
     (let show_cursor = (\<lambda>l. l\<lparr>l_screen := screen_set_cursor start_row (start_col + int (l_cursor l)) (l_screen l)\<rparr>) in
      if c = 8
      then if l_cursor l > 0
           then do { buffer \<leftarrow> move_left [l_cursor l - 1..<l_length l - 1] (l_buffer l);
                     redraw start_row start_col True
                       (l\<lparr>l_buffer := buffer, l_length := l_length l - 1, l_cursor := l_cursor l - 1\<rparr>) }
           else Some l
      else if c = SPECIAL_KEY_LEFT
      then if l_cursor l > 0 then Some (show_cursor (l\<lparr>l_cursor := l_cursor l - 1\<rparr>)) else Some l
      else if c = SPECIAL_KEY_RIGHT
      then if l_cursor l < l_length l then Some (show_cursor (l\<lparr>l_cursor := l_cursor l + 1\<rparr>)) else Some l
      else if c = SPECIAL_KEY_HOME
      then Some (l\<lparr>l_cursor := 0, l_screen := screen_set_cursor start_row start_col (l_screen l)\<rparr>)
      else if c = SPECIAL_KEY_END then Some (show_cursor (l\<lparr>l_cursor := l_length l\<rparr>))
      else if c = SPECIAL_KEY_DELETE
      then if l_cursor l < l_length l
           then do { buffer \<leftarrow> move_left [l_cursor l..<l_length l - 1] (l_buffer l);
                     redraw start_row start_col True (l\<lparr>l_buffer := buffer, l_length := l_length l - 1\<rparr>) }
           else Some l
      else if c \<ge> 32 \<and> c < 127 \<and> int (l_length l) < max_length - 1
      then do { buffer \<leftarrow> (if l_cursor l < l_length l
                            then move_right (rev [l_cursor l + 1..<l_length l + 1]) (l_buffer l) else Some (l_buffer l));
                buffer \<leftarrow> store buffer (l_cursor l) c;
                redraw start_row start_col False
                  (l\<lparr>l_buffer := buffer, l_length := l_length l + 1, l_cursor := l_cursor l + 1\<rparr>) }
      else Some l)"

fun get_line_loop :: "int \<Rightarrow> int \<Rightarrow> int \<Rightarrow> u8 list \<Rightarrow> line_t \<Rightarrow> line_outcome option" where
  "get_line_loop start_row start_col max_length [] l = Some (Waiting l)"
| "get_line_loop start_row start_col max_length (c # cs) l =
     (if c = 10
      then do { buffer \<leftarrow> store (l_buffer l) (l_length l) 0; s \<leftarrow> screen_putchar 10 (l_screen l); Some (Finished buffer s) }
      else do { l \<leftarrow> line_key start_row start_col max_length c l; get_line_loop start_row start_col max_length cs l })"

definition keyboard_get_line :: "u8 list \<Rightarrow> u8 list \<Rightarrow> int \<Rightarrow> screen_t \<Rightarrow> line_outcome option" where
  "keyboard_get_line cs buffer max_length s =
     get_line_loop (screen_get_cursor_row s) (screen_get_cursor_col s) max_length cs
       \<lparr>l_buffer = buffer, l_length = 0, l_cursor = 0, l_screen = s\<rparr>"

section \<open>The ring is a queue of 255 characters\<close>

definition ring_ok :: "keyboard_t \<Rightarrow> bool" where
  "ring_ok k \<longleftrightarrow> length (keyboard_buffer k) = 256 \<and> buffer_read_pos k < 256 \<and> buffer_write_pos k < 256"

definition ring_count :: "keyboard_t \<Rightarrow> nat" where
  "ring_count k = (buffer_write_pos k + 256 - buffer_read_pos k) mod 256"

definition pending :: "keyboard_t \<Rightarrow> u8 list" where
  "pending k = map (\<lambda>j. keyboard_buffer k ! ((buffer_read_pos k + j) mod 256)) [0..<ring_count k]"

lemma length_pending [simp]: "length (pending k) = ring_count k"
  by (simp add: pending_def)

lemma ring_write_pos:
  assumes "ring_ok k"
  shows "buffer_write_pos k = (buffer_read_pos k + ring_count k) mod 256" and "ring_count k < 256"
proof -
  have "(buffer_read_pos k + ring_count k) mod 256 = (buffer_read_pos k + (buffer_write_pos k + 256 - buffer_read_pos k)) mod 256"
    by (simp only: ring_count_def mod_add_right_eq)
  also have "\<dots> = buffer_write_pos k" using assms by (simp add: ring_ok_def)
  finally show "buffer_write_pos k = (buffer_read_pos k + ring_count k) mod 256" ..
  show "ring_count k < 256" by (simp add: ring_count_def)
qed

lemma ring_count_eq:
  assumes "r < 256" and "n < 256" and "buffer_read_pos k = r" and "buffer_write_pos k = (r + n) mod 256"
  shows "ring_count k = n"
proof (cases "r + n < 256")
  case True
  then show ?thesis using assms by (simp add: ring_count_def)
next
  case False
  then have "(r + n) mod 256 = r + n - 256" using assms(1,2) by (simp add: mod_if)
  then show ?thesis using assms False by (simp add: ring_count_def)
qed

lemma ring_full_iff:
  assumes "ring_ok k"
  shows "(buffer_write_pos k + 1) mod 256 = buffer_read_pos k \<longleftrightarrow> ring_count k = 255"
proof -
  have "(buffer_write_pos k + 1) mod 256 = (buffer_read_pos k + ring_count k + 1) mod 256"
    unfolding ring_write_pos(1) [OF assms] by (simp add: mod_add_left_eq mod_Suc_eq)
  then show ?thesis using assms ring_write_pos(2) [OF assms] by (auto simp: ring_ok_def mod_if split: if_splits)
qed

lemma slots_apart_256: "i < 256 \<Longrightarrow> j < n \<Longrightarrow> n < 256 \<Longrightarrow> (i + j) mod 256 \<noteq> (i + n) mod (256 :: nat)"
  by (auto simp: mod_if split: if_splits)

lemma keyboard_buffer_add_ok:
  assumes "ring_ok k"
  shows "ring_ok (keyboard_buffer_add c k)"
    and "pending (keyboard_buffer_add c k) = (if length (pending k) < 255 then pending k @ [c] else pending k)"
proof -
  note w = ring_write_pos [OF assms]
  show "ring_ok (keyboard_buffer_add c k)" using assms by (simp add: ring_ok_def keyboard_buffer_add_def Let_def)
  show "pending (keyboard_buffer_add c k) = (if length (pending k) < 255 then pending k @ [c] else pending k)"
  proof (cases "ring_count k = 255")
    case True
    then show ?thesis using ring_full_iff [OF assms] by (simp add: keyboard_buffer_add_def Let_def)
  next
    case False
    let ?k = "keyboard_buffer_add c k"
    have e: "?k = k\<lparr>keyboard_buffer := (keyboard_buffer k)[buffer_write_pos k := c], buffer_write_pos := (buffer_write_pos k + 1) mod 256\<rparr>"
      using ring_full_iff [OF assms] False by (simp add: keyboard_buffer_add_def Let_def)
    have pos: "buffer_write_pos ?k = (buffer_read_pos k + Suc (ring_count k)) mod 256"
      using e w(1) by (simp add: mod_add_left_eq mod_Suc_eq)
    have n: "ring_count ?k = Suc (ring_count k)"
      by (rule ring_count_eq [of "buffer_read_pos k"]) (use assms w False e pos in \<open>auto simp: ring_ok_def\<close>)
    have old: "keyboard_buffer ?k ! ((buffer_read_pos k + j) mod 256) = keyboard_buffer k ! ((buffer_read_pos k + j) mod 256)"
      if "j < ring_count k" for j
      using e slots_apart_256 [OF _ that w(2), of "buffer_read_pos k"] assms w(1) by (simp add: ring_ok_def)
    have new: "keyboard_buffer ?k ! ((buffer_read_pos k + ring_count k) mod 256) = c"
      using e w(1) assms by (simp add: ring_ok_def)
    have "buffer_read_pos ?k = buffer_read_pos k" using e by simp
    then show ?thesis using n old new False w(2) by (simp add: pending_def)
  qed
qed

lemma keyboard_getchar_ok:
  assumes "ring_ok k"
  shows "pending k = c # cs \<Longrightarrow> \<exists>k'. keyboard_has_input k \<and> keyboard_getchar k = (c, k') \<and> ring_ok k' \<and> pending k' = cs"
    and "pending k = [] \<Longrightarrow> \<not> keyboard_has_input k \<and> keyboard_getchar k = (0, k)"
proof -
  note w = ring_write_pos [OF assms]
  have z: "ring_count k = 0 \<longleftrightarrow> buffer_read_pos k = buffer_write_pos k"
    using w(1) assms ring_count_eq [of "buffer_read_pos k" 0 k] by (auto simp: ring_ok_def)
  show "\<not> keyboard_has_input k \<and> keyboard_getchar k = (0, k)" if "pending k = []"
    using that z by (simp add: pending_def keyboard_has_input_def keyboard_getchar_def)
  show "\<exists>k'. keyboard_has_input k \<and> keyboard_getchar k = (c, k') \<and> ring_ok k' \<and> pending k' = cs" if p: "pending k = c # cs"
  proof -
    let ?r = "buffer_read_pos k" and ?k = "k\<lparr>buffer_read_pos := (buffer_read_pos k + 1) mod 256\<rparr>"
    obtain m where m: "ring_count k = Suc m" using p by (metis length_pending length_Cons)
    have g: "keyboard_getchar k = (keyboard_buffer k ! ?r, ?k)" using z m by (simp add: keyboard_getchar_def)
    have ok: "ring_ok ?k" using assms by (simp add: ring_ok_def)
    have n: "ring_count ?k = m"
      by (rule ring_count_eq [of "(?r + 1) mod 256"]) (use w m in \<open>simp_all add: mod_add_left_eq mod_Suc_eq\<close>)
    have "pending k = keyboard_buffer k ! ?r # map (\<lambda>j. keyboard_buffer k ! ((?r + Suc j) mod 256)) [0..<m]"
      using assms by (simp add: pending_def m upt_conv_Cons map_Suc_upt [symmetric] ring_ok_def del: upt_Suc)
    moreover have "pending ?k = map (\<lambda>j. keyboard_buffer k ! ((?r + Suc j) mod 256)) [0..<m]"
      using n by (simp add: pending_def mod_add_left_eq mod_Suc_eq del: map_eq_conv)
    ultimately show ?thesis using p g ok z m by (simp add: keyboard_has_input_def)
  qed
qed

interpretation kbd: bounded_queue "\<lambda>c k. Some (keyboard_buffer_add c k)"
  "\<lambda>k. if keyboard_has_input k then Some (keyboard_getchar k) else None" pending ring_ok "\<lambda>_. True" 255
proof (unfold_locales, goal_cases)
  case (1 k c)
  then show ?case using keyboard_buffer_add_ok [of k c] by simp
next
  case (2 k c cs)
  then show ?case using keyboard_getchar_ok(1) [of k c cs] by auto
qed

section \<open>The line editor\<close>

text \<open>Abstractly the line is the text before and the text after the cursor.\<close>

definition edit :: "int \<Rightarrow> u8 \<Rightarrow> u8 list \<times> u8 list \<Rightarrow> u8 list \<times> u8 list" where
  "edit max_length c = (\<lambda>(left, right).
     if c = 8 then (butlast left, right)
     else if c = SPECIAL_KEY_LEFT then (if left = [] then (left, right) else (butlast left, last left # right))
     else if c = SPECIAL_KEY_RIGHT then (case right of [] \<Rightarrow> (left, right) | x # xs \<Rightarrow> (left @ [x], xs))
     else if c = SPECIAL_KEY_HOME then ([], left @ right)
     else if c = SPECIAL_KEY_END then (left @ right, [])
     else if c = SPECIAL_KEY_DELETE then (left, tl right)
     else if c \<ge> 32 \<and> c < 127 \<and> int (length left + length right) < max_length - 1 then (left @ [c], right)
     else (left, right))"

definition line_is :: "line_t \<Rightarrow> u8 list \<times> u8 list \<Rightarrow> bool" where
  "line_is l = (\<lambda>(left, right). l_length l = length left + length right \<and> l_cursor l = length left \<and>
     l_length l < length (l_buffer l) \<and> take (l_length l) (l_buffer l) = left @ right \<and> screen_ok (l_screen l))"

lemma move_left_eq:
  "a \<le> b \<Longrightarrow> b < length buffer \<Longrightarrow>
     move_left [a..<b] buffer = Some (take a buffer @ take (b - a) (drop (a + 1) buffer) @ drop b buffer)"
proof (induction "b - a" arbitrary: a buffer)
  case 0
  then show ?case by simp
next
  case (Suc d)
  let ?b = "buffer[a := buffer ! (a + 1)]"
  have "move_left [a..<b] buffer = move_left [Suc a..<b] ?b" using Suc by (simp add: upt_conv_Cons)
  also have "\<dots> = Some (take (Suc a) ?b @ take (b - Suc a) (drop (Suc a + 1) ?b) @ drop b ?b)"
    using Suc by (intro Suc.hyps) auto
  finally have step: "move_left [a..<b] buffer = Some (take (Suc a) ?b @ take (b - Suc a) (drop (Suc a + 1) ?b) @ drop b ?b)" .
  have t: "take (Suc a) ?b = take a buffer @ [buffer ! (a + 1)]" using Suc by (simp add: take_Suc_conv_app_nth)
  have "drop (a + 1) buffer = buffer ! (a + 1) # drop (Suc a + 1) buffer" using Suc by (simp add: Cons_nth_drop_Suc)
  moreover have "b - a = Suc (b - Suc a)" using Suc by simp
  ultimately have "take (b - a) (drop (a + 1) buffer) = buffer ! (a + 1) # take (b - Suc a) (drop (Suc a + 1) buffer)" by simp
  then show ?case using step t Suc by simp
qed

lemma move_right_eq:
  "a \<le> b \<Longrightarrow> b < length buffer \<Longrightarrow>
     move_right (rev [a + 1..<b + 1]) buffer = Some (take (a + 1) buffer @ take (b - a) (drop a buffer) @ drop (b + 1) buffer)"
proof (induction "b - a" arbitrary: b buffer)
  case 0
  then show ?case by (simp flip: append_take_drop_id [of "Suc a"])
next
  case (Suc d)
  then obtain c where c: "b = Suc c" "a \<le> c" by (cases b) auto
  let ?b = "buffer[b := buffer ! c]"
  have "move_right (rev [a + 1..<b + 1]) buffer = move_right (rev [a + 1..<c + 1]) ?b" using Suc.prems c by simp
  also have "\<dots> = Some (take (a + 1) ?b @ take (c - a) (drop a ?b) @ drop (c + 1) ?b)"
    using Suc c by (intro Suc.hyps) auto
  finally have step: "move_right (rev [a + 1..<b + 1]) buffer = Some (take (a + 1) ?b @ take (c - a) (drop a ?b) @ drop (c + 1) ?b)" .
  have d: "drop (c + 1) ?b = buffer ! c # drop (b + 1) buffer"
    using Suc.prems c by (simp add: drop_update_swap flip: Cons_nth_drop_Suc)
  have t: "take (c - a) (drop a ?b) = take (c - a) (drop a buffer)" using c by (simp add: drop_update_swap)
  have "take (b - a) (drop a buffer) = take (c - a) (drop a buffer) @ [buffer ! c]"
    using c Suc.prems by (simp add: Suc_diff_le take_Suc_conv_app_nth)
  then show ?case using step d t c by simp
qed

text \<open>Drawing never fails on a good screen.\<close>

lemma screen_putchar_ok: "screen_ok s \<Longrightarrow> \<exists>s'. screen_putchar c s = Some s' \<and> screen_ok s'"
  by (rule putchar_internal_ok [of s c]) (auto simp: screen_putchar_def)

lemma draw_chars_ok: "screen_ok s \<Longrightarrow> \<exists>s'. draw_chars cs s = Some s' \<and> screen_ok s'"
proof (induction cs arbitrary: s)
  case (Cons c cs)
  then show ?case using screen_putchar_ok [OF Cons.prems, of c] by auto
qed simp

lemma screen_set_cursor_ok [simp]: "screen_ok s \<Longrightarrow> screen_ok (screen_set_cursor row col s)"
  by (auto simp: screen_set_cursor_def screen_ok_def)

lemma redraw_ok:
  assumes "screen_ok (l_screen l)" and "l_length l \<le> length (l_buffer l)"
  shows "\<exists>s. redraw row col blank l = Some (l\<lparr>l_screen := s\<rparr>) \<and> screen_ok s"
proof -
  obtain s1 where s1: "draw_chars (take (l_length l) (l_buffer l)) (screen_set_cursor row col (l_screen l)) = Some s1" "screen_ok s1"
    using draw_chars_ok [of "screen_set_cursor row col (l_screen l)"] assms(1) by auto
  show ?thesis using s1 assms(2) screen_putchar_ok [OF s1(2), of 32] by (cases blank) (auto simp: redraw_def)
qed

text \<open>The buffer holds the line, and after it bytes that do not matter.\<close>

lemma line_buffer:
  assumes "line_is l (left, right)"
  obtains rest where "l_buffer l = left @ right @ rest" and "rest \<noteq> []" and "l_length l = length left + length right"
    and "l_cursor l = length left" and "screen_ok (l_screen l)"
proof -
  let ?rest = "drop (l_length l) (l_buffer l)"
  have t: "take (l_length l) (l_buffer l) = left @ right" using assms by (auto simp: line_is_def)
  have "l_buffer l = left @ right @ ?rest" using append_take_drop_id [of "l_length l" "l_buffer l"] unfolding t by simp
  moreover have "?rest \<noteq> []" using assms by (auto simp: line_is_def)
  ultimately show ?thesis using that assms by (auto simp: line_is_def)
qed

lemma line_is_intro:
  "l_buffer l = left @ right @ rest \<Longrightarrow> rest \<noteq> [] \<Longrightarrow> l_length l = length left + length right \<Longrightarrow> l_cursor l = length left \<Longrightarrow>
     screen_ok (l_screen l) \<Longrightarrow> line_is l (left, right)"
  by (simp add: line_is_def)

lemma redraw_line:
  assumes "l_buffer l = left @ right @ rest" and "rest \<noteq> []" and "l_length l = length left + length right" and "l_cursor l = length left"
    and "screen_ok (l_screen l)"
  shows "\<exists>l'. redraw row col blank l = Some l' \<and> line_is l' (left, right) \<and> length (l_buffer l') = length (l_buffer l)"
proof -
  obtain s where "redraw row col blank l = Some (l\<lparr>l_screen := s\<rparr>)" "screen_ok s"
    using redraw_ok [of l row col blank] assms by auto
  then show ?thesis using line_is_intro [of "l\<lparr>l_screen := s\<rparr>" left right rest] assms by auto
qed

lemma line_remove:
  assumes "buffer = left @ x # right @ rest" and "rest \<noteq> []" and "n = length left + length right"
  shows "\<exists>b rest. move_left [length left..<n] buffer = Some b \<and> b = left @ right @ rest \<and> rest \<noteq> [] \<and> length b = length buffer"
proof -
  have "move_left [length left..<n] buffer =
      Some (take (length left) buffer @ take (n - length left) (drop (length left + 1) buffer) @ drop n buffer)"
    by (rule move_left_eq) (use assms in auto)
  moreover have "drop n buffer \<noteq> []" using assms by simp
  ultimately show ?thesis using assms by auto
qed

lemma line_insert:
  assumes "buffer = left @ right @ r # rs" and "n = length left + length right"
  shows "\<exists>b. (if length left < n then move_right (rev [length left + 1..<n + 1]) buffer else Some buffer) = Some b \<and>
    store b (length left) c = Some (left @ c # right @ rs)"
proof (cases right)
  case Nil
  then show ?thesis using assms by (simp add: store_def)
next
  case (Cons x xs)
  have "move_right (rev [length left + 1..<n + 1]) buffer =
      Some (take (length left + 1) buffer @ take (n - length left) (drop (length left) buffer) @ drop (n + 1) buffer)"
    by (rule move_right_eq) (use assms in auto)
  also have "\<dots> = Some (left @ x # right @ rs)" using assms Cons by simp
  finally show ?thesis using assms(2) Cons by (simp add: store_def)
qed

lemma line_key_ok:
  assumes l: "line_is l (left, right)" and max: "max_length \<le> int (length (l_buffer l))"
  shows "\<exists>l'. line_key row col max_length c l = Some l' \<and> line_is l' (edit max_length c (left, right)) \<and>
    length (l_buffer l') = length (l_buffer l)"
proof -
  obtain rest where b: "l_buffer l = left @ right @ rest" "rest \<noteq> []" "l_length l = length left + length right"
    "l_cursor l = length left" "screen_ok (l_screen l)"
    by (rule line_buffer [OF l])
  consider (bs) "c = 8" | (del) "c = 7" | (ins) "32 \<le> c" "c < 127" "int (l_length l) < max_length - 1" "c \<notin> {3, 4, 5, 6, 7, 8}"
    | (move) "c \<notin> {7, 8}" "\<not> (32 \<le> c \<and> c < 127 \<and> int (l_length l) < max_length - 1) \<or> c \<in> {3, 4, 5, 6}" by auto
  then show ?thesis
  proof cases
    case bs
    show ?thesis
    proof (cases "left = []")
      case True
      then show ?thesis using bs b l by (simp add: line_key_def edit_def Let_def)
    next
      case False
      then obtain ys y where y: "left = ys @ [y]" by (metis rev_exhaust)
      obtain b' rest' where m: "move_left [length ys..<length ys + length right] (l_buffer l) = Some b'" "b' = ys @ right @ rest'" "rest' \<noteq> []"
        "length b' = length (l_buffer l)"
        using line_remove [of "l_buffer l" ys y right rest] b(1,2) y by auto
      let ?l = "l\<lparr>l_buffer := b', l_length := l_length l - 1, l_cursor := l_cursor l - 1\<rparr>"
      obtain l' where "redraw row col True ?l = Some l'" "line_is l' (ys, right)" "length (l_buffer l') = length (l_buffer ?l)"
        using redraw_line [of ?l ys right rest' row col True] m b y by auto
      then show ?thesis using bs b y m by (simp add: line_key_def edit_def Let_def)
    qed
  next
    case del
    show ?thesis
    proof (cases right)
      case Nil
      then show ?thesis using del b l by (simp add: line_key_def edit_def Let_def)
    next
      case (Cons x xs)
      obtain b' rest' where m: "move_left [length left..<length left + length xs] (l_buffer l) = Some b'" "b' = left @ xs @ rest'" "rest' \<noteq> []"
        "length b' = length (l_buffer l)"
        using line_remove [of "l_buffer l" left x xs rest] b(1,2) Cons by auto
      let ?l = "l\<lparr>l_buffer := b', l_length := l_length l - 1\<rparr>"
      obtain l' where "redraw row col True ?l = Some l'" "line_is l' (left, xs)" "length (l_buffer l') = length (l_buffer ?l)"
        using redraw_line [of ?l left xs rest' row col True] m b Cons by auto
      then show ?thesis using del b Cons m by (simp add: line_key_def edit_def Let_def)
    qed
  next
    case ins
    obtain r rs where rs: "rest = r # rs" using b(2) by (cases rest) auto
    have ne: "rs \<noteq> []" using ins(3) max b(1,3) rs by auto
    obtain b' where m: "(if l_cursor l < l_length l then move_right (rev [l_cursor l + 1..<l_length l + 1]) (l_buffer l) else Some (l_buffer l)) = Some b'"
      "store b' (l_cursor l) c = Some (left @ c # right @ rs)"
      using line_insert [of "l_buffer l" left right r rs "l_length l" c] b(1,3) rs unfolding b(4) [symmetric] by auto
    let ?l = "l\<lparr>l_buffer := left @ c # right @ rs, l_length := l_length l + 1, l_cursor := l_cursor l + 1\<rparr>"
    obtain l' where "redraw row col False ?l = Some l'" "line_is l' (left @ [c], right)" "length (l_buffer l') = length (l_buffer ?l)"
      using redraw_line [of ?l "left @ [c]" right rs row col False] b ne by auto
    moreover have "line_key row col max_length c l = redraw row col False ?l"
      using ins m by (simp add: line_key_def Let_def del: upt_Suc split del: if_split)
    ultimately show ?thesis using ins b rs by (simp add: edit_def)
  next
    case move
    have "line_is (l\<lparr>l_cursor := length xs, l_screen := screen_set_cursor row n (l_screen l)\<rparr>) (xs, ys)" if "xs @ ys = left @ right" for xs ys n
    proof -
      have "length xs + length ys = length left + length right" using that by (metis length_append)
      then show ?thesis using l that by (auto simp: line_is_def)
    qed
    note go = this
    consider "c = 3" | "c = 4" | "c = 5" | "c = 6" | "c \<notin> {3, 4, 5, 6, 7, 8}" "\<not> (32 \<le> c \<and> c < 127 \<and> int (l_length l) < max_length - 1)"
      using move by auto
    then show ?thesis
    proof cases
      case 1
      then show ?thesis using go [of "butlast left" "last left # right"] b l
        by (cases "left = []") (simp_all add: line_key_def edit_def Let_def)
    next
      case 2
      then show ?thesis using go [of "left @ [hd right]" "tl right"] b l
        by (cases right) (simp_all add: line_key_def edit_def Let_def)
    next
      case 3
      then show ?thesis using go [of "[]" "left @ right"] by (simp add: line_key_def edit_def Let_def)
    next
      case 4
      then show ?thesis using go [of "left @ right" "[]"] b(3) by (simp add: line_key_def edit_def Let_def)
    next
      case 5
      then show ?thesis using b(3) l by (auto simp: line_key_def edit_def Let_def)
    qed
  qed
qed

lemma get_line_loop_ok:
  assumes "10 \<notin> set cs" and "line_is l z" and "max_length \<le> int (length (l_buffer l))"
  shows "\<exists>l'. get_line_loop row col max_length (cs @ ds) l = get_line_loop row col max_length ds l' \<and>
    line_is l' (fold (edit max_length) cs z) \<and> length (l_buffer l') = length (l_buffer l)"
  using assms
proof (induction cs arbitrary: l z)
  case (Cons c cs)
  obtain l1 where l1: "line_key row col max_length c l = Some l1" "line_is l1 (edit max_length c z)" "length (l_buffer l1) = length (l_buffer l)"
    using line_key_ok [of l "fst z" "snd z" max_length row col c] Cons.prems by auto
  then show ?case using Cons.IH [OF _ l1(2)] Cons.prems by auto
qed auto

text \<open>Reading several characters.\<close>

primrec getchars :: "nat \<Rightarrow> keyboard_t \<Rightarrow> u8 list" where
  "getchars 0 k = []"
| "getchars (Suc n) k = (let (c, k) = keyboard_getchar k in c # getchars n k)"

lemma getchars_pending: "ring_ok k \<Longrightarrow> getchars (length (pending k) + m) k = pending k @ replicate m 0"
proof (induction "pending k" arbitrary: k)
  case Nil
  then have "keyboard_getchar k = (0, k)" using keyboard_getchar_ok(2) [of k] by simp
  then have "getchars m k = replicate m 0" by (induction m) simp_all
  then show ?case using Nil.hyps by (metis append_Nil list.size(3) add_0)
next
  case (Cons c cs)
  obtain k' where k': "keyboard_getchar k = (c, k')" "ring_ok k'" "pending k' = cs"
    using keyboard_getchar_ok(1) [OF Cons.prems Cons.hyps(2) [symmetric]] by blast
  have "getchars (length cs + m) k' = cs @ replicate m 0" using Cons.hyps(1) [of k'] k' by simp
  then have "getchars (length (c # cs) + m) k = (c # cs) @ replicate m 0" using k'(1) by simp
  then show ?case unfolding Cons.hyps(2) .
qed

section \<open>Properties\<close>

text \<open>
  C26: The line editor is a text editor with a cursor: whatever keys are pressed before Enter, \<open>keyboard_get_line\<close>
  accesses only its buffer and the screen, and stores the text that the abstract editor produces, terminated. Until Enter it
  waits, with the same correspondence.
\<close>

theorem keyboard_get_line_edits:
  assumes "10 \<notin> set cs" and "screen_ok s" and "buffer \<noteq> []" and "max_length \<le> int (length buffer)"
    and "fold (edit max_length) cs ([], []) = (left, right)"
  shows "\<exists>l s' rest. keyboard_get_line cs buffer max_length s = Some (Waiting l) \<and> line_is l (left, right) \<and>
    keyboard_get_line (cs @ [10]) buffer max_length s = Some (Finished (left @ right @ 0 # rest) s') \<and> screen_ok s' \<and>
    length (left @ right @ 0 # rest) = length buffer"
proof -
  let ?l = "\<lparr>l_buffer = buffer, l_length = 0, l_cursor = 0, l_screen = s\<rparr>"
  have l0: "line_is ?l ([], [])" using assms(2,3) by (simp add: line_is_def)
  note run = get_line_loop_ok [OF assms(1) l0, of max_length "screen_get_cursor_row s" "screen_get_cursor_col s"]
  obtain l where l: "keyboard_get_line cs buffer max_length s = Some (Waiting l)" "line_is l (left, right)"
    using run [of "[]"] assms(4,5) by (auto simp: keyboard_get_line_def)
  obtain l2 where l2: "keyboard_get_line (cs @ [10]) buffer max_length s =
      get_line_loop (screen_get_cursor_row s) (screen_get_cursor_col s) max_length [10] l2" "line_is l2 (left, right)"
      "length (l_buffer l2) = length buffer"
    using run [of "[10]"] assms(4,5) by (auto simp: keyboard_get_line_def)
  obtain r where r: "l_buffer l2 = left @ right @ r" "r \<noteq> []" "l_length l2 = length left + length right" "screen_ok (l_screen l2)"
    by (rule line_buffer [OF l2(2)])
  then obtain x xs where x: "r = x # xs" by (cases r) auto
  have "store (l_buffer l2) (l_length l2) 0 = Some (left @ right @ 0 # xs)" using r x by (simp add: store_def list_update_append)
  moreover obtain s' where "screen_putchar 10 (l_screen l2) = Some s'" "screen_ok s'" using screen_putchar_ok [OF r(4)] by blast
  moreover have "length (left @ right @ 0 # xs) = length buffer" using l2(3) r(1) x by simp
  ultimately show ?thesis using l l2(1) by auto
qed

text \<open>"ac", left arrow, "b", Enter.\<close>

lemma keyboard_get_line_edits_witness:
  "\<exists>s' rest. keyboard_get_line [97, 99, 3, 98, 10] (replicate 256 0) 256 blank_screen = Some (Finished ([97, 98, 99, 0] @ rest) s')"
  using keyboard_get_line_edits [of "[97, 99, 3, 98]" blank_screen "replicate 256 0" 256 "[97, 98]" "[99]"] blank_screen_ok
  by (auto simp: edit_def)

text \<open>
  Characters typed while at most 255 are pending are read in the order typed, and none is lost or changed; further
  ones are dropped until some are read.
\<close>

theorem keyboard_ring_fifo:
  assumes "ring_ok k" and "pending k = []" and "length cs \<le> 255"
  shows "getchars (length cs + m) (fold keyboard_buffer_add cs k) = cs @ replicate m 0 \<and>
    (length cs = 255 \<longrightarrow> keyboard_buffer_add c (fold keyboard_buffer_add cs k) = fold keyboard_buffer_add cs k)"
proof -
  have put: "kbd.put_all ds q = Some (fold keyboard_buffer_add ds q)" for ds q by (induction ds arbitrary: q) auto
  have p: "ring_ok (fold keyboard_buffer_add cs k)" "pending (fold keyboard_buffer_add cs k) = cs"
    using kbd.put_all_law [OF assms(1), of cs] assms(2,3) by (simp_all add: put)
  have "ring_count (fold keyboard_buffer_add cs k) = length cs" using p(2) by (metis length_pending)
  then have "length cs = 255 \<longrightarrow> keyboard_buffer_add c (fold keyboard_buffer_add cs k) = fold keyboard_buffer_add cs k"
    using ring_full_iff [OF p(1)] by (simp add: keyboard_buffer_add_def Let_def)
  then show ?thesis using getchars_pending [OF p(1), of m] p(2) by simp
qed

definition empty_keyboard :: keyboard_t where
  "empty_keyboard = \<lparr>shift_pressed = 0, caps_lock = 0, ctrl_pressed = 0, extended_key = 0, keyboard_buffer = replicate 256 0,
     buffer_read_pos = 250, buffer_write_pos = 250\<rparr>"

lemma empty_keyboard_ok: "ring_ok empty_keyboard" "pending empty_keyboard = []"
  by (simp_all add: empty_keyboard_def ring_ok_def pending_def ring_count_def)

lemma keyboard_ring_fifo_witness:
  "getchars 3 (fold keyboard_buffer_add [97, 98] empty_keyboard) = [97, 98, 0]"
proof -
  have "getchars (length [97, 98 :: u8] + 1) (fold keyboard_buffer_add [97, 98] empty_keyboard) = [97, 98] @ replicate 1 0"
    using keyboard_ring_fifo [OF empty_keyboard_ok, of "[97, 98]" 1] by simp
  then show ?thesis by (simp add: eval_nat_numeral)
qed

text \<open>Caps lock shifts the digit and punctuation keys as well: with it on and shift released, the key 1 types an exclamation mark.\<close>

lemma caps_lock_shifts_digits:
  "ascii_of 2 (k\<lparr>shift_pressed := 0, caps_lock := 1\<rparr>) = 33"
  by (simp add: ascii_of_def scancode_to_ascii_lower_def scancode_to_ascii_upper_def)

end
