(* ===== verification/Kprintf.thy ===== *)
theory Kprintf
  imports Screen
begin

text \<open>
  Formatted output, \<open>kernel/kprintf.c\<close>. A variable argument is a 32-bit word or a string pointer; taking an argument of
  the other kind, or one too many, is \<open>None\<close>. The local \<open>buffer\<close> of 32 bytes is a parameter, since its contents on
  entry are indeterminate, and is threaded through the conversions that share it.
\<close>

datatype va_val = Word u32 | Str "u8 list option"

section \<open>Conversion of numbers\<close>

definition index_opt :: "u8 list \<Rightarrow> nat \<Rightarrow> u8 option" where
  "index_opt xs i = (if i < length xs then Some (xs ! i) else None)"

definition digits_of :: "bool \<Rightarrow> u8 list" where
  "digits_of uppercase =
     (if uppercase then [48, 49, 50, 51, 52, 53, 54, 55, 56, 57, 65, 66, 67, 68, 69, 70, 0]
      else [48, 49, 50, 51, 52, 53, 54, 55, 56, 57, 97, 98, 99, 100, 101, 102, 0])"

text \<open>The first loop stores the digits backwards into \<open>temp\<close>, the second copies them to \<open>str\<close>.\<close>

function utoa_loop :: "u32 \<Rightarrow> u32 \<Rightarrow> u8 list \<Rightarrow> u8 list \<Rightarrow> nat \<Rightarrow> (u8 list \<times> nat) option" where
  "utoa_loop value base digits temp i =
     (if value > 0
      then if base = 0 then None
           else case index_opt digits (unat (value mod base)) of None \<Rightarrow> None
                | Some d \<Rightarrow> if i < length temp then utoa_loop (value div base) base digits (temp[i := d]) (i + 1) else None
      else Some (temp, i))"
  by pat_completeness auto
termination
  by (relation "measure (\<lambda>(_, _, _, temp, i). length temp - i)") auto

fun utoa_copy :: "u8 list \<Rightarrow> nat \<Rightarrow> u8 list \<Rightarrow> nat \<Rightarrow> (u8 list \<times> nat) option" where
  "utoa_copy temp 0 str j = Some (str, j)"
| "utoa_copy temp (Suc i) str j =
     do { d \<leftarrow> index_opt temp i; str \<leftarrow> store str j d; utoa_copy temp i str (j + 1) }"

definition utoa :: "u32 \<Rightarrow> u8 list \<Rightarrow> u32 \<Rightarrow> bool \<Rightarrow> u8 list \<Rightarrow> u8 list option" where
  "utoa value str base uppercase temp =
     (if value = 0 then do { str \<leftarrow> store str 0 48; store str 1 0 }
      else do { (temp, i) \<leftarrow> utoa_loop value base (digits_of uppercase) temp 0;
                (str, j) \<leftarrow> utoa_copy temp i str 0;
                store str j 0 })"

text \<open>\<open>-value\<close> overflows for the smallest \<open>int\<close>.\<close>

definition itoa_signed :: "int \<Rightarrow> u8 list \<Rightarrow> u8 list \<Rightarrow> u8 list option" where
  "itoa_signed value str temp =
     (if value < 0
      then do { str \<leftarrow> store str 0 45;
                if value = - (2 ^ 31) then None
                else do { rest \<leftarrow> utoa (word_of_int (- value)) (tl str) 10 False temp; Some (hd str # rest) } }
      else utoa (word_of_int value) str 10 False temp)"

section \<open>Formatting\<close>

definition va_word :: "va_val list \<Rightarrow> (u32 \<times> va_val list) option" where
  "va_word args = (case args of Word v # args \<Rightarrow> Some (v, args) | _ \<Rightarrow> None)"

definition va_str :: "va_val list \<Rightarrow> (u8 list option \<times> va_val list) option" where
  "va_str args = (case args of Str v # args \<Rightarrow> Some (v, args) | _ \<Rightarrow> None)"

text \<open>The switch on the character after \<open>%\<close>.\<close>

definition kprintf_spec :: "u8 \<Rightarrow> va_val list \<Rightarrow> u8 list \<Rightarrow> u8 list \<Rightarrow> screen_t \<Rightarrow> (va_val list \<times> u8 list \<times> screen_t) option" where
  "kprintf_spec f args buffer temp s =
     (if f = 100 \<or> f = 105
      then do { (v, args) \<leftarrow> va_word args; buffer \<leftarrow> itoa_signed (sint v) buffer temp;
                s \<leftarrow> put_string buffer s; Some (args, buffer, s) }
      else if f = 117
      then do { (v, args) \<leftarrow> va_word args; buffer \<leftarrow> utoa v buffer 10 False temp;
                s \<leftarrow> put_string buffer s; Some (args, buffer, s) }
      else if f = 120
      then do { (v, args) \<leftarrow> va_word args; buffer \<leftarrow> utoa v buffer 16 False temp;
                s \<leftarrow> put_string buffer s; Some (args, buffer, s) }
      else if f = 88
      then do { (v, args) \<leftarrow> va_word args; buffer \<leftarrow> utoa v buffer 16 True temp;
                s \<leftarrow> put_string buffer s; Some (args, buffer, s) }
      else if f = 112
      then do { (v, args) \<leftarrow> va_word args;
                s \<leftarrow> screen_putchar_internal_for_kprintf 48 s; s \<leftarrow> screen_putchar_internal_for_kprintf 120 s;
                buffer \<leftarrow> utoa v buffer 16 False temp;
                s \<leftarrow> put_string buffer s; Some (args, buffer, s) }
      else if f = 99
      then do { (v, args) \<leftarrow> va_word args; s \<leftarrow> screen_putchar_internal_for_kprintf (ucast v) s; Some (args, buffer, s) }
      else if f = 115
      then do { (v, args) \<leftarrow> va_str args;
                s \<leftarrow> put_string (case v of None \<Rightarrow> [40, 110, 117, 108, 108, 41, 0] | Some str \<Rightarrow> str) s;
                Some (args, buffer, s) }
      else if f = 37
      then do { s \<leftarrow> screen_putchar_internal_for_kprintf 37 s; Some (args, buffer, s) }
      else do { s \<leftarrow> screen_putchar_internal_for_kprintf 37 s; s \<leftarrow> screen_putchar_internal_for_kprintf f s;
                Some (args, buffer, s) })"

fun kprintf_loop :: "u8 list \<Rightarrow> va_val list \<Rightarrow> u8 list \<Rightarrow> u8 list \<Rightarrow> screen_t \<Rightarrow> screen_t option" where
  "kprintf_loop [] args buffer temp s = None"
| "kprintf_loop [c] args buffer temp s =
     (if c = 0 then Some s
      else if c = 37 then None
      else do { s \<leftarrow> screen_putchar_internal_for_kprintf c s; kprintf_loop [] args buffer temp s })"
| "kprintf_loop (c # f # format) args buffer temp s =
     (if c = 0 then Some s
      else if c = 37
      then do { (args, buffer, s) \<leftarrow> kprintf_spec f args buffer temp s; kprintf_loop format args buffer temp s }
      else do { s \<leftarrow> screen_putchar_internal_for_kprintf c s; kprintf_loop (f # format) args buffer temp s })"

definition kprintf_internal ::
  "u8 \<Rightarrow> bool \<Rightarrow> u8 list \<Rightarrow> va_val list \<Rightarrow> u8 list \<Rightarrow> u8 list \<Rightarrow> screen_t \<Rightarrow> screen_t option" where
  "kprintf_internal color use_color format args buffer temp s =
     do { let old_color = (if use_color then screen_get_color s else 0);
          let s = (if use_color then screen_set_color color s else s);
          s \<leftarrow> kprintf_loop format args buffer temp s;
          let s = (if use_color then screen_set_color old_color s else s);
          Some (screen_update_cursor s) }"

definition kprintf :: "u8 list \<Rightarrow> va_val list \<Rightarrow> u8 list \<Rightarrow> u8 list \<Rightarrow> screen_t \<Rightarrow> screen_t option" where
  "kprintf format args buffer temp s = kprintf_internal 0 False format args buffer temp s"

definition kprintf_color :: "u8 \<Rightarrow> u8 list \<Rightarrow> va_val list \<Rightarrow> u8 list \<Rightarrow> u8 list \<Rightarrow> screen_t \<Rightarrow> screen_t option" where
  "kprintf_color color format args buffer temp s = kprintf_internal color True format args buffer temp s"

declare utoa_loop.simps [simp del]

section \<open>Numerals\<close>

text \<open>The digits of a number in a base, the least significant first.\<close>

function rbase :: "nat \<Rightarrow> bool \<Rightarrow> nat \<Rightarrow> u8 list" where
  "rbase b up n = (digits_of up ! (n mod b)) # (if 1 < b \<and> n div b > 0 then rbase b up (n div b) else [])"
  by pat_completeness auto
termination
  by (relation "measure (\<lambda>(_, _, n). n)") (auto simp: div_greater_zero_iff)

declare rbase.simps [simp del]

lemma length_digits_of [simp]: "length (digits_of up) = 17"
  by (simp add: digits_of_def)

lemma digits_of_nonzero: "i < 16 \<Longrightarrow> digits_of up ! i \<noteq> 0"
proof -
  assume "i < 16"
  then have "digits_of up ! i = butlast (digits_of up) ! i" "i < length (butlast (digits_of up))" by (simp_all add: nth_butlast)
  then have "digits_of up ! i \<in> set (butlast (digits_of up))" by simp
  moreover have "0 \<notin> set (butlast (digits_of up))" by (simp add: digits_of_def)
  ultimately show ?thesis by metis
qed

lemma rbase_nonzero:
  assumes "1 < b" and "b \<le> 16" and "c \<in> set (rbase b up n)"
  shows "c \<noteq> 0"
  using assms
proof (induction b up n rule: rbase.induct)
  case (1 b up n)
  have "n mod b < 16" using mod_less_divisor [of b n] "1.prems"(1,2) by linarith
  then have "digits_of up ! (n mod b) \<noteq> 0" by (rule digits_of_nonzero)
  then show ?case using "1.IH" "1.prems" by (subst (asm) rbase.simps) (auto split: if_splits)
qed

lemma length_rbase: "10 \<le> b \<Longrightarrow> n < 10 ^ Suc k \<Longrightarrow> length (rbase b up n) \<le> Suc k"
proof (induction k arbitrary: n)
  case 0
  then show ?case by (subst rbase.simps) simp
next
  case (Suc k)
  have "n div b \<le> n div 10" using Suc.prems(1) by (intro div_le_mono2) simp_all
  also have "\<dots> < 10 ^ Suc k" using Suc.prems(2) by (simp add: less_mult_imp_div_less mult.commute)
  finally show ?case using Suc.IH [OF Suc.prems(1)] by (subst rbase.simps) simp
qed

lemma utoa_loop_rbase:
  assumes "1 < b" and "b \<le> 16" and "0 < n" and "n < 4294967296" and "i + length (rbase b up n) \<le> length temp"
  shows "utoa_loop (of_nat n) (of_nat b) (digits_of up) temp i =
    Some (take i temp @ rbase b up n @ drop (i + length (rbase b up n)) temp, i + length (rbase b up n))"
  using assms
proof (induction b up n arbitrary: temp i rule: rbase.induct)
  case (1 b up n)
  let ?d = "digits_of up ! (n mod b)"
  let ?t = "temp[i := ?d]"
  have i: "i < length temp" using "1.prems"(5) by (subst (asm) rbase.simps) simp
  have pos: "(0 :: u32) < of_nat n" and b0: "(of_nat b :: u32) \<noteq> 0"
    using "1.prems"(1-4) by (simp_all add: word_less_nat_alt word_unat_eq_iff)
  have dm: "(of_nat n :: u32) div of_nat b = of_nat (n div b)" "unat ((of_nat n :: u32) mod of_nat b) = n mod b"
  proof -
    have "n div b < 4294967296" using "1.prems"(4) by (meson div_le_dividend le_less_trans)
    then show "(of_nat n :: u32) div of_nat b = of_nat (n div b)"
      using "1.prems"(2,4) by (simp add: word_unat_eq_iff unat_div)
    show "unat ((of_nat n :: u32) mod of_nat b) = n mod b" using "1.prems"(2,4) by (simp add: unat_mod)
  qed
  have m: "n mod b < 17" using "1.prems"(1,2) mod_less_divisor [of b n] by linarith
  have step: "utoa_loop (of_nat n) (of_nat b) (digits_of up) temp i = utoa_loop (of_nat (n div b)) (of_nat b) (digits_of up) ?t (i + 1)"
    using pos b0 dm m i by (subst utoa_loop.simps) (simp add: index_opt_def)
  have t: "take (i + 1) ?t = take i temp @ [?d]" using i by (simp add: take_Suc_conv_app_nth)
  show ?case
  proof (cases "n div b > 0")
    case True
    have r: "rbase b up n = ?d # rbase b up (n div b)" using True "1.prems"(1) by (subst rbase.simps) simp
    have "n div b < 4294967296" using "1.prems"(4) by (meson div_le_dividend le_less_trans)
    then have "utoa_loop (of_nat (n div b)) (of_nat b) (digits_of up) ?t (i + 1) =
        Some (take (i + 1) ?t @ rbase b up (n div b) @ drop (i + 1 + length (rbase b up (n div b))) ?t, i + 1 + length (rbase b up (n div b)))"
      using "1.IH" [of "i + 1" ?t] "1.prems" True r by simp
    then show ?thesis using step t r by simp
  next
    case False
    then have z: "n div b = 0" by simp
    have r: "rbase b up n = [?d]" using False by (subst rbase.simps) simp
    have "utoa_loop 0 (of_nat b) (digits_of up) ?t (i + 1) = Some (?t, i + 1)" by (subst utoa_loop.simps) simp
    moreover have "?t = take i temp @ [?d] @ drop (i + 1) temp" using i by (simp add: upd_conv_take_nth_drop)
    ultimately show ?thesis using step r z by simp
  qed
qed

lemma utoa_copy_eq:
  "i \<le> length temp \<Longrightarrow> j + i \<le> length str \<Longrightarrow>
     utoa_copy temp i str j = Some (take j str @ rev (take i temp) @ drop (j + i) str, j + i)"
proof (induction i arbitrary: str j)
  case (Suc i)
  have "utoa_copy temp (Suc i) str j = utoa_copy temp i (str[j := temp ! i]) (j + 1)"
    using Suc.prems by (simp add: index_opt_def store_def)
  also have "\<dots> = Some (take (j + 1) (str[j := temp ! i]) @ rev (take i temp) @ drop (j + 1 + i) (str[j := temp ! i]), j + 1 + i)"
    using Suc.prems by (intro Suc.IH) auto
  finally show ?case using Suc.prems by (simp add: take_Suc_conv_app_nth)
qed simp

text \<open>Ten digits and the terminator fit into 11 bytes.\<close>

lemma utoa_ok:
  assumes "10 \<le> b" and "b \<le> 16" and "11 \<le> length str" and "length temp = 32"
  shows "\<exists>rest. utoa v str (of_nat b) up temp = Some (rev (rbase b up (unat v)) @ 0 # rest) \<and>
    length (rev (rbase b up (unat v)) @ 0 # rest) = length str"
proof -
  let ?r = "rbase b up (unat v)"
  have len: "length ?r \<le> 10" using length_rbase [OF assms(1), of "unat v" 9] unat_u32_less [of v] by simp
  have fin: "store (xs @ drop (length xs) str) (length xs) 0 = Some (xs @ 0 # drop (Suc (length xs)) str)" if "length xs \<le> 10" for xs
  proof -
    have "drop (length xs) str = str ! length xs # drop (Suc (length xs)) str" using that assms(3) by (simp add: Cons_nth_drop_Suc)
    then show ?thesis using that assms(3) by (simp add: store_def list_update_append)
  qed
  show ?thesis
  proof (cases "v = 0")
    case True
    have r: "rbase b up 0 = [48]" by (subst rbase.simps) (simp add: digits_of_def)
    obtain x y zs where "str = x # y # zs" using assms(3) by (metis Suc_le_length_iff numeral_nat(2,3) eval_nat_numeral)
    then show ?thesis using True r by (simp add: utoa_def store_def)
  next
    case False
    then have "0 < unat v" by (simp add: unat_gt_0)
    then have "utoa_loop v (of_nat b) (digits_of up) temp 0 = Some (?r @ drop (length ?r) temp, length ?r)"
      using utoa_loop_rbase [of b "unat v" 0 up temp] assms len by simp
    moreover have "utoa_copy (?r @ drop (length ?r) temp) (length ?r) str 0 = Some (rev ?r @ drop (length ?r) str, length ?r)"
      using utoa_copy_eq [of "length ?r" "?r @ drop (length ?r) temp" 0 str] len assms(3) by simp
    ultimately have "utoa v str (of_nat b) up temp = Some (rev ?r @ 0 # drop (Suc (length ?r)) str)"
      using fin [of "rev ?r"] len False by (simp add: utoa_def)
    then show ?thesis using len assms(3) by auto
  qed
qed

section \<open>The text a format denotes\<close>

definition decimal :: "int \<Rightarrow> u8 list" where
  "decimal v = (if v < 0 then [45] else []) @ rev (rbase 10 False (nat \<bar>v\<bar>))"

definition conv :: "u8 \<Rightarrow> va_val list \<Rightarrow> (u8 list \<times> va_val list) option" where
  "conv f args =
     (if f = 100 \<or> f = 105
      then do { (v, args) \<leftarrow> va_word args; if sint v = - (2 ^ 31) then None else Some (decimal (sint v), args) }
      else if f = 117 then do { (v, args) \<leftarrow> va_word args; Some (rev (rbase 10 False (unat v)), args) }
      else if f = 120 then do { (v, args) \<leftarrow> va_word args; Some (rev (rbase 16 False (unat v)), args) }
      else if f = 88 then do { (v, args) \<leftarrow> va_word args; Some (rev (rbase 16 True (unat v)), args) }
      else if f = 112 then do { (v, args) \<leftarrow> va_word args; Some ([48, 120] @ rev (rbase 16 False (unat v)), args) }
      else if f = 99 then do { (v, args) \<leftarrow> va_word args; Some ([ucast v], args) }
      else if f = 115
      then do { (v, args) \<leftarrow> va_str args;
                case v of None \<Rightarrow> Some ([40, 110, 117, 108, 108, 41], args)
                | Some str \<Rightarrow> if 0 \<in> set str then Some (cstr str, args) else None }
      else if f = 37 then Some ([37], args)
      else Some ([37, f], args))"

fun render :: "u8 list \<Rightarrow> va_val list \<Rightarrow> u8 list option" where
  "render [] args = None"
| "render [c] args = (if c = 0 then Some [] else None)"
| "render (c # f # format) args =
     (if c = 0 then Some []
      else if c = 37 then do { (t, args) \<leftarrow> conv f args; r \<leftarrow> render format args; Some (t @ r) }
      else do { r \<leftarrow> render (f # format) args; Some (c # r) })"

lemma put_string_open: "0 \<notin> set str \<Longrightarrow> put_string str s = None"
proof (induction str arbitrary: s)
  case (Cons c str)
  then show ?case by (cases "screen_putchar_internal c s") auto
qed simp

lemma put_utoa:
  assumes "10 \<le> b" and "b \<le> 16" and "length str = 32" and "length temp = 32"
  obtains buffer where "utoa v str (of_nat b) up temp = Some buffer" and "length buffer = 32"
    and "\<And>s. put_string buffer s = puts screen_putchar_internal (rev (rbase b up (unat v))) s"
proof -
  obtain rest where r: "utoa v str (of_nat b) up temp = Some (rev (rbase b up (unat v)) @ 0 # rest)"
    "length (rev (rbase b up (unat v)) @ 0 # rest) = 32"
    using utoa_ok [OF assms(1,2) _ assms(4), of str v up] assms(3) by auto
  have "0 \<notin> set (rev (rbase b up (unat v)))" using rbase_nonzero [of b 0] assms(1,2) by auto
  then have "put_string (rev (rbase b up (unat v)) @ 0 # rest) s = puts screen_putchar_internal (rev (rbase b up (unat v))) s" for s
    by (simp add: put_string_puts cstr_append_nul)
  then show ?thesis using that r by blast
qed

lemma unat_of_int_u32: "0 \<le> k \<Longrightarrow> k < 4294967296 \<Longrightarrow> unat (word_of_int k :: u32) = nat k"
  by (simp add: unat_eq_nat_uint uint_word_of_int)

lemma abs_sint_u32:
  fixes v :: u32
  shows "\<bar>sint v\<bar> < 4294967296"
  using sint_greater_eq [of v] sint_less [of v] by simp

lemma put_itoa_signed:
  assumes "length str = 32" and "length temp = 32" and "sint v \<noteq> - (2 ^ 31)"
  obtains buffer where "itoa_signed (sint (v :: u32)) str temp = Some buffer" and "length buffer = 32"
    and "\<And>s. put_string buffer s = puts screen_putchar_internal (decimal (sint v)) s"
proof (cases "sint v < 0")
  case False
  have u: "unat (word_of_int (sint v) :: u32) = nat \<bar>sint v\<bar>"
    using False abs_sint_u32 [of v] by (subst unat_of_int_u32) auto
  obtain buffer where b: "utoa (word_of_int (sint v)) str (of_nat 10) False temp = Some buffer" "length buffer = 32"
    "\<And>s. put_string buffer s = puts screen_putchar_internal (rev (rbase 10 False (unat (word_of_int (sint v) :: u32)))) s"
    by (rule put_utoa [of 10 str temp "word_of_int (sint v)" False]) (use assms in auto)
  show ?thesis by (rule that [OF _ b(2)]) (use b(1,3) u False in \<open>auto simp: itoa_signed_def decimal_def\<close>)
next
  case True
  let ?u = "word_of_int (- sint v) :: u32"
  have u: "unat ?u = nat \<bar>sint v\<bar>" using True abs_sint_u32 [of v] by (subst unat_of_int_u32) auto
  obtain x xs where str: "str = x # xs" "length xs = 31" using assms(1) by (cases str) auto
  have "11 \<le> length xs" using str(2) by simp
  then obtain rest where r: "utoa ?u xs 10 False temp = Some (rev (rbase 10 False (unat ?u)) @ 0 # rest)"
    "length (rev (rbase 10 False (unat ?u)) @ 0 # rest) = 31"
    using utoa_ok [of 10 xs temp ?u False] assms(2) str(2) by auto
  have nz: "0 \<notin> set (rev (rbase 10 False (unat ?u)))" using rbase_nonzero [of 10 0] by auto
  show ?thesis
  proof (rule that)
    show "itoa_signed (sint v) str temp = Some (45 # rev (rbase 10 False (unat ?u)) @ 0 # rest)"
      using True assms(3) r(1) str by (simp add: itoa_signed_def store_def)
    show "length (45 # rev (rbase 10 False (unat ?u)) @ 0 # rest) = 32" using r(2) by simp
    show "put_string (45 # rev (rbase 10 False (unat ?u)) @ 0 # rest) s = puts screen_putchar_internal (decimal (sint v)) s" for s
      using nz True u by (simp add: put_string_puts cstr_append_nul decimal_def cong: Option.bind_cong)
  qed
qed

text \<open>A conversion prints the text it denotes; the buffer keeps its 32 bytes.\<close>

lemma va_word_cases:
  obtains "va_word args = None" | v rest where "va_word args = Some (v, rest)"
  by (cases "va_word args") auto

lemma kprintf_spec_conv:
  assumes "length buffer = 32" and "length temp = 32"
  shows "case conv f args of None \<Rightarrow> kprintf_spec f args buffer temp s = None
    | Some (t, args') \<Rightarrow> \<exists>buffer'. length buffer' = 32 \<and>
        kprintf_spec f args buffer temp s = do { s \<leftarrow> puts screen_putchar_internal t s; Some (args', buffer', s) }"
proof (cases "f = 99 \<or> f = 115 \<or> f \<notin> {100, 105, 117, 120, 88, 112}")
  case True
  show ?thesis
  proof (cases "f = 115")
    case True
    show ?thesis
    proof (cases "va_str args")
      case (Some p)
      obtain v rest where p: "p = (v, rest)" by (cases p)
      have "put_string [40, 110, 117, 108, 108, 41, 0] t = puts screen_putchar_internal [40, 110, 117, 108, 108, 41] t" for t
        by (subst put_string_puts) simp_all
      then show ?thesis using True Some p assms(1)
        by (auto simp: kprintf_spec_def conv_def put_string_puts put_string_open split: option.split)
    qed (use True in \<open>simp add: kprintf_spec_def conv_def\<close>)
  next
    case False
    then show ?thesis using True assms(1)
      by (cases args rule: va_word_cases) (auto simp: kprintf_spec_def conv_def screen_putchar_internal_for_kprintf_def Option.bind_assoc)
  qed
next
  case False
  show ?thesis
  proof (cases args rule: va_word_cases)
    case 1
    then show ?thesis using False by (auto simp: kprintf_spec_def conv_def)
  next
    case (2 v rest)
    obtain bd where d: "utoa v buffer (of_nat 10) False temp = Some bd" "length bd = 32"
      "\<And>s. put_string bd s = puts screen_putchar_internal (rev (rbase 10 False (unat v))) s"
      by (rule put_utoa [of 10 buffer temp]) (use assms in auto)
    obtain bx where x: "utoa v buffer (of_nat 16) False temp = Some bx" "length bx = 32"
      "\<And>s. put_string bx s = puts screen_putchar_internal (rev (rbase 16 False (unat v))) s"
      by (rule put_utoa [of 16 buffer temp]) (use assms in auto)
    obtain bX where X: "utoa v buffer (of_nat 16) True temp = Some bX" "length bX = 32"
      "\<And>s. put_string bX s = puts screen_putchar_internal (rev (rbase 16 True (unat v))) s"
      by (rule put_utoa [of 16 buffer temp]) (use assms in auto)
    show ?thesis
    proof (cases "f = 100 \<or> f = 105")
      case i: True
      show ?thesis
      proof (cases "sint v = - (2 ^ 31)")
        case True
        then show ?thesis using i 2 by (auto simp: kprintf_spec_def conv_def itoa_signed_def store_def)
      next
        case False
        obtain b where "itoa_signed (sint v) buffer temp = Some b" "length b = 32"
          "\<And>s. put_string b s = puts screen_putchar_internal (decimal (sint v)) s"
          by (rule put_itoa_signed [OF assms False]) blast
        then show ?thesis using i 2 False by (auto simp: kprintf_spec_def conv_def)
      qed
    next
      case False
      then show ?thesis
        using \<open>\<not> (f = 99 \<or> f = 115 \<or> f \<notin> {100, 105, 117, 120, 88, 112})\<close> 2 d x X
        by (auto simp: kprintf_spec_def conv_def screen_putchar_internal_for_kprintf_def Option.bind_assoc)
    qed
  qed
qed

lemma kprintf_loop_render:
  "length buffer = 32 \<Longrightarrow> length temp = 32 \<Longrightarrow>
     kprintf_loop format args buffer temp s = do { t \<leftarrow> render format args; puts screen_putchar_internal t s }"
proof (induction format args arbitrary: buffer s rule: render.induct)
  case (2 c args)
  then show ?case by (cases "screen_putchar_internal c s") (auto simp: screen_putchar_internal_for_kprintf_def)
next
  case (3 c f format args)
  consider "c = 0" | "c = 37" | "c \<noteq> 0" "c \<noteq> 37" by auto
  then show ?case
  proof cases
    case 2
    note k = kprintf_spec_conv [OF "3.prems", of f args s]
    show ?thesis
    proof (cases "conv f args")
      case None
      then show ?thesis using k 2 by simp
    next
      case (Some p)
      obtain t args' where p: "p = (t, args')" by (cases p)
      obtain buffer' where b: "length buffer' = 32"
        "kprintf_spec f args buffer temp s = do { s \<leftarrow> puts screen_putchar_internal t s; Some (args', buffer', s) }"
        using k Some p by auto
      have "kprintf_loop format args' buffer' temp s' = do { r \<leftarrow> render format args'; puts screen_putchar_internal r s' }" for s'
        by (rule "3.IH"(1) [of p t args']) (use 2 Some p b(1) "3.prems"(2) in simp_all)
      then show ?thesis using 2 Some p b(2)
        by (cases "puts screen_putchar_internal t s"; cases "render format args'") (simp_all add: puts_append)
    qed
  next
    case 3
    then show ?thesis using "3.IH"(2) [OF 3 "3.prems"]
      by (cases "screen_putchar_internal c s"; cases "render (f # format) args") (simp_all add: screen_putchar_internal_for_kprintf_def)
  qed simp
qed simp

section \<open>Properties\<close>

text \<open>
  C25: When a format and its arguments denote a text, \<open>kprintf\<close> shows exactly that text and \<open>kprintf_color\<close> shows
  it in the given colour and resets the colour; no conversion leaves the 32-byte buffers, and the hardware cursor
  follows.
\<close>

theorem kprintf_shows:
  assumes "screen_ok s" and "length buffer = 32" and "length temp = 32" and "render format args = Some msg"
  shows "\<exists>s' s''. kprintf format args buffer temp s = Some s' \<and> screen_ok s' \<and>
    flat s' = fold (spec_char (current_color s)) msg (flat s) \<and> hw_cursor s' = snd (flat s') \<and>
    kprintf_color color format args buffer temp s = Some s'' \<and> screen_ok s'' \<and> current_color s'' = current_color s \<and>
    flat s'' = fold (spec_char color) msg (flat s) \<and> hw_cursor s'' = snd (flat s'')"
proof -
  have c: "screen_ok (screen_set_color color s)" "flat (screen_set_color color s) = flat s" "current_color (screen_set_color color s) = color"
    using assms(1) by (simp_all add: screen_ok_def flat_def screen_set_color_def)
  obtain t where t: "puts screen_putchar_internal msg s = Some t" "screen_ok t" "flat t = fold (spec_char (current_color s)) msg (flat s)"
    using vga.puts_law [OF assms(1), of msg] by auto
  obtain u where u: "puts screen_putchar_internal msg (screen_set_color color s) = Some u" "screen_ok u" "flat u = fold (spec_char color) msg (flat s)"
    using vga.puts_law [OF c(1), of msg] c(2,3) by auto
  let ?u = "screen_set_color (current_color s) u"
  have v: "screen_ok ?u" "flat ?u = flat u" "current_color ?u = current_color s" using u(2) by (simp_all add: screen_ok_def flat_def screen_set_color_def)
  have "kprintf format args buffer temp s = Some (screen_update_cursor t)"
    using t(1) assms(4) kprintf_loop_render [OF assms(2,3)] by (simp add: kprintf_def kprintf_internal_def)
  moreover have "kprintf_color color format args buffer temp s = Some (screen_update_cursor ?u)"
    using u(1) assms(4) kprintf_loop_render [OF assms(2,3)] by (simp add: kprintf_color_def kprintf_internal_def screen_get_color_def)
  ultimately show ?thesis using t(2,3) u(3) v update_cursor_hw [OF t(2)] update_cursor_hw [OF v(1)] by simp
qed

lemma kprintf_shows_witness:
  "\<exists>s'. kprintf [37, 100, 47, 37, 120, 0] [Word 42, Word 255] (replicate 32 0) (replicate 32 0) blank_screen = Some s' \<and>
     flat s' = fold (spec_char (current_color blank_screen)) [52, 50, 47, 102, 102] (flat blank_screen)"
proof -
  have s: "sint (42 :: u32) = 42" by simp
  have r10: "rbase 10 False 42 = [50, 52]" by (simp add: rbase.simps digits_of_def)
  have r16: "rbase 16 False 255 = [102, 102]" by (simp add: rbase.simps digits_of_def)
  have "render [37, 100, 47, 37, 120, 0] [Word 42, Word 255] = Some [52, 50, 47, 102, 102]"
    using s r10 r16 by (simp add: conv_def va_word_def decimal_def)
  from kprintf_shows [OF blank_screen_ok _ _ this, of "replicate 32 0" "replicate 32 0"] show ?thesis by auto
qed

text \<open>
  A format that ends in a lone \<open>%\<close> makes \<open>kprintf\<close> run past the end of the string: the terminator is taken for
  an unknown conversion, printed, and skipped.
\<close>

theorem kprintf_trailing_percent:
  assumes "0 \<notin> set pre" and "37 \<notin> set pre" and "length buffer = 32" and "length temp = 32"
  shows "kprintf (pre @ [37, 0]) args buffer temp s = None"
proof -
  have "render (pre @ [37, 0]) args = None"
    using assms(1,2)
  proof (induction pre)
    case Nil
    then show ?case by (simp add: conv_def)
  next
    case (Cons c pre)
    then show ?case by (cases "pre @ [37, 0]") auto
  qed
  then show ?thesis using kprintf_loop_render [OF assms(3,4)] by (simp add: kprintf_def kprintf_internal_def)
qed

lemma kprintf_trailing_percent_witness:
  "kprintf [53, 48, 37, 0] [] (replicate 32 0) (replicate 32 0) blank_screen = None"
  using kprintf_trailing_percent [of "[53, 48]" "replicate 32 0" "replicate 32 0" "[]" blank_screen] by simp

end
