(* ===== verification/Interrupts.thy ===== *)
theory Interrupts
  imports Process Keyboard Kprintf
begin

text \<open>
  Descriptor tables and interrupt dispatch: \<open>kernel/gdt.c\<close>, \<open>kernel/idt.c\<close> and \<open>kernel/isr.c\<close>. The addresses of the
  tables and of the assembly entry stubs are parameters; loading a table register is a field of the state. The
  registers the stubs save are passed as the fields the handlers read.
\<close>

section \<open>Segment descriptors (gdt.c)\<close>

abbreviation KERNEL_CODE_SEGMENT :: u32 where "KERNEL_CODE_SEGMENT \<equiv> 0x08"
abbreviation KERNEL_DATA_SEGMENT :: u32 where "KERNEL_DATA_SEGMENT \<equiv> 0x10"

record gdt_entry_t =
  limit_low :: u16
  base_low :: u16
  base_middle :: u8
  g_access :: u8
  granularity :: u8
  base_high :: u8

record table_ptr =
  tp_limit :: u16
  tp_base :: u32

record tss_t =
  ts_esp0 :: u32
  ts_ss0 :: u32
  ts_es :: u32
  ts_cs :: u32
  ts_ss :: u32
  ts_ds :: u32
  ts_fs :: u32
  ts_gs :: u32
  ts_others :: "u32 list" \<comment> \<open>the 17 remaining double words up to \<open>ldt\<close>\<close>
  ts_trap :: u16
  ts_iomap_base :: u16

record gdt_state =
  gdt_entries :: "gdt_entry_t list"
  gdt_ptr :: table_ptr
  tss_entry :: tss_t
  gdt_loaded :: bool
  tss_loaded :: bool

definition gdt_set_gate :: "nat \<Rightarrow> u32 \<Rightarrow> u32 \<Rightarrow> u8 \<Rightarrow> u8 \<Rightarrow> gdt_state \<Rightarrow> gdt_state" where
  "gdt_set_gate num base limit access gran g =
     g\<lparr>gdt_entries := (gdt_entries g)[num :=
        \<lparr>limit_low = ucast (limit AND 0xFFFF), base_low = ucast (base AND 0xFFFF),
         base_middle = ucast (drop_bit 16 base AND 0xFF), g_access = access,
         granularity = ucast (drop_bit 16 limit AND 0x0F) OR (gran AND 0xF0),
         base_high = ucast (drop_bit 24 base AND 0xFF)\<rparr>]\<rparr>"

definition gdt_init :: "u32 \<Rightarrow> u32 \<Rightarrow> u8 list \<Rightarrow> u8 list \<Rightarrow> gdt_state \<Rightarrow> screen_t \<Rightarrow> (gdt_state \<times> screen_t) option" where
  "gdt_init entries_addr tss_addr buffer temp g s =
     do { let g = g\<lparr>gdt_ptr := \<lparr>tp_limit = 8 * 6 - 1, tp_base = entries_addr\<rparr>\<rparr>;
          let g = gdt_set_gate 0 0 0 0 0 g;
          let g = gdt_set_gate 1 0 0xFFFFFFFF 0x9A 0xCF g;
          let g = gdt_set_gate 2 0 0xFFFFFFFF 0x92 0xCF g;
          let g = gdt_set_gate 3 0 0xFFFFFFFF 0xFA 0xCF g;
          let g = gdt_set_gate 4 0 0xFFFFFFFF 0xF2 0xCF g;
          let g = gdt_set_gate 5 tss_addr (104 - 1) 0x89 0x40 g;
          let g = g\<lparr>tss_entry := \<lparr>ts_esp0 = 0, ts_ss0 = KERNEL_DATA_SEGMENT, ts_es = KERNEL_DATA_SEGMENT OR 3,
                ts_cs = KERNEL_CODE_SEGMENT OR 3, ts_ss = KERNEL_DATA_SEGMENT OR 3, ts_ds = KERNEL_DATA_SEGMENT OR 3,
                ts_fs = KERNEL_DATA_SEGMENT OR 3, ts_gs = KERNEL_DATA_SEGMENT OR 3, ts_others = replicate 17 0,
                ts_trap = 0, ts_iomap_base = 0\<rparr>\<rparr>;
          let g = g\<lparr>gdt_loaded := True, tss_loaded := True\<rparr>;
          s \<leftarrow> kprintf (lit (''[GDT] Global Descriptor Table initialized'' @ [CHR 10])) [] buffer temp s;
          s \<leftarrow> kprintf (lit (''[GDT] Segments: Kernel (Ring 0), User (Ring 3), TSS'' @ [CHR 10])) [] buffer temp s;
          Some (g, s) }"

definition tss_set_kernel_stack :: "u32 \<Rightarrow> gdt_state \<Rightarrow> gdt_state" where
  "tss_set_kernel_stack stack g = g\<lparr>tss_entry := (tss_entry g)\<lparr>ts_esp0 := stack\<rparr>\<rparr>"

section \<open>Interrupt gates (idt.c)\<close>

abbreviation IDT_ENTRIES :: nat where "IDT_ENTRIES \<equiv> 256"
abbreviation PIC1_COMMAND :: u16 where "PIC1_COMMAND \<equiv> 0x20"
abbreviation PIC1_DATA :: u16 where "PIC1_DATA \<equiv> 0x21"
abbreviation PIC2_COMMAND :: u16 where "PIC2_COMMAND \<equiv> 0xA0"
abbreviation PIC2_DATA :: u16 where "PIC2_DATA \<equiv> 0xA1"
abbreviation PIC_EOI :: u8 where "PIC_EOI \<equiv> 0x20"

record idt_entry =
  offset_low :: u16
  selector :: u16
  i_zero :: u8
  type_attr :: u8
  offset_high :: u16

record idt_state =
  idt :: "idt_entry list"
  idtp :: table_ptr
  idt_loaded :: bool
  interrupts_on :: bool

definition idt_set_gate :: "u8 \<Rightarrow> u32 \<Rightarrow> u16 \<Rightarrow> u8 \<Rightarrow> idt_state \<Rightarrow> idt_state" where
  "idt_set_gate num handler sel flags t =
     t\<lparr>idt := (idt t)[unat num :=
        \<lparr>offset_low = ucast (handler AND 0xFFFF), selector = sel, i_zero = 0, type_attr = flags,
         offset_high = ucast (drop_bit 16 handler AND 0xFFFF)\<rparr>]\<rparr>"

definition io_wait :: "screen_t \<Rightarrow> screen_t" where
  "io_wait s = outb 0x80 0 s"

definition pic_remap :: "screen_t \<Rightarrow> screen_t" where
  "pic_remap s =
     (let s = io_wait (outb PIC1_COMMAND 0x11 s);
          s = io_wait (outb PIC2_COMMAND 0x11 s);
          s = io_wait (outb PIC1_DATA 0x20 s);
          s = io_wait (outb PIC2_DATA 0x28 s);
          s = io_wait (outb PIC1_DATA 0x04 s);
          s = io_wait (outb PIC2_DATA 0x02 s);
          s = io_wait (outb PIC1_DATA 0x01 s);
          s = io_wait (outb PIC2_DATA 0x01 s);
          s = outb PIC1_DATA 0xFC s
      in outb PIC2_DATA 0xFF s)"

definition pic_send_eoi :: "u8 \<Rightarrow> screen_t \<Rightarrow> screen_t" where
  "pic_send_eoi irq s =
     (let s = (if irq \<ge> 8 then outb PIC2_COMMAND PIC_EOI s else s) in outb PIC1_COMMAND PIC_EOI s)"

text \<open>\<open>stub n\<close> is the address of \<open>isr\<close>\<open>n\<close> for \<open>n < 32\<close> and of \<open>irq\<close>\<open>(n - 32)\<close> from there on.\<close>

definition idt_init :: "u32 \<Rightarrow> (nat \<Rightarrow> u32) \<Rightarrow> idt_state \<Rightarrow> screen_t \<Rightarrow> (idt_state \<times> screen_t) option" where
  "idt_init idt_addr stub t s =
     do { let t = t\<lparr>idtp := \<lparr>tp_limit = 8 * 256 - 1, tp_base = idt_addr\<rparr>\<rparr>;
          let t = fold (\<lambda>i t. t\<lparr>idt := (idt t)[i :=
                    \<lparr>offset_low = 0, selector = 0, i_zero = 0, type_attr = 0, offset_high = 0\<rparr>]\<rparr>) [0..<IDT_ENTRIES] t;
          let s = pic_remap s;
          let t = fold (\<lambda>n. idt_set_gate (of_nat n) (stub n) 0x08 0x8E) [0..<48] t;
          let t = t\<lparr>idt_loaded := True\<rparr>;
          s \<leftarrow> screen_write_color (Some (lit ''[IDT] '')) (MAKE_COLOR 2 0) s;
          s \<leftarrow> screen_write (Some (lit (''Interrupt Descriptor Table initialized'' @ [CHR 10]))) s;
          s \<leftarrow> screen_write_color (Some (lit ''[PIC] '')) (MAKE_COLOR 2 0) s;
          s \<leftarrow> screen_write (Some (lit (''Programmable Interrupt Controller configured'' @ [CHR 10]))) s;
          Some (t\<lparr>interrupts_on := True\<rparr>, s) }"

section \<open>Dispatch (isr.c)\<close>

definition exception_messages :: "string list" where
  "exception_messages =
     [''Division By Zero'', ''Debug'', ''Non Maskable Interrupt'', ''Breakpoint'', ''Into Detected Overflow'',
      ''Out of Bounds'', ''Invalid Opcode'', ''No Coprocessor'', ''Double Fault'', ''Coprocessor Segment Overrun'',
      ''Bad TSS'', ''Segment Not Present'', ''Stack Fault'', ''General Protection Fault'', ''Page Fault'',
      ''Unknown Interrupt'', ''Coprocessor Fault'', ''Alignment Check'', ''Machine Check''] @ replicate 13 ''Reserved''"

text \<open>An exception halts the machine, a page fault goes to the paging code, any other number is ignored.\<close>

datatype isr_outcome = Halted screen_t | PageFault u32 | Ignored

definition isr_handler :: "u32 \<Rightarrow> u32 \<Rightarrow> u32 \<Rightarrow> screen_t \<Rightarrow> isr_outcome option" where
  "isr_handler int_no err_code eip s =
     (if int_no < 32
      then if int_no = 14 then Some (PageFault err_code)
           else do { s \<leftarrow> screen_write (Some (lit [CHR 10])) s;
                     s \<leftarrow> screen_write_color (Some (lit ''[EXCEPTION] '')) (MAKE_COLOR 4 0) s;
                     s \<leftarrow> screen_write_color (Some (lit (exception_messages ! unat int_no))) (MAKE_COLOR 14 0) s;
                     s \<leftarrow> screen_write (Some (lit '' Exception ('')) s;
                     s \<leftarrow> screen_write_hex int_no s;
                     s \<leftarrow> screen_write (Some (lit ('')'' @ [CHR 10]))) s;
                     s \<leftarrow> screen_write_color (Some (lit ''Error Code: '')) (MAKE_COLOR 4 0) s;
                     s \<leftarrow> screen_write_hex err_code s;
                     s \<leftarrow> screen_write (Some (lit [CHR 10])) s;
                     s \<leftarrow> screen_write_color (Some (lit ''EIP: '')) (MAKE_COLOR 4 0) s;
                     s \<leftarrow> screen_write_hex eip s;
                     s \<leftarrow> screen_write (Some (lit [CHR 10])) s;
                     s \<leftarrow> screen_write_color (Some (lit ([CHR 10] @ ''SYSTEM HALTED!'' @ [CHR 10]))) (MAKE_COLOR 15 4) s;
                     Some (Halted s) }
      else Some Ignored)"

record machine_t =
  mc_proc :: proc_state
  mc_kbd :: keyboard_t
  mc_screen :: screen_t

text \<open>
  The result is \<open>True\<close> when the timer handler switched to another process: \<open>pic_send_eoi\<close> is then reached only when the
  interrupted process is resumed (\<open>irq_resume\<close>).
\<close>

definition irq_resume :: "u8 \<Rightarrow> machine_t \<Rightarrow> machine_t" where
  "irq_resume irq m = m\<lparr>mc_screen := pic_send_eoi irq (mc_screen m)\<rparr>"

definition irq_handler :: "u32 \<Rightarrow> u8 \<Rightarrow> machine_t \<Rightarrow> bool \<times> machine_t" where
  "irq_handler int_no scancode m =
     (let irq = ucast (int_no - 32) :: u8 in
      if irq = 0
      then (let (switched, p) = timer_handler (mc_proc m); m = m\<lparr>mc_proc := p\<rparr> in
            if switched then (True, m) else (False, irq_resume irq m))
      else if irq = 1 then (False, irq_resume irq (m\<lparr>mc_kbd := keyboard_handler scancode (mc_kbd m)\<rparr>))
      else (False, irq_resume irq m))"

section \<open>Reading descriptors back\<close>

text \<open>How the processor puts the fields of a descriptor together.\<close>

definition seg_base :: "gdt_entry_t \<Rightarrow> u32" where
  "seg_base e = ucast (base_low e) OR push_bit 16 (ucast (base_middle e)) OR push_bit 24 (ucast (base_high e))"

definition seg_limit :: "gdt_entry_t \<Rightarrow> u32" where
  "seg_limit e = ucast (limit_low e) OR push_bit 16 (ucast (granularity e AND 0x0F))"

definition gate_target :: "idt_entry \<Rightarrow> u32" where
  "gate_target e = ucast (offset_low e) OR push_bit 16 (ucast (offset_high e))"

lemma word_masks: "(0xFFFF :: u32) = mask 16" "(0xFF :: u32) = mask 8" "(0x0F :: u32) = mask 4" "(0x0F :: u8) = mask 4"
  "(0xF0 :: u8) = push_bit 4 (mask 4)" "(0xFFFFF :: u32) = mask 20"
  by (simp_all add: mask_eq_exp_minus_1)

lemma join_base:
  "(ucast (ucast (b AND 0xFFFF :: u32) :: u16) :: u32) OR push_bit 16 (ucast (ucast (drop_bit 16 b AND 0xFF :: u32) :: u8)) OR
     push_bit 24 (ucast (ucast (drop_bit 24 b AND 0xFF :: u32) :: u8)) = b"
  unfolding word_masks
proof (rule bit_word_eqI)
  fix n assume n: "n < LENGTH(32)"
  consider "n < 16" | "16 \<le> n" "n < 24" | "24 \<le> n" by linarith
  then show "bit ((ucast (ucast (b AND mask 16 :: u32) :: u16) :: u32) OR push_bit 16 (ucast (ucast (drop_bit 16 b AND mask 8 :: u32) :: u8)) OR
     push_bit 24 (ucast (ucast (drop_bit 24 b AND mask 8 :: u32) :: u8))) n = bit b n"
    by cases (use n in \<open>auto simp: bit_simps\<close>)
qed

lemma join_limit:
  "(ucast (ucast (l AND 0xFFFF :: u32) :: u16) :: u32) OR
     push_bit 16 (ucast ((ucast (drop_bit 16 l AND 0x0F :: u32) OR (g AND 0xF0)) AND 0x0F :: u8)) = l AND 0xFFFFF"
  unfolding word_masks
proof (rule bit_word_eqI)
  fix n assume n: "n < LENGTH(32)"
  consider "n < 16" | "16 \<le> n" "n < 20" | "20 \<le> n" by linarith
  then show "bit ((ucast (ucast (l AND mask 16 :: u32) :: u16) :: u32) OR
     push_bit 16 (ucast ((ucast (drop_bit 16 l AND mask 4 :: u32) OR (g AND push_bit 4 (mask 4))) AND mask 4 :: u8))) n = bit (l AND mask 20) n"
    by cases (use n in \<open>auto simp: bit_simps\<close>)
qed

lemma join_target:
  "(ucast (ucast (h AND 0xFFFF :: u32) :: u16) :: u32) OR push_bit 16 (ucast (ucast (drop_bit 16 h AND 0xFFFF :: u32) :: u16)) = h"
  unfolding word_masks
proof (rule bit_word_eqI)
  fix n assume n: "n < LENGTH(32)"
  consider "n < 16" | "16 \<le> n" by linarith
  then show "bit ((ucast (ucast (h AND mask 16 :: u32) :: u16) :: u32) OR push_bit 16 (ucast (ucast (drop_bit 16 h AND mask 16 :: u32) :: u16))) n = bit h n"
    by cases (use n in \<open>auto simp: bit_simps\<close>)
qed

lemma gdt_set_gate_read:
  assumes "num < length (gdt_entries g)"
  shows "seg_base (gdt_entries (gdt_set_gate num base limit access gran g) ! num) = base"
    and "seg_limit (gdt_entries (gdt_set_gate num base limit access gran g) ! num) = limit AND 0xFFFFF"
    and "g_access (gdt_entries (gdt_set_gate num base limit access gran g) ! num) = access"
  using assms by (simp_all add: gdt_set_gate_def seg_base_def seg_limit_def join_base join_limit)

lemma idt_set_gate_nth:
  assumes "unat num < length (idt t)" and "k < length (idt t)"
  shows "idt (idt_set_gate num h sel flags t) ! k =
    (if k = unat num then \<lparr>offset_low = ucast (h AND 0xFFFF), selector = sel, i_zero = 0, type_attr = flags,
       offset_high = ucast (drop_bit 16 h AND 0xFFFF)\<rparr> else idt t ! k)"
  using assms by (simp add: idt_set_gate_def)

text \<open>The table after the loops of \<open>idt_init\<close>.\<close>

definition no_gate :: idt_entry where
  "no_gate = \<lparr>offset_low = 0, selector = 0, i_zero = 0, type_attr = 0, offset_high = 0\<rparr>"

lemma idt_clear:
  "length (idt t) = 256 \<Longrightarrow> m \<le> 256 \<Longrightarrow>
     idt (fold (\<lambda>i t. t\<lparr>idt := (idt t)[i := no_gate]\<rparr>) [0..<m] t) = replicate m no_gate @ drop m (idt t)"
proof (induction m)
  case (Suc m)
  then have "drop m (idt t) = idt t ! m # drop (Suc m) (idt t)" by (simp add: Cons_nth_drop_Suc)
  then show ?case using Suc by (simp add: list_update_append replicate_append_same)
qed simp

lemma idt_fill:
  assumes "length (idt t) = 256" and "m \<le> 48"
  shows "length (idt (fold (\<lambda>n. idt_set_gate (of_nat n) (stub n) 0x08 0x8E) [0..<m] t)) = 256 \<and>
    (\<forall>k < 256. idt (fold (\<lambda>n. idt_set_gate (of_nat n) (stub n) 0x08 0x8E) [0..<m] t) ! k =
      (if k < m then \<lparr>offset_low = ucast (stub k AND 0xFFFF), selector = 8, i_zero = 0, type_attr = 0x8E,
         offset_high = ucast (drop_bit 16 (stub k) AND 0xFFFF)\<rparr> else idt t ! k))"
  using assms(2)
proof (induction m)
  case 0
  then show ?case using assms(1) by simp
next
  case (Suc m)
  have u: "unat (of_nat m :: u8) = m" using Suc.prems unfolding unat_of_nat by (intro mod_less) simp
  let ?t = "fold (\<lambda>n. idt_set_gate (of_nat n) (stub n) 0x08 0x8E) [0..<m] t"
  have l: "length (idt ?t) = 256" using Suc by simp
  have "length (idt (idt_set_gate (of_nat m) (stub m) 0x08 0x8E ?t)) = 256" using l by (simp add: idt_set_gate_def)
  moreover have "idt (idt_set_gate (of_nat m) (stub m) 0x08 0x8E ?t) ! k =
      (if k < Suc m then \<lparr>offset_low = ucast (stub k AND 0xFFFF), selector = 8, i_zero = 0, type_attr = 0x8E,
         offset_high = ucast (drop_bit 16 (stub k) AND 0xFFFF)\<rparr> else idt t ! k)" if "k < 256" for k
    using idt_set_gate_nth [of "of_nat m" ?t k] l u Suc that by (auto simp: less_Suc_eq)
  ultimately show ?case by simp
qed

section \<open>Properties\<close>

lemma gdt_loop_length [simp]: "length (gdt_entries (gdt_set_gate n b l a g t)) = length (gdt_entries t)"
  by (simp add: gdt_set_gate_def)

lemma gdt_set_gate_other: "k \<noteq> num \<Longrightarrow> gdt_entries (gdt_set_gate num b l a gr g) ! k = gdt_entries g ! k"
  by (simp add: gdt_set_gate_def)

text \<open>
  After \<open>idt_init\<close> the processor enters stub \<open>n\<close> through the kernel code segment for each of the vectors 0 to
  47, finds no gate for any other vector, and interrupts are enabled with the table loaded.
\<close>

theorem idt_init_gates:
  assumes "screen_ok s" and "length (idt t) = 256"
  shows "\<exists>t' s'. idt_init idt_addr stub t s = Some (t', s') \<and> screen_ok s' \<and> idt_loaded t' \<and> interrupts_on t' \<and>
    (\<forall>n < 256. if n < 48 then gate_target (idt t' ! n) = stub n \<and> selector (idt t' ! n) = 8 \<and> type_attr (idt t' ! n) = 0x8E
       else type_attr (idt t' ! n) = 0)"
proof -
  let ?t1 = "fold (\<lambda>i t. t\<lparr>idt := (idt t)[i := no_gate]\<rparr>) [0..<256] (t\<lparr>idtp := \<lparr>tp_limit = 8 * 256 - 1, tp_base = idt_addr\<rparr>\<rparr>)"
  have c: "idt ?t1 = replicate 256 no_gate" using idt_clear [of "t\<lparr>idtp := \<lparr>tp_limit = 8 * 256 - 1, tp_base = idt_addr\<rparr>\<rparr>" 256] assms(2) by simp
  let ?t2 = "fold (\<lambda>n. idt_set_gate (of_nat n) (stub n) 0x08 0x8E) [0..<48] ?t1"
  have f: "\<forall>k < 256. idt ?t2 ! k = (if k < 48 then \<lparr>offset_low = ucast (stub k AND 0xFFFF), selector = 8, i_zero = 0, type_attr = 0x8E,
         offset_high = ucast (drop_bit 16 (stub k) AND 0xFFFF)\<rparr> else idt ?t1 ! k)"
    using idt_fill [of ?t1 48 stub] c by simp
  have p: "screen_ok (pic_remap s)" using assms(1) by (simp add: pic_remap_def io_wait_def outb_def screen_ok_def Let_def)
  obtain s1 where s1: "screen_write_color (Some (lit ''[IDT] '')) (MAKE_COLOR 2 0) (pic_remap s) = Some s1" "screen_ok s1"
    using screen_write_color_law [OF p lit_nul] by blast
  obtain s2 where s2: "screen_write (Some (lit (''Interrupt Descriptor Table initialized'' @ [CHR 10]))) s1 = Some s2" "screen_ok s2"
    using screen_write_law [OF s1(2) lit_nul] by blast
  obtain s3 where s3: "screen_write_color (Some (lit ''[PIC] '')) (MAKE_COLOR 2 0) s2 = Some s3" "screen_ok s3"
    using screen_write_color_law [OF s2(2) lit_nul] by blast
  obtain s4 where s4: "screen_write (Some (lit (''Programmable Interrupt Controller configured'' @ [CHR 10]))) s3 = Some s4" "screen_ok s4"
    using screen_write_law [OF s3(2) lit_nul] by blast
  have "idt_init idt_addr stub t s = Some (?t2\<lparr>idt_loaded := True, interrupts_on := True\<rparr>, s4)"
    using s1(1) s2(1) s3(1) s4(1) unfolding idt_init_def Let_def no_gate_def by (simp del: upt_Suc upt_rec_numeral)
  then show ?thesis using f c s4(2) by (auto simp: gate_target_def join_target no_gate_def)
qed

lemma idt_init_gates_witness:
  "\<exists>t' s'. idt_init 0x5000 (\<lambda>n. 0x10000 + 16 * of_nat n) \<lparr>idt = replicate 256 no_gate, idtp = \<lparr>tp_limit = 0, tp_base = 0\<rparr>, idt_loaded = False,
     interrupts_on = False\<rparr> blank_screen = Some (t', s') \<and> gate_target (idt t' ! 33) = 0x10210 \<and> type_attr (idt t' ! 48) = 0"
  using idt_init_gates [OF blank_screen_ok, of "\<lparr>idt = replicate 256 no_gate, idtp = \<lparr>tp_limit = 0, tp_base = 0\<rparr>, idt_loaded = False,
     interrupts_on = False\<rparr>" "0x5000" "\<lambda>n. 0x10000 + 16 * of_nat n"] by fastforce

lemma check_sleeping_keeps:
  "current_process (process_check_sleeping s) = current_process s \<and> system_ticks (process_check_sleeping s) = system_ticks s"
proof -
  have "current_process (fold wake_slot is s) = current_process s \<and> system_ticks (fold wake_slot is s) = system_ticks s" for "is"
    by (induction "is" arbitrary: s) (auto simp: wake_slot_def upd_pcb_def Let_def)
  then show ?thesis by (simp add: process_check_sleeping_def)
qed

lemma schedule_switch:
  "fst (process_schedule s) \<Longrightarrow> current_process (snd (process_schedule s)) \<noteq> current_process s"
  by (auto simp: process_schedule_def Let_def upd_pcb_def split: if_splits)

lemma timer_handler_switch:
  assumes "fst (timer_handler s)"
  shows "(system_ticks s + 1) mod 10 = 0 \<and> current_process (snd (timer_handler s)) \<noteq> current_process s"
proof -
  let ?s = "process_check_sleeping (s\<lparr>system_ticks := system_ticks s + 1\<rparr>)"
  have k: "current_process ?s = current_process s" "system_ticks ?s = system_ticks s + 1"
    using check_sleeping_keeps [of "s\<lparr>system_ticks := system_ticks s + 1\<rparr>"] by simp_all
  show ?thesis
  proof (cases "(system_ticks s + 1) mod 10 = 0")
    case True
    then have "timer_handler s = process_schedule ?s" using k(2) by (simp add: timer_handler_def)
    then show ?thesis using schedule_switch [of ?s] assms True k(1) by simp
  next
    case False
    then show ?thesis using assms k(2) by (simp add: timer_handler_def)
  qed
qed

text \<open>
  C28: A hardware interrupt is acknowledged to the controllers (both for the lines of the slave) exactly when the
  handler returns to the interrupted process. When the timer handler switches processes, nothing has been sent by then: the new process runs with the
  timer interrupt still in service.
\<close>

theorem irq_eoi_order:
  "case irq_handler int_no scancode m of (switched, m') \<Rightarrow>
     if switched then ucast (int_no - 32) = (0 :: u8) \<and> (system_ticks (mc_proc m) + 1) mod 10 = 0 \<and>
       out_ports (mc_screen m') = out_ports (mc_screen m) \<and>
       current_process (mc_proc m') \<noteq> current_process (mc_proc m)
     else out_ports (mc_screen m') = out_ports (mc_screen m) @
       (if (8 :: u8) \<le> ucast (int_no - 32) then [(PIC2_COMMAND, PIC_EOI), (PIC1_COMMAND, PIC_EOI)] else [(PIC1_COMMAND, PIC_EOI)])"
proof -
  have eoi: "out_ports (pic_send_eoi i s) = out_ports s @ (if 8 \<le> i then [(PIC2_COMMAND, PIC_EOI), (PIC1_COMMAND, PIC_EOI)] else [(PIC1_COMMAND, PIC_EOI)])" for i s
    by (simp add: pic_send_eoi_def outb_def)
  show ?thesis
    using timer_handler_switch [of "mc_proc m"] by (cases "timer_handler (mc_proc m)") (auto simp: irq_handler_def irq_resume_def Let_def eoi)
qed

text \<open>Such a switch happens: here no other process is ready, and the tenth tick hands the processor to the idle process.\<close>

lemma empty_table_wake: "set is \<subseteq> {..<16} \<Longrightarrow> process_table p = replicate 16 0 \<Longrightarrow> fold wake_slot is p = p"
  by (induction "is") (simp_all add: wake_slot_def Let_def)

lemma timer_irq_can_switch: "\<exists>m m'. irq_handler 32 0 m = (True, m')"
proof -
  let ?p = "demo_procs\<lparr>process_table := replicate 16 0, current_process := 1, idle_process := 2, process_count_val := 1, system_ticks := 9\<rparr>"
  have "process_check_sleeping (?p\<lparr>system_ticks := system_ticks ?p + 1\<rparr>) = ?p\<lparr>system_ticks := 10\<rparr>"
    unfolding process_check_sleeping_def by (subst empty_table_wake) auto
  moreover have st: "fold (sched_step q) is (0, 0) = (0, 0)" if "process_table q = replicate 16 0" "set is \<subseteq> {..<16}" for q "is"
    using that(2) by (induction "is") (simp_all add: sched_step_def that(1) Let_def)
  have "sched_pick q = 0" if "process_table q = replicate 16 0" for q
  proof -
    have "set [0..<16] \<subseteq> {..<16}" by auto
    then show ?thesis unfolding sched_pick_def by (simp only: st [OF that] fst_conv)
  qed
  ultimately have "fst (timer_handler ?p)" by (simp add: timer_handler_def process_schedule_def Let_def)
  then have "irq_handler 32 0 \<lparr>mc_proc = ?p, mc_kbd = empty_keyboard, mc_screen = blank_screen\<rparr> =
      (True, \<lparr>mc_proc = snd (timer_handler ?p), mc_kbd = empty_keyboard, mc_screen = blank_screen\<rparr>)"
    by (cases "timer_handler ?p") (simp add: irq_handler_def)
  then show ?thesis by blast
qed

text \<open>Plain formats, without conversions.\<close>

lemma render_plain: "0 \<notin> set xs \<Longrightarrow> 37 \<notin> set xs \<Longrightarrow> render (xs @ [0]) args = Some xs"
proof (induction xs)
  case (Cons c xs)
  then show ?case by (cases "xs @ [0]") auto
qed simp

lemma kprintf_plain:
  assumes "screen_ok s" and "length buffer = 32" and "length temp = 32" and "0 \<notin> set (map of_char str :: u8 list)"
    and "37 \<notin> set (map of_char str :: u8 list)"
  shows "\<exists>s'. kprintf (lit str) [] buffer temp s = Some s' \<and> screen_ok s'"
proof -
  have r: "render (lit str) [] = Some (map of_char str)" unfolding lit_def using assms(4,5) by (rule render_plain)
  obtain t where "puts screen_putchar_internal (map of_char str) s = Some t" "screen_ok t" using vga.puts_law [OF assms(1)] by blast
  then show ?thesis using r kprintf_loop_render [OF assms(2,3)] by (simp add: kprintf_def kprintf_internal_def)
qed

text \<open>
  After \<open>gdt_init\<close> the code and data segments of both rings start at 0 and have the full 20-bit limit, with the
  access bytes of their rings, and the task state segment is described with its 104 bytes. Its I/O map base is 0, below that limit, so the
  permission map the processor consults for user code is the task state segment itself.
\<close>

theorem gdt_init_segments:
  assumes "screen_ok s" and "length buffer = 32" and "length temp = 32" and "length (gdt_entries g) = 6"
  shows "\<exists>g' s'. gdt_init entries_addr tss_addr buffer temp g s = Some (g', s') \<and> screen_ok s' \<and>
    map (\<lambda>i. (seg_base (gdt_entries g' ! i), seg_limit (gdt_entries g' ! i), g_access (gdt_entries g' ! i))) [0..<6] =
      [(0, 0, 0), (0, 0xFFFFF, 0x9A), (0, 0xFFFFF, 0x92), (0, 0xFFFFF, 0xFA), (0, 0xFFFFF, 0xF2), (tss_addr, 103, 0x89)] \<and>
    ts_ss0 (tss_entry g') = KERNEL_DATA_SEGMENT \<and> unat (ts_iomap_base (tss_entry g')) < unat (seg_limit (gdt_entries g' ! 5))"
proof -
  obtain s1 where s1: "kprintf (lit (''[GDT] Global Descriptor Table initialized'' @ [CHR 10])) [] buffer temp s = Some s1" "screen_ok s1"
    using kprintf_plain [OF assms(1-3), of "''[GDT] Global Descriptor Table initialized'' @ [CHR 10]"] by auto
  obtain s2 where s2: "kprintf (lit (''[GDT] Segments: Kernel (Ring 0), User (Ring 3), TSS'' @ [CHR 10])) [] buffer temp s1 = Some s2" "screen_ok s2"
    using kprintf_plain [OF s1(2) assms(2,3), of "''[GDT] Segments: Kernel (Ring 0), User (Ring 3), TSS'' @ [CHR 10]"] by auto
  have six: "[0..<6] = [0, 1, 2, 3, 4, 5]" by (simp add: upt_rec)
  show ?thesis
    using s1(1) s2 assms(4) by (auto simp: gdt_init_def Let_def six gdt_set_gate_other gdt_set_gate_read)
qed

definition blank_gdt :: gdt_state where
  "blank_gdt = \<lparr>gdt_entries = replicate 6 \<lparr>limit_low = 0, base_low = 0, base_middle = 0, g_access = 0, granularity = 0, base_high = 0\<rparr>,
     gdt_ptr = \<lparr>tp_limit = 0, tp_base = 0\<rparr>,
     tss_entry = \<lparr>ts_esp0 = 0, ts_ss0 = 0, ts_es = 0, ts_cs = 0, ts_ss = 0, ts_ds = 0, ts_fs = 0, ts_gs = 0, ts_others = [], ts_trap = 0, ts_iomap_base = 0\<rparr>,
     gdt_loaded = False, tss_loaded = False\<rparr>"

lemma gdt_init_segments_witness:
  "\<exists>g' s'. gdt_init 0x7000 0x8000 (replicate 32 0) (replicate 32 0) blank_gdt blank_screen = Some (g', s') \<and> screen_ok s'"
  using gdt_init_segments [OF blank_screen_ok, of "replicate 32 0" "replicate 32 0" blank_gdt "0x7000" "0x8000"]
  by (auto simp: blank_gdt_def)

end
