(* ===== verification/Syscall.thy ===== *)
theory Syscall
  imports Interrupts
begin

text \<open>
  System calls, \<open>kernel/syscall.c\<close>. The state is that of the processes, the screen, and the byte memory the pointer
  arguments refer to. A call returns a value, or switches to another process before it returns, or (an exit that did not
  switch) halts. The buffers \<open>kprintf\<close> uses are parameters, as in the theory of \<open>kprintf\<close>.
\<close>

abbreviation SYSCALL_MAX :: u32 where "SYSCALL_MAX \<equiv> 8"

record sys_t =
  sy_proc :: proc_state
  sy_screen :: screen_t
  sy_mem :: "u32 \<Rightarrow> u8"

datatype sys_outcome = Returned int sys_t | Switched sys_t | Stopped sys_t

definition of_switch :: "bool \<times> proc_state \<Rightarrow> sys_t \<Rightarrow> sys_outcome" where
  "of_switch r s = (let s = s\<lparr>sy_proc := snd r\<rparr> in if fst r then Switched s else Returned 0 s)"

definition mem_bytes :: "(u32 \<Rightarrow> u8) \<Rightarrow> u32 \<Rightarrow> u32 \<Rightarrow> u8 list" where
  "mem_bytes mem p n = map (\<lambda>i. mem (p + of_nat i)) [0..<unat n]"

definition mem_write :: "u32 \<Rightarrow> u8 list \<Rightarrow> (u32 \<Rightarrow> u8) \<Rightarrow> u32 \<Rightarrow> u8" where
  "mem_write p bs mem = (\<lambda>a. if unat (a - p) < length bs then bs ! unat (a - p) else mem a)"

definition sys_exit :: "u8 list \<Rightarrow> u8 list \<Rightarrow> u32 \<Rightarrow> sys_t \<Rightarrow> sys_outcome option" where
  "sys_exit buffer temp exit_code s =
     do { let current = process_current (sy_proc s);
          scr \<leftarrow> (if current \<noteq> 0
                   then kprintf (lit (''[SYSCALL] Process %d exiting with code %d'' @ [CHR 10]))
                          [Word (pr_pid (pcbs (sy_proc s) current)), Word exit_code] buffer temp (sy_screen s)
                   else Some (sy_screen s));
          (r, p) \<leftarrow> process_exit (sy_proc s);
          let s = s\<lparr>sy_proc := p, sy_screen := scr\<rparr>;
          Some (case r of None \<Rightarrow> Stopped s | Some True \<Rightarrow> Switched s | Some False \<Rightarrow> Returned 0 s) }"

fun write_loop_sys :: "nat \<Rightarrow> u32 \<Rightarrow> (u32 \<Rightarrow> u8) \<Rightarrow> screen_t \<Rightarrow> screen_t option" where
  "write_loop_sys 0 p mem s = Some s"
| "write_loop_sys (Suc n) p mem s =
     (if mem p = 0 then Some s
      else do { s \<leftarrow> screen_write (Some [mem p, 0]) s; write_loop_sys n (p + 1) mem s })"

definition sys_write :: "u32 \<Rightarrow> u32 \<Rightarrow> u32 \<Rightarrow> sys_t \<Rightarrow> sys_outcome option" where
  "sys_write fd buffer count s =
     (if buffer = 0 \<or> count = 0 then Some (Returned (- 1) s)
      else do { scr \<leftarrow> write_loop_sys (unat count) buffer (sy_mem s) (sy_screen s);
                Some (Returned (sint count) (s\<lparr>sy_screen := scr\<rparr>)) })"

definition sys_read :: "u32 \<Rightarrow> u32 \<Rightarrow> u32 \<Rightarrow> sys_t \<Rightarrow> sys_outcome option" where
  "sys_read fd buffer count s = Some (Returned 0 s)"

definition sys_getpid :: "sys_t \<Rightarrow> sys_outcome option" where
  "sys_getpid s =
     (let current = process_current (sy_proc s) in
      Some (Returned (if current \<noteq> 0 then sint (pr_pid (pcbs (sy_proc s) current)) else - 1) s))"

definition sys_sleep :: "u32 \<Rightarrow> sys_t \<Rightarrow> sys_outcome option" where
  "sys_sleep milliseconds s = Some (of_switch (process_sleep milliseconds (sy_proc s)) s)"

definition sys_yield :: "sys_t \<Rightarrow> sys_outcome option" where
  "sys_yield s = Some (of_switch (process_yield (sy_proc s)) s)"

definition sys_send :: "u32 \<Rightarrow> u32 \<Rightarrow> u32 \<Rightarrow> sys_t \<Rightarrow> sys_outcome option" where
  "sys_send target_pid message len s =
     (if message = 0 \<or> len = 0 then Some (Returned (- 1) s)
      else do { (rc, p) \<leftarrow> process_send_message target_pid (Some (mem_bytes (sy_mem s) message len)) len (sy_proc s);
                Some (Returned rc (s\<lparr>sy_proc := p\<rparr>)) })"

text \<open>The received bytes are stored at \<open>buffer\<close>, the sender, when something was received, at \<open>sender_ptr\<close>.\<close>

definition sys_recv :: "u32 \<Rightarrow> u32 \<Rightarrow> u32 \<Rightarrow> sys_t \<Rightarrow> sys_outcome option" where
  "sys_recv buffer max_length sender_ptr s =
     (if buffer = 0 \<or> max_length = 0 then Some (Returned (- 1) s)
      else do { (result, buf, sender, p) \<leftarrow>
                  process_receive_message (Some (mem_bytes (sy_mem s) buffer max_length)) max_length (sy_proc s);
                let mem = (case buf of None \<Rightarrow> sy_mem s | Some bs \<Rightarrow> mem_write buffer bs (sy_mem s));
                let mem = (if sender_ptr \<noteq> 0 \<and> result > 0
                           then (case sender of None \<Rightarrow> mem
                                 | Some pid \<Rightarrow> mem_write sender_ptr
                                     [ucast pid, ucast (drop_bit 8 pid), ucast (drop_bit 16 pid), ucast (drop_bit 24 pid)] mem)
                           else mem);
                Some (Returned result (s\<lparr>sy_proc := p, sy_mem := mem\<rparr>)) })"

text \<open>The table of handlers, in the order of the numbers.\<close>

definition syscall_table :: "u8 list \<Rightarrow> u8 list \<Rightarrow> (u32 \<Rightarrow> u32 \<Rightarrow> u32 \<Rightarrow> u32 \<Rightarrow> sys_t \<Rightarrow> sys_outcome option) list" where
  "syscall_table buffer temp =
     [\<lambda>a b c d. sys_exit buffer temp a, \<lambda>a b c d. sys_write a b c, \<lambda>a b c d. sys_read a b c, \<lambda>a b c d. sys_getpid,
      \<lambda>a b c d. sys_sleep a, \<lambda>a b c d. sys_yield, \<lambda>a b c d. sys_send a b c, \<lambda>a b c d. sys_recv a b c]"

definition syscall_dispatch ::
  "u8 list \<Rightarrow> u8 list \<Rightarrow> u32 \<Rightarrow> u32 \<Rightarrow> u32 \<Rightarrow> u32 \<Rightarrow> u32 \<Rightarrow> sys_t \<Rightarrow> sys_outcome option" where
  "syscall_dispatch buffer temp syscall_num arg1 arg2 arg3 arg4 s =
     (if syscall_num \<ge> SYSCALL_MAX
      then do { scr \<leftarrow> kprintf_color (MAKE_COLOR 4 0) (lit (''[SYSCALL ERROR] Invalid syscall number: %d'' @ [CHR 10]))
                         [Word syscall_num] buffer temp (sy_screen s);
                Some (Returned (- 1) (s\<lparr>sy_screen := scr\<rparr>)) }
      else (syscall_table buffer temp ! unat syscall_num) arg1 arg2 arg3 arg4 s)"

definition syscall_init :: "u32 \<Rightarrow> u8 list \<Rightarrow> u8 list \<Rightarrow> idt_state \<Rightarrow> screen_t \<Rightarrow> (idt_state \<times> screen_t) option" where
  "syscall_init handler buffer temp t s =
     do { let t = idt_set_gate 0x80 handler 0x08 0xEE t;
          s \<leftarrow> kprintf (lit (''[SYSCALL] System call interface initialized (INT 0x80)'' @ [CHR 10])) [] buffer temp s;
          s \<leftarrow> kprintf (lit (''[SYSCALL] Available syscalls: %d'' @ [CHR 10])) [Word SYSCALL_MAX] buffer temp s;
          Some (t, s) }"

section \<open>Writing to the console\<close>

lemma length_mem_bytes [simp]: "length (mem_bytes mem p n) = unat n"
  by (simp add: mem_bytes_def)

lemma write_loop_sys_ok:
  assumes "screen_ok s"
  shows "\<exists>s'. write_loop_sys n p mem s = Some s' \<and> screen_ok s' \<and> current_color s' = current_color s \<and>
    flat s' = fold (spec_char (current_color s)) (takeWhile (\<lambda>c. c \<noteq> 0) (map (\<lambda>i. mem (p + of_nat i)) [0..<n])) (flat s)"
  using assms
proof (induction n arbitrary: p s)
  case (Suc n)
  have m: "map (\<lambda>i. mem (p + of_nat i)) [0..<Suc n] = mem p # map (\<lambda>i. mem (p + 1 + of_nat i)) [0..<n]"
    by (simp add: upt_conv_Cons map_Suc_upt [symmetric] ac_simps del: upt_Suc)
  show ?case
  proof (cases "mem p = 0")
    case True
    then show ?thesis using Suc.prems unfolding m by simp
  next
    case False
    obtain s1 where s1: "screen_write (Some [mem p, 0]) s = Some s1" "screen_ok s1" "current_color s1 = current_color s"
      "flat s1 = spec_char (current_color s) (mem p) (flat s)"
      using screen_write_law [OF Suc.prems, of "[mem p, 0]"] False by auto
    from Suc.IH [OF s1(2), of "p + 1"] show ?thesis using s1 False unfolding m by auto
  qed
qed simp

text \<open>
  \<open>sys_write\<close> shows the bytes at the buffer up to the first NUL, at most \<open>count\<close> of them, and always returns
  \<open>count\<close>, also when it stopped at the NUL; through \<open>syscall_dispatch\<close> it is call number 1.
\<close>

theorem sys_write_shows:
  assumes "screen_ok (sy_screen s)" and "p \<noteq> 0" and "count \<noteq> 0"
  shows "\<exists>scr. syscall_dispatch buffer temp 1 fd p count x s = Some (Returned (sint count) (s\<lparr>sy_screen := scr\<rparr>)) \<and> screen_ok scr \<and>
    flat scr = fold (spec_char (current_color (sy_screen s))) (takeWhile (\<lambda>c. c \<noteq> 0) (mem_bytes (sy_mem s) p count)) (flat (sy_screen s))"
  using write_loop_sys_ok [OF assms(1), of "unat count" p "sy_mem s"] assms(2,3)
  by (auto simp: syscall_dispatch_def syscall_table_def sys_write_def mem_bytes_def word_le_nat_alt)

lemma sys_write_shows_witness:
  "\<exists>scr. syscall_dispatch [] [] 1 1 100 5 0 \<lparr>sy_proc = demo_procs, sy_screen = blank_screen, sy_mem = (\<lambda>a. if a = 100 then 65 else 0)\<rparr> =
     Some (Returned 5 \<lparr>sy_proc = demo_procs, sy_screen = scr, sy_mem = (\<lambda>a. if a = 100 then 65 else 0)\<rparr>) \<and>
     flat scr = spec_char (current_color blank_screen) 65 (flat blank_screen)"
proof -
  let ?mem = "\<lambda>a :: u32. if a = 100 then 65 else 0 :: u8"
  have "mem_bytes ?mem 100 5 = [65, 0, 0, 0, 0]" by (simp add: mem_bytes_def upt_rec)
  then show ?thesis
    using sys_write_shows [of "\<lparr>sy_proc = demo_procs, sy_screen = blank_screen, sy_mem = ?mem\<rparr>" 100 5 "[]" "[]" 1 0] blank_screen_ok by auto
qed

lemma render_prefix:
  "0 \<notin> set xs \<Longrightarrow> 37 \<notin> set xs \<Longrightarrow> ys \<noteq> [] \<Longrightarrow> render (xs @ ys) args = map_option ((@) xs) (render ys args)"
proof (induction xs)
  case (Cons c xs)
  obtain d ds where "xs @ ys = d # ds" using Cons.prems(3) by (cases "xs @ ys") auto
  then show ?case using Cons by (cases "render ys args") auto
next
  case Nil
  then show ?case by (cases "render ys args") simp_all
qed

lemma sint_min: "sint (n :: u32) = - (2 ^ 31) \<Longrightarrow> n = 0x80000000"
proof -
  assume "sint n = - (2 ^ 31)"
  then have "word_of_int (sint n) = (word_of_int (- (2 ^ 31)) :: u32)" by (rule arg_cong)
  then show ?thesis by simp
qed

text \<open>
  A number that is not that of a call is refused: \<open>-1\<close>, with a message on the screen and no other effect, for
  every number but 0x80000000, which the message itself cannot convert.
\<close>

theorem syscall_invalid_refused:
  assumes "screen_ok (sy_screen s)" and "length buffer = 32" and "length temp = 32" and "8 \<le> n" and "n \<noteq> 0x80000000"
  shows "\<exists>scr. syscall_dispatch buffer temp n a b c d s = Some (Returned (- 1) (s\<lparr>sy_screen := scr\<rparr>)) \<and> screen_ok scr"
proof -
  let ?pre = "map of_char ''[SYSCALL ERROR] Invalid syscall number: '' :: u8 list"
  have f: "lit (''[SYSCALL ERROR] Invalid syscall number: %d'' @ [CHR 10]) = ?pre @ [37, 100, 10, 0]" by (simp add: lit_def)
  have "sint n \<noteq> - (2 ^ 31)" using assms(5) sint_min by blast
  then have "render [37, 100, 10, 0] [Word n] = Some (decimal (sint n) @ [10])" by (simp add: conv_def va_word_def)
  then have r: "render (?pre @ [37, 100, 10, 0]) [Word n] = Some (?pre @ decimal (sint n) @ [10])"
    by (subst render_prefix) simp_all
  have c: "screen_ok (screen_set_color col (sy_screen s))" for col using assms(1) by (simp add: screen_set_color_def screen_ok_def)
  obtain t where t: "puts screen_putchar_internal (?pre @ decimal (sint n) @ [10]) (screen_set_color (MAKE_COLOR 4 0) (sy_screen s)) = Some t" "screen_ok t"
    using vga.puts_law [OF c] by blast
  let ?t = "screen_update_cursor (screen_set_color (current_color (sy_screen s)) t)"
  have "kprintf_color (MAKE_COLOR 4 0) (lit (''[SYSCALL ERROR] Invalid syscall number: %d'' @ [CHR 10])) [Word n] buffer temp (sy_screen s) = Some ?t"
    unfolding f kprintf_color_def kprintf_internal_def
    by (simp only: if_True Let_def kprintf_loop_render [OF assms(2,3)] r t(1) screen_get_color_def Option.bind_lunit)
  moreover have "screen_ok ?t" using t(2) by (simp add: screen_set_color_def screen_ok_def)
  ultimately show ?thesis using assms(4) by (intro exI [of _ ?t]) (simp add: syscall_dispatch_def)
qed

lemma syscall_invalid_refused_witness:
  "\<exists>scr. syscall_dispatch (replicate 32 0) (replicate 32 0) 99 0 0 0 0 \<lparr>sy_proc = demo_procs, sy_screen = blank_screen, sy_mem = (\<lambda>_. 0)\<rparr> =
     Some (Returned (- 1) \<lparr>sy_proc = demo_procs, sy_screen = scr, sy_mem = (\<lambda>_. 0)\<rparr>)"
  using syscall_invalid_refused [of "\<lparr>sy_proc = demo_procs, sy_screen = blank_screen, sy_mem = (\<lambda>_. 0)\<rparr>" "replicate 32 0" "replicate 32 0" 99 0 0 0 0] blank_screen_ok
  by (auto simp: word_le_nat_alt)

end
