(* ===== verification/Shell_Base.thy ===== *)
theory Shell_Base
  imports Fs_Dir Process Timer Kprintf
begin

text \<open>
  The ground the shell stands on: the state of the kernel as its commands see it, and the console calls they make.

  Every component keeps its own state; the heap and the tick count, which several components use, are handed to the
  component that runs and taken back afterwards (\<open>on_fs\<close>, \<open>on_proc\<close>). The output of a command is the list of the
  console calls \<open>shell.c\<close> makes, in order; \<open>play\<close> runs such a list on a screen. The diagnostics that the lower layers
  print are not part of it, and no interrupt arrives while a command runs.
\<close>

section \<open>Console calls\<close>

abbreviation COLOR_BLACK :: u8 where "COLOR_BLACK \<equiv> 0"
abbreviation COLOR_BLUE :: u8 where "COLOR_BLUE \<equiv> 1"
abbreviation COLOR_GREEN :: u8 where "COLOR_GREEN \<equiv> 2"
abbreviation COLOR_CYAN :: u8 where "COLOR_CYAN \<equiv> 3"
abbreviation COLOR_RED :: u8 where "COLOR_RED \<equiv> 4"
abbreviation COLOR_MAGENTA :: u8 where "COLOR_MAGENTA \<equiv> 5"
abbreviation COLOR_BROWN :: u8 where "COLOR_BROWN \<equiv> 6"
abbreviation COLOR_LIGHT_GREY :: u8 where "COLOR_LIGHT_GREY \<equiv> 7"
abbreviation COLOR_DARK_GREY :: u8 where "COLOR_DARK_GREY \<equiv> 8"
abbreviation COLOR_LIGHT_BLUE :: u8 where "COLOR_LIGHT_BLUE \<equiv> 9"
abbreviation COLOR_LIGHT_GREEN :: u8 where "COLOR_LIGHT_GREEN \<equiv> 10"
abbreviation COLOR_LIGHT_CYAN :: u8 where "COLOR_LIGHT_CYAN \<equiv> 11"
abbreviation COLOR_LIGHT_RED :: u8 where "COLOR_LIGHT_RED \<equiv> 12"
abbreviation COLOR_LIGHT_MAGENTA :: u8 where "COLOR_LIGHT_MAGENTA \<equiv> 13"
abbreviation COLOR_YELLOW :: u8 where "COLOR_YELLOW \<equiv> 14"
abbreviation COLOR_WHITE :: u8 where "COLOR_WHITE \<equiv> 15"

datatype event =
    Write "u8 list"
  | WriteColor "u8 list" u8
  | WriteDec u32
  | WriteHex u32
  | Clear
  | Kprintf "u8 list" "va_val list"
  | KprintfColor u8 "u8 list" "va_val list"

definition say :: "string \<Rightarrow> event" where
  "say s = Write (lit s)"

definition sayc :: "u8 \<Rightarrow> string \<Rightarrow> event" where
  "sayc fg s = WriteColor (lit s) (MAKE_COLOR fg COLOR_BLACK)"

definition printf :: "string \<Rightarrow> va_val list \<Rightarrow> event" where
  "printf s args = Kprintf (lit s) args"

definition printfc :: "u8 \<Rightarrow> string \<Rightarrow> va_val list \<Rightarrow> event" where
  "printfc fg s args = KprintfColor (MAKE_COLOR fg COLOR_BLACK) (lit s) args"

text \<open>Running the calls; the buffers are the uninitialised locals of \<open>screen_write_dec\<close>, \<open>kprintf_internal\<close> and \<open>utoa\<close>.\<close>

fun play_event :: "u8 list \<Rightarrow> u8 list \<Rightarrow> u8 list \<Rightarrow> event \<Rightarrow> screen_t \<Rightarrow> screen_t option" where
  "play_event dec buffer temp (Write s) scr = screen_write (Some s) scr"
| "play_event dec buffer temp (WriteColor s c) scr = screen_write_color (Some s) c scr"
| "play_event dec buffer temp (WriteDec n) scr = screen_write_dec n dec scr"
| "play_event dec buffer temp (WriteHex n) scr = screen_write_hex n scr"
| "play_event dec buffer temp Clear scr = Some (screen_clear scr)"
| "play_event dec buffer temp (Kprintf f args) scr = kprintf f args buffer temp scr"
| "play_event dec buffer temp (KprintfColor c f args) scr = kprintf_color c f args buffer temp scr"

fun play :: "u8 list \<Rightarrow> u8 list \<Rightarrow> u8 list \<Rightarrow> event list \<Rightarrow> screen_t \<Rightarrow> screen_t option" where
  "play dec buffer temp [] scr = Some scr"
| "play dec buffer temp (e # es) scr = do { scr \<leftarrow> play_event dec buffer temp e scr; play dec buffer temp es scr }"

section \<open>The kernel as the shell sees it\<close>

abbreviation MAX_HISTORY :: nat where "MAX_HISTORY \<equiv> 10"
abbreviation MAX_CMD_LENGTH :: nat where "MAX_CMD_LENGTH \<equiv> 256"

record kernel_t =
  command_history :: "u8 list list"
  history_count :: nat
  k_heap :: heap_state
  k_fs :: fs_state
  k_proc :: proc_state
  k_segments :: "string \<Rightarrow> u32" \<comment> \<open>segment registers by name\<close>
  k_address :: "string \<Rightarrow> u32" \<comment> \<open>addresses of kernel functions by name\<close>
  k_stack :: "nat \<Rightarrow> u8" \<comment> \<open>what uninitialised locals hold\<close>
  k_out :: "event list"
  shell_alive :: bool

definition put :: "event list \<Rightarrow> kernel_t \<Rightarrow> kernel_t" where
  "put es k = k\<lparr>k_out := k_out k @ es\<rparr>"

text \<open>An uninitialised local array of \<open>n\<close> bytes.\<close>

definition locals :: "nat \<Rightarrow> kernel_t \<Rightarrow> u8 list" where
  "locals n k = map (k_stack k) [0..<n]"

definition k_kmalloc :: "u32 \<Rightarrow> kernel_t \<Rightarrow> (u32 \<times> kernel_t) option" where
  "k_kmalloc n k = do { (p, h) \<leftarrow> kmalloc n (k_heap k); Some (p, k\<lparr>k_heap := h\<rparr>) }"

definition k_kfree :: "u32 \<Rightarrow> kernel_t \<Rightarrow> kernel_t option" where
  "k_kfree p k = do { h \<leftarrow> kfree p (k_heap k); Some (k\<lparr>k_heap := h\<rparr>) }"

text \<open>The \<open>n\<close> bytes at an address of the heap, and storing bytes in the block there.\<close>

definition heap_bytes :: "u32 \<Rightarrow> nat \<Rightarrow> kernel_t \<Rightarrow> u8 list" where
  "heap_bytes p n k = map (\<lambda>i. hbytes (k_heap k) (p + of_nat i)) [0..<n]"

definition poke_bytes :: "u32 \<Rightarrow> u8 list \<Rightarrow> kernel_t \<Rightarrow> kernel_t option" where
  "poke_bytes p cs k = do { h \<leftarrow> heap_store p p cs (k_heap k); Some (k\<lparr>k_heap := h\<rparr>) }"

definition fs_of :: "kernel_t \<Rightarrow> fs_state" where
  "fs_of k = (k_fs k)\<lparr>fs_heap := k_heap k, ticks := system_ticks (k_proc k)\<rparr>"

definition on_fs :: "(fs_state \<Rightarrow> ('a \<times> fs_state) option) \<Rightarrow> kernel_t \<Rightarrow> ('a \<times> kernel_t) option" where
  "on_fs f k = do { (r, s) \<leftarrow> f (fs_of k); Some (r, k\<lparr>k_fs := s, k_heap := fs_heap s\<rparr>) }"

definition proc_of :: "kernel_t \<Rightarrow> proc_state" where
  "proc_of k = (k_proc k)\<lparr>pr_heap := k_heap k\<rparr>"

definition on_proc :: "(proc_state \<Rightarrow> ('a \<times> proc_state) option) \<Rightarrow> kernel_t \<Rightarrow> ('a \<times> kernel_t) option" where
  "on_proc f k = do { (r, s) \<leftarrow> f (proc_of k); Some (r, k\<lparr>k_proc := s, k_heap := pr_heap s\<rparr>) }"

definition pmm_of :: "kernel_t \<Rightarrow> pmm_state" where
  "pmm_of k = pg_pmm (pr_paging (k_proc k))"

definition on_pmm :: "(pmm_state \<Rightarrow> ('a \<times> pmm_state) option) \<Rightarrow> kernel_t \<Rightarrow> ('a \<times> kernel_t) option" where
  "on_pmm f k =
     do { (r, m) \<leftarrow> f (pmm_of k);
          Some (r, k\<lparr>k_proc := (k_proc k)\<lparr>pr_paging := (pr_paging (k_proc k))\<lparr>pg_pmm := m\<rparr>\<rparr>\<rparr>) }"

definition disk_of :: "kernel_t \<Rightarrow> ramdisk_t" where
  "disk_of k = fs_disk (k_fs k)"

definition set_disk :: "ramdisk_t \<Rightarrow> kernel_t \<Rightarrow> kernel_t" where
  "set_disk d k = k\<lparr>k_fs := (k_fs k)\<lparr>fs_disk := d\<rparr>\<rparr>"

end
