(* ===== verification/Shell_Info.thy ===== *)
theory Shell_Info
  imports Shell_Base
begin

text \<open>
  The commands of \<open>shell.c\<close> that only report: banner, prompt, help, about, echo, color, uptime, history, ver, mem,
  meminfo and ps.
\<close>

section \<open>Fixed texts\<close>

definition shell_display_banner :: "kernel_t \<Rightarrow> kernel_t" where
  "shell_display_banner k = put
     [WriteColor (lit ''\<newline>'') DEFAULT_COLOR,
      sayc COLOR_CYAN ''===========================================\<newline>'',
      sayc COLOR_YELLOW '' Wittche Operating System v0.9.0\<newline>'',
      sayc COLOR_CYAN ''===========================================\<newline>'', say ''\<newline>'',
      say ''Welcome to Wittche OS!\<newline>'', say ''Type 'help' for available commands.\<newline>\<newline>''] k"

definition shell_prompt :: "event list" where
  "shell_prompt =
     [sayc COLOR_GREEN ''wittche'', sayc COLOR_LIGHT_GREY ''> '']"

definition cmd_help :: "kernel_t \<Rightarrow> kernel_t option" where
  "cmd_help k = Some (put
     [say ''\<newline>'', sayc COLOR_YELLOW ''Available Commands:\<newline>'',
      sayc COLOR_YELLOW ''==================\<newline>'', sayc COLOR_CYAN ''  help'',
      say ''      - Display this help message\<newline>'', sayc COLOR_CYAN ''  clear'',
      say ''     - Clear the screen\<newline>'', sayc COLOR_CYAN ''  cls'',
      say ''       - Alias for clear\<newline>'', sayc COLOR_CYAN ''  about'',
      say ''     - Show system information\<newline>'', sayc COLOR_CYAN ''  ver'',
      say ''       - Show OS version\<newline>'', sayc COLOR_CYAN ''  mem'',
      say ''       - Display memory layout\<newline>'', sayc COLOR_CYAN ''  meminfo'',
      say ''   - Detailed memory statistics\<newline>'', sayc COLOR_CYAN ''  memtest'',
      say ''   - Test PMM and heap allocation\<newline>'', sayc COLOR_CYAN ''  ps'',
      say ''        - List running processes\<newline>'', sayc COLOR_CYAN ''  testproc'',
      say ''  - Spawn test processes A, B, C\<newline>'', sayc COLOR_CYAN ''  sleeptest'',
      say '' - Demonstrate process sleep/wake\<newline>'', sayc COLOR_CYAN ''  nice'',
      say ''      - Change process priority\<newline>'', sayc COLOR_CYAN ''  kill'',
      say ''      - Terminate a process\<newline>'', sayc COLOR_CYAN ''  ipctest'',
      say ''   - Test Inter-Process Communication\<newline>'', sayc COLOR_CYAN ''  syscalltest'',
      say '' - Test system calls (INT 0x80)\<newline>'', sayc COLOR_CYAN ''  usermodetest'',
      say '' - Test user mode (Ring 3)\<newline>'', sayc COLOR_CYAN ''  echo'',
      say ''      - Echo a message\<newline>'', sayc COLOR_CYAN ''  color'',
      say ''     - Test color output\<newline>'', sayc COLOR_CYAN ''  uptime'',
      say ''    - Show system uptime\<newline>'', sayc COLOR_CYAN ''  history'',
      say ''   - Show command history\<newline>'', sayc COLOR_CYAN ''  banner'',
      say ''    - Display welcome banner\<newline>'', sayc COLOR_CYAN ''  ramdisk'',
      say ''   - Test RAM disk read/write\<newline>'', sayc COLOR_CYAN ''  rdformat'',
      say ''  - Format (clear) RAM disk\<newline>'', sayc COLOR_CYAN ''  rdinfo'',
      say ''    - Display RAM disk information\<newline>'', sayc COLOR_CYAN ''  fsformat'',
      say ''  - Format file system\<newline>'', sayc COLOR_CYAN ''  ls'',
      say ''        - List files in directory\<newline>'', sayc COLOR_CYAN ''  touch'',
      say ''     - Create empty file\<newline>'', sayc COLOR_CYAN ''  cat'',
      say ''       - Display file contents\<newline>'', sayc COLOR_CYAN ''  rm'',
      say ''        - Delete file\<newline>'', sayc COLOR_CYAN ''  mkdir'',
      say ''     - Create directory\<newline>'', sayc COLOR_CYAN ''  write'',
      say ''     - Write text to file\<newline>'', say ''\<newline>''] k)"

definition cmd_clear :: "kernel_t \<Rightarrow> kernel_t option" where
  "cmd_clear k = Some (put [Clear] k)"

definition cmd_about :: "kernel_t \<Rightarrow> kernel_t option" where
  "cmd_about k = Some (put
     [say ''\<newline>'', sayc COLOR_YELLOW ''Wittche Operating System v0.9.0\<newline>'',
      sayc COLOR_CYAN ''=================================\<newline>'', say ''\<newline>'',
      say ''A simple x86 operating system for educational purposes.\<newline>\<newline>'',
      sayc COLOR_GREEN ''Features:\<newline>'', say ''  - 32-bit protected mode kernel\<newline>'',
      say ''  - Hardware interrupt handling (IDT)\<newline>'',
      say ''  - Physical Memory Manager (PMM) with bitmap allocator\<newline>'',
      say ''  - Kernel heap (kmalloc/kfree) with 4MB size\<newline>'',
      say ''  - Paging (virtual memory) with identity mapping\<newline>'',
      say ''  - Process management with PCB and multitasking\<newline>'',
      say ''  - Preemptive priority-based scheduler\<newline>'',
      say ''  - Context switching with full state save/restore\<newline>'',
      say ''  - RAM Disk (1MB virtual disk)\<newline>'', say ''  - WitFS file system (inode-based)\<newline>'',
      say ''  - File operations (create, read, write, delete)\<newline>'',
      say ''  - Programmable Interval Timer (PIT)\<newline>'',
      say ''  - PS/2 keyboard driver with arrow key support\<newline>'',
      say ''  - VGA text mode with hardware cursor\<newline>'', say ''  - Proper screen scrolling\<newline>'',
      say ''  - Printf-style formatted output (kprintf)\<newline>'',
      say ''  - Interactive shell with tab completion\<newline>'', say ''\<newline>'',
      sayc COLOR_GREEN ''Technical Info:\<newline>'', say ''  Architecture:   x86 (32-bit)\<newline>'',
      say ''  Kernel at:      '', WriteHex 0x10000, say ''\<newline>'', say ''  Video Memory:   '',
      WriteHex 0xB8000, say ''\<newline>'', say ''  Screen Size:    80x25 characters\<newline>'',
      say ''  Timer Freq:     '', WriteDec TIMER_FREQUENCY, say '' Hz\<newline>'', say ''\<newline>''] k)"

definition cmd_color :: "kernel_t \<Rightarrow> kernel_t option" where
  "cmd_color k = Some (put
     [say ''\<newline>'', sayc COLOR_YELLOW ''Color Test:\<newline>'',
      WriteColor (lit ''  Black '') (MAKE_COLOR COLOR_BLACK COLOR_LIGHT_GREY), sayc COLOR_BLUE ''  Blue '',
      sayc COLOR_GREEN ''  Green '', sayc COLOR_CYAN ''  Cyan '', say ''\<newline>'', sayc COLOR_RED ''  Red '',
      sayc COLOR_MAGENTA ''  Magenta '', sayc COLOR_BROWN ''  Brown '', sayc COLOR_LIGHT_GREY ''  Light Grey '',
      say ''\<newline>'', sayc COLOR_DARK_GREY ''  Dark Grey '', sayc COLOR_LIGHT_BLUE ''  Light Blue '',
      sayc COLOR_LIGHT_GREEN ''  Light Green '', sayc COLOR_LIGHT_CYAN ''  Light Cyan '', say ''\<newline>'',
      sayc COLOR_LIGHT_RED ''  Light Red '', sayc COLOR_LIGHT_MAGENTA ''  Light Magenta '',
      sayc COLOR_YELLOW ''  Yellow '', sayc COLOR_WHITE ''  White '', say ''\<newline>\<newline>''] k)"

definition cmd_banner :: "kernel_t \<Rightarrow> kernel_t option" where
  "cmd_banner k = Some (shell_display_banner k)"

definition cmd_ver :: "kernel_t \<Rightarrow> kernel_t option" where
  "cmd_ver k = Some (put
     [printf ''\<newline>'' [], printfc COLOR_YELLOW ''Wittche OS Version Information\<newline>'' [],
      printfc COLOR_CYAN ''==============================\<newline>'' [], printf ''\<newline>'' [],
      printf ''  Version:     '' [], printfc COLOR_CYAN ''0.9.0\<newline>'' [], printf ''  Codename:    '' [],
      printfc COLOR_CYAN ''File System\<newline>'' [], printf ''  Build Date:  '' [],
      printfc COLOR_CYAN ''2025-11\<newline>'' [], printf ''  Arch:        '' [],
      printfc COLOR_CYAN ''x86 (32-bit)\<newline>'' [], printf ''  License:     '' [],
      printfc COLOR_CYAN ''MIT\<newline>'' [], printf ''\<newline>'' []] k)"

section \<open>Echo, uptime and history\<close>

definition cmd_echo :: "u8 list \<Rightarrow> kernel_t \<Rightarrow> kernel_t option" where
  "cmd_echo args k =
     (case args of [] \<Rightarrow> None
      | c # _ \<Rightarrow> Some (put ([say ''\<newline>''] @ (if c \<noteq> 0 then [Write args] else []) @ [say ''\<newline>'']) k))"

definition cmd_uptime :: "kernel_t \<Rightarrow> kernel_t option" where
  "cmd_uptime k =
     (let t = system_ticks (k_proc k) in
      do { uptime_buffer \<leftarrow> timer_format_uptime t (locals 16 k);
           Some (put
             [say ''\<newline>'', sayc COLOR_YELLOW ''System Uptime:\<newline>'', say ''  Time:        '',
              WriteColor uptime_buffer (MAKE_COLOR COLOR_CYAN COLOR_BLACK), say ''\<newline>'', say ''  Seconds:     '',
              WriteDec (timer_get_seconds t), say '' s\<newline>'', say ''  Ticks:       '', WriteDec (timer_get_ticks t),
              say '' ('', WriteDec TIMER_FREQUENCY, say '' Hz)\<newline>'', say ''\<newline>''] k) })"

definition cmd_history :: "kernel_t \<Rightarrow> kernel_t option" where
  "cmd_history k =
     (let k = put [say ''\<newline>''] k in
      if history_count k = 0 then Some (put [say ''No command history.\<newline>''] k)
      else if history_count k \<le> length (command_history k)
      then Some (put ([sayc COLOR_YELLOW ''Command History:\<newline>''] @
             concat (map (\<lambda>i. [say ''  '', WriteDec (of_nat (i + 1)), say ''. '', Write (command_history k ! i),
                               say ''\<newline>'']) [0..<history_count k]) @
             [say ''\<newline>'']) k)
      else None)"

section \<open>Memory reports\<close>

definition cmd_mem :: "kernel_t \<Rightarrow> kernel_t option" where
  "cmd_mem k =
     (let m = pmm_of k in
      Some (put
        [printf ''\<newline>'' [], printfc COLOR_YELLOW ''Memory Layout\<newline>'' [],
         printfc COLOR_CYAN ''=============\<newline>'' [], printf ''\<newline>'' [],
         printfc COLOR_GREEN ''Kernel Memory Map:\<newline>'' [],
         printf ''  Bootloader:      %p (512 bytes)\<newline>'' [Word 0x7C00],
         printf ''  Kernel Code:     %p (loaded here)\<newline>'' [Word 0x10000],
         printf ''  Stack:           %p (grows downward)\<newline>'' [Word 0x90000],
         printf ''  VGA Text Buffer: %p (80x25 chars)\<newline>'' [Word 0xB8000], printf ''\<newline>'' [],
         printfc COLOR_GREEN ''Segment Registers:\<newline>'' [],
         printf ''  DS (Data):       0x%X\<newline>'' [Word (k_segments k ''ds'')],
         printf ''  ES (Extra):      0x%X\<newline>'' [Word (k_segments k ''es'')],
         printf ''  FS:              0x%X\<newline>'' [Word (k_segments k ''fs'')],
         printf ''  GS:              0x%X\<newline>'' [Word (k_segments k ''gs'')],
         printf ''  SS (Stack):      0x%X\<newline>'' [Word (k_segments k ''ss'')], printf ''\<newline>'' [],
         printfc COLOR_GREEN ''Memory Statistics:\<newline>'' [],
         printf ''  Total RAM:       %d MB\<newline>'' [Word (pmm_get_total_memory m div (1024 * 1024))],
         printf ''  Used:            %d KB (%d pages)\<newline>'' [Word (pmm_get_used_memory m div 1024), Word (pmm_get_used_pages m)],
         printf ''  Free:            %d KB (%d pages)\<newline>'' [Word (pmm_get_free_memory m div 1024), Word (pmm_get_free_pages m)],
         printf ''\<newline>'' []] k))"

definition usage_bar :: "u32 \<Rightarrow> event list" where
  "usage_bar usage_percent =
     map (\<lambda>i. if int i < sint (usage_percent * 50 div 100)
              then printfc COLOR_LIGHT_GREEN ''='' [] else printfc COLOR_DARK_GREY ''-'' []) [0..<50]"

definition cmd_meminfo :: "kernel_t \<Rightarrow> kernel_t option" where
  "cmd_meminfo k =
     (let m = pmm_of k; h = k_heap k;
          usage_percent = pmm_get_used_memory m * 100 div pmm_get_total_memory m in
      do { used \<leftarrow> heap_get_used_size h;
           free \<leftarrow> heap_get_free_size h;
           blocks \<leftarrow> heap_get_block_count h;
           free_blocks \<leftarrow> heap_get_free_block_count h;
           let heap_usage = (if heap_get_total_size h > 0 then used * 100 div heap_get_total_size h else 0);
           Some (put (
             [printf ''\<newline>'' [], printfc COLOR_YELLOW ''Wittche OS Memory Information\<newline>'' [],
              printfc COLOR_CYAN ''=============================\<newline>'' [], printf ''\<newline>'' [],
              printfc COLOR_GREEN ''Physical Memory (PMM):\<newline>'' [],
              printf ''  Total Memory:    %d MB (%d bytes)\<newline>'' [Word (pmm_get_total_memory m div (1024 * 1024)), Word (pmm_get_total_memory m)],
              printf ''  Used Memory:     %d KB (%d bytes)\<newline>'' [Word (pmm_get_used_memory m div 1024), Word (pmm_get_used_memory m)],
              printf ''  Free Memory:     %d KB (%d bytes)\<newline>'' [Word (pmm_get_free_memory m div 1024), Word (pmm_get_free_memory m)],
              printf ''  Total Pages:     %d (4KB each)\<newline>'' [Word (pmm_get_total_pages m)],
              printf ''  Used Pages:      %d\<newline>'' [Word (pmm_get_used_pages m)],
              printf ''  Free Pages:      %d\<newline>'' [Word (pmm_get_free_pages m)],
              printf ''  Usage:           %d%%\<newline>'' [Word usage_percent], printf ''\<newline>'' [],
              printfc COLOR_GREEN ''Kernel Heap:\<newline>'' [],
              printf ''  Heap Start:      0x%X\<newline>'' [Word HEAP_START],
              printf ''  Heap Size:       %d MB (%d bytes)\<newline>'' [Word (heap_get_total_size h div (1024 * 1024)), Word (heap_get_total_size h)],
              printf ''  Used:            %d KB (%d bytes)\<newline>'' [Word (used div 1024), Word used],
              printf ''  Free:            %d KB (%d bytes)\<newline>'' [Word (free div 1024), Word free],
              printf ''  Total Blocks:    %d\<newline>'' [Word blocks],
              printf ''  Free Blocks:     %d\<newline>'' [Word free_blocks],
              printf ''  Usage:           %d%%\<newline>'' [Word heap_usage], printf ''\<newline>'' [],
              printfc COLOR_GREEN ''Virtual Memory (Paging):\<newline>'' [], printf ''  Status:          '' [],
              printfc COLOR_CYAN ''ENABLED\<newline>'' [], printf ''  Page Size:       4 KB\<newline>'' [],
              printf ''  Page Directory:  0x%X\<newline>'' [Word (paging_get_directory (pr_paging (k_proc k)))],
              printf ''  Identity Map:    First 16 MB\<newline>'' [], printf ''\<newline>'' [],
              printfc COLOR_GREEN ''Memory Usage Bar:\<newline>'' [], printf ''  ['' []] @
             usage_bar usage_percent @
             [printf ''] %d%%\<newline>'' [Word usage_percent], printf ''\<newline>'' []]) k) })"

section \<open>Process list\<close>

definition state_name :: "u32 \<Rightarrow> string \<times> u8" where
  "state_name st =
     (if st = READY then (''READY'', MAKE_COLOR COLOR_CYAN COLOR_BLACK)
      else if st = RUNNING then (''RUNNING'', MAKE_COLOR COLOR_LIGHT_GREEN COLOR_BLACK)
      else if st = BLOCKED then (''BLOCKED'', MAKE_COLOR COLOR_YELLOW COLOR_BLACK)
      else if st = TERMINATED then (''TERM'', MAKE_COLOR COLOR_RED COLOR_BLACK)
      else (''UNKNOWN'', MAKE_COLOR COLOR_DARK_GREY COLOR_BLACK))"

definition ps_row :: "bool \<Rightarrow> process_t \<Rightarrow> event list" where
  "ps_row is_current b =
     (let (state_str, state_color) = state_name (pr_state b) in
      [if is_current then printfc COLOR_LIGHT_GREEN ''%-4d '' [Word (pr_pid b)]
       else printf ''%-4d '' [Word (pr_pid b)],
       printf ''%-20s '' [Str (Some (pr_name b))], KprintfColor state_color (lit ''%-9s  '') [Str (Some (lit state_str))],
       printf ''%-8d  %-8d\<newline>'' [Word (pr_priority b), Word (pr_total_time b)]])"

definition cmd_ps :: "kernel_t \<Rightarrow> kernel_t option" where
  "cmd_ps k =
     (let s = k_proc k; current = process_current s;
          procs = filter (\<lambda>p. p \<noteq> 0) (take MAX_PROCESSES (process_table s)); count = length procs in
      if length (process_table s) < MAX_PROCESSES then None
      else Some (put (
        [printf ''\<newline>'' [], printfc COLOR_YELLOW ''Process List\<newline>'' [],
         printfc COLOR_CYAN ''============\<newline>'' [], printf ''\<newline>'' [],
         printfc COLOR_GREEN ''PID  NAME                 STATE      PRIORITY  TIME(ms)\<newline>'' [],
         printf ''---  -------------------  ---------  --------  --------\<newline>'' []] @
        concat (map (\<lambda>p. ps_row (p = current) (pcbs s p)) procs) @
        [printf ''\<newline>'' [], printf ''Total processes: %d\<newline>'' [Word (of_nat count)],
         printf ''Current process: '' [],
         if current \<noteq> 0 then printfc COLOR_LIGHT_GREEN ''%s (PID %d)\<newline>'' [Str (Some (pr_name (pcbs s current))), Word (pr_pid (pcbs s current))]
         else printf ''None\<newline>'' [],
         printf ''\<newline>'' []]) k))"

end
