(* ===== verification/Shell_Proc.thy ===== *)
theory Shell_Proc
  imports Shell_Base
begin

text \<open>
  The commands of \<open>shell.c\<close> that test the allocators and create, renice and kill processes.
\<close>

section \<open>memtest\<close>

text \<open>The loop that takes five pages; the result is the pages, or nothing when the command has returned early.\<close>

fun memtest_pages :: "nat list \<Rightarrow> u32 list \<Rightarrow> kernel_t \<Rightarrow> (u32 list option \<times> kernel_t) option" where
  "memtest_pages [] pages k = Some (Some pages, k)"
| "memtest_pages (i # is) pages k =
     do { (page, k) \<leftarrow> on_pmm pmm_alloc_page k;
          if page = 0 then Some (None, put [printfc COLOR_RED ''  FAILED: Could not allocate page %d\<newline>'' [Word (of_nat i)]] k)
          else memtest_pages is (pages @ [page])
                 (put [printf ''  Page %d allocated at: 0x%X\<newline>'' [Word (of_nat (i + 1)), Word page]] k) }"

fun memtest_free_pages :: "u32 list \<Rightarrow> kernel_t \<Rightarrow> kernel_t option" where
  "memtest_free_pages [] k = Some k"
| "memtest_free_pages (page # pages) k =
     do { (_, k) \<leftarrow> on_pmm (\<lambda>m. map_option (Pair ()) (pmm_free_page page m)) k; memtest_free_pages pages k }"

definition free_if :: "u32 \<Rightarrow> kernel_t \<Rightarrow> kernel_t option" where
  "free_if p k = (if p \<noteq> 0 then k_kfree p k else Some k)"

definition memtest_report :: "u32 \<Rightarrow> u32 \<Rightarrow> u32 \<Rightarrow> kernel_t \<Rightarrow> kernel_t option" where
  "memtest_report ptr1 ptr2 ptr3 k =
     (if ptr1 = 0 \<or> ptr2 = 0 \<or> ptr3 = 0
      then Some (put [printfc COLOR_RED ''  FAILED: Heap allocation failed\<newline>'' []] k)
      else do { free \<leftarrow> heap_get_free_size (k_heap k);
                blocks \<leftarrow> heap_get_block_count (k_heap k);
                free_blocks \<leftarrow> heap_get_free_block_count (k_heap k);
                Some (put
                  [printf ''  Block 1 (1 KB):  0x%X\<newline>'' [Word ptr1],
                   printf ''  Block 2 (2 KB):  0x%X\<newline>'' [Word ptr2],
                   printf ''  Block 3 (4 KB):  0x%X\<newline>'' [Word ptr3],
                   printfc COLOR_GREEN ''  SUCCESS: All blocks allocated\<newline>'' [],
                   printf ''  Heap Free:       %d KB\<newline>'' [Word (free div 1024)],
                   printf ''  Heap Blocks:     %d total, %d free\<newline>'' [Word blocks, Word free_blocks]] k) })"

definition memtest_write :: "u32 \<Rightarrow> kernel_t \<Rightarrow> kernel_t option" where
  "memtest_write ptr1 k =
     (if ptr1 \<noteq> 0
      then do { let k = put [printf ''  Writing pattern to allocated memory...\<newline>'' []] k;
                k \<leftarrow> poke_bytes ptr1 (map (\<lambda>i. 65 + of_nat (i mod 26)) [0..<100] @ [0]) k;
                Some (put [printf ''  Pattern: %.50s...\<newline>'' [Str (Some (heap_bytes ptr1 101 k))],
                           printfc COLOR_GREEN ''  SUCCESS: Memory write/read works\<newline>'' []] k) }
      else Some k)"

definition cmd_memtest :: "kernel_t \<Rightarrow> kernel_t option" where
  "cmd_memtest k =
     do { free \<leftarrow> heap_get_free_size (k_heap k);
          let k = put
            [printf ''\<newline>'' [], printfc COLOR_YELLOW ''Memory Management Test\<newline>'' [],
             printfc COLOR_CYAN ''======================\<newline>'' [], printf ''\<newline>'' [],
             printfc COLOR_GREEN ''Initial State:\<newline>'' [],
             printf ''  PMM Free Pages:  %d\<newline>'' [Word (pmm_get_free_pages (pmm_of k))],
             printf ''  Heap Free:       %d KB\<newline>'' [Word (free div 1024)], printf ''\<newline>'' [],
             printfc COLOR_YELLOW ''Test 1: PMM Page Allocation\<newline>'' [],
             printf ''  Allocating 5 pages (20 KB)...\<newline>'' []] k;
          (pages, k) \<leftarrow> memtest_pages [0..<5] [] k;
          case pages of None \<Rightarrow> Some k
          | Some pages \<Rightarrow>
              do { let k = put
                     [printfc COLOR_GREEN ''  SUCCESS: All pages allocated\<newline>'' [],
                      printf ''  PMM Free Pages:  %d (should be 5 less)\<newline>'' [Word (pmm_get_free_pages (pmm_of k))],
                      printf ''\<newline>'' [], printfc COLOR_YELLOW ''Test 2: Heap Allocation (kmalloc)\<newline>'' [],
                      printf ''  Allocating 1 KB, 2 KB, 4 KB blocks...\<newline>'' []] k;
                   (ptr1, k) \<leftarrow> k_kmalloc 1024 k;
                   (ptr2, k) \<leftarrow> k_kmalloc 2048 k;
                   (ptr3, k) \<leftarrow> k_kmalloc 4096 k;
                   k \<leftarrow> memtest_report ptr1 ptr2 ptr3 k;
                   let k = put [printf ''\<newline>'' [], printfc COLOR_YELLOW ''Test 3: Memory Write Test\<newline>'' []] k;
                   k \<leftarrow> memtest_write ptr1 k;
                   let k = put
                     [printf ''\<newline>'' [], printfc COLOR_YELLOW ''Test 4: Free Memory\<newline>'' [],
                      printf ''  Freeing heap blocks...\<newline>'' []] k;
                   k \<leftarrow> free_if ptr1 k;
                   k \<leftarrow> free_if ptr2 k;
                   k \<leftarrow> free_if ptr3 k;
                   free \<leftarrow> heap_get_free_size (k_heap k);
                   blocks \<leftarrow> heap_get_block_count (k_heap k);
                   free_blocks \<leftarrow> heap_get_free_block_count (k_heap k);
                   let k = put
                     [printf ''  Heap Free:       %d KB (should be back to initial)\<newline>'' [Word (free div 1024)],
                      printf ''  Heap Blocks:     %d total, %d free\<newline>'' [Word blocks, Word free_blocks],
                      printf ''\<newline>  Freeing PMM pages...\<newline>'' []] k;
                   k \<leftarrow> memtest_free_pages pages k;
                   Some (put
                     [printf ''  PMM Free Pages:  %d (should be back to initial)\<newline>'' [Word (pmm_get_free_pages (pmm_of k))],
                      printfc COLOR_GREEN ''  SUCCESS: All memory freed\<newline>'' [], printf ''\<newline>'' [],
                      printfc COLOR_GREEN ''All Tests Passed! '' [],
                      printfc COLOR_WHITE ''Memory management is working correctly.\<newline>'' [], printf ''\<newline>'' []] k) } }"

section \<open>Creating processes\<close>

definition spawn :: "string \<Rightarrow> string \<Rightarrow> u32 \<Rightarrow> kernel_t \<Rightarrow> (u32 \<times> kernel_t) option" where
  "spawn name entry priority k =
     on_proc (process_create_with_priority (lit name) (k_address k entry) 4096 priority) k"

definition cmd_testproc :: "kernel_t \<Rightarrow> kernel_t option" where
  "cmd_testproc k =
     do { let k = put
            [printf ''\<newline>'' [], printfc COLOR_YELLOW ''Spawning Test Processes\<newline>'' [],
             printfc COLOR_CYAN ''========================\<newline>'' [],
             printf ''Testing priority-based scheduling...\<newline>\<newline>'' []] k;
          (pid_a, k) \<leftarrow> spawn ''TestProcA'' ''test_process_a'' 20 k;
          let k = put [if pid_a > 0 then printfc COLOR_GREEN ''Created Process A (PID %d, Priority=20 HIGH)\<newline>'' [Word pid_a]
                       else printfc COLOR_RED ''Failed to create Process A\<newline>'' []] k;
          (pid_b, k) \<leftarrow> spawn ''TestProcB'' ''test_process_b'' 10 k;
          let k = put [if pid_b > 0 then printfc COLOR_GREEN ''Created Process B (PID %d, Priority=10 MEDIUM)\<newline>'' [Word pid_b]
                       else printfc COLOR_RED ''Failed to create Process B\<newline>'' []] k;
          (pid_c, k) \<leftarrow> spawn ''TestProcC'' ''test_process_c'' 2 k;
          let k = put [if pid_c > 0 then printfc COLOR_GREEN ''Created Process C (PID %d, Priority=2 LOW)\<newline>'' [Word pid_c]
                       else printfc COLOR_RED ''Failed to create Process C\<newline>'' []] k;
          Some (put
            [printf ''\<newline>'' [],
             printfc COLOR_LIGHT_CYAN ''Test processes are now running with priorities!\<newline>'' [],
             printf ''Process A (HIGH) should run most frequently.\<newline>'' [],
             printf ''Process B (MEDIUM) should run occasionally.\<newline>'' [],
             printf ''Process C (LOW) should run least often.\<newline>'' [],
             printf ''Use 'ps' command to view process priorities.\<newline>'' [], printf ''\<newline>'' []] k) }"

definition cmd_sleeptest :: "kernel_t \<Rightarrow> kernel_t option" where
  "cmd_sleeptest k =
     do { let k = put
            [printf ''\<newline>'' [], printfc COLOR_YELLOW ''Sleep/Wake Test\<newline>'' [],
             printfc COLOR_CYAN ''===============\<newline>'' [],
             printf ''Spawning a process that sleeps for 2 seconds between iterations...\<newline>\<newline>'' []] k;
          (pid, k) \<leftarrow> spawn ''SleepTest'' ''test_process_sleep'' 10 k;
          let k = put
            (if pid > 0
             then [printfc COLOR_GREEN ''Created Sleep Test Process (PID %d)\<newline>'' [Word pid],
                   printf ''\<newline>Watch the process:\<newline>'' [],
                   printf ''1. Print message and go to sleep\<newline>'' [],
                   printf ''2. Process becomes BLOCKED for 2000ms\<newline>'' [],
                   printf ''3. Automatically wakes up after 2 seconds\<newline>'' [],
                   printf ''4. Print 'Woke up!' message\<newline>'' [], printf ''5. Repeat 5 times\<newline>\<newline>'' [],
                   printf ''Use 'ps' command while it's sleeping to see BLOCKED state!\<newline>'' []]
             else [printfc COLOR_RED ''Failed to create sleep test process\<newline>'' []]) k;
          Some (put [printf ''\<newline>'' []] k) }"

definition cmd_ipctest :: "kernel_t \<Rightarrow> kernel_t option" where
  "cmd_ipctest k =
     do { let k = put
            [printf ''\<newline>'' [], printfc COLOR_YELLOW ''Inter-Process Communication Test\<newline>'' [],
             printfc COLOR_CYAN ''=================================\<newline>'' [],
             printf ''Spawning Producer and Consumer processes...\<newline>\<newline>'' []] k;
          (producer_pid, k) \<leftarrow> spawn ''IPC_Producer'' ''ipc_producer'' 10 k;
          if producer_pid = 0 then Some (put [printfc COLOR_RED ''Failed to create producer process\<newline>\<newline>'' []] k)
          else do { (consumer_pid, k) \<leftarrow> spawn ''IPC_Consumer'' ''ipc_consumer'' 10 k;
                    if consumer_pid = 0 then Some (put [printfc COLOR_RED ''Failed to create consumer process\<newline>\<newline>'' []] k)
                    else Some (put
                      [printfc COLOR_GREEN ''Created Producer Process (PID %d)\<newline>'' [Word producer_pid],
                       printfc COLOR_GREEN ''Created Consumer Process (PID %d)\<newline>'' [Word consumer_pid],
                       printf ''\<newline>Watch the processes:\<newline>'' [],
                       printf ''1. Producer sends 5 messages (one per second)\<newline>'' [],
                       printf ''2. Consumer receives and displays messages\<newline>'' [],
                       printf ''3. Message queue holds up to 8 messages\<newline>'' [],
                       printf ''4. Each message is max 256 bytes\<newline>\<newline>'' [],
                       printf ''Use 'ps' command to monitor process states!\<newline>'' [], printf ''\<newline>'' []] k) } }"

definition cmd_syscalltest :: "kernel_t \<Rightarrow> kernel_t option" where
  "cmd_syscalltest k =
     do { let k = put
            [printf ''\<newline>'' [], printfc COLOR_YELLOW ''System Call Test\<newline>'' [],
             printfc COLOR_CYAN ''================\<newline>'' [],
             printf ''Spawning a process to test system calls...\<newline>\<newline>'' []] k;
          (pid, k) \<leftarrow> spawn ''SyscallTest'' ''test_syscall'' 10 k;
          let k = put
            (if pid > 0
             then [printfc COLOR_GREEN ''Created Syscall Test Process (PID %d)\<newline>'' [Word pid],
                   printf ''\<newline>This process will test:\<newline>'' [],
                   printf ''1. SYS_GETPID - Get process ID\<newline>'' [],
                   printf ''2. SYS_WRITE - Write to screen\<newline>'' [],
                   printf ''3. SYS_SLEEP - Sleep for milliseconds\<newline>'' [],
                   printf ''4. SYS_YIELD - Yield CPU\<newline>'' [],
                   printf ''5. SYS_EXIT - Exit process\<newline>\<newline>'' [],
                   printf ''Watch the output to see syscalls in action!\<newline>'' []]
             else [printfc COLOR_RED ''Failed to create syscall test process\<newline>'' []]) k;
          Some (put [printf ''\<newline>'' []] k) }"

definition cmd_usermodetest :: "kernel_t \<Rightarrow> kernel_t option" where
  "cmd_usermodetest k =
     do { let k = put
            [printf ''\<newline>'' [], printfc COLOR_YELLOW ''Syscall Infrastructure Test\<newline>'' [],
             printfc COLOR_CYAN ''============================\<newline>'' [],
             printfc COLOR_MAGENTA ''NOTE: Full Ring 3 requires ELF loader (planned for v1.0)\<newline>'' [],
             printf ''Testing syscall infrastructure from kernel mode...\<newline>\<newline>'' []] k;
          (pid, k) \<leftarrow> spawn ''SyscallTest'' ''test_usermode'' 10 k;
          let k = put
            (if pid > 0
             then [printfc COLOR_GREEN ''Created Syscall Test Process (PID %d)\<newline>'' [Word pid],
                   printf ''\<newline>Testing syscalls:'' [], printf ''\<newline>  - SYS_WRITE (write to screen)\<newline>'' [],
                   printf ''  - SYS_GETPID (get process ID)\<newline>'' [], printf ''  - SYS_SLEEP (sleep ms)\<newline>'' [],
                   printf ''  - SYS_EXIT (exit process)\<newline>\<newline>'' [],
                   printfc COLOR_CYAN ''Infrastructure ready for future Ring 3 support!\<newline>'' [],
                   printf ''(Page directories, GDT/TSS, syscalls all working)\<newline>'' []]
             else [printfc COLOR_RED ''Failed to create test process\<newline>'' []]) k;
          Some (put [printf ''\<newline>'' []] k) }"

section \<open>nice and kill\<close>

text \<open>
  The copy of the arguments, cut at the first blank: the buffer with the blank overwritten and the offset behind it.
\<close>

definition split_args :: "u8 list \<Rightarrow> kernel_t \<Rightarrow> (u8 list \<times> nat) option option" where
  "split_args args k =
     do { args_copy \<leftarrow> strncpy (locals 256 k) args 255;
          args_copy \<leftarrow> store args_copy 255 0;
          space \<leftarrow> strchr args_copy 32;
          case space of None \<Rightarrow> Some None
          | Some i \<Rightarrow> do { args_copy \<leftarrow> store args_copy i 0; Some (Some (args_copy, i + 1)) } }"

definition cmd_nice :: "u8 list \<Rightarrow> kernel_t \<Rightarrow> kernel_t option" where
  "cmd_nice args k =
     do { let k = put [printf ''\<newline>'' []] k;
          n \<leftarrow> strlen args;
          if n = 0
          then Some (put
            [printfc COLOR_RED ''Usage: nice <PID> <priority>\<newline>'' [],
             printf ''  PID: Process ID (use 'ps' to see PIDs)\<newline>'' [],
             printf ''  Priority: 0-255 (higher = more CPU time)\<newline>'' [],
             printf ''\<newline>Example: nice 2 50\<newline>'' [], printf ''\<newline>'' []] k)
          else do {
            split \<leftarrow> split_args args k;
            case split of None \<Rightarrow>
              Some (put
                [printfc COLOR_RED ''Error: Missing priority argument\<newline>'' [],
                 printf ''Usage: nice <PID> <priority>\<newline>\<newline>'' []] k)
            | Some (args_copy, j) \<Rightarrow> do {
              pid_val \<leftarrow> atoi args_copy;
              priority \<leftarrow> atoi (drop j args_copy);
              let pid = word_of_int pid_val;
              let proc = process_get pid (k_proc k);
              if pid_val < 0 then Some (put [printfc COLOR_RED ''Error: Invalid PID\<newline>\<newline>'' []] k)
              else if priority < 0 \<or> priority > 255
              then Some (put [printfc COLOR_RED ''Error: Priority must be 0-255\<newline>\<newline>'' []] k)
              else if proc = 0
              then Some (put
                [printfc COLOR_RED ''Error: Process %d not found\<newline>'' [Word pid],
                 printf ''Use 'ps' command to see active processes\<newline>\<newline>'' []] k)
              else do {
                let old_priority = pr_priority (pcbs (k_proc k) proc);
                (rc, k) \<leftarrow> on_proc (\<lambda>s. Some (process_set_priority pid (word_of_int priority) s)) k;
                let k = put
                  (if rc = 0
                   then [printfc COLOR_GREEN ''Priority changed successfully!\<newline>'' [],
                         printf ''Process: %s (PID %d)\<newline>'' [Str (Some (pr_name (pcbs (k_proc k) proc))), Word pid],
                         printf ''Old Priority: %d\<newline>'' [Word old_priority],
                         printf ''New Priority: %d\<newline>'' [Word (word_of_int priority)]]
                   else [printfc COLOR_RED ''Error: Failed to set priority\<newline>'' []]) k;
                Some (put [printf ''\<newline>'' []] k) } } } }"

text \<open>
  When the process killed is the one the shell runs in, \<open>process_kill\<close> does not return to the shell: the calls behind it
  are not made.
\<close>

definition cmd_kill :: "u8 list \<Rightarrow> kernel_t \<Rightarrow> kernel_t option" where
  "cmd_kill args k =
     do { let k = put [printf ''\<newline>'' []] k;
          n \<leftarrow> strlen args;
          if n = 0
          then Some (put
            [printfc COLOR_RED ''Usage: kill <PID>\<newline>'' [],
             printf ''  PID: Process ID (use 'ps' to see PIDs)\<newline>'' [],
             printf ''\<newline>Example: kill 2\<newline>'' [],
             printf ''\<newline>Warning: Cannot kill idle process (PID 0)\<newline>'' [], printf ''\<newline>'' []] k)
          else do {
            pid_val \<leftarrow> atoi args;
            let pid = word_of_int pid_val;
            let proc = process_get pid (k_proc k);
            if pid_val < 0 then Some (put [printfc COLOR_RED ''Error: Invalid PID\<newline>\<newline>'' []] k)
            else if pid_val = 0 then Some (put [printfc COLOR_RED ''Error: Cannot kill idle process (PID 0)\<newline>\<newline>'' []] k)
            else if proc = 0
            then Some (put
              [printfc COLOR_RED ''Error: Process %d not found\<newline>'' [Word pid],
               printf ''Use 'ps' command to see active processes\<newline>\<newline>'' []] k)
            else do {
              name \<leftarrow> strncpy (locals 32 k) (pr_name (pcbs (k_proc k) proc)) 31;
              name \<leftarrow> store name 31 0;
              let k = put [printf ''Terminating process: %s (PID %d)\<newline>'' [Str (Some name), Word pid]] k;
              (switched, k) \<leftarrow> on_proc (process_kill pid) k;
              if switched then Some (k\<lparr>shell_alive := False\<rparr>)
              else Some (put
                [printfc COLOR_GREEN ''Process %d terminated successfully\<newline>'' [Word pid], printf ''\<newline>'' []] k) } } }"

end
