(* ===== verification/Shell_Disk.thy ===== *)
theory Shell_Disk
  imports Shell_Proc
begin

text \<open>
  The commands of \<open>shell.c\<close> on the RAM disk and the file system: rdinfo, rdformat, ramdisk, fsformat, ls, touch, cat, rm,
  mkdir and write. A buffer taken from the heap is a list that starts with the bytes found there; what it holds when it is
  freed is dropped.
\<close>

section \<open>RAM disk\<close>

definition cmd_rdinfo :: "kernel_t \<Rightarrow> kernel_t option" where
  "cmd_rdinfo k =
     (let rd = disk_of k; k = put
        [sayc COLOR_MAGENTA ''[CMD_RDINFO] Function called!\<newline>'', say ''\<newline>'',
         sayc COLOR_MAGENTA ''[CMD_RDINFO] Writing header...\<newline>'', say ''RAM Disk Information\<newline>'',
         say ''====================\<newline>'', say ''\<newline>'',
         sayc COLOR_MAGENTA ''[CMD_RDINFO] Checking if RAM disk is initialized...\<newline>''] k in
      if ramdisk_is_initialized rd = 0
      then Some (put
        [sayc COLOR_RED ''[CMD_RDINFO] RAM disk NOT initialized!\<newline>'',
         say ''Error: RAM Disk is not initialized!\<newline>'', say ''\<newline>''] k)
      else Some (put
        [sayc COLOR_MAGENTA ''[CMD_RDINFO] RAM disk is initialized\<newline>'', say ''Status:\<newline>'',
         say ''  Initialized:     YES\<newline>'', say ''  Base Address:    0x'', WriteHex (rd_data rd),
         say ''\<newline>\<newline>'', say ''Configuration:\<newline>'', say ''  Total Size:      '',
         WriteDec (rd_size rd), say '' bytes ('', WriteDec (rd_size rd div 1024), say '' KB / '',
         WriteDec (rd_size rd div (1024 * 1024)), say '' MB)\<newline>'', say ''  Block Size:      '',
         WriteDec (rd_block_size rd), say '' bytes\<newline>'', say ''  Block Count:     '',
         WriteDec (rd_block_count rd), say '' blocks\<newline>\<newline>'', say ''Technical Details:\<newline>'',
         say ''  Type:            Virtual disk in RAM\<newline>'',
         say ''  Speed:           Memory speed (very fast)\<newline>'',
         say ''  Volatile:        Yes (data lost on reboot)\<newline>'',
         say ''  Purpose:         Foundation for file system\<newline>'', say ''\<newline>''] k))"

definition cmd_rdformat :: "kernel_t \<Rightarrow> kernel_t option" where
  "cmd_rdformat k =
     (let k = put
        [sayc COLOR_MAGENTA ''[CMD_RDFORMAT] Function called!\<newline>'', say ''\<newline>'',
         say ''RAM Disk Format\<newline>'', say ''===============\<newline>'', say ''\<newline>'',
         sayc COLOR_MAGENTA ''[CMD_RDFORMAT] Checking if RAM disk is initialized...\<newline>''] k in
      if ramdisk_is_initialized (disk_of k) = 0
      then Some (put
        [sayc COLOR_RED ''[CMD_RDFORMAT] RAM disk NOT initialized!\<newline>'',
         say ''Error: RAM Disk is not initialized!\<newline>'', say ''\<newline>''] k)
      else do {
        let k = put
          [sayc COLOR_MAGENTA ''[CMD_RDFORMAT] Calling ramdisk_format()...\<newline>'',
           say ''Formatting RAM disk (clearing all data)...\<newline>''] k;
        d \<leftarrow> ramdisk_format (disk_of k);
        Some (put
          [sayc COLOR_MAGENTA ''[CMD_RDFORMAT] ramdisk_format() completed\<newline>'',
           say ''RAM Disk formatted successfully!\<newline>'', say ''All blocks cleared to zero.\<newline>'',
           say ''\<newline>''] (set_disk d k)) })"

definition k_write_block :: "u32 \<Rightarrow> u8 list \<Rightarrow> kernel_t \<Rightarrow> (int \<times> kernel_t) option" where
  "k_write_block b buf k = do { (rc, d) \<leftarrow> ramdisk_write_block b (Some buf) (disk_of k); Some (rc, set_disk d k) }"

definition k_read_block :: "u32 \<Rightarrow> u8 list \<Rightarrow> kernel_t \<Rightarrow> (int \<times> u8 list) option" where
  "k_read_block b buf k = do { (rc, r) \<leftarrow> ramdisk_read_block b (Some buf) (disk_of k); buf \<leftarrow> r; Some (rc, buf) }"

text \<open>Test 5: ten blocks filled with a letter each, and read back; a block with a wrong byte is one error.\<close>

fun rd_write_blocks :: "nat list \<Rightarrow> u8 list \<Rightarrow> kernel_t \<Rightarrow> kernel_t option" where
  "rd_write_blocks [] write_buffer k = Some k"
| "rd_write_blocks (b # bs) write_buffer k =
     do { write_buffer \<leftarrow> memset write_buffer (65 + of_nat (b - 10)) 512;
          (rc, k) \<leftarrow> k_write_block (of_nat b) write_buffer k;
          rd_write_blocks bs write_buffer k }"

fun rd_check_blocks :: "nat list \<Rightarrow> u8 list \<Rightarrow> kernel_t \<Rightarrow> nat option" where
  "rd_check_blocks [] read_buffer k = Some 0"
| "rd_check_blocks (b # bs) read_buffer k =
     do { (rc, read_buffer) \<leftarrow> k_read_block (of_nat b) read_buffer k;
          n \<leftarrow> rd_check_blocks bs read_buffer k;
          Some ((if \<exists>c\<in>set (take 512 read_buffer). c \<noteq> 65 + of_nat (b - 10) then 1 else 0) + n) }"

definition test_msg :: "u8 list" where
  "test_msg = lit ''Hello from Wittche OS RAM Disk! This is a test message.''"

definition rd_tests :: "u8 list \<Rightarrow> u8 list \<Rightarrow> kernel_t \<Rightarrow> kernel_t option" where
  "rd_tests write_buffer read_buffer k =
     do { let k = put
            [say ''  Verifying data...\<newline>''] k;
          let errors = length (filter (\<lambda>i. read_buffer ! i \<noteq> write_buffer ! i) [0..<512]);
          let k = put
            (if errors = 0 then [say ''  SUCCESS: Data verified (0 errors)\<newline>'']
             else [say ''  FAILED: '', WriteDec (of_nat errors), say '' byte mismatches\<newline>'']) k;
          let k = put [say ''\<newline>'', say ''Test 3: Write ASCII Text to Block 1\<newline>''] k;
          write_buffer \<leftarrow> memset write_buffer 0 512;
          write_buffer \<leftarrow> strcpy write_buffer test_msg;
          let k = put [say (''  Writing: '' @ [CHR 0x27]), Write test_msg, say ([CHR 0x27] @ ''\<newline>'')] k;
          (rc, k) \<leftarrow> k_write_block 1 write_buffer k;
          let k = put
            [say ''  SUCCESS: Text written to block 1\<newline>'', say ''\<newline>'',
             say ''Test 4: Read Text from Block 1\<newline>''] k;
          read_buffer \<leftarrow> memset read_buffer 0 512;
          (rc, read_buffer) \<leftarrow> k_read_block 1 read_buffer k;
          let k = put [say (''  Read back: '' @ [CHR 0x27]), Write read_buffer, say ([CHR 0x27] @ ''\<newline>'')] k;
          c \<leftarrow> strcmp read_buffer test_msg;
          let k = put
            [if c = 0 then say ''  SUCCESS: Text matches perfectly\<newline>''
             else say ''  FAILED: Text mismatch\<newline>'',
             say ''\<newline>'', say ''Test 5: Multiple Block Operations\<newline>'',
             say ''  Writing to 10 different blocks...\<newline>''] k;
          k \<leftarrow> rd_write_blocks [10..<20] write_buffer k;
          let k = put [say ''  Reading back and verifying...\<newline>''] k;
          block_errors \<leftarrow> rd_check_blocks [10..<20] read_buffer k;
          let k = put
            (if block_errors = 0 then [say ''  SUCCESS: All 10 blocks verified\<newline>'']
             else [say ''  FAILED: '', WriteDec (of_nat block_errors), say '' blocks had errors\<newline>'']) k;
          let rd = disk_of k;
          Some (put
            [say ''\<newline>'', say ''RAM Disk Test Complete!\<newline>'', say ''Total blocks available: '',
             WriteDec (rd_block_count rd), say ''\<newline>'',
             say ''Blocks tested: 12 (blocks 0, 1, and 10-19)\<newline>'', say ''\<newline>''] k) }"

definition cmd_ramdisk :: "kernel_t \<Rightarrow> kernel_t option" where
  "cmd_ramdisk k =
     (let k = put
        [sayc COLOR_MAGENTA ''[CMD_RAMDISK] Function called!\<newline>'', say ''\<newline>'',
         say ''RAM Disk Test\<newline>'', say ''=============\<newline>'', say ''\<newline>'',
         sayc COLOR_MAGENTA ''[CMD_RAMDISK] Checking if RAM disk is initialized...\<newline>''] k in
      if ramdisk_is_initialized (disk_of k) = 0
      then Some (put
        [sayc COLOR_RED ''[CMD_RAMDISK] RAM disk NOT initialized!\<newline>'',
         say ''Error: RAM Disk is not initialized!\<newline>'', say ''\<newline>''] k)
      else do {
        let k = put
          [sayc COLOR_MAGENTA ''[CMD_RAMDISK] RAM disk is initialized\<newline>'',
           sayc COLOR_MAGENTA ''[CMD_RAMDISK] Getting RAM disk info...\<newline>'',
           sayc COLOR_MAGENTA ''[CMD_RAMDISK] Got RAM disk info\<newline>''] k;
        (w, k) \<leftarrow> k_kmalloc 512 k;
        (r, k) \<leftarrow> k_kmalloc 512 k;
        if w = 0 \<or> r = 0
        then do { let k = put [sayc COLOR_RED ''Error: Failed to allocate test buffers!\<newline>''] k;
                  k \<leftarrow> free_if w k;
                  k \<leftarrow> free_if r k;
                  Some (put [say ''\<newline>''] k) }
        else do {
          let k = put [say ''Test 1: Write Pattern to Block 0\<newline>'', say ''  Preparing test data...\<newline>''] k;
          let write_buffer = map of_nat [0..<512];
          let read_buffer = heap_bytes r 512 k;
          let k = put [say ''  Writing block 0...\<newline>''] k;
          (rc, k) \<leftarrow> k_write_block 0 write_buffer k;
          if rc \<noteq> 0
          then do { let k = put [say ''  FAILED: Write error\<newline>'', say ''\<newline>''] k;
                    k \<leftarrow> k_kfree w k;
                    k_kfree r k }
          else do {
            let k = put
              [say ''  SUCCESS: Block written\<newline>'', say ''\<newline>'', say ''Test 2: Read and Verify Block 0\<newline>'',
                                                           say ''  Reading block 0...\<newline>''] k;
            (rc, read_buffer) \<leftarrow> k_read_block 0 read_buffer k;
            if rc \<noteq> 0
            then do { let k = put [say ''  FAILED: Read error\<newline>'', say ''\<newline>''] k;
                      k \<leftarrow> k_kfree w k;
                      k_kfree r k }
            else do {
              let k = put [say ''  SUCCESS: Block read\<newline>''] k;
              k \<leftarrow> rd_tests write_buffer read_buffer k;
              k \<leftarrow> k_kfree w k;
              k_kfree r k } } } })"

section \<open>File system\<close>

definition cmd_fsformat :: "kernel_t \<Rightarrow> kernel_t option" where
  "cmd_fsformat k =
     do { let k = put
            [say ''\<newline>'', sayc COLOR_YELLOW ''File System Format\<newline>'',
             sayc COLOR_CYAN ''==================\<newline>'', say ''\<newline>'',
             say ''Formatting file system...\<newline>''] k;
          (_, k) \<leftarrow> on_fs (\<lambda>s. map_option (Pair ()) (fs_format s)) k;
          (_, k) \<leftarrow> on_fs (\<lambda>s. map_option (Pair ()) (fs_init s)) k;
          Some (put
            [sayc COLOR_GREEN ''File system formatted successfully!\<newline>'',
             say ''Empty root directory created.\<newline>'', say ''\<newline>''] k) }"

definition not_mounted :: "event list" where
  "not_mounted =
     [sayc COLOR_RED ''Error: File system not initialized!\<newline>'',
      say ''Run 'fsformat' to create a new file system.\<newline>\<newline>'']"

text \<open>The lines of the listing; an entry is 4 bytes of inode number and 28 of name.\<close>

fun ls_loop :: "u8 list list \<Rightarrow> kernel_t \<Rightarrow> kernel_t option" where
  "ls_loop [] k = Some k"
| "ls_loop (entry # es) k =
     do { let name = drop 4 entry;
          (stat, k) \<leftarrow> on_fs (fs_stat (Some name)) k;
          let k = put
            (case stat of None \<Rightarrow> []
             | Some stat \<Rightarrow>
                 [if i_mode stat AND 0xFF = FS_TYPE_DIR then sayc COLOR_LIGHT_BLUE ''  [DIR]  ''
                  else sayc COLOR_LIGHT_GREEN ''  [FILE] '',
                  Write name] @
                 (if i_mode stat AND 0xFF = FS_TYPE_FILE then [say '' ('', WriteDec (i_size stat), say '' bytes)''] else []) @
                 [say ''\<newline>'']) k;
          ls_loop es k }"

definition cmd_ls :: "kernel_t \<Rightarrow> kernel_t option" where
  "cmd_ls k =
     (let k = put [say ''\<newline>''] k in
      if fs_is_initialized (k_fs k) = 0 then Some (put not_mounted k)
      else do {
        (p, k) \<leftarrow> k_kmalloc (32 * 64) k;
        if p = 0 then Some (put [sayc COLOR_RED ''Error: Out of memory\<newline>'', say ''\<newline>''] k)
        else do {
          (r, k) \<leftarrow> on_fs (\<lambda>s. do { (c, es, s) \<leftarrow> fs_readdir (Some (lit ''/'')) 64 s; Some ((c, es), s) }) k;
          let count = fst r;
          if count < 0
          then k_kfree p (put [sayc COLOR_RED ''Error: Failed to read directory\<newline>'', say ''\<newline>''] k)
          else if count = 0
          then k_kfree p (put [sayc COLOR_DARK_GREY ''Directory is empty\<newline>'', say ''\<newline>''] k)
          else do {
            let k = put [sayc COLOR_YELLOW ''Files in /:\<newline>'', sayc COLOR_CYAN ''===========\<newline>''] k;
            k \<leftarrow> ls_loop (take (nat count) (snd r)) k;
            let k = put ([say ''\<newline>'', say ''Total: '', WriteDec (word_of_int count), say '' item''] @
              (if count \<noteq> 1 then [say ''s''] else []) @ [say ''\<newline>\<newline>'']) k;
            k_kfree p k } } })"

definition cmd_touch :: "u8 list \<Rightarrow> kernel_t \<Rightarrow> kernel_t option" where
  "cmd_touch args k =
     (let k = put [say ''\<newline>''] k in
      if fs_is_initialized (k_fs k) = 0 then Some (put not_mounted k)
      else do {
        n \<leftarrow> strlen args;
        if n = 0
        then Some (put [sayc COLOR_RED ''Usage: touch <filename>\<newline>'', say ''Example: touch hello.txt\<newline>\<newline>''] k)
        else do {
          (ex, k) \<leftarrow> on_fs (fs_exists (Some args)) k;
          if ex
          then Some (put [sayc COLOR_RED (''Error: File '' @ [CHR 0x27]), Write args,
                          say ([CHR 0x27] @ '' already exists\<newline>\<newline>'')] k)
          else do {
            (rc, k) \<leftarrow> on_fs (fs_create (Some args) FS_TYPE_FILE) k;
            Some (put
              (if rc < 0
               then [sayc COLOR_RED (''Error: Failed to create file '' @ [CHR 0x27]), Write args,
                     say ([CHR 0x27] @ ''\<newline>\<newline>'')]
               else [sayc COLOR_GREEN ''Created file: '', Write args, say ''\<newline>\<newline>'']) k) } } })"

text \<open>The second half of \<open>cat\<close>, from the opening of the file.\<close>

definition cat_contents :: "u8 list \<Rightarrow> fs_inode_t \<Rightarrow> kernel_t \<Rightarrow> kernel_t option" where
  "cat_contents args stat k =
     do { let k = put [sayc COLOR_MAGENTA ''[DEBUG] Opening file for reading...\<newline>''] k;
          (fd, k) \<leftarrow> on_fs (fs_open (Some args) FS_OPEN_READ) k;
          if fd < 0
          then Some (put
            [sayc COLOR_RED ''Error: Failed to open file for reading (fd='', WriteDec (word_of_int fd),
             say '')\<newline>\<newline>''] k)
          else do {
            let k = put
              [sayc COLOR_MAGENTA ''[DEBUG] File opened, fd='', WriteDec (word_of_int fd), say ''\<newline>'',
               sayc COLOR_MAGENTA ''[DEBUG] Allocating buffer ('', WriteDec (i_size stat + 1), say '' bytes)...\<newline>''] k;
            (p, k) \<leftarrow> k_kmalloc (i_size stat + 1) k;
            if p = 0
            then do { let k = put [sayc COLOR_RED ''Error: Out of memory\<newline>'', say ''\<newline>''] k;
                      (rc, k) \<leftarrow> on_fs (\<lambda>s. Some (fs_close fd s)) k;
                      Some k }
            else do {
              let k = put
                [sayc COLOR_MAGENTA ''[DEBUG] Buffer allocated at 0x'', WriteHex p, say ''\<newline>'',
                 sayc COLOR_MAGENTA ''[DEBUG] Calling fs_read for '', WriteDec (i_size stat), say '' bytes...\<newline>''] k;
              (r, k) \<leftarrow> on_fs (\<lambda>s. do { (n, buf, s) \<leftarrow> fs_read fd (heap_bytes p (unat (i_size stat + 1)) k) (i_size stat) s;
                                              Some ((n, buf), s) }) k;
              let bytes_read = fst r;
              let k = put
                [sayc COLOR_MAGENTA ''[DEBUG] fs_read returned: '', WriteDec (word_of_int bytes_read),
                 say '' bytes\<newline>''] k;
              (rc, k) \<leftarrow> on_fs (\<lambda>s. Some (fs_close fd s)) k;
              if bytes_read \<le> 0
              then k_kfree p (put
                [sayc COLOR_RED ''Error: Failed to read file ('', WriteDec (word_of_int bytes_read),
                 say '' bytes read)\<newline>\<newline>''] k)
              else do {
                buffer \<leftarrow> store (snd r) (nat bytes_read) 0;
                k_kfree p (put
                  [sayc COLOR_MAGENTA ''[DEBUG] File contents:\<newline>'', sayc COLOR_CYAN ''--- BEGIN ---\<newline>'',
                   Write buffer, sayc COLOR_CYAN ''\<newline>--- END ---\<newline>'', say ''\<newline>''] k) } } } }"

definition cmd_cat :: "u8 list \<Rightarrow> kernel_t \<Rightarrow> kernel_t option" where
  "cmd_cat args k =
     (let k = put [say ''\<newline>''] k in
      if fs_is_initialized (k_fs k) = 0 then Some (put not_mounted k)
      else do {
        n \<leftarrow> strlen args;
        if n = 0
        then Some (put [sayc COLOR_RED ''Usage: cat <filename>\<newline>'', say ''Example: cat hello.txt\<newline>\<newline>''] k)
        else do {
          let k = put [sayc COLOR_MAGENTA ''[DEBUG] Reading file: '', Write args, say ''\<newline>''] k;
          (ex, k) \<leftarrow> on_fs (fs_exists (Some args)) k;
          if \<not> ex
          then Some (put [sayc COLOR_RED (''Error: File '' @ [CHR 0x27]), Write args,
                          say ([CHR 0x27] @ '' not found\<newline>\<newline>'')] k)
          else do {
            let k = put [sayc COLOR_MAGENTA ''[DEBUG] File exists\<newline>''] k;
            (stat, k) \<leftarrow> on_fs (fs_stat (Some args)) k;
            case stat of None \<Rightarrow>
              Some (put [sayc COLOR_RED ''Error: Failed to get file info\<newline>'', say ''\<newline>''] k)
            | Some stat \<Rightarrow> do {
                let k = put
                  [sayc COLOR_MAGENTA ''[DEBUG] File size: '', WriteDec (i_size stat), say '' bytes\<newline>'',
                   sayc COLOR_MAGENTA ''[DEBUG] File mode: 0x'', WriteHex (i_mode stat), say ''\<newline>''] k;
                if i_mode stat AND 0xFF \<noteq> FS_TYPE_FILE
                then Some (put [sayc COLOR_RED (''Error: '' @ [CHR 0x27]), Write args,
                                say ([CHR 0x27] @ '' is a directory\<newline>\<newline>'')] k)
                else if i_size stat = 0
                then Some (put [sayc COLOR_DARK_GREY ''(empty file)\<newline>'', say ''\<newline>''] k)
                else cat_contents args stat k } } } })"

definition cmd_rm :: "u8 list \<Rightarrow> kernel_t \<Rightarrow> kernel_t option" where
  "cmd_rm args k =
     (let k = put [say ''\<newline>''] k in
      if fs_is_initialized (k_fs k) = 0 then Some (put not_mounted k)
      else do {
        n \<leftarrow> strlen args;
        if n = 0
        then Some (put [sayc COLOR_RED ''Usage: rm <filename>\<newline>'', say ''Example: rm hello.txt\<newline>\<newline>''] k)
        else do {
          (ex, k) \<leftarrow> on_fs (fs_exists (Some args)) k;
          if \<not> ex
          then Some (put [sayc COLOR_RED (''Error: File '' @ [CHR 0x27]), Write args,
                          say ([CHR 0x27] @ '' not found\<newline>\<newline>'')] k)
          else do {
            (rc, k) \<leftarrow> on_fs (fs_unlink (Some args)) k;
            Some (put
              (if rc < 0
               then [sayc COLOR_RED (''Error: Failed to delete file '' @ [CHR 0x27]), Write args,
                     say ([CHR 0x27] @ ''\<newline>\<newline>'')]
               else [sayc COLOR_GREEN ''Deleted file: '', Write args, say ''\<newline>\<newline>'']) k) } } })"

definition cmd_mkdir :: "u8 list \<Rightarrow> kernel_t \<Rightarrow> kernel_t option" where
  "cmd_mkdir args k =
     (let k = put [say ''\<newline>''] k in
      if fs_is_initialized (k_fs k) = 0 then Some (put not_mounted k)
      else do {
        n \<leftarrow> strlen args;
        if n = 0
        then Some (put [sayc COLOR_RED ''Usage: mkdir <dirname>\<newline>'', say ''Example: mkdir docs\<newline>\<newline>''] k)
        else do {
          (ex, k) \<leftarrow> on_fs (fs_exists (Some args)) k;
          if ex
          then Some (put [sayc COLOR_RED (''Error: '' @ [CHR 0x27]), Write args,
                          say ([CHR 0x27] @ '' already exists\<newline>\<newline>'')] k)
          else do {
            (rc, k) \<leftarrow> on_fs (fs_mkdir (Some args)) k;
            Some (put
              (if rc < 0
               then [sayc COLOR_RED (''Error: Failed to create directory '' @ [CHR 0x27]), Write args,
                     say ([CHR 0x27] @ ''\<newline>\<newline>'')]
               else [sayc COLOR_GREEN ''Created directory: '', Write args, say ''\<newline>\<newline>'']) k) } } })"

text \<open>
  \<open>write\<close>: getting the file, by opening it or by creating and opening it (no descriptor when the creation fails), and
  storing the text through the descriptor.
\<close>

definition write_open :: "bool \<Rightarrow> u8 list \<Rightarrow> kernel_t \<Rightarrow> (int option \<times> kernel_t) option" where
  "write_open file_exists filename k =
     (if file_exists
      then do { let k = put [sayc COLOR_MAGENTA ''[DEBUG] Opening existing file for writing...\<newline>''] k;
                (fd, k) \<leftarrow> on_fs (fs_open (Some filename) FS_OPEN_WRITE) k;
                Some (Some fd, k) }
      else do { let k = put [sayc COLOR_MAGENTA ''[DEBUG] Creating new file...\<newline>''] k;
                (rc, k) \<leftarrow> on_fs (fs_create (Some filename) FS_TYPE_FILE) k;
                if rc < 0
                then Some (None, put [sayc COLOR_RED (''Error: Failed to create file '' @ [CHR 0x27]), Write filename,
                                      say ([CHR 0x27] @ ''\<newline>\<newline>'')] k)
                else do { let k = put [sayc COLOR_MAGENTA ''[DEBUG] File created, opening for writing...\<newline>''] k;
                          (fd, k) \<leftarrow> on_fs (fs_open (Some filename) FS_OPEN_WRITE) k;
                          Some (Some fd, k) } })"

definition write_store :: "bool \<Rightarrow> u8 list \<Rightarrow> u8 list \<Rightarrow> int \<Rightarrow> kernel_t \<Rightarrow> kernel_t option" where
  "write_store file_exists filename txt fd k =
     do { let k = put [sayc COLOR_MAGENTA ''[DEBUG] File opened successfully, fd='', WriteDec (word_of_int fd), say ''\<newline>''] k;
          text_len \<leftarrow> strlen txt;
          let k = put
            [sayc COLOR_MAGENTA ''[DEBUG] Calling fs_write with '', WriteDec (of_nat text_len),
             say '' bytes...\<newline>''] k;
          (bytes_written, k) \<leftarrow> on_fs (fs_write fd txt (of_nat text_len)) k;
          let k = put
            [sayc COLOR_MAGENTA ''[DEBUG] fs_write returned: '', WriteDec (word_of_int bytes_written),
             say '' bytes\<newline>''] k;
          if bytes_written < 0
          then do { let k = put [sayc COLOR_RED ''Error: Failed to write to file\<newline>'', say ''\<newline>''] k;
                    (rc, k) \<leftarrow> on_fs (\<lambda>s. Some (fs_close fd s)) k;
                    Some k }
          else do {
            let k = put [sayc COLOR_MAGENTA ''[DEBUG] Closing file...\<newline>''] k;
            (rc, k) \<leftarrow> on_fs (\<lambda>s. Some (fs_close fd s)) k;
            Some (put
              [if file_exists then sayc COLOR_GREEN ''Updated file: '' else sayc COLOR_GREEN ''Created file: '',
               Write filename, say '' ('', WriteDec (word_of_int bytes_written),
               say '' bytes written)\<newline>\<newline>''] k) } }"

definition cmd_write :: "u8 list \<Rightarrow> kernel_t \<Rightarrow> kernel_t option" where
  "cmd_write args k =
     (let k = put [say ''\<newline>''] k in
      if fs_is_initialized (k_fs k) = 0 then Some (put not_mounted k)
      else do {
        n \<leftarrow> strlen args;
        if n = 0
        then Some (put [sayc COLOR_RED ''Usage: write <filename> <text>\<newline>'',
                        say ''Example: write hello.txt Hello, World!\<newline>\<newline>''] k)
        else do {
          split \<leftarrow> split_args args k;
          case split of None \<Rightarrow>
            Some (put [sayc COLOR_RED ''Error: Missing text content\<newline>'',
                       say ''Usage: write <filename> <text>\<newline>\<newline>''] k)
          | Some (filename, j) \<Rightarrow> do {
              let txt = drop j filename;
              text_len \<leftarrow> strlen txt;
              let k = put
                [sayc COLOR_MAGENTA ''[DEBUG] Filename: '', Write filename, say ''\<newline>'',
                 sayc COLOR_MAGENTA ''[DEBUG] Text: '', Write txt, say '' ('', WriteDec (of_nat text_len),
                 say '' bytes)\<newline>''] k;
              (file_exists, k) \<leftarrow> on_fs (fs_exists (Some filename)) k;
              let k = put
                [sayc COLOR_MAGENTA ''[DEBUG] File exists: '',
                 say (if file_exists then ''YES\<newline>'' else ''NO\<newline>'')] k;
              (fd, k) \<leftarrow> write_open file_exists filename k;
              case fd of None \<Rightarrow> Some k
              | Some fd \<Rightarrow>
                  if fd < 0
                  then Some (put
                    [sayc COLOR_RED ''Error: Failed to open file (fd='', WriteDec (word_of_int fd), say '')\<newline>\<newline>''] k)
                  else write_store file_exists filename txt fd k } } })"

end
