(* ===== verification/Shell.thy ===== *)
theory Shell
  imports Shell_Info Shell_Disk Keyboard
begin

text \<open>
  The shell proper (\<open>shell.c\<close> from line 1621 on): the command history, the dispatch of a command line, completion with the
  tab key, the line editor and the main loop.
\<close>

section \<open>History\<close>

text \<open>Moving the entries down by one, with \<open>strcpy\<close> from row to row.\<close>

fun shift_history :: "nat list \<Rightarrow> u8 list list \<Rightarrow> u8 list list option" where
  "shift_history [] h = Some h"
| "shift_history (i # is) h = do { row \<leftarrow> strcpy (h ! i) (h ! (i + 1)); shift_history is (h[i := row]) }"

definition shell_add_history :: "u8 list \<Rightarrow> kernel_t \<Rightarrow> kernel_t option" where
  "shell_add_history command k =
     (if command = [] \<or> length (command_history k) \<noteq> MAX_HISTORY \<or> history_count k > MAX_HISTORY then None
      else if hd command = 0 then Some k
      else do {
        same \<leftarrow> (if history_count k > 0
                then do { c \<leftarrow> strcmp (command_history k ! (history_count k - 1)) command; Some (c = 0) }
                else Some False);
        if same then Some k
        else do {
          k \<leftarrow> (if history_count k \<ge> MAX_HISTORY
                then do { h \<leftarrow> shift_history [0..<MAX_HISTORY - 1] (command_history k);
                          Some (k\<lparr>command_history := h, history_count := MAX_HISTORY - 1\<rparr>) }
                else Some k);
          row \<leftarrow> strncpy (command_history k ! history_count k) command (int MAX_CMD_LENGTH - 1);
          row \<leftarrow> store row (MAX_CMD_LENGTH - 1) 0;
          Some (k\<lparr>command_history := (command_history k)[history_count k := row],
                  history_count := history_count k + 1\<rparr>) } })"

section \<open>Dispatch\<close>

text \<open>The chain of comparisons, in the order of the code: the first name equal to the word decides.\<close>

fun run_first :: "(string \<times> (kernel_t \<Rightarrow> kernel_t option)) list \<Rightarrow> u8 list \<Rightarrow> (kernel_t \<Rightarrow> kernel_t option) \<Rightarrow> kernel_t \<Rightarrow> kernel_t option" where
  "run_first [] cmd otherwise k = otherwise k"
| "run_first ((name, f) # table) cmd otherwise k =
     do { c \<leftarrow> strcmp cmd (lit name); if c = 0 then f k else run_first table cmd otherwise k }"

definition command_table :: "u8 list \<Rightarrow> (string \<times> (kernel_t \<Rightarrow> kernel_t option)) list" where
  "command_table full_args =
     [(''help'', cmd_help), (''clear'', cmd_clear), (''cls'', cmd_clear), (''about'', cmd_about), (''ver'', cmd_ver),
      (''mem'', cmd_mem), (''meminfo'', cmd_meminfo), (''memtest'', cmd_memtest), (''ps'', cmd_ps),
      (''testproc'', cmd_testproc), (''sleeptest'', cmd_sleeptest), (''nice'', cmd_nice full_args),
      (''kill'', cmd_kill full_args), (''ipctest'', cmd_ipctest), (''syscalltest'', cmd_syscalltest),
      (''usermodetest'', cmd_usermodetest), (''echo'', cmd_echo full_args), (''color'', cmd_color),
      (''uptime'', cmd_uptime), (''history'', cmd_history), (''banner'', cmd_banner),
      (''ramdisk'', \<lambda>k. cmd_ramdisk (put [sayc COLOR_CYAN ''[DISPATCHER] Matched 'ramdisk' command, calling cmd_ramdisk()\<newline>''] k)),
      (''rdformat'', \<lambda>k. cmd_rdformat (put [sayc COLOR_CYAN ''[DISPATCHER] Matched 'rdformat' command, calling cmd_rdformat()\<newline>''] k)),
      (''rdinfo'', \<lambda>k. cmd_rdinfo (put [sayc COLOR_CYAN ''[DISPATCHER] Matched 'rdinfo' command, calling cmd_rdinfo()\<newline>''] k)),
      (''fsformat'', cmd_fsformat), (''ls'', cmd_ls), (''touch'', cmd_touch full_args), (''cat'', cmd_cat full_args),
      (''rm'', cmd_rm full_args), (''mkdir'', cmd_mkdir full_args), (''write'', cmd_write full_args)]"

definition cmd_unknown :: "u8 list \<Rightarrow> kernel_t \<Rightarrow> kernel_t option" where
  "cmd_unknown cmd k = Some (put
     [say ''\<newline>'', sayc COLOR_RED ''Error: '', say (''Unknown command '' @ [CHR 0x27]), Write cmd,
      say ([CHR 0x27] @ ''\<newline>''), say ''Type 'help' for available commands.\<newline>''] k)"

text \<open>The text after the first word and the blanks behind it.\<close>

definition find_args :: "u8 list \<Rightarrow> u8 list option" where
  "find_args command =
     do { i \<leftarrow> skip_while (\<lambda>c. c \<noteq> 0 \<and> c \<noteq> 32) command 0;
          j \<leftarrow> skip_while (\<lambda>c. c = 32) (drop i command) i;
          Some (drop j command) }"

text \<open>
  \<open>slack\<close> are the bytes of the stack frame behind the array \<open>cmd_copy\<close>: the copy of a command stores one byte there.
  The result is the caller's buffer, trimmed, and the kernel.
\<close>

definition shell_process_command :: "u8 list \<Rightarrow> u8 list \<Rightarrow> kernel_t \<Rightarrow> (u8 list \<times> kernel_t) option" where
  "shell_process_command slack command k =
     do { command \<leftarrow> str_trim command;
          if command = [] then None
          else if hd command = 0 then Some (command, put [say ''\<newline>''] k)
          else do {
            k \<leftarrow> shell_add_history command k;
            cmd_copy \<leftarrow> strncpy (locals MAX_CMD_LENGTH k @ slack) command (int MAX_CMD_LENGTH);
            (tokens, cmd_copy) \<leftarrow> str_split cmd_copy 32 10;
            if tokens = [] then Some (command, put [say ''\<newline>''] k)
            else do {
              let cmd = drop (hd tokens) cmd_copy;
              full_args \<leftarrow> find_args command;
              k \<leftarrow> run_first (command_table full_args) cmd (cmd_unknown cmd) k;
              Some (command, k) } } }"

section \<open>Completion\<close>

definition available_commands :: "string list" where
  "available_commands =
     [''help'', ''clear'', ''cls'', ''about'', ''ver'', ''mem'', ''meminfo'', ''memtest'', ''ps'', ''testproc'',
      ''sleeptest'', ''nice'', ''kill'', ''ipctest'', ''syscalltest'', ''usermodetest'', ''echo'', ''color'',
      ''uptime'', ''history'', ''banner'', ''ramdisk'', ''rdformat'', ''rdinfo'', ''fsformat'', ''ls'', ''cat'',
      ''touch'', ''rm'', ''mkdir'', ''write'']"

fun common_len_loop :: "string \<Rightarrow> string \<Rightarrow> nat" where
  "common_len_loop (a # xs) (b # ys) = (if a = b then Suc (common_len_loop xs ys) else 0)"
| "common_len_loop _ _ = 0"

text \<open>
  The search: number of matches so far, index of the first one, length to complete to, screen. From the second match on the
  names are shown; the one shown with the second match is the table's entry before it.
\<close>

definition tab_step :: "u8 list \<Rightarrow> nat \<Rightarrow> nat \<times> nat \<times> nat \<times> screen_t \<Rightarrow> (nat \<times> nat \<times> nat \<times> screen_t) option" where
  "tab_step buffer i = (\<lambda>(matches, first, common_len, s).
     do { b \<leftarrow> str_starts_with (lit (available_commands ! i)) buffer;
          if \<not> b then Some (matches, first, common_len, s)
          else if matches = 0 then Some (1, i, length (available_commands ! i), s)
          else if matches = 1
          then do { s \<leftarrow> screen_write (Some (lit ''\<newline>'')) s;
                    s \<leftarrow> screen_write (Some (lit (available_commands ! (i - 1)))) s;
                    s \<leftarrow> screen_write (Some (lit ''  '')) s;
                    s \<leftarrow> screen_write (Some (lit (available_commands ! i))) s;
                    Some (2, first, common_len_loop (available_commands ! (i - 1)) (available_commands ! i), s) }
          else do { s \<leftarrow> screen_write (Some (lit ''  '')) s;
                    s \<leftarrow> screen_write (Some (lit (available_commands ! i))) s;
                    Some (matches + 1, first, common_len, s) } })"

fun tab_loop :: "u8 list \<Rightarrow> nat list \<Rightarrow> nat \<times> nat \<times> nat \<times> screen_t \<Rightarrow> (nat \<times> nat \<times> nat \<times> screen_t) option" where
  "tab_loop buffer [] st = Some st"
| "tab_loop buffer (i # is) st = do { st \<leftarrow> tab_step buffer i st; tab_loop buffer is st }"

text \<open>Storing and showing the characters of a name from an index on.\<close>

fun type_chars :: "nat \<Rightarrow> u8 list \<Rightarrow> u8 list \<Rightarrow> screen_t \<Rightarrow> (u8 list \<times> screen_t) option" where
  "type_chars i [] buffer s = Some (buffer, s)"
| "type_chars i (c # cs) buffer s =
     do { buffer \<leftarrow> store buffer i c; s \<leftarrow> screen_putchar c s; type_chars (i + 1) cs buffer s }"

definition handle_tab_completion :: "u8 list \<Rightarrow> nat \<Rightarrow> int \<Rightarrow> screen_t \<Rightarrow> (nat \<times> u8 list \<times> screen_t) option" where
  "handle_tab_completion buffer len max_length s =
     do { (matches, first, common_len, s) \<leftarrow> tab_loop buffer [0..<length available_commands] (0, 0, 0, s);
          let name = (map of_char (available_commands ! first) :: u8 list);
          if matches = 0 then Some (0, buffer, s)
          else if matches = 1
          then if int (length name) < max_length - 1
               then do { (buffer, s) \<leftarrow> type_chars len (drop len name) buffer s;
                         (buffer, s) \<leftarrow> type_chars (length name) [32] buffer s;
                         Some (length name + 1, buffer, s) }
               else Some (len, buffer, s)
          else do {
            s \<leftarrow> screen_write (Some (lit ''\<newline>'')) s;
            s \<leftarrow> play [] [] [] shell_prompt s;
            if common_len > len \<and> int common_len < max_length - 1
            then do { (buffer, s) \<leftarrow> type_chars 0 (take common_len name) buffer s; Some (common_len, buffer, s) }
            else if len \<le> length buffer
            then do { s \<leftarrow> draw_chars (take len buffer) s; Some (len, buffer, s) }
            else None } }"

section \<open>Line editor and main loop\<close>

text \<open>All keys but tab and Enter act as in \<open>keyboard_get_line\<close>, whose code \<open>shell_get_line\<close> repeats.\<close>

fun shell_line_loop :: "int \<Rightarrow> int \<Rightarrow> int \<Rightarrow> u8 list \<Rightarrow> line_t \<Rightarrow> line_outcome option" where
  "shell_line_loop start_row start_col max_length [] l = Some (Waiting l)"
| "shell_line_loop start_row start_col max_length (c # cs) l =
     (if c = 10
      then do { buffer \<leftarrow> store (l_buffer l) (l_length l) 0; s \<leftarrow> screen_putchar 10 (l_screen l); Some (Finished buffer s) }
      else if c = 9
      then do { (n, buffer, s) \<leftarrow> handle_tab_completion (l_buffer l) (l_length l) max_length (l_screen l);
                shell_line_loop (screen_get_cursor_row s) (screen_get_cursor_col s) max_length cs
                  (l\<lparr>l_buffer := buffer, l_length := n, l_cursor := n, l_screen := s\<rparr>) }
      else do { l \<leftarrow> line_key start_row start_col max_length c l;
                shell_line_loop start_row start_col max_length cs l })"

definition shell_get_line :: "u8 list \<Rightarrow> u8 list \<Rightarrow> int \<Rightarrow> screen_t \<Rightarrow> line_outcome option" where
  "shell_get_line cs buffer max_length s =
     shell_line_loop (screen_get_cursor_row s) (screen_get_cursor_col s) max_length cs
       \<lparr>l_buffer = buffer, l_length = 0, l_cursor = 0, l_screen = s\<rparr>"

text \<open>
  The main loop on a list of typed lines, each ended by Enter. \<open>w\<close> are the uninitialised buffers of the console functions,
  \<open>slack\<close> is the stack behind \<open>cmd_copy\<close>.
\<close>

fun shell_run :: "u8 list \<times> u8 list \<times> u8 list \<Rightarrow> u8 list \<Rightarrow> u8 list list \<Rightarrow> u8 list \<Rightarrow> kernel_t \<Rightarrow> screen_t \<Rightarrow> (kernel_t \<times> screen_t) option" where
  "shell_run w slack [] command_buffer k s = Some (k, s)"
| "shell_run (dec, buf, temp) slack (keys # rest) command_buffer k s =
     do { s \<leftarrow> play dec buf temp shell_prompt s;
          out \<leftarrow> shell_get_line (keys @ [10]) command_buffer (int MAX_CMD_LENGTH) s;
          case out of Waiting l \<Rightarrow> None
          | Finished command_buffer s \<Rightarrow>
              do { (command_buffer, k) \<leftarrow> shell_process_command slack command_buffer (k\<lparr>k_out := []\<rparr>);
                   s \<leftarrow> play dec buf temp (k_out k) s;
                   if shell_alive k then shell_run (dec, buf, temp) slack rest command_buffer k s else Some (k, s) } }"

end
