(* ===== verification/Shell_History.thy ===== *)
theory Shell_History
  imports Shell
begin

text \<open>
  The command history keeps the last ten commands, without repetitions of the command just before. The law of one addition
  is the interface of the locale \<open>recent_log\<close>, which proves what any sequence of additions leaves.
\<close>

section \<open>Logs of recent entries\<close>

definition add_recent :: "nat \<Rightarrow> 'a \<Rightarrow> 'a list \<Rightarrow> 'a list" where
  "add_recent cap c h = (if h \<noteq> [] \<and> last h = c then h else drop (length h - (cap - 1)) h @ [c])"

definition last_n :: "nat \<Rightarrow> 'a list \<Rightarrow> 'a list" where
  "last_n n xs = drop (length xs - n) xs"

lemma remdups_adj_snoc: "xs \<noteq> [] \<Longrightarrow> remdups_adj (xs @ [y]) = remdups_adj xs @ (if last xs = y then [] else [y])"
  by (cases xs rule: rev_cases) (simp_all add: remdups_adj_append_two)

lemma last_last_n: "0 < n \<Longrightarrow> xs \<noteq> [] \<Longrightarrow> last_n n xs \<noteq> [] \<and> last (last_n n xs) = last xs"
  by (auto simp: last_n_def simp flip: length_greater_0_conv)

lemma add_recent_last_n:
  assumes "0 < n" and "cs \<noteq> []"
  shows "add_recent n c (last_n n (remdups_adj cs)) = last_n n (remdups_adj (cs @ [c]))"
proof -
  have ne: "remdups_adj cs \<noteq> []" using assms(2) by (cases cs rule: remdups_adj.cases) auto
  note l = last_last_n [OF assms(1) ne]
  show ?thesis
  proof (cases "last cs = c")
    case True
    then show ?thesis using l assms(2) by (simp add: add_recent_def remdups_adj_snoc)
  next
    case False
    let ?l = "length (remdups_adj cs)"
    have "?l - n + (length (last_n n (remdups_adj cs)) - (n - 1)) = Suc ?l - n" using assms(1) by (auto simp: last_n_def)
    then show ?thesis using l assms(2) False by (simp add: add_recent_def remdups_adj_snoc) (simp add: last_n_def add.commute)
  qed
qed

locale recent_log =
  fixes add :: "'c \<Rightarrow> 's \<Rightarrow> 's option"
    and entry :: "'c \<Rightarrow> 'e"
    and abs :: "'s \<Rightarrow> 'e list"
    and inv :: "'s \<Rightarrow> bool"
    and ok :: "'c \<Rightarrow> bool"
    and cap :: nat
  assumes cap_pos: "0 < cap"
    and add_law: "inv s \<Longrightarrow> ok c \<Longrightarrow> \<exists>s'. add c s = Some s' \<and> inv s' \<and> abs s' = add_recent cap (entry c) (abs s)"
begin

fun add_all :: "'c list \<Rightarrow> 's \<Rightarrow> 's option" where
  "add_all [] s = Some s"
| "add_all (c # cs) s = Option.bind (add c s) (add_all cs)"

lemma add_all_snoc: "add_all (cs @ [c]) s = Option.bind (add_all cs s) (add c)"
  by (induction cs arbitrary: s) (auto split: Option.bind_splits)

lemma add_all_fold: "fold (\<lambda>c r. Option.bind r (add c)) cs (Some s) = add_all cs s"
proof -
  have none: "fold (\<lambda>c r. Option.bind r (add c)) cs None = None" for cs by (induction cs) simp_all
  show ?thesis
  proof (induction cs arbitrary: s)
    case (Cons c cs)
    then show ?case by (cases "add c s") (simp_all add: none)
  qed simp
qed

lemma add_all_law:
  assumes "inv s" and "abs s = []" and "\<forall>c\<in>set cs. ok c"
  shows "\<exists>s'. add_all cs s = Some s' \<and> inv s' \<and> abs s' = last_n cap (remdups_adj (map entry cs))"
  using assms(3)
proof (induction cs rule: rev_induct)
  case Nil
  then show ?case using assms(1,2) by (simp add: last_n_def)
next
  case (snoc c cs)
  then obtain s1 where s1: "add_all cs s = Some s1" "inv s1" "abs s1 = last_n cap (remdups_adj (map entry cs))" by auto
  then obtain s2 where s2: "add c s1 = Some s2" "inv s2" "abs s2 = add_recent cap (entry c) (abs s1)"
    using add_law [of s1 c] snoc.prems by auto
  have "abs s2 = last_n cap (remdups_adj (map entry (cs @ [c])))"
    using s2(3) s1(3) cap_pos add_recent_last_n [OF cap_pos, of "map entry cs"] by (cases "cs = []") (auto simp: add_recent_def last_n_def)
  then show ?case using s1 s2 by (auto simp: add_all_snoc)
qed

end

section \<open>The rows of the history\<close>

definition history_ok :: "kernel_t \<Rightarrow> bool" where
  "history_ok k \<longleftrightarrow> length (command_history k) = MAX_HISTORY \<and> history_count k \<le> MAX_HISTORY \<and>
     (\<forall>row\<in>set (command_history k). length row = MAX_CMD_LENGTH) \<and>
     (\<forall>row\<in>set (take (history_count k) (command_history k)). 0 \<in> set row)"

definition history_of :: "kernel_t \<Rightarrow> u8 list list" where
  "history_of k = map cstr (take (history_count k) (command_history k))"

lemma cstr_shorter: "0 \<in> set b \<Longrightarrow> length (cstr b) < length b"
  by (induction b) auto

lemma strcpy_eq:
  "0 \<in> set src \<Longrightarrow> length (cstr src) < length dest \<Longrightarrow>
     strcpy dest src = Some (cstr src @ 0 # drop (Suc (length (cstr src))) dest)"
  by (induction dest src rule: strcpy.induct) auto

lemma shift_history_eq:
  assumes "length h = 10" and "\<forall>row\<in>set h. length row = 256 \<and> 0 \<in> set row" and "n \<le> 9"
  shows "\<exists>h'. shift_history [9 - n..<9] h = Some h' \<and> length h' = 10 \<and> (\<forall>row\<in>set h'. length row = 256 \<and> 0 \<in> set row) \<and>
    map cstr (take 9 h') = take (9 - n) (map cstr h) @ drop (10 - n) (map cstr h)"
  using assms
proof (induction n arbitrary: h)
  case 0
  then show ?case by (simp add: take_map)
next
  case (Suc n)
  let ?i = "9 - Suc n"
  have i: "?i < 9" "Suc ?i = 9 - n" using Suc.prems(3) by simp_all
  have src: "0 \<in> set (h ! Suc ?i)" "length (h ! Suc ?i) = 256" "length (h ! ?i) = 256" using Suc.prems i by (auto simp: nth_mem)
  have short: "length (cstr (h ! Suc ?i)) < 256" using cstr_shorter [OF src(1)] src(2) by simp
  let ?row = "cstr (h ! Suc ?i) @ 0 # drop (Suc (length (cstr (h ! Suc ?i)))) (h ! ?i)"
  let ?h = "h[?i := ?row]"
  have cp: "strcpy (h ! ?i) (h ! Suc ?i) = Some ?row" by (rule strcpy_eq) (use src short in simp_all)
  have "length ?row = 256 \<and> 0 \<in> set ?row" using short src(3) by simp
  then have rows: "\<forall>row\<in>set ?h. length row = 256 \<and> 0 \<in> set row"
    using Suc.prems(2) set_update_subset_insert [of h ?i ?row] by blast
  have len: "length ?h = 10" and n: "n \<le> 9" and n': "Suc (9 - n) = 10 - n" using Suc.prems by simp_all
  obtain h' where h': "shift_history [9 - n..<9] ?h = Some h'" "length h' = 10" "\<forall>row\<in>set h'. length row = 256 \<and> 0 \<in> set row"
    "map cstr (take 9 h') = take (9 - n) (map cstr ?h) @ drop (10 - n) (map cstr ?h)"
    using Suc.IH [OF len rows n] by blast
  have list: "[?i..<9] = ?i # [9 - n..<9]" using i upt_conv_Cons [of ?i 9] by simp
  have "map cstr ?h = (map cstr h)[?i := cstr (h ! Suc ?i)]" by (simp add: map_update)
  moreover have "take (9 - n) ((map cstr h)[?i := cstr (h ! Suc ?i)]) = take ?i (map cstr h) @ [cstr (h ! Suc ?i)]"
    using i Suc.prems(1) by (simp add: take_Suc_conv_app_nth flip: i(2))
  moreover have "drop (10 - Suc n) (map cstr h) = cstr (h ! Suc ?i) # drop (10 - n) (map cstr h)"
    using Cons_nth_drop_Suc [of "9 - n" "map cstr h"] Suc.prems(1,3) i(1) i(2) [symmetric] n' by simp
  moreover have "drop (10 - n) ((map cstr h)[?i := cstr (h ! Suc ?i)]) = drop (10 - n) (map cstr h)"
    using Suc.prems(3) by (intro drop_update_cancel) simp
  ultimately have "map cstr (take 9 h') = take ?i (map cstr h) @ drop (10 - Suc n) (map cstr h)" using h'(4) by simp
  then show ?case using h' cp i unfolding list by auto
qed

text \<open>Storing the new row.\<close>

lemma new_row:
  assumes "length dest = 256" and "0 \<in> set command" and "length (cstr command) \<le> 255"
  shows "\<exists>row row'. strncpy dest command (int MAX_CMD_LENGTH - 1) = Some row \<and> store row (MAX_CMD_LENGTH - 1) 0 = Some row' \<and>
    length row' = 256 \<and> 0 \<in> set row' \<and> cstr row' = cstr command"
proof -
  have n: "nat (int MAX_CMD_LENGTH - 1) = 255" by simp
  show ?thesis
  proof (cases "length (cstr command) = 255")
    case True
    have "drop 255 dest = [dest ! 255]" using assms(1) Cons_nth_drop_Suc [of 255 dest] by simp
    then have "strncpy dest command (int MAX_CMD_LENGTH - 1) = Some (cstr command @ [dest ! 255])"
      unfolding strncpy_def n using strncpy_loop_eq [OF assms(2), of dest 255] assms(1) True by simp
    moreover have "store (cstr command @ [dest ! 255]) (MAX_CMD_LENGTH - 1) 0 = Some (cstr command @ [0])"
      using True by (simp add: store_def list_update_append)
    moreover have "length (cstr command @ [0]) = 256" "0 \<in> set (cstr command @ [0])" "cstr (cstr command @ [0]) = cstr command"
      using True by simp_all
    ultimately show ?thesis by blast
  next
    case False
    let ?row = "cstr command @ replicate (256 - length (cstr command)) 0"
    have l: "length (cstr command) < 255" using False assms(3) by simp
    have "strncpy dest command (int MAX_CMD_LENGTH - 1) = Some ?row"
      unfolding strncpy_def n using strncpy_loop_eq [OF assms(2), of dest 255] assms(1) l by simp
    moreover have "?row ! 255 = 0" "length ?row = 256" using l by (simp_all add: nth_append)
    then have "store ?row (MAX_CMD_LENGTH - 1) 0 = Some ?row" using list_update_id [of ?row 255] by (simp add: store_def)
    moreover obtain m where "256 - length (cstr command) = Suc m" using l by (cases "256 - length (cstr command)") auto
    then have "cstr ?row = cstr command" "0 \<in> set ?row" by simp_all
    ultimately show ?thesis using \<open>length ?row = 256\<close> by (intro exI conjI)
  qed
qed

definition command_ok :: "u8 list \<Rightarrow> bool" where
  "command_ok c \<longleftrightarrow> 0 \<in> set c \<and> cstr c \<noteq> [] \<and> length (cstr c) \<le> 255"

text \<open>The law of one addition.\<close>

lemma shell_add_history_law:
  assumes "history_ok k" and "command_ok c"
  shows "\<exists>h n. shell_add_history c k = Some (k\<lparr>command_history := h, history_count := n\<rparr>) \<and>
    history_ok (k\<lparr>command_history := h, history_count := n\<rparr>) \<and>
    map cstr (take n h) = add_recent MAX_HISTORY (cstr c) (history_of k)"
proof -
  let ?h = "command_history k" and ?n = "history_count k"
  have h: "length ?h = 10" "?n \<le> 10" "\<forall>row\<in>set ?h. length row = 256" "\<forall>row\<in>set (take ?n ?h). 0 \<in> set row"
    using assms(1) by (auto simp: history_ok_def)
  have c: "c \<noteq> []" "hd c \<noteq> 0" "0 \<in> set c" "length (cstr c) \<le> 255" using assms(2) by (cases c; auto simp: command_ok_def)+
  have row: "0 \<in> set (?h ! i)" if "i < ?n" for i using h(1,2,4) that nth_mem [of i "take ?n ?h"] by simp
  define same where "same \<longleftrightarrow> ?n > 0 \<and> cstr (?h ! (?n - 1)) = cstr c"
  have ne: "?h \<noteq> []" using h(1) by auto
  have last: "?n > 0 \<Longrightarrow> last (history_of k) = cstr (?h ! (?n - 1))" "history_of k \<noteq> [] \<longleftrightarrow> ?n > 0"
    using h(1,2) ne last_conv_nth [of "take ?n ?h"] by (auto simp: history_of_def last_map min_def)
  have cmp: "(if ?n > 0 then do { d \<leftarrow> strcmp (?h ! (?n - 1)) c; Some (d = 0) } else Some False) = Some same"
    using strcmp_terminated [OF row [of "?n - 1"] c(3)] by (auto simp: same_def)
  note start = shell_add_history_def [of c k, unfolded cmp bind.bind_lunit]
  show ?thesis
  proof (cases same)
    case True
    then have "shell_add_history c k = Some k" using start c(1,2) h(1,2) by simp
    moreover have "add_recent MAX_HISTORY (cstr c) (history_of k) = history_of k"
      using True last by (simp add: add_recent_def same_def)
    ultimately show ?thesis using assms(1) by (intro exI [of _ ?h] exI [of _ ?n]) (simp add: history_of_def)
  next
    case False
    then have new: "add_recent MAX_HISTORY (cstr c) (history_of k) = drop (length (history_of k) - 9) (history_of k) @ [cstr c]"
      using last by (auto simp: add_recent_def same_def)
    obtain h1 n1 where s: "(if ?n \<ge> MAX_HISTORY
          then do { h \<leftarrow> shift_history [0..<MAX_HISTORY - 1] ?h; Some (k\<lparr>command_history := h, history_count := MAX_HISTORY - 1\<rparr>) }
          else Some k) = Some (k\<lparr>command_history := h1, history_count := n1\<rparr>)"
      and h1: "length h1 = 10" "n1 \<le> 9" "\<forall>row\<in>set h1. length row = 256" "\<forall>row\<in>set (take n1 h1). 0 \<in> set row"
        "map cstr (take n1 h1) = drop (length (history_of k) - 9) (history_of k)"
    proof (cases "?n \<ge> 10")
      case True
      then have "?n = 10" using h(2) by simp
      then have "\<forall>row\<in>set ?h. length row = 256 \<and> 0 \<in> set row" using h by simp
      from shift_history_eq [OF h(1) this, of 9] obtain h' where h': "shift_history [0..<9] ?h = Some h'" "length h' = 10"
        "\<forall>row\<in>set h'. length row = 256 \<and> 0 \<in> set row" "map cstr (take 9 h') = drop 1 (map cstr ?h)" by auto
      show ?thesis
        by (rule that [of 9 h']) (use h' \<open>?n = 10\<close> h(1) in \<open>auto simp: history_of_def dest: in_set_takeD\<close>)
    next
      case False
      then show ?thesis by (intro that [of ?n ?h]) (use h in \<open>auto simp: history_of_def\<close>)
    qed
    obtain row row' where r: "strncpy (h1 ! n1) c (int MAX_CMD_LENGTH - 1) = Some row" "store row (MAX_CMD_LENGTH - 1) 0 = Some row'"
      "length row' = 256" "0 \<in> set row'" "cstr row' = cstr c"
      using new_row [OF _ c(3,4), of "h1 ! n1"] h1(1,2,3) by auto
    have "shell_add_history c k = Some (k\<lparr>command_history := h1[n1 := row'], history_count := n1 + 1\<rparr>)"
      using start s r(1,2) False c(1,2) h(1,2) by simp
    moreover have t: "take (n1 + 1) (h1[n1 := row']) = take n1 h1 @ [row']" using h1(1,2) by (simp add: take_Suc_conv_app_nth)
    then have "map cstr (take (n1 + 1) (h1[n1 := row'])) = add_recent MAX_HISTORY (cstr c) (history_of k)" using h1(5) new r(5) by simp
    moreover have "history_ok (k\<lparr>command_history := h1[n1 := row'], history_count := n1 + 1\<rparr>)"
      using h1 r(3,4) t set_update_subset_insert [of h1 n1 row'] by (auto simp: history_ok_def)
    ultimately show ?thesis by blast
  qed
qed

interpretation shell_log: recent_log shell_add_history cstr history_of history_ok command_ok MAX_HISTORY
proof unfold_locales
  fix k c assume "history_ok k" "command_ok c"
  from shell_add_history_law [OF this] show "\<exists>k'. shell_add_history c k = Some k' \<and> history_ok k' \<and>
      history_of k' = add_recent MAX_HISTORY (cstr c) (history_of k)"
    by (auto simp: history_of_def)
qed simp

section \<open>Any sequence of commands\<close>

text \<open>A kernel with the processes of the scheduler's examples, an unformatted file system and no history.\<close>

definition demo_kernel :: kernel_t where
  "demo_kernel =
     \<lparr>command_history = replicate MAX_HISTORY (replicate MAX_CMD_LENGTH 0), history_count = 0, k_heap = zero_heap,
      k_fs = blank_fs, k_proc = demo_procs, k_segments = (\<lambda>_. 0x10), k_address = (\<lambda>_. 0x10000), k_stack = (\<lambda>_. 0xAA),
      k_out = [], shell_alive = True\<rparr>"

lemma demo_history: "history_ok demo_kernel" "history_count demo_kernel = 0" "history_of demo_kernel = []"
  by (simp_all add: demo_kernel_def history_ok_def history_of_def)

text \<open>
  C30: The history after any sequence of command lines of at most 255 characters, started empty: the last ten of them, where
  a line repeated right after itself counts once.
\<close>

theorem history_keeps_last_ten:
  assumes "history_ok k" and "history_count k = 0" and "\<forall>c\<in>set cs. command_ok c"
  shows "\<exists>k'. fold (\<lambda>c r. Option.bind r (shell_add_history c)) cs (Some k) = Some k' \<and> history_ok k' \<and>
    history_of k' = last_n MAX_HISTORY (remdups_adj (map cstr cs))"
  using shell_log.add_all_law [OF assms(1) _ assms(3)] assms(2) by (simp add: shell_log.add_all_fold history_of_def)

lemma history_keeps_last_ten_witness:
  "\<exists>k'. fold (\<lambda>c r. Option.bind r (shell_add_history c)) [lit ''ls'', lit ''ls'', lit ''ps''] (Some demo_kernel) = Some k' \<and>
     history_of k' = [[108, 115], [112, 115]]"
  using history_keeps_last_ten [of demo_kernel "[lit ''ls'', lit ''ls'', lit ''ps'']"] demo_history
  by (auto simp: command_ok_def lit_def last_n_def)

end
