(* ===== verification/Shell_Dispatch.thy ===== *)
theory Shell_Dispatch
  imports Shell_History
begin

text \<open>
  What a command line means: the text without the blanks around it, its first word, and the arguments behind. The dispatch
  of \<open>shell.c\<close> runs the command of that name on those arguments.
\<close>

section \<open>Trimming\<close>

definition trim :: "u8 list \<Rightarrow> u8 list" where
  "trim t = rev (dropWhile is_ws (rev (dropWhile is_ws t)))"

lemma skip_ws_eq: "0 \<in> set str \<Longrightarrow> skip_ws str n = Some (n + length (takeWhile is_ws str))"
proof (induction str n rule: skip_ws.induct)
  case (2 c str n)
  have "\<not> is_ws 0" by (simp add: is_ws_def)
  then show ?case using 2 by auto
qed simp

lemma copy_down_eq:
  "0 < start \<Longrightarrow> start + i + n \<le> length str \<Longrightarrow>
     copy_down str start i n = take i str @ take n (drop (start + i) str) @ drop (i + n) str"
proof (induction str start i n rule: copy_down.induct)
  case (2 str start i n)
  let ?s = "str[i := str ! (start + i)]"
  have "take (Suc i) ?s = take i str @ [str ! (start + i)]" using 2(3) by (simp add: take_Suc_conv_app_nth)
  moreover have "drop (start + Suc i) ?s = drop (start + Suc i) str" using 2(2) by simp
  moreover have "take (Suc n) (drop (start + i) str) = str ! (start + i) # take n (drop (start + Suc i) str)"
    using Cons_nth_drop_Suc [of "start + i" str, symmetric] 2(3) by simp
  ultimately show ?case using 2 by simp
qed simp

text \<open>Stripping from the right, one character at a time.\<close>

definition rstrip :: "u8 list \<Rightarrow> u8 list" where
  "rstrip t = rev (dropWhile is_ws (rev t))"

lemma rstrip_snoc: "rstrip (t @ [x]) = (if is_ws x then rstrip t else t @ [x])"
  by (simp add: rstrip_def)

lemma rstrip_prefix: "rstrip t = take (length (rstrip t)) t"
proof (induction t rule: rev_induct)
  case Nil
  then show ?case by (simp add: rstrip_def)
next
  case (snoc x t)
  have "length (rstrip t) \<le> length t" using length_dropWhile_le [of is_ws "rev t"] by (simp add: rstrip_def)
  then show ?case using snoc by (simp add: rstrip_snoc)
qed

lemma trim_end_eq:
  "e \<le> length str \<Longrightarrow> start \<le> e \<Longrightarrow> (start < e \<longrightarrow> \<not> is_ws (str ! start)) \<Longrightarrow>
     trim_end str start e = start + length (rstrip (take (e - start) (drop start str)))"
proof (induction str start e rule: trim_end.induct)
  case (1 str start)
  then show ?case by (simp add: rstrip_def)
next
  case (2 str start e)
  show ?case
  proof (cases "start = Suc e")
    case True
    then show ?thesis by (simp add: rstrip_def)
  next
    case False
    then have e: "start \<le> e" "e < length str" using 2 by simp_all
    then have "take (Suc e - start) (drop start str) = take (e - start) (drop start str) @ [str ! e]"
      by (simp add: Suc_diff_le take_Suc_conv_app_nth)
    then show ?thesis using 2 e by (cases "start = e") (auto simp: rstrip_snoc rstrip_def)
  qed
qed

lemma str_trim_eq:
  assumes "0 \<in> set str"
  shows "\<exists>r. str_trim str = Some r \<and> length r = length str \<and> 0 \<in> set r \<and> cstr r = trim (cstr str)"
proof -
  let ?start = "length (takeWhile is_ws str)"
  have nws: "\<not> is_ws 0" by (simp add: is_ws_def)
  have d: "drop ?start str = dropWhile is_ws str" by (simp add: dropWhile_eq_drop)
  have z: "0 \<in> set (dropWhile is_ws str)" using assms nws by (induction str) auto
  have c: "cstr (dropWhile is_ws str) = dropWhile is_ws (cstr str)" using nws by (induction str) auto
  let ?t = "dropWhile is_ws (cstr str)" and ?n = "length (dropWhile is_ws (cstr str))"
  obtain rest where rest: "dropWhile is_ws str = ?t @ 0 # rest" using terminated_split [OF z] c by auto
  have "?start + length (dropWhile is_ws str) = length str" by (simp flip: length_append)
  then have len: "?start + ?n < length str" using arg_cong [OF rest, of length] by simp
  have "\<not> is_ws (str ! ?start)" if "0 < ?n"
  proof -
    have "str ! ?start = hd (dropWhile is_ws str)" using len by (simp add: hd_drop_conv_nth flip: d)
    moreover have "hd (dropWhile is_ws str) = hd ?t" using that rest by (cases ?t) auto
    ultimately show ?thesis using hd_dropWhile [of is_ws "cstr str"] that by auto
  qed
  then have e: "trim_end str ?start (?start + ?n) = ?start + length (rstrip ?t)"
    using trim_end_eq [of "?start + ?n" str ?start] len d rest by simp
  let ?k = "length (rstrip ?t)"
  have k: "?k \<le> ?n" using length_dropWhile_le [of is_ws "rev ?t"] by (simp add: rstrip_def)
  let ?s = "if ?start \<noteq> 0 then copy_down str ?start 0 ?k else str"
  have s: "take ?k ?s = rstrip ?t" "length ?s = length str"
  proof -
    have "take ?k (drop ?start str) = rstrip ?t" using rstrip_prefix [of ?t] d rest k by simp
    then show "take ?k ?s = rstrip ?t" "length ?s = length str"
      using copy_down_eq [of ?start 0 ?k str] len k by (auto simp: dropWhile_eq_drop)
  qed
  have kl: "?k < length ?s" using s(2) k len by simp
  have r: "str_trim str = Some (?s[?k := 0])"
    using skip_ws_eq [OF assms, of 0] z d c e kl by (simp add: str_trim_def strlen_eq Let_def split: if_splits)
  have "?s[?k := 0] = rstrip ?t @ 0 # drop (Suc ?k) ?s" using upd_conv_take_nth_drop [OF kl, of 0] s(1) by simp
  moreover have "0 \<notin> set (rstrip ?t)"
    using cstr_no_nul [of str] by (auto simp: rstrip_def dest!: set_dropWhileD)
  ultimately have "cstr (?s[?k := 0]) = rstrip ?t" "0 \<in> set (?s[?k := 0])" by simp_all
  then show ?thesis using r s(2) by (auto simp: trim_def rstrip_def)
qed

section \<open>Tokens\<close>

lemma skip_while_eq:
  "\<exists>c\<in>set str. \<not> P c \<Longrightarrow> skip_while P str i = Some (i + length (takeWhile P str))"
  by (induction P str i rule: skip_while.induct) auto

text \<open>Splitting ends, adds tokens at the end and keeps what is before the position it has reached.\<close>

lemma str_split_loop_ok:
  "0 \<in> set (drop cur str) \<Longrightarrow> delim \<noteq> 0 \<Longrightarrow>
     \<exists>us str'. str_split_loop str delim cur tokens m = Some (tokens @ us, str') \<and> take cur str' = take cur str \<and> length str' = length str"
proof (induction str delim cur tokens m rule: str_split_loop.induct)
  case (1 str delim cur tokens m)
  have cur: "cur < length str" using 1(3) by (cases "cur < length str") simp_all
  show ?case
  proof (cases "str ! cur \<noteq> 0 \<and> int (length tokens) < m")
    case False
    then show ?thesis using cur by (auto simp: str_split_loop.simps [of str])
  next
    case True
    have "\<exists>c\<in>set (drop cur str). \<not> c = delim" using 1(3,4) by (intro bexI [of _ 0]) auto
    then obtain b where b: "skip_while (\<lambda>c. c = delim) (drop cur str) cur = Some b" "b = cur + length (takeWhile (\<lambda>c. c = delim) (drop cur str))"
      using skip_while_eq [of "drop cur str" "\<lambda>c. c = delim" cur] by blast
    have bd: "cur \<le> b" "drop b str = dropWhile (\<lambda>c. c = delim) (drop cur str)"
      using b(2) by (simp_all add: dropWhile_eq_drop add.commute)
    have "0 \<in> set (drop b str)" using 1(3,4) bd(2) by (metis (mono_tags, lifting) Un_iff set_append set_takeWhileD takeWhile_dropWhile_id)
    then have e0: "\<exists>c\<in>set (drop b str). \<not> (c \<noteq> 0 \<and> c \<noteq> delim)" by (intro bexI [of _ 0]) auto
    let ?e = "b + length (takeWhile (\<lambda>c. c \<noteq> 0 \<and> c \<noteq> delim) (drop b str))"
    have e: "skip_while (\<lambda>c. c \<noteq> 0 \<and> c \<noteq> delim) (drop b str) b = Some ?e" by (rule skip_while_eq [OF e0])
    have eb: "?e < length str" "str ! ?e = 0 \<or> str ! ?e = delim" using skip_while_bounds [OF e] by auto
    have ed: "drop ?e str = dropWhile (\<lambda>c. c \<noteq> 0 \<and> c \<noteq> delim) (drop b str)" by (simp add: dropWhile_eq_drop add.commute)
    have ez: "0 \<in> set (drop ?e str)"
      using \<open>0 \<in> set (drop b str)\<close> ed by (metis (mono_tags, lifting) Un_iff set_append set_takeWhileD takeWhile_dropWhile_id)
    show ?thesis
    proof (cases "str ! b = 0")
      case True2: True
      then show ?thesis using cur True b(1) by (simp add: str_split_loop.simps [of str])
    next
      case False2: False
      show ?thesis
      proof (cases "str ! ?e = 0")
        case True3: True
        have "str_split_loop str delim cur tokens m = str_split_loop str delim ?e (tokens @ [b]) m"
          using cur True b(1) False2 e True3 by (simp add: str_split_loop.simps [of str delim cur])
        then show ?thesis using eb(1) True3 by (simp add: str_split_loop.simps [of str delim ?e])
      next
        case False3: False
        let ?s = "str[?e := 0]"
        have step: "str_split_loop str delim cur tokens m = str_split_loop ?s delim (?e + 1) (tokens @ [b]) m"
          using cur True b(1) False2 e False3 by (simp add: str_split_loop.simps [of str delim cur])
        have "drop ?e str = str ! ?e # drop (?e + 1) str" using Cons_nth_drop_Suc [OF eb(1)] by simp
        then have "0 \<in> set (drop (?e + 1) ?s)" using ez False3 by simp
        then obtain us str' where r: "str_split_loop ?s delim (?e + 1) (tokens @ [b]) m = Some ((tokens @ [b]) @ us, str')"
          "take (?e + 1) str' = take (?e + 1) ?s" "length str' = length ?s"
          using 1(1) [OF _ True b(1) False2 e False3] cur 1(4) by blast
        have "take cur str' = take cur (take (?e + 1) str')" using bd(1) by (simp add: min_def)
        also have "\<dots> = take cur str" unfolding r(2) using bd(1) by (simp add: min_def)
        finally show ?thesis using step r by simp
      qed
    qed
  qed
qed

text \<open>The first token of a copy that does not start with the delimiter is its first word, terminated in place.\<close>

lemma first_token:
  assumes "0 \<in> set str" and "str ! 0 \<noteq> 0" and "str ! 0 \<noteq> 32"
  shows "\<exists>us str'. str_split str 32 10 = Some (0 # us, str') \<and> 0 \<in> set str' \<and> cstr str' = takeWhile (\<lambda>c. c \<noteq> 32) (cstr str)"
proof -
  let ?P = "\<lambda>c :: u8. c \<noteq> 0 \<and> c \<noteq> 32"
  let ?e = "length (takeWhile ?P str)"
  have len: "0 < length str" using assms(1) by (cases str) auto
  have skip: "skip_while (\<lambda>c. c = 32) str 0 = Some 0" using assms(3) len by (cases str) auto
  have "\<exists>c\<in>set str. \<not> ?P c" using assms(1) by (intro bexI [of _ 0]) auto
  then have e: "skip_while ?P str 0 = Some ?e" using skip_while_eq [of str ?P 0] by simp
  have eb: "?e < length str" "\<not> ?P (str ! ?e)" using skip_while_bounds [OF e] by auto
  have w: "takeWhile (\<lambda>c. c \<noteq> 32) (cstr str) = takeWhile ?P str" by (induction str) auto
  have word: "take ?e str = takeWhile ?P str" by (rule takeWhile_eq_take [symmetric])
  have nz: "0 \<notin> set (takeWhile ?P str)" by (auto dest: set_takeWhileD)
  have step: "str_split str 32 10 = (if str ! ?e \<noteq> 0 then str_split_loop (str[?e := 0]) 32 (?e + 1) [0] 10 else str_split_loop str 32 ?e [0] 10)"
    using len assms(2) skip e by (simp add: str_split_def str_split_loop.simps [of str 32 0])
  show ?thesis
  proof (cases "str ! ?e = 0")
    case True
    then have "str_split str 32 10 = Some ([0], str)" using step eb(1) by (simp add: str_split_loop.simps [of str 32 ?e])
    moreover have "cstr str = takeWhile ?P str"
    proof -
      have "cstr str = cstr (take ?e str @ str ! ?e # drop (Suc ?e) str)" by (rule arg_cong [of _ _ cstr, OF id_take_nth_drop [OF eb(1)]])
      also have "\<dots> = takeWhile ?P str" unfolding word True using nz by simp
      finally show ?thesis .
    qed
    ultimately show ?thesis using assms(1) w by (intro exI [of _ "[]"] exI [of _ str]) (simp only: simp_thms)
  next
    case False
    let ?s = "str[?e := 0]"
    have "drop ?e str = str ! ?e # drop (?e + 1) str" using Cons_nth_drop_Suc [OF eb(1)] by simp
    moreover have "0 \<in> set (take ?e str @ drop ?e str)" using assms(1) by (simp only: append_take_drop_id)
    then have "0 \<in> set (drop ?e str)" using nz unfolding set_append word by blast
    ultimately have "0 \<in> set (drop (?e + 1) ?s)" using False by simp
    then obtain us str' where r: "str_split_loop ?s 32 (?e + 1) [0] 10 = Some ([0] @ us, str')" "take (?e + 1) str' = take (?e + 1) ?s"
      "length str' = length ?s"
      using str_split_loop_ok [of "?e + 1" ?s 32 "[0]" 10] by auto
    have "take (?e + 1) str' = takeWhile ?P str @ [0]" unfolding r(2) using eb(1) word by (simp add: take_Suc_conv_app_nth)
    then have t: "takeWhile ?P str @ 0 # drop (?e + 1) str' = str'" using append_take_drop_id [of "?e + 1" str'] by simp
    have "cstr (takeWhile ?P str @ 0 # drop (?e + 1) str') = takeWhile ?P str" "0 \<in> set (takeWhile ?P str @ 0 # drop (?e + 1) str')"
      using nz by simp_all
    then have "cstr str' = takeWhile ?P str" "0 \<in> set str'" unfolding t by this+
    then show ?thesis using step False r(1) w by simp
  qed
qed

section \<open>The table of commands\<close>

lemma unat_of_char: "unat (of_char c :: u8) = of_char c"
proof -
  have "unat (of_nat (of_char c) :: u8) = of_char c mod 256" by (simp add: unat_of_nat take_bit_eq_mod)
  then show ?thesis by (simp add: of_nat_of_char)
qed

lemma of_char_u8_eq_iff: "(of_char c :: u8) = of_char d \<longleftrightarrow> c = d"
  by (metis of_char_eq_iff unat_of_char)

lemma map_of_char_eq_iff: "(map of_char s :: u8 list) = map of_char t \<longleftrightarrow> s = t"
  by (rule inj_map_eq_map) (simp add: inj_def of_char_u8_eq_iff)

lemma cstr_lit: "CHR 0x00 \<notin> set name \<Longrightarrow> cstr (lit name) = map of_char name"
proof -
  assume "CHR 0x00 \<notin> set name"
  moreover have "(of_char (CHR 0x00) :: u8) = 0" by simp
  ultimately have "0 \<notin> set (map of_char name :: u8 list)" by (metis (no_types) image_iff list.set_map of_char_u8_eq_iff)
  then show ?thesis by (simp add: lit_def)
qed

text \<open>The chain of comparisons is a lookup of the word among the names.\<close>

definition find_command :: "(string \<times> 'f) list \<Rightarrow> u8 list \<Rightarrow> 'f option" where
  "find_command table word = map_of (map (\<lambda>(n, f). (map of_char n, f)) table) word"

lemma run_first_eq:
  assumes "0 \<in> set cmd" and "\<forall>n\<in>fst ` set table. CHR 0x00 \<notin> set n"
  shows "run_first table cmd otherwise k = (case find_command table (cstr cmd) of Some f \<Rightarrow> f k | None \<Rightarrow> otherwise k)"
  using assms(2)
proof (induction table)
  case (Cons p table)
  obtain n f where p: "p = (n, f)" by (cases p)
  have "cstr (lit n) = map of_char n" by (rule cstr_lit) (use Cons.prems p in simp)
  then obtain c where "strcmp cmd (lit n) = Some c" "c = 0 \<longleftrightarrow> cstr cmd = map of_char n"
    using strcmp_terminated [OF assms(1), of "lit n"] by auto
  then show ?case using Cons p by (simp add: find_command_def)
qed (simp add: find_command_def)

lemma command_names: "fst ` set (command_table args) = {''help'', ''clear'', ''cls'', ''about'', ''ver'', ''mem'', ''meminfo'',
   ''memtest'', ''ps'', ''testproc'', ''sleeptest'', ''nice'', ''kill'', ''ipctest'', ''syscalltest'', ''usermodetest'', ''echo'',
   ''color'', ''uptime'', ''history'', ''banner'', ''ramdisk'', ''rdformat'', ''rdinfo'', ''fsformat'', ''ls'', ''touch'', ''cat'',
   ''rm'', ''mkdir'', ''write''}"
  by (simp add: command_table_def)

lemma find_args_eq:
  assumes "0 \<in> set command"
  shows "\<exists>args. find_args command = Some args \<and> 0 \<in> set args \<and>
    cstr args = dropWhile (\<lambda>c. c = 32) (dropWhile (\<lambda>c. c \<noteq> 32) (cstr command))"
proof -
  let ?P = "\<lambda>c :: u8. c \<noteq> 0 \<and> c \<noteq> 32" and ?Q = "\<lambda>c :: u8. c = 32"
  let ?r = "dropWhile ?P command"
  have "\<exists>c\<in>set command. \<not> ?P c" using assms by (intro bexI [of _ 0]) auto
  note i = skip_while_eq [OF this, of 0]
  have d: "drop (length (takeWhile ?P command)) command = ?r" by (simp add: dropWhile_eq_drop)
  have z: "0 \<in> set ?r" using assms by (induction command) auto
  then have "\<exists>c\<in>set ?r. \<not> ?Q c" by (intro bexI [of _ 0]) auto
  note j = skip_while_eq [OF this]
  have a: "drop (length (takeWhile ?P command) + length (takeWhile ?Q ?r)) command = dropWhile ?Q ?r"
    by (simp add: dropWhile_eq_drop flip: d) (simp add: add.commute)
  have c1: "cstr ?r = dropWhile (\<lambda>c. c \<noteq> 32) (cstr command)" using assms by (induction command) auto
  have c2: "cstr (dropWhile ?Q xs) = dropWhile ?Q (cstr xs)" for xs by (induction xs) auto
  have q: "0 \<in> set xs \<Longrightarrow> 0 \<in> set (dropWhile ?Q xs)" for xs by (induction xs) auto
  have "0 \<in> set (dropWhile ?Q ?r)" by (rule q [OF z])
  then show ?thesis using i d j a c1 c2 by (simp add: find_args_def)
qed

section \<open>A command line\<close>

lemma trim_head:
  assumes "trim t \<noteq> []"
  shows "\<not> is_ws (hd (trim t))"
proof -
  let ?u = "dropWhile is_ws t"
  have "trim t = rstrip ?u" by (simp add: trim_def rstrip_def)
  then have p: "trim t = take (length (rstrip ?u)) ?u" using rstrip_prefix [of ?u] by (rule trans)
  have ne: "?u \<noteq> []" using assms by (cases "?u = []") (simp_all add: trim_def)
  have "0 < length (rstrip ?u)" using assms p by (cases "length (rstrip ?u)") simp_all
  then have "hd (trim t) = hd ?u" unfolding p by (rule hd_take)
  then show ?thesis using hd_dropWhile [OF ne] by simp
qed

lemma cstr_hd:
  assumes "cstr xs \<noteq> []"
  shows "xs \<noteq> []" and "hd xs = hd (cstr xs)" and "hd xs \<noteq> 0" and "xs ! 0 = hd (cstr xs)"
  using assms by (cases xs; simp split: if_splits)+

lemma trim_length: "length (trim t) \<le> length t"
  using length_dropWhile_le [of is_ws "rev (dropWhile is_ws t)"] length_dropWhile_le [of is_ws t] by (simp add: trim_def)

lemma copied_command:
  assumes "0 \<in> set buf" and "length (cstr buf) \<le> 255" and "slack \<noteq> []"
  shows "\<exists>copy. strncpy (locals MAX_CMD_LENGTH k @ slack) buf (int MAX_CMD_LENGTH) = Some copy \<and> 0 \<in> set copy \<and> cstr copy = cstr buf"
proof -
  have n: "nat (int MAX_CMD_LENGTH) = 256" by simp
  have l: "256 < length (locals MAX_CMD_LENGTH k @ slack)" using assms(3) by (simp add: locals_def)
  obtain m where m: "Suc 256 - length (cstr buf) = Suc m" using assms(2) by (cases "Suc 256 - length (cstr buf)") auto
  show ?thesis unfolding strncpy_def n using strncpy_loop_eq [OF assms(1), of _ 256] l assms(2) m by simp
qed

lemma shell_process_command_run:
  assumes "history_ok k" and "0 \<in> set command" and "length (cstr command) \<le> 255" and "slack \<noteq> []"
    and "trim (cstr command) \<noteq> []"
  obtains buf args cmd h n where
    "str_trim command = Some buf" "cstr buf = trim (cstr command)" "0 \<in> set args" "0 \<in> set cmd"
    "cstr args = dropWhile (\<lambda>c. c = 32) (dropWhile (\<lambda>c. c \<noteq> 32) (trim (cstr command)))"
    "cstr cmd = takeWhile (\<lambda>c. c \<noteq> 32) (trim (cstr command))"
    "shell_add_history buf k = Some (k\<lparr>command_history := h, history_count := n\<rparr>)"
    "history_ok (k\<lparr>command_history := h, history_count := n\<rparr>)"
    "map cstr (take n h) = add_recent MAX_HISTORY (trim (cstr command)) (history_of k)"
    "shell_process_command slack command k =
       map_option (Pair buf)
         (case find_command (command_table args) (cstr cmd) of
            Some f \<Rightarrow> f (k\<lparr>command_history := h, history_count := n\<rparr>)
          | None \<Rightarrow> cmd_unknown cmd (k\<lparr>command_history := h, history_count := n\<rparr>))"
proof -
  obtain buf where buf: "str_trim command = Some buf" "0 \<in> set buf" "cstr buf = trim (cstr command)"
    using str_trim_eq [OF assms(2)] by blast
  have ok: "command_ok buf" using buf assms(3,5) trim_length [of "cstr command"] by (simp add: command_ok_def)
  have ne: "cstr buf \<noteq> []" "length (cstr buf) \<le> 255" using ok by (simp_all add: command_ok_def)
  obtain h n where h: "shell_add_history buf k = Some (k\<lparr>command_history := h, history_count := n\<rparr>)"
    "history_ok (k\<lparr>command_history := h, history_count := n\<rparr>)" "map cstr (take n h) = add_recent MAX_HISTORY (cstr buf) (history_of k)"
    using shell_add_history_law [OF assms(1) ok] by blast
  let ?k = "k\<lparr>command_history := h, history_count := n\<rparr>"
  obtain copy where copy: "strncpy (locals MAX_CMD_LENGTH ?k @ slack) buf (int MAX_CMD_LENGTH) = Some copy" "0 \<in> set copy" "cstr copy = cstr buf"
    using copied_command [OF buf(2) ne(2) assms(4)] by blast
  note hd = cstr_hd [OF ne(1)]
  have "copy ! 0 = hd buf" using cstr_hd(4) [of copy] copy(3) ne(1) hd(2) by simp
  moreover have "hd buf \<noteq> 32" using trim_head [OF assms(5)] hd(2) buf(3) by (auto simp: is_ws_def)
  ultimately obtain us cmd where cmd: "str_split copy 32 10 = Some (0 # us, cmd)" "0 \<in> set cmd" "cstr cmd = takeWhile (\<lambda>c. c \<noteq> 32) (cstr copy)"
    using first_token [OF copy(2)] hd(3) by auto
  obtain args where args: "find_args buf = Some args" "0 \<in> set args" "cstr args = dropWhile (\<lambda>c. c = 32) (dropWhile (\<lambda>c. c \<noteq> 32) (cstr buf))"
    using find_args_eq [OF buf(2)] by blast
  have run: "run_first (command_table args) cmd (cmd_unknown cmd) ?k =
      (case find_command (command_table args) (cstr cmd) of Some f \<Rightarrow> f ?k | None \<Rightarrow> cmd_unknown cmd ?k)"
    by (rule run_first_eq [OF cmd(2)]) (simp add: command_names)
  have "shell_process_command slack command k =
       map_option (Pair buf) (case find_command (command_table args) (cstr cmd) of Some f \<Rightarrow> f ?k | None \<Rightarrow> cmd_unknown cmd ?k)"
    unfolding run [symmetric] shell_process_command_def buf(1) bind.bind_lunit h(1) copy(1) cmd(1) args(1) prod.case list.sel(1) Let_def
    using hd(1,3) by (cases "run_first (command_table args) cmd (cmd_unknown cmd) ?k") (simp_all only: drop_0 bind.simps if_False list.distinct simp_thms option.map)
  then show ?thesis
    using that [OF buf(1,3) args(2) cmd(2) _ _ h(1,2)] buf(3) args(3) cmd(3) copy(3) h(3) by simp
qed

section \<open>Properties\<close>

text \<open>
  C31: A command line of at most 255 characters that is not blank is trimmed and added to the history, and the command of the table
  that its first word names runs on the text behind that word; a word that is no name gives the error message. (The stack
  has a byte behind the array of the copy.)
\<close>

theorem command_line_dispatch:
  assumes "history_ok k" and "0 \<in> set command" and "length (cstr command) \<le> 255" and "slack \<noteq> []"
    and "trim (cstr command) \<noteq> []"
  shows "\<exists>buf args cmd h n. cstr buf = trim (cstr command) \<and>
    cstr cmd = takeWhile (\<lambda>c. c \<noteq> 32) (trim (cstr command)) \<and>
    cstr args = dropWhile (\<lambda>c. c = 32) (dropWhile (\<lambda>c. c \<noteq> 32) (trim (cstr command))) \<and>
    map cstr (take n h) = add_recent MAX_HISTORY (trim (cstr command)) (history_of k) \<and>
    shell_process_command slack command k =
      map_option (Pair buf)
        (let k1 = k\<lparr>command_history := h, history_count := n\<rparr> in
         case find_command (command_table args) (cstr cmd) of Some f \<Rightarrow> f k1 | None \<Rightarrow> cmd_unknown cmd k1)"
  unfolding Let_def by (rule shell_process_command_run [OF assms]) (intro exI conjI; assumption)

lemma command_line_dispatch_witness:
  "\<exists>buf args k1. cstr args = [104, 105] \<and>
     shell_process_command [0] (lit ''  echo  hi '') demo_kernel = map_option (Pair buf) (cmd_echo args k1)"
proof -
  let ?c = "lit ''  echo  hi ''"
  have t: "trim (cstr ?c) = [101, 99, 104, 111, 32, 32, 104, 105]" "0 \<in> set ?c" "length (cstr ?c) \<le> 255"
    by (simp_all add: lit_def trim_def is_ws_def)
  have f: "find_command (command_table args) [101, 99, 104, 111] = Some (cmd_echo args)" for args
    by (simp add: find_command_def command_table_def)
  from command_line_dispatch [OF demo_history(1) t(2,3), of "[0]", unfolded t] obtain buf args cmd h n where
    "cstr cmd = [101, 99, 104, 111]" "cstr args = [104, 105]"
    "shell_process_command [0] ?c demo_kernel = map_option (Pair buf)
       (let k1 = demo_kernel\<lparr>command_history := h, history_count := n\<rparr> in
        case find_command (command_table args) (cstr cmd) of Some f \<Rightarrow> f k1 | None \<Rightarrow> cmd_unknown cmd k1)"
    by auto
  then show ?thesis
    by (intro exI [of _ buf] exI [of _ args] exI [of _ "demo_kernel\<lparr>command_history := h, history_count := n\<rparr>"]) (simp add: f Let_def)
qed

text \<open>
  With no byte behind the array, no command line gets through: the copy into the array of 256 bytes always stores a 257th.
\<close>

theorem command_copy_overruns:
  assumes "history_ok k" and "0 \<in> set command" and "length (cstr command) \<le> 255" and "trim (cstr command) \<noteq> []"
  shows "shell_process_command [] command k = None"
proof -
  obtain buf k1 where b: "str_trim command = Some buf" "cstr buf = trim (cstr command)" "shell_add_history buf k = Some k1"
    by (rule shell_process_command_run [OF assms(1-3) _ assms(4), of "[0]"]) auto
  have z: "0 \<in> set buf" using str_trim_eq [OF assms(2)] b(1) by auto
  have l: "length (cstr buf) \<le> 255" using b(2) assms(3) trim_length [of "cstr command"] by simp
  have n: "nat (int MAX_CMD_LENGTH) = 256" by simp
  have "strncpy (locals MAX_CMD_LENGTH k1 @ []) buf (int MAX_CMD_LENGTH) = None"
    unfolding strncpy_def n using strncpy_loop_eq [OF z, of _ 256] l by (simp add: locals_def)
  moreover have "buf \<noteq> []" "hd buf \<noteq> 0" using cstr_hd [of buf] b(2) assms(4) by simp_all
  ultimately show ?thesis using b(1,3) by (simp add: shell_process_command_def)
qed

lemma command_copy_overruns_witness: "shell_process_command [] (lit ''ls'') demo_kernel = None"
  by (rule command_copy_overruns) (simp_all add: demo_history lit_def trim_def is_ws_def)

end
