(* ===== verification/Shell_Output.thy ===== *)
theory Shell_Output
  imports Shell_Dispatch
begin

text \<open>
  Every console call of the shell is well formed: its strings are terminated, and the arguments of a \<open>kprintf\<close> are of the
  types its format asks for.
\<close>

section \<open>Well-formed console calls\<close>

fun fmt_ok :: "string \<Rightarrow> va_val list \<Rightarrow> bool" where
  "fmt_ok [] args = True"
| "fmt_ok [c] args = (c \<noteq> CHR 0x00 \<and> c \<noteq> CHR ''%'')"
| "fmt_ok (c # f # s) args =
     (if c = CHR ''%''
      then if f \<in> {CHR ''d'', CHR ''i'', CHR ''u'', CHR ''x'', CHR ''X'', CHR ''p'', CHR ''c''}
           then case args of Word _ # args \<Rightarrow> fmt_ok s args | _ \<Rightarrow> False
           else if f = CHR ''s''
           then case args of Str None # args \<Rightarrow> fmt_ok s args | Str (Some t) # args \<Rightarrow> 0 \<in> set t \<and> fmt_ok s args | _ \<Rightarrow> False
           else f \<noteq> CHR 0x00 \<and> fmt_ok s args
      else c \<noteq> CHR 0x00 \<and> fmt_ok (f # s) args)"

definition args_ok :: "u8 list \<Rightarrow> va_val list \<Rightarrow> bool" where
  "args_ok format args \<longleftrightarrow> (\<exists>s. format = lit s \<and> fmt_ok s args)"

fun event_ok :: "event \<Rightarrow> bool" where
  "event_ok (Write s) \<longleftrightarrow> 0 \<in> set s"
| "event_ok (WriteColor s c) \<longleftrightarrow> 0 \<in> set s"
| "event_ok (Kprintf f args) \<longleftrightarrow> args_ok f args"
| "event_ok (KprintfColor c f args) \<longleftrightarrow> args_ok f args"
| "event_ok _ \<longleftrightarrow> True"

definition out_ok :: "kernel_t \<Rightarrow> bool" where
  "out_ok k \<longleftrightarrow> list_all event_ok (k_out k)"

lemma event_ok_lit [simp]:
  "event_ok (say s)" "event_ok (sayc c s)" "event_ok (WriteColor (lit s) b)"
  "fmt_ok s args \<Longrightarrow> event_ok (printf s args)" "fmt_ok s args \<Longrightarrow> event_ok (printfc c s args)"
  "fmt_ok s args \<Longrightarrow> event_ok (KprintfColor b (lit s) args)"
  by (auto simp: say_def sayc_def printf_def printfc_def args_ok_def lit_def)

lemma args_ok_lit [simp]: "fmt_ok s args \<Longrightarrow> args_ok (lit s) args"
  by (auto simp: args_ok_def)

lemma out_ok_put [simp]: "out_ok (put es k) \<longleftrightarrow> out_ok k \<and> list_all event_ok es"
  by (simp add: out_ok_def put_def)

section \<open>A rule for every construct of a command\<close>

text \<open>\<open>prints m\<close>: when \<open>m\<close> returns, the output is well formed; \<open>prints_with\<close> the same for a call that returns a value too.\<close>

definition prints :: "kernel_t option \<Rightarrow> bool" where
  "prints m \<longleftrightarrow> (\<forall>k. m = Some k \<longrightarrow> out_ok k)"

definition prints_with :: "('a \<times> kernel_t) option \<Rightarrow> bool" where
  "prints_with m \<longleftrightarrow> (\<forall>r k. m = Some (r, k) \<longrightarrow> out_ok k)"

named_theorems prints_rules \<open>rules for the output of a command\<close>

lemma prints_Some [prints_rules]: "out_ok k \<Longrightarrow> prints (Some k)" "out_ok k \<Longrightarrow> prints_with (Some (r, k))" "prints None" "prints_with None"
  by (simp_all add: prints_def prints_with_def)

lemma prints_bind_with [prints_rules]:
  "prints_with m \<Longrightarrow> (\<And>r k. m = Some (r, k) \<Longrightarrow> out_ok k \<Longrightarrow> prints (f r k)) \<Longrightarrow> prints (Option.bind m (\<lambda>(r, k). f r k))"
  "prints_with m \<Longrightarrow> (\<And>r k. m = Some (r, k) \<Longrightarrow> out_ok k \<Longrightarrow> prints_with (g r k)) \<Longrightarrow> prints_with (Option.bind m (\<lambda>(r, k). g r k))"
  by (auto simp: prints_def prints_with_def split: Option.bind_splits)

lemma prints_bind [prints_rules]:
  "prints m \<Longrightarrow> (\<And>k. m = Some k \<Longrightarrow> out_ok k \<Longrightarrow> prints (f k)) \<Longrightarrow> prints (Option.bind m f)"
  by (auto simp: prints_def split: Option.bind_splits)

lemma prints_bind_value:
  fixes m :: "'v option"
  shows "(\<And>x. m = Some x \<Longrightarrow> prints (f x)) \<Longrightarrow> prints (Option.bind m f)"
  by (auto simp: prints_def split: Option.bind_splits)

lemmas prints_bind_values [prints_rules] =
  prints_bind_value [where 'v = u32] prints_bind_value [where 'v = nat] prints_bind_value [where 'v = int]
  prints_bind_value [where 'v = "u8 list"] prints_bind_value [where 'v = ramdisk_t]
  prints_bind_value [where 'v = "(u8 list \<times> nat) option"] prints_bind_value [where 'v = "int \<times> u8 list"]

lemma prints_if [prints_rules]:
  "(b \<Longrightarrow> prints m) \<Longrightarrow> (\<not> b \<Longrightarrow> prints n) \<Longrightarrow> prints (if b then m else n)"
  "(b \<Longrightarrow> prints_with u) \<Longrightarrow> (\<not> b \<Longrightarrow> prints_with v) \<Longrightarrow> prints_with (if b then u else v)"
  by simp_all

lemma prints_case [prints_rules]:
  "(x = None \<Longrightarrow> prints m) \<Longrightarrow> (\<And>y. x = Some y \<Longrightarrow> prints (f y)) \<Longrightarrow> prints (case x of None \<Rightarrow> m | Some y \<Rightarrow> f y)"
  by (cases x) simp_all

lemma prints_calls [prints_rules]:
  assumes "out_ok k"
  shows "prints_with (on_fs f k)" and "prints_with (on_proc g k)" and "prints_with (on_pmm h k)" and "prints_with (k_kmalloc n k)"
    and "prints (k_kfree p k)" and "prints (free_if p k)" and "prints_with (k_write_block b buf k)" and "prints_with (spawn nm e pr k)"
  using assms
  by (auto simp: on_fs_def on_proc_def on_pmm_def k_kmalloc_def k_kfree_def free_if_def k_write_block_def spawn_def set_disk_def
      out_ok_def prints_def prints_with_def split: Option.bind_splits if_splits)

lemma out_ok_updates [simp]:
  "out_ok (k\<lparr>shell_alive := b\<rparr>) = out_ok k" "out_ok (k\<lparr>command_history := h, history_count := n\<rparr>) = out_ok k"
  "out_ok (set_disk d k) = out_ok k" "out_ok (k\<lparr>k_heap := hp\<rparr>) = out_ok k"
  by (simp_all add: out_ok_def set_disk_def)

lemma poke_bytes_out [prints_rules]: "out_ok k \<Longrightarrow> prints (poke_bytes p cs k)"
  by (auto simp: poke_bytes_def prints_def split: Option.bind_splits)

section \<open>Terminated strings\<close>

lemma store_nul: "store buf i 0 = Some buf' \<Longrightarrow> 0 \<in> set buf'"
  by (auto simp: store_def set_update_memI split: if_splits)

lemma strlen_nul: "strlen s = Some n \<Longrightarrow> 0 \<in> set s"
  by (simp add: strlen_eq split: if_splits)

lemma split_args_nul: "split_args args k = Some (Some (s, j)) \<Longrightarrow> 0 \<in> set s"
  by (auto simp: split_args_def dest: store_nul split: Option.bind_splits option.splits)

lemma str_split_loop_nul:
  "str_split_loop str delim cur tokens m = Some (ts, str') \<Longrightarrow> \<forall>t\<in>set tokens. 0 \<in> set (drop t str) \<Longrightarrow>
     \<forall>t\<in>set ts. 0 \<in> set (drop t str')"
proof (induction str delim cur tokens m rule: str_split_loop.induct)
  case (1 str delim cur tokens m)
  have upd0: "0 \<in> set (xs[j := 0])" if "0 \<in> set xs" for xs :: "u8 list" and j
  proof -
    obtain i where i: "i < length xs" "xs ! i = 0" using \<open>0 \<in> set xs\<close> by (auto simp: in_set_conv_nth)
    then have "xs[j := 0] ! i = 0" by (cases "i = j") simp_all
    then show ?thesis using nth_mem [of i "xs[j := 0]"] i(1) by simp
  qed
  have keep: "0 \<in> set (drop t (str[e := 0]))" if "0 \<in> set (drop t str)" for t e
    using that upd0 [of "drop t str" "e - t"] by (cases "t \<le> e") (simp_all add: drop_update_swap)
  have new: "0 \<in> set (drop b (str[e := 0]))" if "b \<le> e" "e < length str" for b e
    using that by (simp add: drop_update_swap set_update_memI)
  have old: "0 \<in> set (drop b str)" if "b \<le> e" "e < length str" "str ! e = 0" for b e
  proof -
    have "drop b str ! (e - b) = 0" using that by simp
    moreover have "e - b < length (drop b str)" using that by simp
    ultimately show ?thesis by (metis nth_mem)
  qed
  show ?case
  proof (cases "cur < length str \<and> str ! cur \<noteq> 0 \<and> int (length tokens) < m")
    case False
    then show ?thesis using 1(3,4) by (auto simp: str_split_loop.simps [of str] split: if_splits)
  next
    case True
    then obtain b where b: "skip_while (\<lambda>c. c = delim) (drop cur str) cur = Some b"
      using 1(3) by (auto simp: str_split_loop.simps [of str] split: if_splits option.splits)
    show ?thesis
    proof (cases "str ! b = 0")
      case True2: True
      then show ?thesis using 1(3,4) True b by (auto simp: str_split_loop.simps [of str])
    next
      case False2: False
      then obtain e where e: "skip_while (\<lambda>c. c \<noteq> 0 \<and> c \<noteq> delim) (drop b str) b = Some e"
        using 1(3) True b by (auto simp: str_split_loop.simps [of str] split: option.splits)
      have be: "b \<le> e" "e < length str" using skip_while_bounds [OF e] by auto
      show ?thesis
      proof (cases "str ! e = 0")
        case True3: True
        have r: "str_split_loop str delim e (tokens @ [b]) m = Some (ts, str')"
          using 1(3) True b False2 e True3 by (simp add: str_split_loop.simps [of str delim cur])
        show ?thesis using 1(2) [OF _ _ b False2 e _ r] True True3 1(4) old [OF be True3] by auto
      next
        case False3: False
        have r: "str_split_loop (str[e := 0]) delim (e + 1) (tokens @ [b]) m = Some (ts, str')"
          using 1(3) True b False2 e False3 by (simp add: str_split_loop.simps [of str delim cur])
        show ?thesis using 1(1) [OF _ _ b False2 e _ r] True False3 1(4) keep new [OF be] by auto
      qed
    qed
  qed
qed

section \<open>Every command\<close>

definition pcb_names_ok :: "kernel_t \<Rightarrow> bool" where
  "pcb_names_ok k \<longleftrightarrow> (\<forall>p. 0 \<in> set (pr_name (pcbs (k_proc k) p)))"

lemma info_out [prints_rules]:
  assumes "out_ok k"
  shows "prints (cmd_help k)" and "prints (cmd_about k)" and "prints (cmd_color k)" and "prints (cmd_clear k)"
    and "prints (cmd_banner k)" and "prints (cmd_ver k)" and "prints (cmd_mem k)"
  using assms
  by (simp_all add: prints_def cmd_help_def cmd_about_def cmd_color_def cmd_clear_def cmd_banner_def shell_display_banner_def
      cmd_ver_def cmd_mem_def Let_def)

lemma echo_out [prints_rules]: "out_ok k \<Longrightarrow> 0 \<in> set args \<Longrightarrow> prints (cmd_echo args k)"
  by (auto simp: cmd_echo_def prints_def split: list.splits)

lemma uptime_out [prints_rules]: "out_ok k \<Longrightarrow> prints (cmd_uptime k)"
  by (auto simp: cmd_uptime_def timer_format_uptime_def Let_def prints_def dest: store_nul split: Option.bind_splits)

lemma history_out [prints_rules]:
  assumes "out_ok k" and "history_ok k"
  shows "prints (cmd_history k)"
proof -
  have "0 \<in> set (command_history k ! i)" if "i < history_count k" for i
    using assms(2) that nth_mem [of i "take (history_count k) (command_history k)"] by (simp add: history_ok_def)
  then show ?thesis
    using assms by (auto simp: cmd_history_def Let_def list_all_iff history_ok_def put_def out_ok_def prints_def split: if_splits)
qed

lemma meminfo_out [prints_rules]: "out_ok k \<Longrightarrow> prints (cmd_meminfo k)"
  by (auto simp: cmd_meminfo_def Let_def usage_bar_def list_all_iff prints_def split: Option.bind_splits)

lemma ps_out [prints_rules]: "out_ok k \<Longrightarrow> pcb_names_ok k \<Longrightarrow> prints (cmd_ps k)"
  by (auto simp: cmd_ps_def Let_def ps_row_def list_all_iff pcb_names_ok_def prints_def split: if_splits prod.splits)

lemma memtest_pages_out [prints_rules]: "out_ok k \<Longrightarrow> prints_with (memtest_pages is pages k)"
proof (induction "is" pages k rule: memtest_pages.induct)
  case (2 i "is" pages k)
  show ?case unfolding memtest_pages.simps
    by (intro prints_rules 2) (simp_all add: 2)
qed (simp add: prints_rules)

lemma memtest_free_pages_out [prints_rules]: "out_ok k \<Longrightarrow> prints (memtest_free_pages pages k)"
proof (induction pages k rule: memtest_free_pages.induct)
  case (2 page pages k)
  show ?case unfolding memtest_free_pages.simps by (intro prints_rules 2) (simp_all add: 2)
qed (simp add: prints_rules)

lemma memtest_parts_out [prints_rules]:
  "out_ok k \<Longrightarrow> prints (memtest_report a b c k)" "out_ok k \<Longrightarrow> prints (memtest_write a k)"
  by (auto simp: memtest_report_def memtest_write_def Let_def intro!: prints_rules)

lemma memtest_out [prints_rules]: "out_ok k \<Longrightarrow> prints (cmd_memtest k)"
  unfolding cmd_memtest_def Let_def
  by (auto intro!: prints_rules)

lemma testproc_out [prints_rules]: "out_ok k \<Longrightarrow> prints (cmd_testproc k)"
  unfolding cmd_testproc_def Let_def by (auto intro!: prints_rules)

lemma spawn_tests_out [prints_rules]:
  assumes "out_ok k"
  shows "prints (cmd_sleeptest k)" and "prints (cmd_ipctest k)" and "prints (cmd_syscalltest k)" and "prints (cmd_usermodetest k)"
  unfolding cmd_sleeptest_def cmd_ipctest_def cmd_syscalltest_def cmd_usermodetest_def Let_def
  using assms by (auto intro!: prints_rules)

lemma kill_out [prints_rules]: "out_ok k \<Longrightarrow> prints (cmd_kill args k)"
  unfolding cmd_kill_def Let_def by (auto intro!: prints_rules dest: store_nul)

lemma set_priority_names:
  "on_proc (\<lambda>s. Some (process_set_priority pid pr s)) k = Some (rc, k') \<Longrightarrow>
     pr_name (pcbs (k_proc k') p) = pr_name (pcbs (k_proc k) p)"
  by (auto simp: on_proc_def process_set_priority_def Let_def upd_pcb_def proc_of_def split: if_splits)

lemma k_proc_put [simp]: "k_proc (put es k) = k_proc k" "k_fs (put es k) = k_fs k"
  by (simp_all add: put_def)

lemma nice_out [prints_rules]: "out_ok k \<Longrightarrow> pcb_names_ok k \<Longrightarrow> prints (cmd_nice args k)"
  unfolding cmd_nice_def Let_def by (auto intro!: prints_rules simp: set_priority_names pcb_names_ok_def split: prod.split)

lemma rd_out [prints_rules]:
  assumes "out_ok k"
  shows "prints (cmd_rdinfo k)" and "prints (cmd_rdformat k)"
  unfolding cmd_rdinfo_def cmd_rdformat_def Let_def using assms by (auto intro!: prints_rules)

lemma rd_write_blocks_out [prints_rules]: "out_ok k \<Longrightarrow> prints (rd_write_blocks bs buf k)"
proof (induction bs buf k rule: rd_write_blocks.induct)
  case (2 b bs buf k)
  show ?case unfolding rd_write_blocks.simps by (intro prints_rules 2) (simp_all add: 2)
qed (simp add: prints_rules)

lemma ls_loop_out: "out_ok k \<Longrightarrow> \<forall>e\<in>set es. 0 \<in> set (drop 4 e) \<Longrightarrow> prints (ls_loop es k)"
proof (induction es k rule: ls_loop.induct)
  case (2 e es k)
  show ?case unfolding ls_loop.simps Let_def
    by (intro prints_rules 2) (use 2(2,3) in \<open>auto split: option.split\<close>)
qed (simp add: prints_rules)

lemma touch_out [prints_rules]:
  assumes "out_ok k"
  shows "prints (cmd_touch args k)" and "prints (cmd_rm args k)" and "prints (cmd_mkdir args k)" and "prints (cmd_fsformat k)"
  unfolding cmd_touch_def cmd_rm_def cmd_mkdir_def cmd_fsformat_def not_mounted_def Let_def
  using assms by (auto intro!: prints_rules dest: strlen_nul)

lemma cat_contents_out [prints_rules]: "out_ok k \<Longrightarrow> prints (cat_contents args stat k)"
  unfolding cat_contents_def Let_def by (auto intro!: prints_rules dest: store_nul)

lemma cat_out [prints_rules]: "out_ok k \<Longrightarrow> prints (cmd_cat args k)"
  unfolding cmd_cat_def not_mounted_def Let_def by (auto intro!: prints_rules dest: strlen_nul)

lemma write_open_out [prints_rules]: "out_ok k \<Longrightarrow> 0 \<in> set f \<Longrightarrow> prints_with (write_open e f k)"
  unfolding write_open_def Let_def by (auto intro!: prints_rules)

lemma write_store_out [prints_rules]: "out_ok k \<Longrightarrow> 0 \<in> set f \<Longrightarrow> prints (write_store e f t fd k)"
  unfolding write_store_def Let_def by (auto intro!: prints_rules)

lemma write_out [prints_rules]: "out_ok k \<Longrightarrow> prints (cmd_write args k)"
  unfolding cmd_write_def not_mounted_def Let_def
  by (auto intro!: prints_rules dest: strlen_nul split_args_nul split: prod.split)

lemma memset_all: "memset buf v (length buf) = Some (replicate (length buf) v)"
  by (induction buf) auto

lemma strcpy_shape: "strcpy dest src = Some r \<Longrightarrow> 0 \<in> set r \<and> length r = length dest"
  by (induction dest src arbitrary: r rule: strcpy.induct) (auto split: if_splits Option.bind_splits)

lemma k_read_block_length: "k_read_block b buf k = Some (rc, buf') \<Longrightarrow> length buf' = length buf"
  by (auto simp: k_read_block_def ramdisk_read_block_def Let_def split: Option.bind_splits if_splits)

lemma disk_of_set [simp]: "disk_of (set_disk d k) = d"
  by (simp add: disk_of_def set_disk_def)

text \<open>What was just written to a block, or zeros, is read back: either way a terminator.\<close>

lemma read_back_nul:
  assumes w: "k_write_block b wb k = Some (rc, k1)" and r: "k_read_block b (replicate 512 0) k2 = Some (rc', rb)"
    and d: "disk_of k2 = disk_of k1" and wb: "length wb = 512" "0 \<in> set wb"
  shows "0 \<in> set rb"
proof (cases "rd_refuses (disk_of k) b (Some wb)")
  case True
  then have "disk_of k1 = disk_of k" using w by (auto simp: k_write_block_def ramdisk_write_block_def)
  then have "rd_refuses (disk_of k2) b (Some (replicate 512 0))" using True d by (simp add: rd_refuses_def)
  then show ?thesis using r by (auto simp: k_read_block_def ramdisk_read_block_def)
next
  case False
  let ?d = "disk_of k" and ?o = "unat (b * rd_block_size (disk_of k))" and ?n = "unat (rd_block_size (disk_of k))"
  have d2: "disk_of k2 = ?d\<lparr>rd_bytes := (\<lambda>i. if ?o \<le> i \<and> i < ?o + ?n then wb ! (i - ?o) else rd_bytes ?d i)\<rparr>" and n: "?n \<le> 512"
    using w False d wb(1) by (auto simp: k_write_block_def ramdisk_write_block_def Let_def split: if_splits)
  have "\<not> rd_refuses (disk_of k2) b (Some (replicate 512 0))" using False d2 by (simp add: rd_refuses_def)
  then have "rb = map (rd_bytes (disk_of k2)) [?o..<?o + ?n] @ replicate (512 - ?n) 0"
    using r d2 by (auto simp: k_read_block_def ramdisk_read_block_def Let_def split: if_splits)
  moreover have "map (rd_bytes (disk_of k2)) [?o..<?o + ?n] = take ?n wb"
    using d2 n wb(1) by (intro nth_equalityI) simp_all
  ultimately have rb: "rb = take ?n wb @ replicate (512 - ?n) 0" by simp
  show ?thesis using rb wb n by (cases "?n = 512") auto
qed

lemma disk_of_put [simp]: "disk_of (put es k) = disk_of k"
  by (simp add: put_def disk_of_def)

lemma rd_tests_out [prints_rules]:
  assumes "out_ok k" and "length wb = 512" and "length rb = 512"
  shows "prints (rd_tests wb rb k)"
proof -
  have m: "memset buf 0 512 = Some (replicate 512 0)" if "length buf = 512" for buf :: "u8 list"
    using memset_all [of buf 0] that by simp
  show ?thesis
    unfolding rd_tests_def Let_def m [OF assms(2)] m [OF assms(3)] bind.bind_lunit
    using assms
    by (auto intro!: prints_rules simp: test_msg_def simp del: upt_rec_numeral dest!: strcpy_shape dest: read_back_nul)
qed

lemma ramdisk_out [prints_rules]: "out_ok k \<Longrightarrow> prints (cmd_ramdisk k)"
  unfolding cmd_ramdisk_def Let_def
  by (auto intro!: prints_rules simp: heap_bytes_def dest: k_read_block_length)

section \<open>Listing a directory\<close>

lemma readdir_entries_names:
  assumes "names_ok data" and "set is \<subseteq> {..<16}" and "\<forall>e\<in>set out. 0 \<in> set (drop 4 e)"
  shows "\<forall>e\<in>set (readdir_entries data is mx out). 0 \<in> set (drop 4 e)"
  using assms(2,3)
proof (induction "is" arbitrary: out)
  case (Cons i "is")
  have "0 \<in> set (drop 4 (take 32 (drop (32 * i) data)))" if "de_inode data i \<noteq> 0"
    using assms(1) that Cons.prems(1) de_inode_slot [of data i] by (simp add: names_ok_def slot_def)
  then have "\<forall>e\<in>set (out @ [take 32 (drop (32 * i) data)]). 0 \<in> set (drop 4 e)" if "de_inode data i \<noteq> 0"
    using that Cons.prems(2) by (simp del: drop_take)
  note step = this
  have sub: "set is \<subseteq> {..<16}" using Cons.prems(1) by simp
  consider "mx \<le> int (length out)" | "int (length out) < mx" "de_inode data i = 0" | "int (length out) < mx" "de_inode data i \<noteq> 0"
    by linarith
  then show ?case
  proof cases
    case 1
    then show ?thesis using Cons.prems(2) by simp
  next
    case 2
    then show ?thesis using Cons.IH [OF sub Cons.prems(2)] by simp
  next
    case 3
    then show ?thesis using Cons.IH [OF sub step [OF 3(2)]] by (simp only: readdir_entries.simps if_True if_False not_False_eq_True)
  qed
qed simp

lemma readdir_blocks_names:
  assumes "rd_ok (fs_disk s)" and "\<forall>b\<in>set bs. b \<noteq> 0 \<longrightarrow> unat b < 1981 \<and> names_ok (blk (fs_disk s) (FS_DATA_BLOCKS_START + b))"
    and "length data = 512" and "\<forall>e\<in>set out. 0 \<in> set (drop 4 e)" and "readdir_blocks s bs mx data out = Some es"
  shows "\<forall>e\<in>set es. 0 \<in> set (drop 4 e)"
  using assms
proof (induction s bs mx data out rule: readdir_blocks.induct [case_names none some])
  case (some s b bs mx data out)
  show ?case
  proof (cases "b \<noteq> 0 \<and> int (length out) < mx")
    case True
    then have b: "unat b < 1981" "names_ok (blk (fs_disk s) (FS_DATA_BLOCKS_START + b))" using some(3) by auto
    have r: "read_block s (FS_DATA_BLOCKS_START + b) data = Some (blk (fs_disk s) (FS_DATA_BLOCKS_START + b))"
      using read_block_ok some(2,4) data_block_less [OF b(1)] by blast
    have "readdir_blocks s bs mx (blk (fs_disk s) (FS_DATA_BLOCKS_START + b))
        (readdir_entries (blk (fs_disk s) (FS_DATA_BLOCKS_START + b)) [0..<16] mx out) = Some es"
      using some(6) True r by simp
    moreover have "\<forall>e\<in>set (readdir_entries (blk (fs_disk s) (FS_DATA_BLOCKS_START + b)) [0..<16] mx out). 0 \<in> set (drop 4 e)"
      by (rule readdir_entries_names [OF b(2)]) (use some(5) in auto)
    ultimately show ?thesis using some(1) [OF True r] some(2,3) by simp
  next
    case False
    then show ?thesis using some(5,6) by auto
  qed
qed simp

lemma read_inode_root:
  assumes "rd_ok (fs_disk s)" and "read_inode 0 s = Some (Some i, s')"
  shows "i = inode_at (fs_disk s) 0 \<and> fs_disk s' = fs_disk s"
proof -
  have "read_block s1 (inode_block 0) buf = Some (blk (fs_disk s) (inode_block 0))" if "fs_disk s1 = fs_disk s" "length buf = 512" for s1 buf
    using read_block_ok [of s1 "inode_block 0" buf] inode_block_less [of 0] assms(1) that by simp
  then show ?thesis
    using assms(2) by (auto simp: read_inode_def inode_at_def fs_kmalloc_def fs_kfree_def split: Option.bind_splits if_splits)
qed

lemma fs_readdir_names:
  assumes "dir_ok s" and "fs_readdir (Some (lit ''/'')) mx s = Some (c, es, s')"
  shows "\<forall>e\<in>set es. 0 \<in> set (drop 4 e)"
proof -
  have rd: "rd_ok (fs_disk s)" and g: "good s (inode_at (fs_disk s) 0)" using assms(1) file_okD [of s 0] by (auto simp: dir_ok_def)
  have blocks: "\<forall>b\<in>set (i_blocks (inode_at (fs_disk s) 0)). b \<noteq> 0 \<longrightarrow> unat b < 1981 \<and> names_ok (blk (fs_disk s) (FS_DATA_BLOCKS_START + b))"
  proof (intro ballI impI)
    fix b assume "b \<in> set (i_blocks (inode_at (fs_disk s) 0))" "b \<noteq> 0"
    then obtain j where j: "j < 10" "b = i_blocks (inode_at (fs_disk s) 0) ! j"
      using wf_inode_at [of "fs_disk s" 0] by (auto simp: in_set_conv_nth wf_inode_def)
    then show "unat b < 1981 \<and> names_ok (blk (fs_disk s) (FS_DATA_BLOCKS_START + b))"
      using assms(1) g \<open>b \<noteq> 0\<close> by (auto simp: dir_ok_def dir_shape_def good_def)
  qed
  have root: "path_lookup (Some (lit ''/'')) s = Some (Some 0, s)" by (simp add: path_lookup_def lit_def skip_slash_def)
  show ?thesis
  proof (cases "\<exists>i s1. read_inode 0 s = Some (Some i, s1) \<and> i_mode i AND FS_TYPE_DIR \<noteq> 0")
    case False
    then show ?thesis
      using assms(2) root by (auto simp: fs_readdir_def split: Option.bind_splits option.splits if_splits)
  next
    case True
    then obtain i s1 where i: "read_inode 0 s = Some (Some i, s1)" by blast
    note r = read_inode_root [OF rd i]
    have "es = [] \<or> (\<exists>h p. readdir_blocks (s1\<lparr>fs_heap := h\<rparr>) (i_blocks i) mx (fresh (s1\<lparr>fs_heap := h\<rparr>) p) [] = Some es)"
      using assms(2) root i by (auto simp: fs_readdir_def fs_kmalloc_def split: Option.bind_splits option.splits if_splits)
    then show ?thesis
    proof
      assume "\<exists>h p. readdir_blocks (s1\<lparr>fs_heap := h\<rparr>) (i_blocks i) mx (fresh (s1\<lparr>fs_heap := h\<rparr>) p) [] = Some es"
      then obtain h p where "readdir_blocks (s1\<lparr>fs_heap := h\<rparr>) (i_blocks i) mx (fresh (s1\<lparr>fs_heap := h\<rparr>) p) [] = Some es" by blast
      then show ?thesis by (rule readdir_blocks_names [rotated 4]) (use r rd blocks in simp_all)
    qed simp
  qed
qed

text \<open>The root directory is readable whenever the file system is mounted.\<close>

definition mounted_ok :: "kernel_t \<Rightarrow> bool" where
  "mounted_ok k \<longleftrightarrow> (fs_initialized (k_fs k) \<noteq> 0 \<longrightarrow> dir_ok (k_fs k))"

lemma dir_ok_update [simp]: "dir_ok (s\<lparr>fs_heap := h, ticks := t\<rparr>) = dir_ok s"
  by (simp add: dir_ok_def file_ok_def maps_ok_def good_def)

lemma ls_out [prints_rules]:
  assumes "out_ok k" and "mounted_ok k"
  shows "prints (cmd_ls k)"
proof -
  have fs: "k_fs k1 = k_fs k" if "k_kmalloc n (put es k) = Some (p, k1)" for n es p k1
    using that by (auto simp: k_kmalloc_def put_def split: Option.bind_splits)
  have names: "\<forall>e\<in>set (snd r). 0 \<in> set (drop 4 e)"
    if "dir_ok (k_fs k)" "k_fs k1 = k_fs k" "on_fs (\<lambda>s. do { (c, es, s) \<leftarrow> fs_readdir (Some (lit ''/'')) 64 s; Some ((c, es), s) }) k1 = Some (r, k2)"
    for k1 r k2
    using that fs_readdir_names [of "fs_of k1" 64] by (auto simp: on_fs_def fs_of_def split: Option.bind_splits)
  have "fs_initialized (k_fs k) \<noteq> 0 \<Longrightarrow> dir_ok (k_fs k)" using assms(2) by (simp add: mounted_ok_def)
  then show ?thesis
    unfolding cmd_ls_def not_mounted_def Let_def
    using assms(1)
    by (auto intro!: prints_rules ls_loop_out simp: fs_is_initialized_def dest!: names [OF _ fs] in_set_takeD)
qed

section \<open>Well-formed calls reach the screen\<close>

text \<open>The one argument a well-formed format cannot show is the smallest \<open>int\<close>: its conversion negates it.\<close>

fun event_args :: "event \<Rightarrow> va_val list" where
  "event_args (Kprintf f args) = args"
| "event_args (KprintfColor c f args) = args"
| "event_args _ = []"

lemma of_char_u8_simps:
  "(of_char c :: u8) = 0 \<longleftrightarrow> c = CHR 0x00" "(of_char c :: u8) = 37 \<longleftrightarrow> c = CHR ''%''"
  using of_char_u8_eq_iff [of c "CHR 0x00"] of_char_u8_eq_iff [of c "CHR ''%''"] by simp_all

lemma conv_total:
  assumes "fmt_ok (CHR ''%'' # f # s) args" and "Word 0x80000000 \<notin> set args"
  shows "\<exists>t args'. conv (of_char f) args = Some (t, args') \<and> fmt_ok s args' \<and> set args' \<subseteq> set args"
proof -
  have min: "sint v \<noteq> - (2 ^ 31)" if "v \<noteq> 0x80000000" for v :: u32
  proof
    assume "sint v = - (2 ^ 31)"
    then have "(word_of_int (sint v) :: u32) = word_of_int (- (2 ^ 31))" by simp
    then show False using that by simp
  qed
  consider "f \<in> {CHR ''d'', CHR ''i'', CHR ''u'', CHR ''x'', CHR ''X'', CHR ''p'', CHR ''c''}" | "f = CHR ''s''"
    | "f \<notin> {CHR ''d'', CHR ''i'', CHR ''u'', CHR ''x'', CHR ''X'', CHR ''p'', CHR ''c'', CHR ''s''}" by auto
  then show ?thesis
  proof cases
    case 1
    then obtain v args' where "args = Word v # args'" "fmt_ok s args'" using assms(1) by (auto split: list.splits va_val.splits)
    then show ?thesis using 1 assms(2) min [of v] by (auto simp: conv_def va_word_def)
  next
    case 2
    then show ?thesis using assms(1) by (auto simp: conv_def va_str_def split: list.splits va_val.splits option.splits)
  next
    case 3
    have f: "(of_char f :: u8) \<noteq> of_char c" if "c \<in> {CHR ''d'', CHR ''i'', CHR ''u'', CHR ''x'', CHR ''X'', CHR ''p'', CHR ''c'', CHR ''s''}" for c
      using 3 that of_char_u8_eq_iff [of f c] by auto
    show ?thesis using 3 assms(1) f [of "CHR ''d''"] f [of "CHR ''i''"] f [of "CHR ''u''"] f [of "CHR ''x''"] f [of "CHR ''X''"]
        f [of "CHR ''p''"] f [of "CHR ''c''"] f [of "CHR ''s''"] by (auto simp: conv_def)
  qed
qed

lemma render_total: "fmt_ok s args \<Longrightarrow> Word 0x80000000 \<notin> set args \<Longrightarrow> \<exists>t. render (lit s) args = Some t"
proof (induction s arbitrary: args rule: length_induct)
  case (1 s)
  show ?case
  proof (cases s rule: remdups_adj.cases)
    case (3 c f r)
    then show ?thesis
    proof (cases "c = CHR ''%''")
      case True
      then obtain t as where t: "conv (of_char f) args = Some (t, as)" "fmt_ok r as" "set as \<subseteq> set args"
        using conv_total [of f r args] 1(2,3) 3 by auto
      have "length r < length s" using 3 by simp
      with 1(1) t(2,3) 1(3) obtain u where "render (lit r) as = Some u" by blast
      then show ?thesis using t(1) True 3 by (simp add: lit_def)
    next
      case False
      then have "fmt_ok (f # r) args" "c \<noteq> CHR 0x00" using 1(2) 3 by simp_all
      moreover have "length (f # r) < length s" using 3 by simp
      ultimately obtain u where "render (lit (f # r)) args = Some u" using 1(1,3) by blast
      then show ?thesis using False \<open>c \<noteq> CHR 0x00\<close> 3 by (simp add: lit_def of_char_u8_simps)
    qed
  qed (use 1 in \<open>auto simp: lit_def of_char_u8_simps\<close>)
qed

lemma kprintf_internal_total:
  assumes "screen_ok s" and "length buffer = 32" and "length temp = 32" and "args_ok format args" and "Word 0x80000000 \<notin> set args"
  shows "\<exists>s'. kprintf_internal color b format args buffer temp s = Some s' \<and> screen_ok s'"
proof -
  obtain t where t: "render format args = Some t" using assms(4,5) render_total by (auto simp: args_ok_def)
  have c: "screen_ok (screen_set_color c s) = screen_ok s" for c s by (simp add: screen_ok_def screen_set_color_def)
  let ?s = "if b then screen_set_color color s else s"
  have "screen_ok ?s" using assms(1) c by simp
  then obtain s' where "puts screen_putchar_internal t ?s = Some s'" "screen_ok s'" using vga.puts_law [of ?s t] by blast
  then show ?thesis
    using t c kprintf_loop_render [OF assms(2,3)] by (simp add: kprintf_internal_def Let_def update_cursor_hw)
qed

lemma write_hex_total: "screen_ok s \<Longrightarrow> \<exists>s'. screen_write_hex n s = Some s' \<and> screen_ok s'"
proof -
  assume s: "screen_ok s"
  define r where "r = fold (\<lambda>i (buffer :: u8 list, num :: u32). (buffer[i := hex_chars ! unat (num AND 0xF)], drop_bit 4 num))
    (rev [2..<10]) ([48, 120, 48, 48, 48, 48, 48, 48, 48, 48, 0], n)"
  have "0 \<in> set (fst r)" by (simp add: r_def split_def)
  then obtain s' where "put_string (fst r) s = Some s'" "screen_ok s'"
    using vga.puts_law [OF s, of "cstr (fst r)"] put_string_puts [of "fst r" s] by auto
  then show ?thesis unfolding screen_write_hex_def Let_def r_def [symmetric] by (simp add: split_def update_cursor_hw)
qed

lemma play_event_total:
  assumes "screen_ok s" and "event_ok e" and "Word 0x80000000 \<notin> set (event_args e)"
    and "length dec = 12" and "length buffer = 32" and "length temp = 32"
  shows "\<exists>s'. play_event dec buffer temp e s = Some s' \<and> screen_ok s'"
proof (cases e)
  case (Write str)
  then show ?thesis using screen_write_law [OF assms(1), of str] assms(2) by auto
next
  case (WriteColor str c)
  then show ?thesis using screen_write_color_law [OF assms(1), of str] assms(2) by auto
next
  case (WriteDec n)
  then show ?thesis using screen_write_law [OF assms(1), of "rev (rdigits (unat n)) @ [0]"] screen_write_dec_digits [OF assms(4)] by auto
next
  case (WriteHex n)
  then show ?thesis using write_hex_total [OF assms(1)] by simp
next
  case Clear
  then show ?thesis using assms(1) by (simp add: screen_clear_def screen_ok_def)
next
  case (Kprintf f args)
  then show ?thesis using kprintf_internal_total [OF assms(1,5,6)] assms(2,3) by (simp add: kprintf_def)
next
  case (KprintfColor c f args)
  then show ?thesis using kprintf_internal_total [OF assms(1,5,6)] assms(2,3) by (simp add: kprintf_color_def)
qed

lemma play_total:
  assumes "length dec = 12" and "length buffer = 32" and "length temp = 32"
  shows "screen_ok s \<Longrightarrow> list_all event_ok es \<Longrightarrow> \<forall>e\<in>set es. Word 0x80000000 \<notin> set (event_args e) \<Longrightarrow>
    \<exists>s'. play dec buffer temp es s = Some s' \<and> screen_ok s'"
proof (induction es arbitrary: s)
  case (Cons e es)
  then obtain s1 where "play_event dec buffer temp e s = Some s1" "screen_ok s1"
    using play_event_total [OF Cons.prems(1) _ _ assms, of e] by auto
  then show ?case using Cons by auto
qed simp

section \<open>Properties\<close>

definition shell_ok :: "kernel_t \<Rightarrow> bool" where
  "shell_ok k \<longleftrightarrow> out_ok k \<and> pcb_names_ok k \<and> history_ok k \<and> mounted_ok k"

lemma command_table_out:
  assumes "shell_ok k" and "0 \<in> set args" and "find_command (command_table args) word = Some f"
  shows "prints (f k)"
proof -
  have "f \<in> snd ` set (command_table args)" using map_of_SomeD [OF assms(3) [unfolded find_command_def]] by force
  moreover have "\<forall>f\<in>snd ` set (command_table args). prints (f k)"
    using assms(1,2) by (simp add: command_table_def shell_ok_def prints_rules)
  ultimately show ?thesis by blast
qed

text \<open>
  C29: Whatever is typed, every console call the shell makes is well typed: its strings are terminated and each \<open>kprintf\<close> gets
  arguments of the kinds its format asks for. So on a screen in order the calls all return and leave it in order, unless the
  smallest \<open>int\<close> is among the arguments.
\<close>

theorem shell_output_typed:
  assumes "shell_process_command slack command k = Some (buf, k')" and "shell_ok k" and "slack \<noteq> []"
    and "0 \<in> set command" and "length (cstr command) \<le> 255"
  shows "out_ok k' \<and> (\<forall>dec buffer temp s. screen_ok s \<and> length dec = 12 \<and> length buffer = 32 \<and> length temp = 32 \<and>
      (\<forall>e\<in>set (k_out k'). Word 0x80000000 \<notin> set (event_args e)) \<longrightarrow>
    (\<exists>s'. play dec buffer temp (k_out k') s = Some s' \<and> screen_ok s'))"
proof -
  have "out_ok k'"
  proof (cases "trim (cstr command) = []")
    case True
    obtain b where b: "str_trim command = Some b" "0 \<in> set b" "cstr b = []" using str_trim_eq [OF assms(4)] True by auto
    then have "b \<noteq> []" "hd b = 0" by (cases b; auto split: if_splits)+
    then have "k' = put [say ''\<newline>''] k" using assms(1) b(1) by (simp add: shell_process_command_def)
    then show ?thesis using assms(2) by (simp add: shell_ok_def)
  next
    case False
    have h: "history_ok k" using assms(2) by (simp add: shell_ok_def)
    show ?thesis
    proof (rule shell_process_command_run [OF h assms(4,5,3) False])
      fix b args cmd h n
      let ?k = "k\<lparr>command_history := h, history_count := n\<rparr>"
      assume r: "0 \<in> set args" "0 \<in> set cmd" "history_ok ?k"
        and run: "shell_process_command slack command k =
          map_option (Pair b) (case find_command (command_table args) (cstr cmd) of Some f \<Rightarrow> f ?k | None \<Rightarrow> cmd_unknown cmd ?k)"
      have ok: "shell_ok ?k" using assms(2) r(3) by (simp add: shell_ok_def pcb_names_ok_def mounted_ok_def)
      have "prints (case find_command (command_table args) (cstr cmd) of Some f \<Rightarrow> f ?k | None \<Rightarrow> cmd_unknown cmd ?k)"
        using command_table_out [OF ok r(1)] ok r(2) by (auto simp: prints_def cmd_unknown_def shell_ok_def split: option.split)
      moreover have "map_option (Pair b) (case find_command (command_table args) (cstr cmd) of Some f \<Rightarrow> f ?k | None \<Rightarrow> cmd_unknown cmd ?k) =
          Some (buf, k')" using run assms(1) by (rule trans [OF sym])
      ultimately show ?thesis by (simp add: prints_def map_option_eq_Some)
    qed
  qed
  then show ?thesis using play_total by (auto simp: out_ok_def)
qed

lemma demo_shell_ok: "shell_ok demo_kernel"
  by (simp add: shell_ok_def demo_history) (simp add: demo_kernel_def out_ok_def pcb_names_ok_def mounted_ok_def blank_fs_def demo_pcb_def)

lemma shell_output_typed_witness:
  "\<exists>buf k'. shell_process_command [0] (lit ''help'') demo_kernel = Some (buf, k') \<and> out_ok k'"
proof -
  let ?c = "lit ''help''"
  have t: "trim (cstr ?c) = [104, 101, 108, 112]" "0 \<in> set ?c" "length (cstr ?c) \<le> 255"
    by (simp_all add: lit_def trim_def is_ws_def)
  have f: "find_command (command_table args) [104, 101, 108, 112] = Some cmd_help" for args
    by (simp add: find_command_def command_table_def)
  obtain b k' where r: "shell_process_command [0] ?c demo_kernel = Some (b, k')"
    by (rule shell_process_command_run [OF demo_history(1) t(2,3), of "[0]"]) (auto simp: t(1) f cmd_help_def)
  then show ?thesis using shell_output_typed [OF r demo_shell_ok _ t(2,3)] by auto
qed

end
