(* ===== verification/Shell_Files.thy ===== *)
theory Shell_Files
  imports Shell_Output
begin

text \<open>The file commands of the shell on a mounted file system: what \<open>touch\<close> makes and what \<open>cat\<close> then says of it.\<close>

section \<open>The file system under the shell\<close>

lemma on_fs_Some: "f (fs_of k) = Some (r, s) \<Longrightarrow> on_fs f k = Some (r, k\<lparr>k_fs := s, k_heap := fs_heap s\<rparr>)"
  by (simp add: on_fs_def)

lemma fs_of_put [simp]: "fs_of (put es k) = fs_of k"
  by (simp add: fs_of_def put_def)

lemma put_fields [simp]:
  "k_out (put es k) = k_out k @ es" "put es (k\<lparr>k_fs := s, k_heap := h\<rparr>) = (put es k)\<lparr>k_fs := s, k_heap := h\<rparr>"
  by (simp_all add: put_def)

lemma fs_ok_ticks [simp]: "fs_ok (s\<lparr>ticks := t\<rparr>) bs = fs_ok s bs"
  by (simp add: fs_ok_def fs_mem_def dir_ok_def file_ok_def maps_ok_def good_def)

lemma fs_of_fields [simp]: "fs_disk (fs_of k) = fs_disk (k_fs k)" "inode_bitmap (fs_of k) = inode_bitmap (k_fs k)"
  "data_bitmap (fs_of k) = data_bitmap (k_fs k)" "fs_initialized (fs_of k) = fs_initialized (k_fs k)"
  by (simp_all add: fs_of_def)

lemma root_list_disk: "fs_disk s = fs_disk s' \<Longrightarrow> root_list s = root_list s'"
  by (simp add: root_list_def)

text \<open>The file system a command leaves is the one the next command finds.\<close>

lemma fs_of_next: "fs_ok s bs \<Longrightarrow> fs_ok (fs_of (k\<lparr>k_fs := s, k_heap := fs_heap s\<rparr>)) bs"
  by (simp add: fs_of_def)

lemma good_path_strlen:
  assumes "good_path p"
  shows "\<exists>n. strlen p = Some n \<and> n \<noteq> 0"
proof -
  have p: "0 \<in> set p" "path_name p \<noteq> []" using assms by (simp_all add: good_path_def)
  then have "cstr p \<noteq> []" by (cases p) (auto simp: path_name_def split: if_splits)
  then show ?thesis using p(1) by (simp add: strlen_eq)
qed

text \<open>Looking a name up from a command.\<close>

lemma on_fs_exists:
  assumes "fs_ok (fs_of k) bs" and "good_path args"
  shows "\<exists>s. on_fs (fs_exists (Some args)) k = Some (map_of (root_list (fs_of k)) (path_name args) \<noteq> None, k\<lparr>k_fs := s, k_heap := fs_heap s\<rparr>) \<and>
    fs_ok s bs \<and> fs_disk s = fs_disk (k_fs k) \<and> inode_bitmap s = inode_bitmap (k_fs k) \<and> data_bitmap s = data_bitmap (k_fs k)"
proof -
  obtain h where h: "path_lookup (Some args) (fs_of k) = Some (map_of (root_list (fs_of k)) (path_name args), (fs_of k)\<lparr>fs_heap := h\<rparr>)" "heap_ok h bs"
    using path_lookup_map [OF assms] by blast
  then have "on_fs (fs_exists (Some args)) k = Some (map_of (root_list (fs_of k)) (path_name args) \<noteq> None,
      k\<lparr>k_fs := (fs_of k)\<lparr>fs_heap := h\<rparr>, k_heap := fs_heap ((fs_of k)\<lparr>fs_heap := h\<rparr>)\<rparr>)"
    by (intro on_fs_Some) (simp add: fs_exists_def)
  then show ?thesis using fs_ok_heap [OF assms(1) h(2)] by (intro exI [of _ "(fs_of k)\<lparr>fs_heap := h\<rparr>"]) simp
qed

lemma on_fs_stat:
  assumes "fs_ok (fs_of k) bs" and "good_path args" and "map_of (root_list (fs_of k)) (path_name args) = Some n" and "n < 384"
  shows "\<exists>s. on_fs (fs_stat (Some args)) k = Some (Some (inode_at (fs_disk (k_fs k)) n), k\<lparr>k_fs := s, k_heap := fs_heap s\<rparr>)"
proof -
  note f = fs_okD [OF assms(1)]
  obtain h where h: "path_lookup (Some args) (fs_of k) = Some (Some n, (fs_of k)\<lparr>fs_heap := h\<rparr>)" "heap_ok h bs"
    using path_lookup_map [OF assms(1,2)] assms(3) by auto
  let ?s = "(fs_of k)\<lparr>fs_heap := h\<rparr>"
  have "fs_ok ?s bs" by (rule fs_ok_heap [OF assms(1) h(2)])
  from fs_okD [OF this] have g: "rd_ok (fs_disk ?s)" "fs_mem 1 ?s bs" by (auto simp: dir_ok_def dest: file_okD)
  obtain h' where "read_inode n ?s = Some (Some (inode_at (fs_disk ?s) n), ?s\<lparr>fs_heap := h'\<rparr>)"
    by (rule read_inode_ok [OF g, of n]) (use assms(4) order_less_trans [of n 384 FS_MAX_INODES] in simp_all)
  then have "fs_stat (Some args) (fs_of k) = Some (Some (inode_at (fs_disk (k_fs k)) n), ?s\<lparr>fs_heap := h'\<rparr>)"
    using h(1) f(5) by (simp add: fs_stat_def)
  then show ?thesis by (intro exI) (rule on_fs_Some)
qed

text \<open>\<open>cat\<close> on a name whose mode is not exactly \<open>FS_TYPE_FILE\<close> in its low byte.\<close>

lemma cat_refuses:
  assumes "fs_ok (fs_of k) bs" and "good_path args" and "map_of (root_list (fs_of k)) (path_name args) = Some n" and "n < 384"
    and "i_mode (inode_at (fs_disk (k_fs k)) n) AND 0xFF \<noteq> FS_TYPE_FILE"
  shows "\<exists>k' es. cmd_cat args k = Some k' \<and> k_out k' = k_out k @ es @
    [sayc COLOR_RED (''Error: '' @ [CHR 0x27]), Write args, say ([CHR 0x27] @ '' is a directory\<newline>\<newline>'')]"
proof -
  have i: "fs_is_initialized (k_fs k) \<noteq> 0" using fs_okD(5) [OF assms(1)] by (simp add: fs_is_initialized_def)
  obtain l where l: "strlen args = Some l" "l \<noteq> 0" using good_path_strlen [OF assms(2)] by blast
  let ?k0 = "put [sayc COLOR_MAGENTA ''[DEBUG] Reading file: '', Write args, say ''\<newline>''] (put [say ''\<newline>''] k)"
  obtain s where s: "on_fs (fs_exists (Some args)) ?k0 = Some (True, ?k0\<lparr>k_fs := s, k_heap := fs_heap s\<rparr>)" "fs_ok s bs" "fs_disk s = fs_disk (k_fs k)"
    using on_fs_exists [of ?k0 bs args] assms(1,2,3) by auto
  let ?k1 = "put [sayc COLOR_MAGENTA ''[DEBUG] File exists\<newline>''] (?k0\<lparr>k_fs := s, k_heap := fs_heap s\<rparr>)"
  have f1: "fs_ok (fs_of ?k1) bs" unfolding fs_of_put by (rule fs_of_next [OF s(2)])
  have d1: "fs_disk (k_fs ?k1) = fs_disk (k_fs k)" using s(3) by simp
  have r1: "root_list (fs_of ?k1) = root_list (fs_of k)" by (rule root_list_disk) (use d1 in simp)
  obtain s' where s': "on_fs (fs_stat (Some args)) ?k1 = Some (Some (inode_at (fs_disk (k_fs k)) n), ?k1\<lparr>k_fs := s', k_heap := fs_heap s'\<rparr>)"
    using on_fs_stat [OF f1 assms(2) _ assms(4)] assms(3) r1 d1 by auto
  show ?thesis
    unfolding cmd_cat_def Let_def using i l s(1) s' assms(5) by simp
qed

text \<open>\<open>touch\<close> on a new name.\<close>

lemma touch_ok:
  assumes "fs_ok (fs_of k) bs" and "good_path args" and "length (path_name args) \<le> 27"
    and "map_of (root_list (fs_of k)) (path_name args) = None" and "j < 384" and "j \<notin> bits (inode_bitmap (k_fs k))"
    and "length (root_list (fs_of k)) < 160" and "\<not> {..<1981} \<subseteq> bits (data_bitmap (k_fs k))"
  obtains k1 n t us vs where "cmd_touch args k = Some k1"
    and "k_out k1 = k_out k @ [say ''\<newline>'', sayc COLOR_GREEN ''Created file: '', Write args, say ''\<newline>\<newline>'']"
    and "fs_ok (fs_of k1) bs" and "root_list (fs_of k) = us @ vs" and "root_list (fs_of k1) = us @ (path_name args, n) # vs"
    and "n \<noteq> 0" and "n < 384" and "unat n \<notin> bits (inode_bitmap (k_fs k))"
    and "bits (inode_bitmap (k_fs k1)) = insert (unat n) (bits (inode_bitmap (k_fs k)))"
    and "inode_at (fs_disk (k_fs k1)) n = new_inode (FS_TYPE_FILE OR FS_PERM_DEFAULT) t"
proof -
  have i: "fs_is_initialized (k_fs k) \<noteq> 0" using fs_okD(5) [OF assms(1)] by (simp add: fs_is_initialized_def)
  obtain l where l: "strlen args = Some l" "l \<noteq> 0" using good_path_strlen [OF assms(2)] by blast
  let ?k0 = "put [say ''\<newline>''] k"
  obtain s where s: "on_fs (fs_exists (Some args)) ?k0 = Some (False, ?k0\<lparr>k_fs := s, k_heap := fs_heap s\<rparr>)" "fs_ok s bs"
      "fs_disk s = fs_disk (k_fs k)" "inode_bitmap s = inode_bitmap (k_fs k)" "data_bitmap s = data_bitmap (k_fs k)"
    using on_fs_exists [of ?k0 bs args] assms(1,2,4) by auto
  let ?k1 = "?k0\<lparr>k_fs := s, k_heap := fs_heap s\<rparr>"
  have ok: "fs_ok (fs_of ?k1) bs" by (rule fs_of_next [OF s(2)])
  have r: "root_list (fs_of ?k1) = root_list (fs_of k)" by (rule root_list_disk) (use s(3) in simp)
  have new: "map_of (root_list (fs_of ?k1)) (path_name args) = None" "FS_TYPE_FILE \<noteq> FS_TYPE_DIR" "j < 384" "j \<notin> bits (inode_bitmap (fs_of ?k1))"
    using assms(4-6) r s(4) by simp_all
  from ok assms(2) new show ?thesis
  proof (cases rule: fs_create_file_ok)
    case (full s')
    then show ?thesis using assms(7,8) r s(5) by simp
  next
    case (created n s' us vs)
    let ?k2 = "?k1\<lparr>k_fs := s', k_heap := fs_heap s'\<rparr>"
    let ?k3 = "put [sayc COLOR_GREEN ''Created file: '', Write args, say ''\<newline>\<newline>''] ?k2"
    have c: "on_fs (fs_create (Some args) FS_TYPE_FILE) ?k1 = Some (0, ?k2)" by (rule on_fs_Some) (rule created(1))
    have touch: "cmd_touch args k = Some ?k3" unfolding cmd_touch_def Let_def using i l s(1) c by simp
    have f3: "fs_ok (fs_of ?k3) bs" unfolding fs_of_put by (rule fs_of_next [OF created(5)])
    have "root_list (fs_of ?k3) = root_list s'" by (rule root_list_disk) simp
    then have "root_list (fs_of ?k3) = us @ (path_name args, n) # vs" using created(7) assms(3) by simp
    then show ?thesis using that [OF touch _ f3 _ _ created(2,3)] created(4,6,8,9) r s(4) by simp
  qed
qed

section \<open>Properties\<close>

text \<open>
  A file that \<open>touch\<close> has just created is reported as created, and \<open>cat\<close> then refuses to show it: it says that the name is
  a directory, because it compares the low byte of the mode, which holds the default permissions too, with the type.
\<close>

theorem touch_then_cat:
  assumes "fs_ok (fs_of k) bs" and "good_path args" and "length (path_name args) \<le> 27"
    and "map_of (root_list (fs_of k)) (path_name args) = None" and "j < 384" and "j \<notin> bits (inode_bitmap (k_fs k))"
    and "length (root_list (fs_of k)) < 160" and "\<not> {..<1981} \<subseteq> bits (data_bitmap (k_fs k))"
  shows "\<exists>k1 k2 es. cmd_touch args k = Some k1 \<and>
    k_out k1 = k_out k @ [say ''\<newline>'', sayc COLOR_GREEN ''Created file: '', Write args, say ''\<newline>\<newline>''] \<and>
    cmd_cat args k1 = Some k2 \<and>
    k_out k2 = k_out k1 @ es @ [sayc COLOR_RED (''Error: '' @ [CHR 0x27]), Write args, say ([CHR 0x27] @ '' is a directory\<newline>\<newline>'')]"
proof -
  obtain k1 n t us vs where t: "cmd_touch args k = Some k1"
    "k_out k1 = k_out k @ [say ''\<newline>'', sayc COLOR_GREEN ''Created file: '', Write args, say ''\<newline>\<newline>'']"
    "fs_ok (fs_of k1) bs" "root_list (fs_of k) = us @ vs" "root_list (fs_of k1) = us @ (path_name args, n) # vs" "n < 384"
    "inode_at (fs_disk (k_fs k1)) n = new_inode (FS_TYPE_FILE OR FS_PERM_DEFAULT) t"
    by (rule touch_ok [OF assms]) blast
  have "map_of (root_list (fs_of k1)) (path_name args) = Some n"
    using t(4,5) map_of_insert_fresh [of us vs "path_name args" n] assms(4) by simp
  from cat_refuses [OF t(3) assms(2) this t(6)] t(7) obtain k' es where "cmd_cat args k1 = Some k'"
    "k_out k' = k_out k1 @ es @ [sayc COLOR_RED (''Error: '' @ [CHR 0x27]), Write args, say ([CHR 0x27] @ '' is a directory\<newline>\<newline>'')]"
    by (auto simp: new_inode_def)
  then show ?thesis using t(1,2) by (intro exI [of _ k1] exI [of _ k'] exI [of _ es]) simp
qed

lemma touch_then_cat_witness:
  "\<exists>k k1 k2. cmd_touch (lit ''a'') k = Some k1 \<and> cmd_cat (lit ''a'') k1 = Some k2 \<and>
     last (k_out k2) = say ([CHR 0x27] @ '' is a directory\<newline>\<newline>'')"
proof -
  obtain s bs where s: "fs_ok s bs" "root_list s = []" "bits (inode_bitmap s) = {0}" "bits (data_bitmap s) = {0}"
    by (rule empty_fs_exists)
  let ?k = "demo_kernel\<lparr>k_fs := s, k_heap := fs_heap s\<rparr>"
  have p: "good_path (lit ''a'')" "length (path_name (lit ''a'')) \<le> 27" by (simp_all add: good_path_def path_name_def lit_def)
  have ok: "fs_ok (fs_of ?k) bs" by (rule fs_of_next [OF s(1)])
  have r: "root_list (fs_of ?k) = []" using root_list_disk [of "fs_of ?k" s] s(2) by simp
  have free: "1 \<notin> bits (inode_bitmap (k_fs ?k))" "\<not> {..<1981} \<subseteq> bits (data_bitmap (k_fs ?k))" using s(3,4) not_full_singleton by simp_all
  have new: "map_of (root_list (fs_of ?k)) (path_name (lit ''a'')) = None" "length (root_list (fs_of ?k)) < 160" using r by simp_all
  from touch_then_cat [OF ok p new(1) _ free(1) new(2) free(2)] obtain k1 k2 es where
    "cmd_touch (lit ''a'') ?k = Some k1" "cmd_cat (lit ''a'') k1 = Some k2"
    "k_out k2 = k_out k1 @ es @ [sayc COLOR_RED (''Error: '' @ [CHR 0x27]), Write (lit ''a''), say ([CHR 0x27] @ '' is a directory\<newline>\<newline>'')]"
    by auto
  then show ?thesis by (intro exI [of _ ?k] exI [of _ k1] exI [of _ k2]) simp
qed

end
