(* ===== verification/Shell_Complete.thy ===== *)
theory Shell_Complete
  imports Shell_Output "HOL-Library.Sublist"
begin

text \<open>
  Completion with the tab key: the names that start with the line, and what becomes of the line when there is none or one.
\<close>

section \<open>Typing characters\<close>

interpretation typed: console screen_putchar screen_ok flat current_color spec_char
proof unfold_locales
  fix c s assume "screen_ok s"
  then show "\<exists>s'. screen_putchar c s = Some s' \<and> screen_ok s' \<and> current_color s' = current_color s \<and>
      flat s' = spec_char (current_color s) c (flat s)"
    by (rule putchar_internal_ok [of s c]) (auto simp: screen_putchar_def update_cursor_hw)
qed

text \<open>The characters typed from an index on replace those of the buffer and appear on the screen.\<close>

lemma type_chars_eq:
  "i + length cs \<le> length buffer \<Longrightarrow>
     type_chars i cs buffer s = map_option (Pair (take i buffer @ cs @ drop (i + length cs) buffer)) (puts screen_putchar cs s)"
proof (induction i cs buffer s rule: type_chars.induct)
  case (2 i c cs buffer s)
  have i: "i < length buffer" using "2.prems" by simp
  have t: "take (i + 1) (buffer[i := c]) = take i buffer @ [c]" using i by (simp add: take_Suc_conv_app_nth)
  have d: "drop (i + 1 + length cs) (buffer[i := c]) = drop (i + length (c # cs)) buffer" by simp
  show ?case
  proof (cases "screen_putchar c s")
    case None
    then show ?thesis using i by (simp add: store_def)
  next
    case (Some s')
    have "type_chars (i + 1) cs (buffer[i := c]) s' =
        map_option (Pair (take (i + 1) (buffer[i := c]) @ cs @ drop (i + 1 + length cs) (buffer[i := c]))) (puts screen_putchar cs s')"
      by (rule "2.IH" [of "buffer[i := c]" s']) (use "2.prems" i Some in \<open>simp_all add: store_def\<close>)
    then show ?thesis unfolding t d using Some i by (simp add: store_def)
  qed
qed simp

section \<open>The search\<close>

lemma str_starts_with_eq:
  "0 \<in> set p \<Longrightarrow> 0 \<notin> set n \<Longrightarrow> str_starts_with (n @ [0]) p = Some (prefix (cstr p) n)"
proof (induction p arbitrary: n)
  case (Cons c p)
  then show ?case by (cases n) auto
qed simp

definition starts :: "u8 list \<Rightarrow> string \<Rightarrow> bool" where
  "starts buffer name \<longleftrightarrow> prefix (cstr buffer) (map of_char name)"

lemma available_names: "name \<in> set available_commands \<Longrightarrow> CHR 0x00 \<notin> set name \<and> length name \<le> 12"
  by (auto simp: available_commands_def)

lemma search_step:
  assumes "0 \<in> set buffer" and "i < length available_commands"
  shows "str_starts_with (lit (available_commands ! i)) buffer = Some (starts buffer (available_commands ! i))"
proof -
  have n: "CHR 0x00 \<notin> set (available_commands ! i)" using available_names [OF nth_mem [OF assms(2)]] by simp
  have "cstr (lit (available_commands ! i)) = map of_char (available_commands ! i)" by (rule cstr_lit [OF n])
  then have "0 \<notin> set (map of_char (available_commands ! i) :: u8 list)" using cstr_no_nul by metis
  then show ?thesis unfolding starts_def lit_def by (rule str_starts_with_eq [OF assms(1)])
qed

lemma tab_loop_append: "tab_loop buffer (is @ js) st = do { st \<leftarrow> tab_loop buffer is st; tab_loop buffer js st }"
  by (induction "is" arbitrary: st) (simp_all add: Option.bind_assoc cong: Option.bind_cong)

lemma tab_loop_none:
  assumes "0 \<in> set buffer"
  shows "\<forall>i\<in>set is. i < length available_commands \<and> \<not> starts buffer (available_commands ! i) \<Longrightarrow> tab_loop buffer is st = Some st"
proof (induction "is")
  case (Cons i "is")
  then have "tab_step buffer i st = Some st" using search_step [OF assms, of i] by (cases st) (simp add: tab_step_def)
  then show ?case using Cons by simp
qed simp

text \<open>A single match is found, with its index and length.\<close>

lemma tab_loop_one:
  assumes "0 \<in> set buffer" and "available_commands = us @ name # vs"
    and "\<forall>u\<in>set us. \<not> starts buffer u" and "starts buffer name" and "\<forall>v\<in>set vs. \<not> starts buffer v"
  shows "tab_loop buffer [0..<length available_commands] (0, 0, 0, s) = Some (1, length us, length name, s)"
proof -
  let ?n = "length us" and ?l = "length available_commands"
  have l: "?l = ?n + Suc (length vs)" using arg_cong [OF assms(2), of length] by simp
  have split: "[0..<?l] = [0..<?n] @ ?n # [Suc ?n..<?l]" using l upt_add_eq_append [of 0 ?n "Suc (length vs)"] upt_conv_Cons [of ?n ?l] by simp
  have us: "available_commands ! i = us ! i" if "i < ?n" for i unfolding assms(2) using that by (simp add: nth_append)
  have vs: "available_commands ! i = vs ! (i - Suc ?n)" "i - Suc ?n < length vs" if "Suc ?n \<le> i" "i < ?l" for i
    using that l unfolding assms(2) by (simp_all add: nth_append nth_Cons')
  have name: "available_commands ! ?n = name" unfolding assms(2) by simp
  have first: "tab_loop buffer [0..<?n] (0, 0, 0, s) = Some (0, 0, 0, s)"
    by (rule tab_loop_none [OF assms(1)]) (use assms(3) us l in auto)
  have step: "tab_step buffer ?n (0, 0, 0, s) = Some (1, ?n, length name, s)"
    using search_step [OF assms(1), of ?n] name assms(4) l by (simp add: tab_step_def)
  have rest: "tab_loop buffer [Suc ?n..<?l] (1, ?n, length name, s) = Some (1, ?n, length name, s)"
    by (rule tab_loop_none [OF assms(1)]) (use assms(5) vs nth_mem [of _ vs] in \<open>metis atLeastLessThan_iff set_upt\<close>)
  show ?thesis unfolding split tab_loop_append first bind.bind_lunit tab_loop.simps step rest ..
qed

section \<open>Properties\<close>

text \<open>
  On a terminated line, the tab key looks for the commands that start with the line. When there is exactly one, the line becomes
  its name and a blank, and the missing characters appear on the screen; when there is none, the length of the line
  becomes 0, so that what was typed is lost while the screen still shows it.
\<close>

theorem tab_completion:
  assumes "0 \<in> set buffer" and "length (cstr buffer) = len" and "length buffer = MAX_CMD_LENGTH" and "screen_ok s"
  shows "case filter (starts buffer) available_commands of
      [] \<Rightarrow> handle_tab_completion buffer len (int MAX_CMD_LENGTH) s = Some (0, buffer, s)
    | [name] \<Rightarrow> \<exists>s'. handle_tab_completion buffer len (int MAX_CMD_LENGTH) s =
          Some (length name + 1, map of_char name @ 32 # drop (length name + 1) buffer, s') \<and>
        screen_ok s' \<and> flat s' = fold (spec_char (current_color s)) (drop len (map of_char name) @ [32]) (flat s)
    | _ \<Rightarrow> True"
proof -
  consider (none) "filter (starts buffer) available_commands = []" | (one) name where "filter (starts buffer) available_commands = [name]"
    | (more) a b xs where "filter (starts buffer) available_commands = a # b # xs"
    by (cases "filter (starts buffer) available_commands" rule: remdups_adj.cases) auto
  then show ?thesis
  proof cases
    case none
    have "tab_loop buffer [0..<length available_commands] (0, 0, 0, s) = Some (0, 0, 0, s)"
      by (rule tab_loop_none [OF assms(1)]) (use none in \<open>auto simp: filter_empty_conv dest: nth_mem\<close>)
    then show ?thesis using none by (simp add: handle_tab_completion_def del: upt_rec_numeral)
  next
    case one
    then obtain us vs where n: "available_commands = us @ name # vs" "\<forall>u\<in>set us. \<not> starts buffer u" "starts buffer name"
      "\<forall>v\<in>set vs. \<not> starts buffer v" by (auto simp: filter_eq_Cons_iff eq_commute [of "[]"] filter_empty_conv)
    note loop = tab_loop_one [OF assms(1) n]
    let ?m = "map of_char name :: u8 list"
    have l: "length name \<le> 12" using available_names [of name] unfolding n(1) by simp
    obtain zs where z: "?m = cstr buffer @ zs" using n(3) by (auto simp: starts_def prefix_def)
    have p: "take len ?m = cstr buffer" "len \<le> length ?m" unfolding z assms(2) [symmetric] by simp_all
    have pb: "take len buffer = cstr buffer" using assms(1,2) terminated_split [OF assms(1)] by (metis append_eq_conv_conj)
    obtain s1 where s1: "puts screen_putchar (drop len ?m) s = Some s1" "screen_ok s1" "current_color s1 = current_color s"
      "flat s1 = fold (spec_char (current_color s)) (drop len ?m) (flat s)"
      using typed.puts_law [OF assms(4)] by blast
    obtain s2 where s2: "puts screen_putchar [32] s1 = Some s2" "screen_ok s2" "flat s2 = spec_char (current_color s) 32 (flat s1)"
      using typed.puts_law [OF s1(2), of "[32]"] s1(3) by auto
    have t1: "type_chars len (drop len ?m) buffer s = Some (?m @ drop (length name) buffer, s1)"
      using type_chars_eq [of len "drop len ?m" buffer s] s1(1) p pb l assms(3) append_take_drop_id [of len ?m] by simp
    have t2: "type_chars (length name) [32] (?m @ drop (length name) buffer) s1 = Some (?m @ 32 # drop (length name + 1) buffer, s2)"
      using type_chars_eq [of "length name" "[32]" "?m @ drop (length name) buffer" s1] s2(1) l assms(3) by simp
    have name: "available_commands ! length us = name" unfolding n(1) by simp
    have "handle_tab_completion buffer len (int MAX_CMD_LENGTH) s = Some (length name + 1, ?m @ 32 # drop (length name + 1) buffer, s2)"
      unfolding handle_tab_completion_def loop bind.bind_lunit prod.case Let_def name using t1 t2 l by (simp del: type_chars.simps)
    then show ?thesis using one s2(2,3) s1(4) by simp
  qed simp
qed

lemma tab_completion_witness:
  "\<exists>s'. handle_tab_completion (map of_char ''ech'' @ replicate 253 0) 3 (int MAX_CMD_LENGTH) blank_screen =
     Some (5, map of_char ''echo '' @ replicate 251 0, s') \<and> screen_ok s'"
proof -
  let ?b = "map of_char ''ech'' @ replicate 253 0 :: u8 list"
  have r: "replicate 253 0 = 0 # replicate 252 (0 :: u8)" by (simp add: numeral_eq_Suc)
  have c: "cstr ?b = [101, 99, 104]" "0 \<in> set ?b" "length ?b = MAX_CMD_LENGTH" unfolding r by simp_all
  have "filter (starts ?b) available_commands = [''echo'']" unfolding starts_def c(1) by (simp add: available_commands_def)
  moreover have "drop 5 ?b = replicate 251 0" by simp
  ultimately show ?thesis using tab_completion [OF c(2) _ c(3) blank_screen_ok, of 3] c(1) by auto
qed

end
