(* ===== verification/Userlib.thy ===== *)
theory Userlib
  imports Syscall
begin

text \<open>
  The system calls as user programs make them, \<open>kernel/userlib.c\<close>, through the interrupt entry \<open>kernel/syscall.asm\<close>.
  The wrappers put the number and the arguments into registers and take the result from \<open>EAX\<close>; the registers they do not set
  hold whatever they held. The entry saves the registers on the kernel stack, passes them to \<open>syscall_dispatch\<close>, and
  restores them with the result in place of \<open>EAX\<close>; it is modelled with its pushes and pops.
\<close>

section \<open>The interrupt entry (syscall.asm)\<close>

record regs_t =
  eax :: u32
  ebx :: u32
  ecx :: u32
  edx :: u32
  esi :: u32
  edi :: u32
  ebp :: u32

text \<open>How a call ends: back in the user program, in another process, or halted.\<close>

datatype user_outcome = Resumed regs_t sys_t | Away sys_t | Halted sys_t

text \<open>The pushes: all registers, then the arguments of the dispatcher, the number last.\<close>

definition save_registers :: "regs_t \<Rightarrow> u32 list \<Rightarrow> u32 list" where
  "save_registers r stack = eax r # ebx r # ecx r # edx r # esi r # edi r # ebp r # stack"

definition push_arguments :: "regs_t \<Rightarrow> u32 list \<Rightarrow> u32 list" where
  "push_arguments r stack = eax r # ebx r # ecx r # edx r # esi r # stack"

fun restore_registers :: "u32 list \<Rightarrow> (regs_t \<times> u32 list) option" where
  "restore_registers (a # b # c # d # s # e # f # stack) =
     Some (\<lparr>eax = a, ebx = b, ecx = c, edx = d, esi = s, edi = e, ebp = f\<rparr>, stack)"
| "restore_registers _ = None"

definition syscall_interrupt_handler ::
  "u8 list \<Rightarrow> u8 list \<Rightarrow> u32 list \<Rightarrow> regs_t \<Rightarrow> sys_t \<Rightarrow> user_outcome option" where
  "syscall_interrupt_handler buffer temp stack r s =
     (case push_arguments r (save_registers r stack) of
        num # arg1 # arg2 # arg3 # arg4 # saved \<Rightarrow>
          do { out \<leftarrow> syscall_dispatch buffer temp num arg1 arg2 arg3 arg4 s;
               case out of
                 Returned v s \<Rightarrow> do { (r, rest) \<leftarrow> restore_registers (saved[0 := word_of_int v]); Some (Resumed r s) }
               | Switched s \<Rightarrow> Some (Away s)
               | Stopped s \<Rightarrow> Some (Halted s) }
      | _ \<Rightarrow> None)"

section \<open>The wrappers (userlib.c)\<close>

text \<open>\<open>w\<close> are the buffers of \<open>kprintf\<close> and the kernel stack of the process.\<close>

type_synonym world = "u8 list \<times> u8 list \<times> u32 list"

definition int_0x80 :: "world \<Rightarrow> regs_t \<Rightarrow> sys_t \<Rightarrow> user_outcome option" where
  "int_0x80 w r s = (case w of (buffer, temp, stack) \<Rightarrow> syscall_interrupt_handler buffer temp stack r s)"

definition SYSCALL0 :: "u32 \<Rightarrow> world \<Rightarrow> regs_t \<Rightarrow> sys_t \<Rightarrow> user_outcome option" where
  "SYSCALL0 num w r s = int_0x80 w (r\<lparr>eax := num\<rparr>) s"

definition SYSCALL1 :: "u32 \<Rightarrow> u32 \<Rightarrow> world \<Rightarrow> regs_t \<Rightarrow> sys_t \<Rightarrow> user_outcome option" where
  "SYSCALL1 num arg1 w r s = int_0x80 w (r\<lparr>eax := num, ebx := arg1\<rparr>) s"

definition SYSCALL2 :: "u32 \<Rightarrow> u32 \<Rightarrow> u32 \<Rightarrow> world \<Rightarrow> regs_t \<Rightarrow> sys_t \<Rightarrow> user_outcome option" where
  "SYSCALL2 num arg1 arg2 w r s = int_0x80 w (r\<lparr>eax := num, ebx := arg1, ecx := arg2\<rparr>) s"

definition SYSCALL3 :: "u32 \<Rightarrow> u32 \<Rightarrow> u32 \<Rightarrow> u32 \<Rightarrow> world \<Rightarrow> regs_t \<Rightarrow> sys_t \<Rightarrow> user_outcome option" where
  "SYSCALL3 num arg1 arg2 arg3 w r s = int_0x80 w (r\<lparr>eax := num, ebx := arg1, ecx := arg2, edx := arg3\<rparr>) s"

definition SYSCALL4 :: "u32 \<Rightarrow> u32 \<Rightarrow> u32 \<Rightarrow> u32 \<Rightarrow> u32 \<Rightarrow> world \<Rightarrow> regs_t \<Rightarrow> sys_t \<Rightarrow> user_outcome option" where
  "SYSCALL4 num arg1 arg2 arg3 arg4 w r s =
     int_0x80 w (r\<lparr>eax := num, ebx := arg1, ecx := arg2, edx := arg3, esi := arg4\<rparr>) s"

abbreviation SYS_EXIT :: u32 where "SYS_EXIT \<equiv> 0"
abbreviation SYS_WRITE :: u32 where "SYS_WRITE \<equiv> 1"
abbreviation SYS_READ :: u32 where "SYS_READ \<equiv> 2"
abbreviation SYS_GETPID :: u32 where "SYS_GETPID \<equiv> 3"
abbreviation SYS_SLEEP :: u32 where "SYS_SLEEP \<equiv> 4"
abbreviation SYS_YIELD :: u32 where "SYS_YIELD \<equiv> 5"
abbreviation SYS_SEND :: u32 where "SYS_SEND \<equiv> 6"
abbreviation SYS_RECV :: u32 where "SYS_RECV \<equiv> 7"

definition user_exit :: "u32 \<Rightarrow> world \<Rightarrow> regs_t \<Rightarrow> sys_t \<Rightarrow> user_outcome option" where
  "user_exit exit_code = SYSCALL1 SYS_EXIT exit_code"

definition user_write :: "u32 \<Rightarrow> u32 \<Rightarrow> u32 \<Rightarrow> world \<Rightarrow> regs_t \<Rightarrow> sys_t \<Rightarrow> user_outcome option" where
  "user_write fd buf count = SYSCALL3 SYS_WRITE fd buf count"

definition user_read :: "u32 \<Rightarrow> u32 \<Rightarrow> u32 \<Rightarrow> world \<Rightarrow> regs_t \<Rightarrow> sys_t \<Rightarrow> user_outcome option" where
  "user_read fd buf count = SYSCALL3 SYS_READ fd buf count"

definition getpid :: "world \<Rightarrow> regs_t \<Rightarrow> sys_t \<Rightarrow> user_outcome option" where
  "getpid = SYSCALL0 SYS_GETPID"

definition sleep_ms :: "u32 \<Rightarrow> world \<Rightarrow> regs_t \<Rightarrow> sys_t \<Rightarrow> user_outcome option" where
  "sleep_ms milliseconds = SYSCALL1 SYS_SLEEP milliseconds"

definition yield :: "world \<Rightarrow> regs_t \<Rightarrow> sys_t \<Rightarrow> user_outcome option" where
  "yield = SYSCALL0 SYS_YIELD"

definition send_msg :: "u32 \<Rightarrow> u32 \<Rightarrow> u32 \<Rightarrow> world \<Rightarrow> regs_t \<Rightarrow> sys_t \<Rightarrow> user_outcome option" where
  "send_msg target_pid message len = SYSCALL3 SYS_SEND target_pid message len"

definition recv_msg :: "u32 \<Rightarrow> u32 \<Rightarrow> u32 \<Rightarrow> world \<Rightarrow> regs_t \<Rightarrow> sys_t \<Rightarrow> user_outcome option" where
  "recv_msg buffer max_length sender = SYSCALL3 SYS_RECV buffer max_length sender"

section \<open>What a wrapper does\<close>

text \<open>The program resumes with the result in \<open>EAX\<close> and its other registers as the wrapper left them.\<close>

definition resumed :: "regs_t \<Rightarrow> sys_outcome \<Rightarrow> user_outcome" where
  "resumed r out = (case out of Returned v s \<Rightarrow> Resumed (r\<lparr>eax := word_of_int v\<rparr>) s | Switched s \<Rightarrow> Away s | Stopped s \<Rightarrow> Halted s)"

lemma int_0x80_eq:
  "int_0x80 (buffer, temp, stack) r s = map_option (resumed r) (syscall_dispatch buffer temp (eax r) (ebx r) (ecx r) (edx r) (esi r) s)"
proof (cases "syscall_dispatch buffer temp (eax r) (ebx r) (ecx r) (edx r) (esi r) s")
  case None
  then show ?thesis by (simp add: int_0x80_def syscall_interrupt_handler_def push_arguments_def save_registers_def)
next
  case (Some out)
  then show ?thesis
    by (cases out) (simp_all add: int_0x80_def syscall_interrupt_handler_def push_arguments_def save_registers_def resumed_def)
qed

text \<open>
  C34: Every wrapper of the user library reaches its own system call with its own arguments, whatever the other registers and the
  kernel stack hold; the call's result comes back in \<open>EAX\<close>, and no other register changes.
\<close>

theorem user_calls_reach_kernel:
  fixes r :: regs_t
  shows "user_exit code (bf, tp, st) r s = map_option (resumed (r\<lparr>eax := 0, ebx := code\<rparr>)) (sys_exit bf tp code s) \<and>
    user_write fd p n (bf, tp, st) r s = map_option (resumed (r\<lparr>eax := 1, ebx := fd, ecx := p, edx := n\<rparr>)) (sys_write fd p n s) \<and>
    user_read fd p n (bf, tp, st) r s = map_option (resumed (r\<lparr>eax := 2, ebx := fd, ecx := p, edx := n\<rparr>)) (sys_read fd p n s) \<and>
    getpid (bf, tp, st) r s = map_option (resumed (r\<lparr>eax := 3\<rparr>)) (sys_getpid s) \<and>
    sleep_ms ms (bf, tp, st) r s = map_option (resumed (r\<lparr>eax := 4, ebx := ms\<rparr>)) (sys_sleep ms s) \<and>
    yield (bf, tp, st) r s = map_option (resumed (r\<lparr>eax := 5\<rparr>)) (sys_yield s) \<and>
    send_msg fd p n (bf, tp, st) r s = map_option (resumed (r\<lparr>eax := 6, ebx := fd, ecx := p, edx := n\<rparr>)) (sys_send fd p n s) \<and>
    recv_msg p n q (bf, tp, st) r s = map_option (resumed (r\<lparr>eax := 7, ebx := p, ecx := n, edx := q\<rparr>)) (sys_recv p n q s)"
  by (simp add: user_exit_def user_write_def user_read_def getpid_def sleep_ms_def yield_def send_msg_def recv_msg_def
      SYSCALL0_def SYSCALL1_def SYSCALL3_def int_0x80_eq syscall_dispatch_def syscall_table_def word_le_nat_alt)

end
