(* ===== verification/Kernel_Boot.thy ===== *)
theory Kernel_Boot
  imports Shell_Files Userlib
begin

text \<open>
  The boot sequence \<open>kernel_main\<close> of \<open>kernel/kernel.c\<close>: the components are set up in the order of the code, the file
  system is formatted and mounted, and the shell starts. The console calls of \<open>kernel.c\<close> itself and of the set-up functions whose
  model has a screen appear on the screen; the diagnostics of the memory, disk and process layers do not, and no interrupt arrives before
  the shell runs.
\<close>

section \<open>Booting (kernel.c)\<close>

record system_t =
  sc_screen :: screen_t
  sc_gdt :: gdt_state
  sc_idt :: idt_state
  sc_kbd :: keyboard_t
  sc_kernel :: kernel_t

text \<open>Physical memory, heap, paging and the RAM disk, in this order.\<close>

definition boot_memory :: "kernel_t \<Rightarrow> kernel_t option" where
  "boot_memory k =
     do { m \<leftarrow> pmm_init;
          let k = k\<lparr>k_proc := (k_proc k)\<lparr>pr_paging := (pr_paging (k_proc k))\<lparr>pg_pmm := m\<rparr>\<rparr>\<rparr>;
          let k = k\<lparr>k_heap := heap_init (k_heap k)\<rparr>;
          let k = k\<lparr>k_proc := (k_proc k)\<lparr>pr_paging := paging_init (pr_paging (k_proc k))\<rparr>\<rparr>;
          (d, h) \<leftarrow> ramdisk_init (disk_of k) (k_heap k);
          Some ((set_disk d k)\<lparr>k_heap := h\<rparr>) }"

definition boot_fs :: "kernel_t \<Rightarrow> kernel_t option" where
  "boot_fs k =
     do { let k = put [sayc COLOR_CYAN ''[KERNEL] '', say ''Checking file system status...\<newline>''] k;
          k \<leftarrow> (if fs_is_initialized (k_fs k) = 0
                then do { let k = put [sayc COLOR_YELLOW ''[KERNEL] '', say ''File system not initialized, formatting...\<newline>''] k;
                          (_, k) \<leftarrow> on_fs (\<lambda>s. do { s \<leftarrow> fs_format s; Some ((), s) }) k;
                          Some (put [sayc COLOR_GREEN ''[KERNEL] '', say ''Format complete, mounting file system...\<newline>''] k) }
                else Some (put [sayc COLOR_CYAN ''[KERNEL] '', say ''File system already initialized, mounting...\<newline>''] k));
          (_, k) \<leftarrow> on_fs (\<lambda>s. do { s \<leftarrow> fs_init s; Some ((), s) }) k;
          Some (put
            (if fs_is_initialized (k_fs k) \<noteq> 0
             then [sayc COLOR_GREEN ''[KERNEL] '', say ''File system ready!\<newline>'']
             else [sayc COLOR_RED ''[KERNEL] '', say ''ERROR: File system mount failed!\<newline>'']) k) }"

text \<open>
  Everything up to the shell. \<open>w\<close> are the uninitialised buffers of the console functions, \<open>at\<close> the addresses of statics
  and functions by name, \<open>stub\<close> those of the interrupt stubs.
\<close>

definition kernel_init :: "u8 list \<times> u8 list \<times> u8 list \<Rightarrow> (string \<Rightarrow> u32) \<Rightarrow> (nat \<Rightarrow> u32) \<Rightarrow> system_t \<Rightarrow> system_t option" where
  "kernel_init w at stub m =
     (case w of (dec, buffer, temp) \<Rightarrow>
      do { let s = screen_init (sc_screen m);
           s \<leftarrow> play dec buffer temp
                 [sayc COLOR_CYAN ''[BOOT] '', say ''Wittche OS kernel loaded at '', WriteHex 0x10000, say ''\<newline>''] s;
           (g, s) \<leftarrow> gdt_init (at ''gdt_entries'') (at ''tss_entry'') buffer temp (sc_gdt m) s;
           (t, s) \<leftarrow> idt_init (at ''idt'') stub (sc_idt m) s;
           (t, s) \<leftarrow> syscall_init (at ''syscall_interrupt_handler'') buffer temp t s;
           k \<leftarrow> boot_memory (sc_kernel m);
           k \<leftarrow> boot_fs k;
           s \<leftarrow> play dec buffer temp (k_out k) s;
           (_, k) \<leftarrow> on_proc (\<lambda>p. do { p \<leftarrow> process_init (at ''idle_task'') p; Some ((), p) }) (k\<lparr>k_out := []\<rparr>);
           (ticks, s) \<leftarrow> timer_init dec s;
           let k = k\<lparr>k_proc := (k_proc k)\<lparr>system_ticks := ticks\<rparr>\<rparr>;
           (kbd, s) \<leftarrow> keyboard_init (sc_kbd m) s;
           let k = shell_display_banner k;
           s \<leftarrow> play dec buffer temp (k_out k) s;
           Some (m\<lparr>sc_screen := s, sc_gdt := g, sc_idt := t, sc_kbd := kbd, sc_kernel := k\<lparr>k_out := []\<rparr>\<rparr>) })"

text \<open>The shell runs on the lines typed so far; the code after its endless loop is not reached.\<close>

definition kernel_main ::
  "u8 list \<times> u8 list \<times> u8 list \<Rightarrow> u8 list \<Rightarrow> (string \<Rightarrow> u32) \<Rightarrow> (nat \<Rightarrow> u32) \<Rightarrow> u8 list \<Rightarrow> u8 list list \<Rightarrow> system_t \<Rightarrow> system_t option" where
  "kernel_main w slack at stub command_buffer typed m =
     do { m \<leftarrow> kernel_init w at stub m;
          (k, s) \<leftarrow> shell_run w slack typed command_buffer (sc_kernel m) (sc_screen m);
          Some (m\<lparr>sc_kernel := k, sc_screen := s\<rparr>) }"

section \<open>Memory after the first steps\<close>

abbreviation disk_tiles :: "tile list" where
  "disk_tiles \<equiv> [(0x200000, 0x100010, False), (0x300010, 0x2FFFF0, True)]"

lemma ramdisk_on_fresh_heap:
  "\<exists>d' h'. ramdisk_init d (heap_init h) = Some (d', h') \<and> rd_ok d' \<and> rd_data d' = 0x200010 \<and> heap_ok h' disk_tiles"
proof -
  have "a_alloc (block_total RAMDISK_SIZE) [(HEAP_START, HEAP_SIZE, True)] = Some (0x200000, disk_tiles)"
    by (simp add: block_total_def align_size_def)
  then obtain h' where "kmalloc RAMDISK_SIZE (heap_init h) = Some (0x200010, h')" "heap_ok h' disk_tiles"
    using kmalloc_ok [OF heap_init_ok [of h], of RAMDISK_SIZE] by auto
  then show ?thesis by (simp add: ramdisk_init_def rd_memset_def rd_ok_def Let_def)
qed

lemma can_alloc_disk: "can_alloc 6 disk_tiles"
proof -
  have "6 = Suc (Suc (Suc (Suc (Suc (Suc 0)))))" by simp
  then show ?thesis by (rule ssubst) simp
qed

text \<open>The state at power-on as far as the boot relies on it: sizes of the static arrays, zeroed statics and memory.\<close>

definition powered_on :: "system_t \<Rightarrow> bool" where
  "powered_on m \<longleftrightarrow> length (video_memory (sc_screen m)) = 2000 \<and> length (gdt_entries (sc_gdt m)) = 6 \<and> length (idt (sc_idt m)) = 256 \<and>
     (let k = sc_kernel m; p = pr_paging (k_proc k); f = k_fs k in
      history_ok k \<and> k_out k = [] \<and> statics_ok (kernel_directory p) (early_page_tables p) \<and>
      fs_initialized f = 0 \<and> inode_bitmap_ptr f = 0 \<and> data_bitmap_ptr f = 0 \<and>
      (\<forall>q. 5 \<le> length (pr_name (pcbs (k_proc k) q)) \<and> 0 \<in> set (pr_name (pcbs (k_proc k) q))))"

lemma boot_memory_ok:
  assumes "statics_ok (kernel_directory (pr_paging (k_proc k))) (early_page_tables (pr_paging (k_proc k)))"
  shows "\<exists>k'. boot_memory k = Some k' \<and> rd_ok (disk_of k') \<and> rd_data (disk_of k') = HEAP_START + 16 \<and> heap_ok (k_heap k') disk_tiles \<and>
    pmm_inv (pmm_of k') \<and> used_set (pmm_of k') = {0..<512} \<and>
    k' = k\<lparr>k_heap := k_heap k', k_proc := (k_proc k)\<lparr>pr_paging := pr_paging (k_proc k')\<rparr>, k_fs := (k_fs k)\<lparr>fs_disk := disk_of k'\<rparr>\<rparr>"
proof -
  obtain q where q: "pmm_init = Some q" "pmm_inv q" "used_set q = {0..<512}" by (rule pmm_init_obtain)
  let ?p = "(pr_paging (k_proc k))\<lparr>pg_pmm := q\<rparr>"
  have "statics_ok (kernel_directory ?p) (early_page_tables ?p)" using assms by simp
  then have m: "pg_pmm (paging_init ?p) = q" by (rule paging_init_state) simp
  obtain d h where d: "ramdisk_init (disk_of k) (heap_init (k_heap k)) = Some (d, h)" "rd_ok d" "rd_data d = 0x200010" "heap_ok h disk_tiles"
    using ramdisk_on_fresh_heap by blast
  have "boot_memory k = Some (k\<lparr>k_proc := (k_proc k)\<lparr>pr_paging := paging_init ?p\<rparr>, k_fs := (k_fs k)\<lparr>fs_disk := d\<rparr>, k_heap := h\<rparr>)"
    using d(1) unfolding boot_memory_def q(1) by (simp add: set_disk_def disk_of_def Let_def)
  then show ?thesis using d(2-4) q(2,3) m by (simp add: disk_of_def pmm_of_def)
qed

lemma boot_fs_ok:
  assumes "rd_ok (disk_of k)" and "heap_ok (k_heap k) disk_tiles" and "fs_initialized (k_fs k) = 0"
    and "inode_bitmap_ptr (k_fs k) = 0" and "data_bitmap_ptr (k_fs k) = 0"
  shows "\<exists>k' cs es. boot_fs k = Some k' \<and> fs_ok (k_fs k') cs \<and> root_list (k_fs k') = [] \<and> heap_ok (k_heap k') cs \<and>
    k_out k' = k_out k @ es \<and> list_all event_ok es \<and> (\<forall>e\<in>set es. event_args e = []) \<and>
    k' = k\<lparr>k_fs := k_fs k', k_heap := k_heap k', k_out := k_out k'\<rparr>"
proof -
  let ?k0 = "put [sayc COLOR_YELLOW ''[KERNEL] '', say ''File system not initialized, formatting...\<newline>'']
    (put [sayc COLOR_CYAN ''[KERNEL] '', say ''Checking file system status...\<newline>''] k)"
  have f: "rd_ok (fs_disk (fs_of k))" "fs_mem (6 + 0) (fs_of k) disk_tiles" "inode_bitmap_ptr (fs_of k) = 0" "data_bitmap_ptr (fs_of k) = 0"
    using assms can_alloc_disk by (simp_all add: fs_of_def disk_of_def fs_mem_def)
  obtain s1 s2 cs where s: "fs_format (fs_of k) = Some s1" "fs_init s1 = Some s2" "fs_ok s2 cs" "root_list s2 = []"
    using fs_format_init_ok [OF f] by (elim exE conjE) (rule that)
  have "fs_mem (Suc (Suc (Suc 3))) (fs_of k) disk_tiles" using f(2) by (simp add: numeral_eq_Suc)
  from f(1) this f(3,4) have "ticks s1 = ticks (fs_of k)" by (rule fs_format_ok) (use s(1) in simp)
  then have s1: "s1\<lparr>fs_heap := fs_heap s1, ticks := system_ticks (k_proc k)\<rparr> = s1" by (simp add: fs_of_def)
  let ?es = "[sayc COLOR_CYAN ''[KERNEL] '', say ''Checking file system status...\<newline>'', sayc COLOR_YELLOW ''[KERNEL] '',
    say ''File system not initialized, formatting...\<newline>'', sayc COLOR_GREEN ''[KERNEL] '', say ''Format complete, mounting file system...\<newline>'',
    sayc COLOR_GREEN ''[KERNEL] '', say ''File system ready!\<newline>'']"
  have "boot_fs k = Some (k\<lparr>k_fs := s2, k_heap := fs_heap s2, k_out := k_out k @ ?es\<rparr>)"
    using assms(3) s(1,2) s1 fs_okD(5) [OF s(3)]
    by (simp add: boot_fs_def on_fs_def fs_is_initialized_def fs_of_def put_def Let_def)
  then show ?thesis using s(3,4) fs_okD(6) [OF s(3)] by (auto simp: say_def sayc_def)
qed

section \<open>The first process\<close>

lemma process_init_ok:
  assumes "heap_inv (pr_heap s)" and "\<forall>q. 5 \<le> length (pr_name (pcbs s q)) \<and> 0 \<in> set (pr_name (pcbs s q))"
  shows "\<exists>s'. process_init idle s = Some s' \<and> heap_inv (pr_heap s') \<and> (\<forall>q. 0 \<in> set (pr_name (pcbs s' q)))"
proof -
  let ?s = "s\<lparr>process_table := replicate MAX_PROCESSES 0\<rparr>"
  have "heap_inv (pr_heap ?s)" using assms(1) by simp
  then obtain p h where p: "pr_kmalloc SIZEOF_PCB ?s = Some (p, ?s\<lparr>pr_heap := h\<rparr>)" "heap_inv h" by (rule pr_kmalloc_ok)
  show ?thesis
  proof (cases "p = 0")
    case True
    then show ?thesis using p assms(2) by (simp add: process_init_def Let_def)
  next
    case False
    have "5 \<le> length (pr_name (pcbs s p))" using assms(2) by blast
    then have "length (cstr [105, 100, 108, 101, 0]) < length (pr_name (pcbs s p))" by simp
    from strcpy_eq [OF _ this] obtain name where n: "strcpy (pr_name (pcbs s p)) [105, 100, 108, 101, 0] = Some name" "0 \<in> set name" by auto
    define s1 where "s1 = upd_pcb p (\<lambda>b. b\<lparr>pr_pid := 0, pr_name := name, pr_state := READY, pr_priority := 0,
        pr_time_slice := 10, pr_total_time := 0, pr_next := 0,
        pr_page_directory := paging_get_directory (pr_paging s), pr_stack_size := 4096\<rparr>) (?s\<lparr>pr_heap := h, idle_process := p\<rparr>)"
    have h1: "heap_inv (pr_heap s1)" using p(2) by (simp add: s1_def upd_pcb_def)
    obtain b h2 where b: "pr_kmalloc 4096 s1 = Some (b, s1\<lparr>pr_heap := h2\<rparr>)" "heap_inv h2"
      "b \<noteq> 0 \<Longrightarrow> b \<in> owned h2 \<and> 4096 \<le> room h2 b" by (rule pr_kmalloc_ok [OF h1, where n = 4096]) auto
    have "\<exists>t. poke32 b (b + 4096 - 4) idle (s1\<lparr>pr_heap := h2\<rparr>) = Some t"
    proof (cases "b = 0")
      case True
      then show ?thesis using poke32_low by simp
    next
      case b0: False
      then show ?thesis using poke32_ok [of "s1\<lparr>pr_heap := h2\<rparr>" b "b + 4096 - 4"] b(2,3) by simp
    qed
    then obtain t h3 where t: "poke32 b (b + 4096 - 4) idle (s1\<lparr>pr_heap := h2\<rparr>) = Some t" "t = s1\<lparr>pr_heap := h3\<rparr>" "heap_inv h3"
      using poke32_SomeD b(2) by fastforce
    show ?thesis
      using p(1) False n b(1) s1_def t assms(2) by (simp add: process_init_def Let_def upd_pcb_def)
  qed
qed

lemma syscall_init_ok:
  assumes "screen_ok s" and "length buffer = 32" and "length temp = 32" and "length (idt t) = 256"
  shows "\<exists>t' s'. syscall_init handler buffer temp t s = Some (t', s') \<and> screen_ok s' \<and>
    (\<forall>n < 256. n \<noteq> 0x80 \<longrightarrow> idt t' ! n = idt t ! n) \<and> gate_target (idt t' ! 0x80) = handler \<and> type_attr (idt t' ! 0x80) = 0xEE"
proof -
  have k: "\<exists>s'. kprintf (lit str) args buffer temp s = Some s' \<and> screen_ok s'" if "screen_ok s" "fmt_ok str args" "Word 0x80000000 \<notin> set args" for s str args
    using kprintf_internal_total [OF that(1) assms(2,3) args_ok_lit [OF that(2)] that(3)] by (simp add: kprintf_def)
  obtain s1 where s1: "kprintf (lit (''[SYSCALL] System call interface initialized (INT 0x80)'' @ [CHR 10])) [] buffer temp s = Some s1" "screen_ok s1"
    using k [OF assms(1), of "''[SYSCALL] System call interface initialized (INT 0x80)'' @ [CHR 10]" "[]"] by auto
  obtain s2 where s2: "kprintf (lit (''[SYSCALL] Available syscalls: %d'' @ [CHR 10])) [Word SYSCALL_MAX] buffer temp s1 = Some s2" "screen_ok s2"
    using k [OF s1(2), of "''[SYSCALL] Available syscalls: %d'' @ [CHR 10]" "[Word SYSCALL_MAX]"] by auto
  show ?thesis using s1(1) s2 assms(4) by (simp add: syscall_init_def idt_set_gate_nth gate_target_def join_target)
qed

lemma timer_init_ok:
  assumes "screen_ok s" and "length dec = 12"
  shows "\<exists>s'. timer_init dec s = Some (0, s') \<and> screen_ok s'"
proof -
  define s0 where "s0 = outb PIT_CHANNEL0 (ucast (drop_bit 8 (PIT_BASE_FREQUENCY div TIMER_FREQUENCY) AND 0xFF))
    (outb PIT_CHANNEL0 (ucast (PIT_BASE_FREQUENCY div TIMER_FREQUENCY AND 0xFF)) (outb PIT_COMMAND 0x36 s))"
  let ?es = "[WriteColor (lit ''[TIMER] '') (MAKE_COLOR 2 0), say ''PIT initialized at '', WriteDec TIMER_FREQUENCY, say '' Hz ('',
    WriteDec (1000 div TIMER_FREQUENCY), say (''ms per tick)'' @ [CHR 10])]"
  have "screen_ok s0" using assms(1) by (simp add: s0_def outb_def screen_ok_def)
  moreover have "list_all event_ok ?es" "\<forall>e\<in>set ?es. Word 0x80000000 \<notin> set (event_args e)" by (simp_all add: say_def)
  ultimately obtain s' where s': "play dec (replicate 32 0) (replicate 32 0) ?es s0 = Some s'" "screen_ok s'"
    using play_total [OF assms(2), of "replicate 32 0" "replicate 32 0" s0 ?es] by auto
  then have "timer_init dec s = Some (0, s')"
    unfolding timer_init_def s0_def Let_def say_def by (auto split: Option.bind_splits)
  then show ?thesis using s'(2) by simp
qed

lemma keyboard_init_ok: "screen_ok s \<Longrightarrow> \<exists>kbd' s'. keyboard_init kbd s = Some (kbd', s') \<and> screen_ok s'"
proof -
  assume "screen_ok s"
  then obtain s1 where s1: "screen_write_color (Some (lit ''[KEYBOARD] '')) (MAKE_COLOR 2 0) s = Some s1" "screen_ok s1"
    using screen_write_color_law [OF _ lit_nul] by blast
  obtain s2 where "screen_write (Some (lit (''Keyboard driver initialized'' @ [CHR 10]))) s1 = Some s2" "screen_ok s2"
    using screen_write_law [OF s1(2) lit_nul] by blast
  then show ?thesis using s1(1) by (simp add: keyboard_init_def Let_def)
qed

section \<open>Properties\<close>

lemma screen_init_ok: "length (video_memory s) = 2000 \<Longrightarrow> screen_ok (screen_init s)"
  by (simp add: screen_init_def Let_def screen_ok_def)

lemma play_plain:
  assumes "length dec = 12" and "length buffer = 32" and "length temp = 32" and "screen_ok s" and "list_all event_ok es" and "\<forall>e\<in>set es. event_args e = []"
  shows "\<exists>s'. play dec buffer temp es s = Some s' \<and> screen_ok s'"
  using play_total [OF assms(1-5)] assms(6) by simp

lemma idt_init_ready:
  assumes "screen_ok s" and "length (idt t) = 256"
  obtains t' s' where "idt_init a stub t s = Some (t', s')" "screen_ok s'"
    "\<forall>n < 48. gate_target (idt t' ! n) = stub n \<and> type_attr (idt t' ! n) = 0x8E" "length (idt t') = 256"
proof -
  have clear: "length (idt (fold (\<lambda>i t. t\<lparr>idt := (idt t)[i := e]\<rparr>) is t)) = length (idt t)" for e "is" and t :: idt_state
    by (induction "is" arbitrary: t) simp_all
  have fill: "length (idt (fold (\<lambda>n. idt_set_gate (of_nat n) (stub n) sel fl) is t)) = length (idt t)" for sel fl "is" t
    by (induction "is" arbitrary: t) (simp_all add: idt_set_gate_def)
  obtain t' s' where r: "idt_init a stub t s = Some (t', s')" "screen_ok s'"
    "\<forall>n < 256. if n < 48 then gate_target (idt t' ! n) = stub n \<and> selector (idt t' ! n) = 8 \<and> type_attr (idt t' ! n) = 0x8E
       else type_attr (idt t' ! n) = 0"
    using idt_init_gates [OF assms, of a stub] by (elim exE conjE) (rule that)
  have "length (idt t') = 256"
    using r(1) assms(2) unfolding idt_init_def Let_def by (auto simp: clear fill simp del: upt_Suc upt_rec_numeral split: Option.bind_splits)
  moreover have "\<forall>n < 48. gate_target (idt t' ! n) = stub n \<and> type_attr (idt t' ! n) = 0x8E" using r(3) by auto
  ultimately show ?thesis using that r(1,2) by blast
qed

text \<open>Memory, file system and processes, one after the other.\<close>

lemma boot_kernel:
  assumes "history_ok k" and "k_out k = []"
    and "statics_ok (kernel_directory (pr_paging (k_proc k))) (early_page_tables (pr_paging (k_proc k)))"
    and "fs_initialized (k_fs k) = 0" and "inode_bitmap_ptr (k_fs k) = 0" and "data_bitmap_ptr (k_fs k) = 0"
    and "\<forall>q. 5 \<le> length (pr_name (pcbs (k_proc k) q)) \<and> 0 \<in> set (pr_name (pcbs (k_proc k) q))"
  obtains k1 k2 k3 where "boot_memory k = Some k1" "boot_fs k1 = Some k2" "list_all event_ok (k_out k2)" "\<forall>e\<in>set (k_out k2). event_args e = []"
    "on_proc (\<lambda>p. do { p \<leftarrow> process_init idle p; Some ((), p) }) (k2\<lparr>k_out := []\<rparr>) = Some ((), k3)"
    "heap_inv (k_heap k3)" "shell_ok k3" "k_out k3 = []" "fs_initialized (k_fs k3) \<noteq> 0" "root_list (k_fs k3) = []"
proof -
  obtain k1 where k1: "boot_memory k = Some k1" "rd_ok (disk_of k1)" "heap_ok (k_heap k1) disk_tiles"
    "k1 = k\<lparr>k_heap := k_heap k1, k_proc := (k_proc k)\<lparr>pr_paging := pr_paging (k_proc k1)\<rparr>, k_fs := (k_fs k)\<lparr>fs_disk := disk_of k1\<rparr>\<rparr>"
    using boot_memory_ok [OF assms(3)] by (elim exE conjE) (rule that)
  have f1: "fs_initialized (k_fs k1) = 0" "inode_bitmap_ptr (k_fs k1) = 0" "data_bitmap_ptr (k_fs k1) = 0" "k_out k1 = []"
    "pcbs (k_proc k1) = pcbs (k_proc k)" "command_history k1 = command_history k" "history_count k1 = history_count k"
    by (subst k1(4), simp add: assms)+
  obtain k2 cs es where k2: "boot_fs k1 = Some k2" "fs_ok (k_fs k2) cs" "root_list (k_fs k2) = []" "heap_ok (k_heap k2) cs"
    "k_out k2 = k_out k1 @ es" "list_all event_ok es" "\<forall>e\<in>set es. event_args e = []" "k2 = k1\<lparr>k_fs := k_fs k2, k_heap := k_heap k2, k_out := k_out k2\<rparr>"
    using boot_fs_ok [OF k1(2,3) f1(1-3)] by (elim exE conjE) (rule that)
  have f2: "k_proc k2 = k_proc k1" "command_history k2 = command_history k" "history_count k2 = history_count k"
    by (subst k2(8), simp add: f1)+
  let ?p = "(k_proc k2)\<lparr>pr_heap := k_heap k2\<rparr>"
  have h: "heap_inv (pr_heap ?p)" using k2(4) by (auto simp: heap_inv_def)
  have n: "\<forall>q. 5 \<le> length (pr_name (pcbs ?p q)) \<and> 0 \<in> set (pr_name (pcbs ?p q))" using assms(7) by (simp add: f2(1) f1(5))
  obtain p where p: "process_init idle ?p = Some p" "heap_inv (pr_heap p)" "\<forall>q. 0 \<in> set (pr_name (pcbs p q))"
    using process_init_ok [OF h n] by blast
  let ?k3 = "k2\<lparr>k_out := [], k_proc := p, k_heap := pr_heap p\<rparr>"
  have "on_proc (\<lambda>p. do { p \<leftarrow> process_init idle p; Some ((), p) }) (k2\<lparr>k_out := []\<rparr>) = Some ((), ?k3)"
    using p(1) by (simp add: on_proc_def proc_of_def)
  moreover have "shell_ok ?k3"
    using p(3) assms(1) f2(2,3) fs_okD(1) [OF k2(2)]
    by (simp add: shell_ok_def out_ok_def pcb_names_ok_def history_ok_def mounted_ok_def)
  moreover have "fs_initialized (k_fs ?k3) \<noteq> 0" "root_list (k_fs ?k3) = []" using fs_okD(5) [OF k2(2)] k2(3) by simp_all
  moreover have "list_all event_ok (k_out k2)" "\<forall>e\<in>set (k_out k2). event_args e = []" using k2(5-7) f1(4) by simp_all
  ultimately show ?thesis using that [OF k1(1) k2(1)] p(2) by simp
qed

text \<open>
  C33: From power-on, the boot gets through: it mounts an empty file system, leaves the heap, the screen and everything the shell
  relies on in order, and sets the gates of the exceptions, the interrupts and the system calls.
\<close>

theorem boot_gets_ready:
  assumes "powered_on m" and "length dec = 12" and "length buffer = 32" and "length temp = 32"
  shows "\<exists>m'. kernel_init (dec, buffer, temp) at stub m = Some m' \<and> screen_ok (sc_screen m') \<and> shell_ok (sc_kernel m') \<and>
    heap_inv (k_heap (sc_kernel m')) \<and> fs_initialized (k_fs (sc_kernel m')) \<noteq> 0 \<and> root_list (k_fs (sc_kernel m')) = [] \<and>
    (\<forall>n < 48. gate_target (idt (sc_idt m') ! n) = stub n \<and> type_attr (idt (sc_idt m') ! n) = 0x8E) \<and>
    gate_target (idt (sc_idt m') ! 0x80) = at ''syscall_interrupt_handler'' \<and> type_attr (idt (sc_idt m') ! 0x80) = 0xEE"
proof -
  let ?k = "sc_kernel m"
  have p: "length (video_memory (sc_screen m)) = 2000" "length (gdt_entries (sc_gdt m)) = 6" "length (idt (sc_idt m)) = 256"
    "history_ok ?k" "k_out ?k = []" "statics_ok (kernel_directory (pr_paging (k_proc ?k))) (early_page_tables (pr_paging (k_proc ?k)))"
    "fs_initialized (k_fs ?k) = 0" "inode_bitmap_ptr (k_fs ?k) = 0" "data_bitmap_ptr (k_fs ?k) = 0"
    "\<forall>q. 5 \<le> length (pr_name (pcbs (k_proc ?k) q)) \<and> 0 \<in> set (pr_name (pcbs (k_proc ?k) q))"
    using assms(1) by (simp_all add: powered_on_def Let_def)
  note play = play_plain [OF assms(2-4)]
  let ?b = "[sayc COLOR_CYAN ''[BOOT] '', say ''Wittche OS kernel loaded at '', WriteHex 0x10000, say ''\<newline>'']"
  obtain s1 where s1: "play dec buffer temp ?b (screen_init (sc_screen m)) = Some s1" "screen_ok s1"
    using play [OF screen_init_ok [OF p(1)], of ?b] by (auto simp: say_def sayc_def)
  obtain g s2 where g: "gdt_init (at ''gdt_entries'') (at ''tss_entry'') buffer temp (sc_gdt m) s1 = Some (g, s2)" "screen_ok s2"
    using gdt_init_segments [OF s1(2) assms(3,4) p(2)] by blast
  obtain t s3 where t: "idt_init (at ''idt'') stub (sc_idt m) s2 = Some (t, s3)" "screen_ok s3"
    "\<forall>n < 48. gate_target (idt t ! n) = stub n \<and> type_attr (idt t ! n) = 0x8E" "length (idt t) = 256"
    by (rule idt_init_ready [OF g(2) p(3)])
  obtain t' s4 where t': "syscall_init (at ''syscall_interrupt_handler'') buffer temp t s3 = Some (t', s4)" "screen_ok s4"
    "\<forall>n < 256. n \<noteq> 0x80 \<longrightarrow> idt t' ! n = idt t ! n" "gate_target (idt t' ! 0x80) = at ''syscall_interrupt_handler''" "type_attr (idt t' ! 0x80) = 0xEE"
    using syscall_init_ok [OF t(2) assms(3,4) t(4)] by blast
  have gates: "\<forall>n < 48. gate_target (idt t' ! n) = stub n \<and> type_attr (idt t' ! n) = 0x8E" using t(3) t'(3) by simp
  obtain k1 k2 k3 where k: "boot_memory ?k = Some k1" "boot_fs k1 = Some k2" "list_all event_ok (k_out k2)" "\<forall>e\<in>set (k_out k2). event_args e = []"
    "on_proc (\<lambda>p. do { p \<leftarrow> process_init (at ''idle_task'') p; Some ((), p) }) (k2\<lparr>k_out := []\<rparr>) = Some ((), k3)"
    "heap_inv (k_heap k3)" "shell_ok k3" "k_out k3 = []" "fs_initialized (k_fs k3) \<noteq> 0" "root_list (k_fs k3) = []"
    by (rule boot_kernel [OF p(4-10)])
  obtain s5 where s5: "play dec buffer temp (k_out k2) s4 = Some s5" "screen_ok s5" using play [OF t'(2) k(3,4)] by blast
  obtain s6 where s6: "timer_init dec s5 = Some (0, s6)" "screen_ok s6" using timer_init_ok [OF s5(2) assms(2)] by blast
  obtain kbd s7 where s7: "keyboard_init (sc_kbd m) s6 = Some (kbd, s7)" "screen_ok s7" using keyboard_init_ok [OF s6(2)] by blast
  let ?k3 = "k3\<lparr>k_proc := (k_proc k3)\<lparr>system_ticks := 0\<rparr>\<rparr>"
  have "list_all event_ok (k_out (shell_display_banner ?k3))" "\<forall>e\<in>set (k_out (shell_display_banner ?k3)). event_args e = []"
    using k(8) by (simp_all add: shell_display_banner_def say_def sayc_def)
  then obtain s8 where s8: "play dec buffer temp (k_out (shell_display_banner ?k3)) s7 = Some s8" "screen_ok s8" using play [OF s7(2)] by blast
  let ?k4 = "(shell_display_banner ?k3)\<lparr>k_out := []\<rparr>"
  have k4: "?k4 = k3\<lparr>k_proc := (k_proc k3)\<lparr>system_ticks := 0\<rparr>\<rparr>" using k(8) by (simp add: shell_display_banner_def put_def)
  let ?m = "m\<lparr>sc_screen := s8, sc_gdt := g, sc_idt := t', sc_kbd := kbd, sc_kernel := ?k4\<rparr>"
  have "kernel_init (dec, buffer, temp) at stub m = Some ?m"
    unfolding kernel_init_def prod.case Let_def s1(1) g(1) t(1) t'(1) k(1,2,5) s5(1) s6(1) s7(1) s8(1) bind.bind_lunit ..
  moreover have "shell_ok ?k4" using k(7) unfolding k4 by (simp add: shell_ok_def out_ok_def pcb_names_ok_def history_ok_def mounted_ok_def)
  moreover have "heap_inv (k_heap ?k4)" "fs_initialized (k_fs ?k4) \<noteq> 0" "root_list (k_fs ?k4) = []" unfolding k4 using k(6,9,10) by simp_all
  ultimately show ?thesis using s8(2) gates t'(4,5) by (intro exI [of _ ?m]) simp
qed

definition demo_system :: system_t where
  "demo_system = \<lparr>sc_screen = \<lparr>cursor_row = 0, cursor_col = 0, current_color = 0, video_memory = replicate 2000 0, out_ports = []\<rparr>,
     sc_gdt = blank_gdt, sc_idt = \<lparr>idt = replicate 256 no_gate, idtp = \<lparr>tp_limit = 0, tp_base = 0\<rparr>, idt_loaded = False, interrupts_on = False\<rparr>,
     sc_kbd = \<lparr>shift_pressed = 0, caps_lock = 0, ctrl_pressed = 0, extended_key = 0, keyboard_buffer = replicate 256 0, buffer_read_pos = 0,
       buffer_write_pos = 0\<rparr>, sc_kernel = demo_kernel\<rparr>"

lemma demo_powered_on: "powered_on demo_system"
proof -
  have "history_ok (sc_kernel demo_system)" using demo_history by (simp add: demo_system_def)
  moreover have "length (video_memory (sc_screen demo_system)) = 2000" "length (gdt_entries (sc_gdt demo_system)) = 6" "length (idt (sc_idt demo_system)) = 256"
    by (simp_all add: demo_system_def blank_gdt_def)
  moreover have "k_out (sc_kernel demo_system) = []" "k_fs (sc_kernel demo_system) = blank_fs" "k_proc (sc_kernel demo_system) = demo_procs"
    by (simp_all add: demo_system_def demo_kernel_def)
  ultimately show ?thesis by (simp add: powered_on_def Let_def blank_fs_def demo_procs_def demo_pcb_def)
qed

lemma boot_gets_ready_witness:
  "\<exists>m'. kernel_init (replicate 12 0, replicate 32 0, replicate 32 0) (\<lambda>_. 0x10000) (\<lambda>n. 0x11000 + 16 * of_nat n) demo_system = Some m' \<and>
     shell_ok (sc_kernel m') \<and> gate_target (idt (sc_idt m') ! 33) = 0x11210"
proof -
  have "(\<forall>n < 48. P n) \<Longrightarrow> P 33" for P :: "nat \<Rightarrow> bool" by simp
  then show ?thesis
    using boot_gets_ready [OF demo_powered_on, of "replicate 12 0" "replicate 32 0" "replicate 32 0" "\<lambda>_. 0x10000" "\<lambda>n. 0x11000 + 16 * of_nat n"]
    by fastforce
qed

text \<open>
  The page pool and the heap overlap: after the memory is set up, the first page the allocator hands out starts at the heap's
  first byte, inside the block the heap has given to the RAM disk.
\<close>

theorem boot_page_overlaps_heap:
  assumes "statics_ok (kernel_directory (pr_paging (k_proc k))) (early_page_tables (pr_paging (k_proc k)))"
  shows "\<exists>k' s'. boot_memory k = Some k' \<and> pmm_alloc_page (pmm_of k') = Some (HEAP_START, s') \<and>
    rd_data (disk_of k') = HEAP_START + 16 \<and> HEAP_START + 16 \<in> owned (k_heap k')"
proof -
  obtain k' where k': "boot_memory k = Some k'" "rd_data (disk_of k') = HEAP_START + 16" "heap_ok (k_heap k') disk_tiles"
    "pmm_inv (pmm_of k')" "used_set (pmm_of k') = {0..<512}"
    using boot_memory_ok [OF assms] by (elim exE conjE) (rule that)
  have "pmm_shape (pmm_of k')" using k'(4) by (simp add: pmm_inv_def)
  then obtain s' where "pmm_alloc_page (pmm_of k') = Some (of_nat 512 * 4096, s')"
    by (rule pmm_alloc_page_free [of "pmm_of k'" 512]) (use k'(5) in auto)
  moreover have "(0x200000, 0x100010) \<in> live disk_tiles" by (simp add: live_def)
  then have "HEAP_START + 16 \<in> owned (k_heap k')" using k'(3) by (auto simp: owned_def)
  ultimately show ?thesis using k'(1,2) by simp
qed

lemma boot_page_overlaps_heap_witness:
  "\<exists>k' s'. boot_memory demo_kernel = Some k' \<and> pmm_alloc_page (pmm_of k') = Some (0x200000, s')"
  using boot_page_overlaps_heap [of demo_kernel] by (auto simp: demo_kernel_def demo_procs_def)

end
