(* ===== verification/Kernel_Tasks.thy ===== *)
theory Kernel_Tasks
  imports Kernel_Boot
begin

text \<open>
  The demonstration processes of \<open>kernel/kernel.c\<close>. A process is the list of the steps it makes between the points where it gives
  up the processor; the busy waits have no effect. A test in user mode acts through the user library only: it stores
  bytes on its stack and makes system calls.
\<close>

section \<open>Kernel processes\<close>

datatype task_step = Show "event list" | Delay u32 | Send u32 "u8 list" | Leave

text \<open>One step of a process; what a failed send reports is part of the step.\<close>

fun run_task_step :: "task_step \<Rightarrow> kernel_t \<Rightarrow> kernel_t option" where
  "run_task_step (Show es) k = Some (put es k)"
| "run_task_step (Delay ms) k = do { (_, k) \<leftarrow> on_proc (\<lambda>p. Some (process_sleep ms p)) k; Some k }"
| "run_task_step (Send target message) k =
     do { n \<leftarrow> strlen message;
          (rc, k) \<leftarrow> on_proc (process_send_message target (Some message) (of_nat n + 1)) k;
          Some (if rc < 0
                then put [sayc COLOR_RED ''[IPC Producer] '', say ''Failed to send message (error code: '', WriteDec (word_of_int rc), say '')\<newline>''] k
                else k) }"
| "run_task_step Leave k = do { (_, k) \<leftarrow> on_proc process_exit k; Some k }"

definition test_process_a :: "task_step list" where
  "test_process_a =
     map (\<lambda>count. Show [sayc COLOR_LIGHT_GREEN ''[Process A] '', say ''Running iteration '', WriteDec (of_nat count), say ''\<newline>'']) [0..<5] @
     [Show [sayc COLOR_LIGHT_GREEN ''[Process A] '', say ''Finished!\<newline>''], Leave]"

definition test_process_b :: "task_step list" where
  "test_process_b =
     map (\<lambda>count. Show [sayc COLOR_LIGHT_BLUE ''[Process B] '', say ''Executing iteration '', WriteDec (of_nat count), say ''\<newline>'']) [0..<5] @
     [Show [sayc COLOR_LIGHT_BLUE ''[Process B] '', say ''Completed!\<newline>''], Leave]"

definition test_process_c :: "task_step list" where
  "test_process_c =
     map (\<lambda>count. Show [sayc COLOR_YELLOW ''[Process C - Low Priority] '', say ''Iteration '', WriteDec (of_nat count), say ''\<newline>'']) [0..<5] @
     [Show [sayc COLOR_YELLOW ''[Process C] '', say ''Done!\<newline>''], Leave]"

definition test_process_sleep :: "task_step list" where
  "test_process_sleep =
     concat (map (\<lambda>count.
       [Show [sayc COLOR_LIGHT_MAGENTA ''[Sleep Process] '', say ''Iteration '', WriteDec (of_nat count),
              say '' - Going to sleep for 2000ms\<newline>''],
        Delay 2000,
        Show [sayc COLOR_LIGHT_MAGENTA ''[Sleep Process] '', say ''Woke up from sleep!\<newline>'']]) [0..<5]) @
     [Show [sayc COLOR_LIGHT_MAGENTA ''[Sleep Process] '', say ''All iterations complete!\<newline>''], Leave]"

section \<open>Producer and consumer\<close>

text \<open>The text of a message, built in a buffer of 64 bytes with a number of up to 12 bytes.\<close>

definition producer_message :: "u8 list \<Rightarrow> u8 list \<Rightarrow> int \<Rightarrow> u8 list option" where
  "producer_message message num_str i =
     do { message \<leftarrow> strcpy message (lit ''Message #'');
          num_str \<leftarrow> itoa i num_str 10;
          message \<leftarrow> strcat message num_str;
          strcat message (lit '' from Producer'') }"

fun producer_loop :: "u32 \<Rightarrow> u8 list \<Rightarrow> u8 list \<Rightarrow> int list \<Rightarrow> task_step list option" where
  "producer_loop consumer_pid message num_str [] = Some []"
| "producer_loop consumer_pid message num_str (i # is) =
     do { text \<leftarrow> producer_message message num_str i;
          rest \<leftarrow> producer_loop consumer_pid message num_str is;
          Some ([Show [sayc COLOR_LIGHT_CYAN ''[IPC Producer] '', say (''Sending: '' @ [CHR 0x27]), Write text,
                       say ([CHR 0x27] @ '' to PID ''), WriteDec consumer_pid, say ''\<newline>''],
                 Send consumer_pid text, Delay 1000] @ rest) }"

definition ipc_producer :: "u32 \<Rightarrow> u8 list \<Rightarrow> u8 list \<Rightarrow> task_step list option" where
  "ipc_producer pid message num_str =
     do { loop \<leftarrow> producer_loop (pid + 1) message num_str [0, 1, 2, 3, 4];
          Some ([Show [sayc COLOR_LIGHT_CYAN ''[IPC Producer] '', say ''Starting message producer (PID '', WriteDec pid, say '')\<newline>''],
                 Delay 500] @ loop @
                [Show [sayc COLOR_LIGHT_CYAN ''[IPC Producer] '', say ''All messages sent!\<newline>''], Leave]) }"

definition consumer_start :: "u32 \<Rightarrow> task_step" where
  "consumer_start pid =
     Show [sayc COLOR_LIGHT_GREEN ''[IPC Consumer] '', say ''Starting message consumer (PID '', WriteDec pid, say '')\<newline>'']"

text \<open>One turn of the consumer's loop: the buffer, the number of messages received and the kernel.\<close>

definition consumer_turn :: "u8 list \<times> nat \<times> kernel_t \<Rightarrow> (u8 list \<times> nat \<times> kernel_t) option" where
  "consumer_turn = (\<lambda>(buffer, received_count, k).
     do { (buffer, received_count, k) \<leftarrow>
            (if process_has_messages (proc_of k) > 0
             then do { ((bytes, buf, sender), k) \<leftarrow>
                         on_proc (\<lambda>p. do { (b, x, s, p) \<leftarrow> process_receive_message (Some buffer) 256 p; Some ((b, x, s), p) }) k;
                       let buffer = (case buf of None \<Rightarrow> buffer | Some x \<Rightarrow> x);
                       if bytes > 0
                       then Some (buffer, received_count + 1, put
                         [sayc COLOR_LIGHT_GREEN ''[IPC Consumer] '', say ''Received from PID '',
                          WriteDec (case sender of None \<Rightarrow> 0 | Some p \<Rightarrow> p), say ('': '' @ [CHR 0x27]), Write buffer, say ([CHR 0x27] @ ''\<newline>'')] k)
                       else Some (buffer, received_count, k) }
             else do { (_, k) \<leftarrow> on_proc (\<lambda>p. Some (process_yield p)) k; Some (buffer, received_count, k) });
          (_, k) \<leftarrow> on_proc (\<lambda>p. Some (process_sleep 100 p)) k;
          Some (buffer, received_count, k) })"

definition consumer_end :: "task_step list" where
  "consumer_end = [Show [sayc COLOR_LIGHT_GREEN ''[IPC Consumer] '', say ''All messages received!\<newline>''], Leave]"

section \<open>Tests of the system calls\<close>

datatype user_step = Print "event list" | Poke u32 "u8 list" | Call "u32 list"

text \<open>\<open>my_pid\<close> is the result of \<open>getpid\<close>; \<open>msg1\<close> and \<open>msg2\<close> are the addresses of the two literals.\<close>

abbreviation syscall_test :: "string \<Rightarrow> event list" where
  "syscall_test t \<equiv> [sayc COLOR_LIGHT_CYAN ''[Syscall Test] '', say t]"

definition syscall_msg1 :: "u8 list" where
  "syscall_msg1 = lit ''[Syscall Test] Testing SYS_WRITE syscall...\<newline>''"

definition syscall_msg2 :: "u8 list" where
  "syscall_msg2 = lit ''[Syscall Test] Hello from userspace syscall!\<newline>''"

definition test_syscall :: "u32 \<Rightarrow> u32 \<Rightarrow> int \<Rightarrow> user_step list" where
  "test_syscall msg1 msg2 my_pid =
     [Print (syscall_test ''Starting system call test\<newline>''), Call [SYS_GETPID],
      Print (syscall_test ''My PID from syscall: '' @ [WriteDec (word_of_int my_pid), say ''\<newline>'']),
      Call [SYS_WRITE, 1, msg1, of_nat (length (cstr syscall_msg1))], Call [SYS_WRITE, 1, msg2, of_nat (length (cstr syscall_msg2))],
      Print (syscall_test ''Sleeping for 1000ms using SYS_SLEEP...\<newline>''), Call [SYS_SLEEP, 1000],
      Print (syscall_test ''Woke up! Sleep syscall works.\<newline>''), Print (syscall_test ''Testing SYS_YIELD...\<newline>''), Call [SYS_YIELD],
      Print (syscall_test ''Back from yield. All syscalls working!\<newline>''),
      Print [sayc COLOR_GREEN ''[Syscall Test] '', say ''All tests passed! Exiting with SYS_EXIT...\<newline>''], Call [SYS_EXIT, 0]]"

text \<open>The remainder of a signed division has the sign of the dividend.\<close>

definition pid_digit :: "int \<Rightarrow> u8" where
  "pid_digit my_pid = 48 + word_of_int (if my_pid < 0 then - ((- my_pid) mod 10) else my_pid mod 10)"

definition test_usermode :: "u32 \<Rightarrow> int \<Rightarrow> user_step list" where
  "test_usermode msg my_pid =
     [Poke msg (lit ''[Ring 3] Hi!\<newline>''), Call [SYS_WRITE, 1, msg, 13], Call [SYS_GETPID],
      Poke msg (map of_char ''PID='' @ [pid_digit my_pid, 10, 0]), Call [SYS_WRITE, 1, msg, 6],
      Poke msg (lit ''Sleep..\<newline>''), Call [SYS_WRITE, 1, msg, 8], Call [SYS_SLEEP, 500],
      Poke msg (lit ''OK!\<newline>''), Call [SYS_WRITE, 1, msg, 4], Call [SYS_EXIT, 0]]"

text \<open>A step of such a test, with the registers \<open>r\<close> the compiler's code happens to hold.\<close>

fun run_user_step :: "u8 list \<Rightarrow> world \<Rightarrow> regs_t \<Rightarrow> user_step \<Rightarrow> sys_t \<Rightarrow> user_outcome option" where
  "run_user_step dec w r (Print es) s =
     do { scr \<leftarrow> play dec (fst w) (fst (snd w)) es (sy_screen s); Some (Resumed r (s\<lparr>sy_screen := scr\<rparr>)) }"
| "run_user_step dec w r (Poke p bs) s = Some (Resumed r (s\<lparr>sy_mem := mem_write p bs (sy_mem s)\<rparr>))"
| "run_user_step dec w r (Call [n]) s = SYSCALL0 n w r s"
| "run_user_step dec w r (Call [n, a]) s = SYSCALL1 n a w r s"
| "run_user_step dec w r (Call [n, a, b]) s = SYSCALL2 n a b w r s"
| "run_user_step dec w r (Call [n, a, b, c]) s = SYSCALL3 n a b c w r s"
| "run_user_step dec w r (Call _) s = None"

fun run_user :: "u8 list \<Rightarrow> world \<Rightarrow> regs_t \<Rightarrow> user_step list \<Rightarrow> sys_t \<Rightarrow> user_outcome option" where
  "run_user dec w r [] s = Some (Resumed r s)"
| "run_user dec w r (x # xs) s =
     do { out \<leftarrow> run_user_step dec w r x s;
          case out of Resumed r s \<Rightarrow> run_user dec w r xs s | Away s \<Rightarrow> Some (Away s) | Halted s \<Rightarrow> Some (Halted s) }"

section \<open>What they do\<close>

lemma strcat_eq:
  "0 \<in> set dest \<Longrightarrow> 0 \<in> set src \<Longrightarrow> length (cstr dest) + length (cstr src) < length dest \<Longrightarrow>
     \<exists>rest. strcat dest src = Some (cstr dest @ cstr src @ 0 # rest) \<and> length rest + length (cstr dest) + length (cstr src) + 1 = length dest"
proof (induction dest src rule: strcat.induct)
  case (2 d dest src)
  show ?case
  proof (cases "d = 0")
    case True
    then show ?thesis using strcpy_eq [OF "2.prems"(2), of "d # dest"] "2.prems"(3) by auto
  next
    case False
    then show ?thesis using 2 by auto
  qed
qed simp

text \<open>
  The text of message \<open>i\<close>, for every \<open>int\<close> but the smallest: it fits the 64 bytes whatever they held, and the number fits its
  12 bytes.
\<close>

lemma producer_message_text:
  assumes "length message = 64" and "length num_str = 12" and "\<bar>i\<bar> \<le> 2147483647"
  shows "\<exists>r. producer_message message num_str i = Some r \<and> 0 \<in> set r \<and>
    cstr r = map of_char ''Message #'' @ (if i < 0 then [45] else []) @ rev (rdigits (nat \<bar>i\<bar>)) @ map of_char '' from Producer''"
proof -
  let ?d = "(if i < 0 then [45] else []) @ rev (rdigits (nat \<bar>i\<bar>))" and ?a = "map of_char ''Message #'' :: u8 list" and ?z = "map of_char '' from Producer'' :: u8 list"
  obtain rest where n: "itoa i num_str 10 = Some (?d @ 0 # rest)" using itoa_decimal [OF assms(3), of num_str] assms(2) by auto
  have nz: "0 \<notin> set ?d" using rdigits_digits is_digit_neq by fastforce
  have "length (rdigits (nat \<bar>i\<bar>)) \<le> 10" using rdigits_length [of "nat \<bar>i\<bar>" 9] assms(3) by simp
  then have dl: "length ?d \<le> 11" by (cases "i < 0") simp_all
  have a0: "0 \<in> set (lit ''Message #'')" "cstr (lit ''Message #'') = ?a" "Suc (length ?a) = 10" by (simp_all add: lit_def)
  then have "length (cstr (lit ''Message #'')) < length message" using assms(1) by simp
  from strcpy_eq [OF a0(1) this] have a: "strcpy message (lit ''Message #'') = Some (?a @ 0 # drop 10 message)" "0 \<notin> set ?a"
    unfolding a0(2,3) by simp_all
  have c: "cstr (?d @ 0 # rest) = ?d" using nz by (rule cstr_append_nul)
  have ca: "cstr (?a @ 0 # drop 10 message) = ?a" using a(2) by (rule cstr_append_nul)
  obtain r1 where r1: "strcat (?a @ 0 # drop 10 message) (?d @ 0 # rest) = Some (?a @ ?d @ 0 # r1)" "length r1 + length ?a + length ?d + 1 = 64"
    using strcat_eq [of "?a @ 0 # drop 10 message" "?d @ 0 # rest"] dl assms(1) unfolding c ca by auto
  have nz1: "0 \<notin> set (?a @ ?d)" using a(2) nz by simp
  have c1: "cstr (?a @ ?d @ 0 # r1) = ?a @ ?d" using cstr_append_nul [OF nz1, of r1] by simp
  have cz: "cstr (lit '' from Producer'') = ?z" "0 \<in> set (lit '' from Producer'')" by (simp_all add: lit_def)
  obtain r2 where r2: "strcat (?a @ ?d @ 0 # r1) (lit '' from Producer'') = Some ((?a @ ?d) @ ?z @ 0 # r2)"
    using strcat_eq [of "?a @ ?d @ 0 # r1" "lit '' from Producer''"] dl r1(2) unfolding c1 cz(1) by auto
  have nz2: "0 \<notin> set ((?a @ ?d) @ ?z)" using nz1 by simp
  have "producer_message message num_str i = Some (((?a @ ?d) @ ?z) @ 0 # r2)"
    unfolding producer_message_def a(1) n bind.bind_lunit r1(1) r2 by simp
  then show ?thesis using cstr_append_nul [OF nz2, of r2] by auto
qed

lemma mem_write_read: "length bs < 2 ^ 32 \<Longrightarrow> i < length bs \<Longrightarrow> mem_write p bs mem (p + of_nat i) = bs ! i"
  by (simp add: mem_write_def unat_of_nat take_bit_nat_eq_self)

text \<open>
  C35: A user program that stores a text on its stack and writes it sees the number of characters as the result, and the text
  appears on the screen, through the user library, the interrupt entry, the dispatcher and the screen.
\<close>

theorem user_text_reaches_screen:
  assumes "screen_ok (sy_screen s)" and "p \<noteq> 0" and "msg \<noteq> []" and "0 \<notin> set msg" and "length msg < 2 ^ 31"
  shows "\<exists>r' s'. run_user dec w r [Poke p (msg @ [0]), Call [SYS_WRITE, fd, p, of_nat (length msg)]] s = Some (Resumed r' s') \<and>
    unat (eax r') = length msg \<and> screen_ok (sy_screen s') \<and>
    flat (sy_screen s') = fold (spec_char (current_color (sy_screen s))) msg (flat (sy_screen s))"
proof -
  obtain bf tp st where w: "w = (bf, tp, st)" by (cases w)
  let ?n = "of_nat (length msg) :: u32" and ?s = "s\<lparr>sy_mem := mem_write p (msg @ [0]) (sy_mem s)\<rparr>"
  have n: "unat ?n = length msg" using assms(5) by (simp add: unat_of_nat take_bit_nat_eq_self)
  then have nn: "?n \<noteq> 0" using assms(3) by (metis length_0_conv unat_0)
  have "map (\<lambda>i. mem_write p (msg @ [0]) (sy_mem s) (p + of_nat i)) [0..<length msg] = msg"
    using assms(5) by (intro nth_equalityI) (simp_all add: mem_write_read nth_append)
  moreover have t: "takeWhile (\<lambda>c. c \<noteq> 0) msg = msg" using assms(4) by (auto simp: takeWhile_eq_all_conv)
  ultimately have m: "takeWhile (\<lambda>c. c \<noteq> 0) (map (\<lambda>i. mem_write p (msg @ [0]) (sy_mem s) (p + of_nat i)) [0..<length msg]) = msg" by (simp only:)
  obtain scr where scr: "write_loop_sys (length msg) p (mem_write p (msg @ [0]) (sy_mem s)) (sy_screen s) = Some scr" "screen_ok scr"
    "flat scr = fold (spec_char (current_color (sy_screen s))) msg (flat (sy_screen s))"
    using write_loop_sys_ok [OF assms(1), of "length msg" p "mem_write p (msg @ [0]) (sy_mem s)"] unfolding m by blast
  have "syscall_dispatch bf tp 1 fd p ?n x ?s = Some (Returned (sint ?n) (?s\<lparr>sy_screen := scr\<rparr>))" for x
    using scr(1) assms(2) nn n by (simp add: syscall_dispatch_def syscall_table_def sys_write_def word_le_nat_alt)
  then have "run_user dec w r [Poke p (msg @ [0]), Call [SYS_WRITE, fd, p, ?n]] s =
      Some (Resumed (r\<lparr>eax := ?n, ebx := fd, ecx := p, edx := ?n\<rparr>) (?s\<lparr>sy_screen := scr\<rparr>))"
    by (simp add: w SYSCALL3_def int_0x80_eq resumed_def)
  then show ?thesis using n scr(2,3) by simp
qed

lemma user_text_reaches_screen_witness:
  "\<exists>r' s'. run_user [] ([], [], []) \<lparr>eax = 9, ebx = 9, ecx = 9, edx = 9, esi = 9, edi = 9, ebp = 9\<rparr>
      [Poke 100 (map of_char ''Hi'' @ [0]), Call [SYS_WRITE, 1, 100, of_nat (length (map of_char ''Hi'' :: u8 list))]]
      \<lparr>sy_proc = demo_procs, sy_screen = blank_screen, sy_mem = (\<lambda>_. 7)\<rparr> = Some (Resumed r' s') \<and>
     flat (sy_screen s') = fold (spec_char (current_color blank_screen)) [72, 105] (flat blank_screen)"
  using user_text_reaches_screen [of "\<lparr>sy_proc = demo_procs, sy_screen = blank_screen, sy_mem = (\<lambda>_. 7)\<rparr>" 100 "map of_char ''Hi''" "[]" "([], [], [])"
      "\<lparr>eax = 9, ebx = 9, ecx = 9, edx = 9, esi = 9, edi = 9, ebp = 9\<rparr>" 1] blank_screen_ok
  by auto

end
