(* ===== verification/Shell_Remove.thy ===== *)
theory Shell_Remove
  imports Shell_Files Fs_Unlink
begin

text \<open>The command \<open>rm\<close> of the shell, and that it undoes \<open>touch\<close>.\<close>

lemma rm_ok:
  assumes ok: "fs_ok (fs_of k) bs" and p: "good_path args" and n: "map_of (root_list (fs_of k)) (path_name args) = Some n" "n \<noteq> 0"
    and fo: "file_ok (fs_of k) n" and own: "set (i_blocks (inode_at (fs_disk (k_fs k)) n)) \<inter> set (i_blocks (inode_at (fs_disk (k_fs k)) 0)) \<subseteq> {0}"
    and dist: "distinct (map fst (root_list (fs_of k)))"
  shows "\<exists>k'. cmd_rm args k = Some k' \<and> k_out k' = k_out k @ [say ''\<newline>'', sayc COLOR_GREEN ''Deleted file: '', Write args, say ''\<newline>\<newline>''] \<and>
    fs_ok (fs_of k') bs \<and> map_of (root_list (fs_of k')) = (map_of (root_list (fs_of k)))(path_name args := None) \<and>
    bits (inode_bitmap (k_fs k')) = bits (inode_bitmap (k_fs k)) - {unat n}"
proof -
  have i: "fs_is_initialized (k_fs k) \<noteq> 0" using fs_okD(5) [OF ok] by (simp add: fs_is_initialized_def)
  obtain l where l: "strlen args = Some l" "l \<noteq> 0" using good_path_strlen [OF p] by blast
  let ?k0 = "put [say ''\<newline>''] k"
  obtain s where s: "on_fs (fs_exists (Some args)) ?k0 = Some (True, ?k0\<lparr>k_fs := s, k_heap := fs_heap s\<rparr>)" "fs_ok s bs"
      "fs_disk s = fs_disk (k_fs k)" "inode_bitmap s = inode_bitmap (k_fs k)" "data_bitmap s = data_bitmap (k_fs k)"
    using on_fs_exists [of ?k0 bs args] ok p n(1) by auto
  let ?k1 = "?k0\<lparr>k_fs := s, k_heap := fs_heap s\<rparr>"
  have ok1: "fs_ok (fs_of ?k1) bs" by (rule fs_of_next [OF s(2)])
  have r: "root_list (fs_of ?k1) = root_list (fs_of k)" by (rule root_list_disk) (use s(3) in simp)
  have fo1: "file_ok (fs_of ?k1) n" using fo s(3-5) by (simp add: file_ok_def maps_ok_def good_def)
  have own1: "set (i_blocks (inode_at (fs_disk (fs_of ?k1)) n)) \<inter> set (i_blocks (inode_at (fs_disk (fs_of ?k1)) 0)) \<subseteq> {0}"
    using own s(3) by simp
  from unlink_ok [OF ok1 p n [folded r] fo1 own1 dist [folded r]] s(4) r obtain s' where
    s': "fs_unlink (Some args) (fs_of ?k1) = Some (0, s')" "fs_ok s' bs"
      "map_of (root_list s') = (map_of (root_list (fs_of k)))(path_name args := None)"
      "bits (inode_bitmap s') = bits (inode_bitmap (k_fs k)) - {unat n}"
    by auto
  let ?k2 = "?k1\<lparr>k_fs := s', k_heap := fs_heap s'\<rparr>"
  let ?k3 = "put [sayc COLOR_GREEN ''Deleted file: '', Write args, say ''\<newline>\<newline>''] ?k2"
  have "on_fs (fs_unlink (Some args)) ?k1 = Some (0, ?k2)" by (rule on_fs_Some) (rule s'(1))
  then have "cmd_rm args k = Some ?k3" unfolding cmd_rm_def Let_def using i l s(1) by simp
  moreover have "fs_ok (fs_of ?k3) bs" unfolding fs_of_put by (rule fs_of_next [OF s'(2)])
  moreover have "root_list (fs_of ?k3) = root_list s'" by (rule root_list_disk) simp
  ultimately show ?thesis using s'(3,4) by (intro exI [of _ ?k3]) simp
qed

section \<open>Properties\<close>

text \<open>
  C32: A file that \<open>touch\<close> has created is deleted by \<open>rm\<close>: both commands report their work, and afterwards every name is
  looked up as before the two commands and the same inodes are taken.
\<close>

theorem touch_then_rm:
  assumes "fs_ok (fs_of k) bs" and "good_path args" and "length (path_name args) \<le> 27"
    and "map_of (root_list (fs_of k)) (path_name args) = None" and "j < 384" and "j \<notin> bits (inode_bitmap (k_fs k))"
    and "length (root_list (fs_of k)) < 160" and "\<not> {..<1981} \<subseteq> bits (data_bitmap (k_fs k))"
    and "distinct (map fst (root_list (fs_of k)))"
  shows "\<exists>k1 k2. cmd_touch args k = Some k1 \<and> cmd_rm args k1 = Some k2 \<and>
    k_out k2 = k_out k @ [say ''\<newline>'', sayc COLOR_GREEN ''Created file: '', Write args, say ''\<newline>\<newline>'',
      say ''\<newline>'', sayc COLOR_GREEN ''Deleted file: '', Write args, say ''\<newline>\<newline>''] \<and>
    map_of (root_list (fs_of k1)) (path_name args) \<noteq> None \<and> fs_ok (fs_of k2) bs \<and>
    map_of (root_list (fs_of k2)) = map_of (root_list (fs_of k)) \<and>
    bits (inode_bitmap (k_fs k2)) = bits (inode_bitmap (k_fs k))"
proof -
  obtain k1 n t us vs where t: "cmd_touch args k = Some k1"
    "k_out k1 = k_out k @ [say ''\<newline>'', sayc COLOR_GREEN ''Created file: '', Write args, say ''\<newline>\<newline>'']"
    "fs_ok (fs_of k1) bs" "root_list (fs_of k) = us @ vs" "root_list (fs_of k1) = us @ (path_name args, n) # vs" "n \<noteq> 0" "n < 384"
    "unat n \<notin> bits (inode_bitmap (k_fs k))" "bits (inode_bitmap (k_fs k1)) = insert (unat n) (bits (inode_bitmap (k_fs k)))"
    "inode_at (fs_disk (k_fs k1)) n = new_inode (FS_TYPE_FILE OR FS_PERM_DEFAULT) t"
    by (rule touch_ok [OF assms(1-8)])
  have m: "map_of (root_list (fs_of k1)) = (map_of (root_list (fs_of k)))(path_name args \<mapsto> n)"
    using t(4,5) map_of_insert_fresh [of us vs "path_name args" n] assms(4) by simp
  have "good (fs_of k1) (inode_at (fs_disk (fs_of k1)) 0)" using fs_okD(1) [OF t(3)] by (simp add: dir_ok_def file_ok_def)
  then have fo: "file_ok (fs_of k1) n" using t(7,10) fs_okD(4) [OF t(3)] by (simp add: file_ok_def good_def)
  have own: "set (i_blocks (inode_at (fs_disk (k_fs k1)) n)) \<inter> set (i_blocks (inode_at (fs_disk (k_fs k1)) 0)) \<subseteq> {0}"
    using t(10) by auto
  have "path_name args \<notin> fst ` set (root_list (fs_of k))" using assms(4) by (simp add: map_of_eq_None_iff)
  then have "distinct (map fst (root_list (fs_of k1)))" using assms(9) t(4,5) by auto
  from rm_ok [OF t(3) assms(2) _ t(6) fo own this] m obtain k2 where k2: "cmd_rm args k1 = Some k2"
    "k_out k2 = k_out k1 @ [say ''\<newline>'', sayc COLOR_GREEN ''Deleted file: '', Write args, say ''\<newline>\<newline>'']" "fs_ok (fs_of k2) bs"
    "map_of (root_list (fs_of k2)) = (map_of (root_list (fs_of k1)))(path_name args := None)"
    "bits (inode_bitmap (k_fs k2)) = bits (inode_bitmap (k_fs k1)) - {unat n}" by auto
  have "map_of (root_list (fs_of k2)) = map_of (root_list (fs_of k))" using k2(4) m assms(4) by auto
  moreover have "bits (inode_bitmap (k_fs k2)) = bits (inode_bitmap (k_fs k))" using k2(5) t(8,9) by auto
  ultimately show ?thesis using t(1,2) k2(1-3) m by (intro exI [of _ k1] exI [of _ k2]) simp
qed

lemma touch_then_rm_witness:
  "\<exists>k k1 k2. cmd_touch (lit ''a'') k = Some k1 \<and> cmd_rm (lit ''a'') k1 = Some k2 \<and>
     map_of (root_list (fs_of k1)) [97] \<noteq> None \<and> map_of (root_list (fs_of k2)) [97] = None"
proof -
  obtain s bs where s: "fs_ok s bs" "root_list s = []" "bits (inode_bitmap s) = {0}" "bits (data_bitmap s) = {0}"
    by (rule empty_fs_exists)
  let ?k = "demo_kernel\<lparr>k_fs := s, k_heap := fs_heap s\<rparr>"
  have p: "good_path (lit ''a'')" "length (path_name (lit ''a'')) \<le> 27" "path_name (lit ''a'') = [97]"
    by (simp_all add: good_path_def path_name_def lit_def)
  have ok: "fs_ok (fs_of ?k) bs" by (rule fs_of_next [OF s(1)])
  have r: "root_list (fs_of ?k) = []" using root_list_disk [of "fs_of ?k" s] s(2) by simp
  have free: "1 \<notin> bits (inode_bitmap (k_fs ?k))" "\<not> {..<1981} \<subseteq> bits (data_bitmap (k_fs ?k))" using s(3,4) not_full_singleton by simp_all
  have new: "map_of (root_list (fs_of ?k)) (path_name (lit ''a'')) = None" "length (root_list (fs_of ?k)) < 160"
    "distinct (map fst (root_list (fs_of ?k)))" using r by simp_all
  from touch_then_rm [OF ok p(1,2) new(1) _ free(1) new(2) free(2) new(3)] obtain k1 k2 where
    "cmd_touch (lit ''a'') ?k = Some k1" "cmd_rm (lit ''a'') k1 = Some k2" "map_of (root_list (fs_of k1)) [97] \<noteq> None"
    "map_of (root_list (fs_of k2)) = map_of (root_list (fs_of ?k))" unfolding p(3) by auto
  then show ?thesis using r by (intro exI [of _ ?k] exI [of _ k1] exI [of _ k2]) simp
qed

end
