(* ===== verification/Cpu.thy ===== *)
theory Cpu
  imports Kernel_Prelude
begin

text \<open>
  The part of the 32-bit x86 processor that the assembly files of \<open>src/kernel\<close> use: the registers, byte-addressed
  memory, one function per instruction and runs of instruction lists. The assembly routines are lists of these
  instructions, line by line; the theories that hold them are \<open>Context_Switch\<close> and \<open>Stubs\<close>.

  \<open>None\<close> is a general protection fault, raised by loading the stack segment with a selector that is null or whose privilege
  is not the current one, and by an \<open>iret\<close> to an inner ring. Other descriptor checks are not modelled. The
  virtual-8086 mode is never entered: the \<open>VM\<close> flag is clear.
\<close>

section \<open>State\<close>

datatype reg = EAX | ECX | EDX | EBX | ESP | EBP | ESI | EDI

datatype sreg = CS | DS | ES | FS | GS | SS

record cpu_t =
  gpr :: "reg \<Rightarrow> u32"
  seg :: "sreg \<Rightarrow> u16"
  ip :: u32
  flags :: u32
  mem :: "u32 \<Rightarrow> u8"
  gdtr :: "u16 \<times> u32"
  idtr :: "u16 \<times> u32"
  task_reg :: u16

section \<open>Memory\<close>

definition rd16 :: "(u32 \<Rightarrow> u8) \<Rightarrow> u32 \<Rightarrow> u16" where
  "rd16 m a = ucast (m a) OR push_bit 8 (ucast (m (a + 1)))"

definition wr16 :: "(u32 \<Rightarrow> u8) \<Rightarrow> u32 \<Rightarrow> u16 \<Rightarrow> u32 \<Rightarrow> u8" where
  "wr16 m a v = m(a := ucast v, a + 1 := ucast (drop_bit 8 v))"

definition rd32 :: "(u32 \<Rightarrow> u8) \<Rightarrow> u32 \<Rightarrow> u32" where
  "rd32 m a = ucast (m a) OR push_bit 8 (ucast (m (a + 1))) OR push_bit 16 (ucast (m (a + 2)))
     OR push_bit 24 (ucast (m (a + 3)))"

definition wr32 :: "(u32 \<Rightarrow> u8) \<Rightarrow> u32 \<Rightarrow> u32 \<Rightarrow> u32 \<Rightarrow> u8" where
  "wr32 m a v = m(a := ucast v, a + 1 := ucast (drop_bit 8 v), a + 2 := ucast (drop_bit 16 v),
     a + 3 := ucast (drop_bit 24 v))"

section \<open>Flags\<close>

abbreviation STATUS_FLAGS :: u32 where "STATUS_FLAGS \<equiv> 0x8D5"  \<comment> \<open>CF, PF, AF, ZF, SF, OF\<close>
abbreviation POPFD_FLAGS :: u32 where "POPFD_FLAGS \<equiv> 0x247FD5" \<comment> \<open>what \<open>popfd\<close> loads in ring 0\<close>
abbreviation CONTROL_FLAGS :: u32 where "CONTROL_FLAGS \<equiv> 0x247700" \<comment> \<open>the same without the status flags\<close>
abbreviation IRET_FLAGS :: u32 where "IRET_FLAGS \<equiv> 0x3D7FD5" \<comment> \<open>what \<open>iret\<close> loads in ring 0\<close>

text \<open>The status flags of a result; the auxiliary carry, undefined after a logical operation, is clear there.\<close>

definition status_of :: "bool \<Rightarrow> bool \<Rightarrow> bool \<Rightarrow> u32 \<Rightarrow> u32" where
  "status_of carry aux overflow r =
     (if carry then 1 else 0) OR (if even (length (filter (bit r) [0..<8])) then 4 else 0) OR (if aux then 0x10 else 0)
     OR (if r = 0 then 0x40 else 0) OR (if bit r 31 then 0x80 else 0) OR (if overflow then 0x800 else 0)"

definition add_status :: "u32 \<Rightarrow> u32 \<Rightarrow> u32" where
  "add_status a v = status_of (a + v < a) ((a AND 15) + (v AND 15) > 15) (sint a + sint v \<noteq> sint (a + v)) (a + v)"

definition logic_status :: "u32 \<Rightarrow> u32" where
  "logic_status r = status_of False False False r"

definition with_status :: "u32 \<Rightarrow> u32 \<Rightarrow> u32" where
  "with_status f st = (f AND NOT STATUS_FLAGS) OR (st AND STATUS_FLAGS)"

definition set_status :: "u32 \<Rightarrow> cpu_t \<Rightarrow> cpu_t" where
  "set_status st c = c\<lparr>flags := with_status (flags c) st\<rparr>"

definition zero_flag :: "cpu_t \<Rightarrow> bool" where
  "zero_flag c = bit (flags c) 6"

section \<open>Instructions\<close>

definition set_reg :: "reg \<Rightarrow> u32 \<Rightarrow> cpu_t \<Rightarrow> cpu_t" where
  "set_reg r v c = c\<lparr>gpr := (gpr c)(r := v)\<rparr>"

definition low_update :: "u32 \<Rightarrow> u16 \<Rightarrow> u32" where
  "low_update x v = (x AND 0xFFFF0000) OR ucast v"

definition set_low :: "reg \<Rightarrow> u16 \<Rightarrow> cpu_t \<Rightarrow> cpu_t" where
  "set_low r v c = set_reg r (low_update (gpr c r) v) c"

definition set_seg :: "sreg \<Rightarrow> u16 \<Rightarrow> cpu_t \<Rightarrow> cpu_t" where
  "set_seg s v c = c\<lparr>seg := (seg c)(s := v)\<rparr>"

definition cpl :: "cpu_t \<Rightarrow> u16" where
  "cpl c = seg c CS AND 3"

definition push32 :: "u32 \<Rightarrow> cpu_t \<Rightarrow> cpu_t" where
  "push32 v c = (let a = gpr c ESP - 4 in (set_reg ESP a c)\<lparr>mem := wr32 (mem c) a v\<rparr>)"

definition pop32 :: "cpu_t \<Rightarrow> u32 \<times> cpu_t" where
  "pop32 c = (rd32 (mem c) (gpr c ESP), set_reg ESP (gpr c ESP + 4) c)"

definition load_seg :: "sreg \<Rightarrow> u16 \<Rightarrow> cpu_t \<Rightarrow> cpu_t option" where
  "load_seg s v c = (if s = SS \<and> (v AND 0xFFFC = 0 \<or> v AND 3 \<noteq> cpl c) then None else Some (set_seg s v c))"

definition iret :: "cpu_t \<Rightarrow> cpu_t option" where
  "iret c =
     (let ring = cpl c; (a, c) = pop32 c; (s, c) = pop32 c; (f, c) = pop32 c;
          s = ucast s :: u16; c' = set_seg CS s (c\<lparr>ip := a, flags := (f AND IRET_FLAGS) OR 2\<rparr>) in
      if s AND 3 < ring then None
      else if s AND 3 = ring then Some c'
      else let (sp, c') = pop32 c'; (st, c') = pop32 c' in load_seg SS (ucast st) (set_reg ESP sp c'))"

datatype instr =
  Mov reg reg | MovLow reg u16 | Load reg reg u32 | Store reg u32 reg
| LoadLow reg reg u32 | StoreLow reg u32 reg | FromSeg reg sreg | ToSeg sreg reg
| Add reg u32 | Or reg u32 | Test reg
| Push reg | PushImm u32 | Pop reg | PushSeg sreg | PopSeg sreg | Pusha | Popa | Pushfd | Popfd
| Cli | Ret | Iret | Lgdt reg | Lidt reg | Ltr reg | JmpFar u16

definition pop_reg :: "reg \<Rightarrow> cpu_t \<Rightarrow> cpu_t" where
  "pop_reg r c = (let (v, c) = pop32 c in set_reg r v c)"

definition load_table :: "(u32 \<Rightarrow> u8) \<Rightarrow> u32 \<Rightarrow> u16 \<times> u32" where
  "load_table m a = (rd16 m a, rd32 m (a + 2))"

fun exec1 :: "instr \<Rightarrow> cpu_t \<Rightarrow> cpu_t option" where
  "exec1 (Mov d s) c = Some (set_reg d (gpr c s) c)"
| "exec1 (MovLow d v) c = Some (set_low d v c)"
| "exec1 (Load d b off) c = Some (set_reg d (rd32 (mem c) (gpr c b + off)) c)"
| "exec1 (Store b off s) c = Some (c\<lparr>mem := wr32 (mem c) (gpr c b + off) (gpr c s)\<rparr>)"
| "exec1 (LoadLow d b off) c = Some (set_low d (rd16 (mem c) (gpr c b + off)) c)"
| "exec1 (StoreLow b off s) c = Some (c\<lparr>mem := wr16 (mem c) (gpr c b + off) (ucast (gpr c s))\<rparr>)"
| "exec1 (FromSeg d s) c = Some (set_low d (seg c s) c)"
| "exec1 (ToSeg s r) c = load_seg s (ucast (gpr c r)) c"
| "exec1 (Add r v) c = Some (set_status (add_status (gpr c r) v) (set_reg r (gpr c r + v) c))"
| "exec1 (Or r v) c = Some (set_status (logic_status (gpr c r OR v)) (set_reg r (gpr c r OR v) c))"
| "exec1 (Test r) c = Some (set_status (logic_status (gpr c r)) c)"
| "exec1 (Push r) c = Some (push32 (gpr c r) c)"
| "exec1 (PushImm v) c = Some (push32 v c)"
| "exec1 (Pop r) c = Some (pop_reg r c)"
| "exec1 (PushSeg s) c = (let a = gpr c ESP - 4 in Some ((set_reg ESP a c)\<lparr>mem := wr16 (mem c) a (seg c s)\<rparr>))"
| "exec1 (PopSeg s) c = load_seg s (rd16 (mem c) (gpr c ESP)) (set_reg ESP (gpr c ESP + 4) c)"
| "exec1 Pusha c =
     Some (push32 (gpr c EDI) (push32 (gpr c ESI) (push32 (gpr c EBP) (push32 (gpr c ESP)
       (push32 (gpr c EBX) (push32 (gpr c EDX) (push32 (gpr c ECX) (push32 (gpr c EAX) c))))))))"
| "exec1 Popa c =
     Some (pop_reg EAX (pop_reg ECX (pop_reg EDX (pop_reg EBX (snd (pop32
       (pop_reg EBP (pop_reg ESI (pop_reg EDI c)))))))))"
| "exec1 Pushfd c = Some (push32 (flags c AND 0x00FCFFFF) c)"
| "exec1 Popfd c = (let (f, c) = pop32 c in Some (c\<lparr>flags := (f AND POPFD_FLAGS) OR 2\<rparr>))"
| "exec1 Cli c = Some (c\<lparr>flags := flags c AND NOT 0x200\<rparr>)"
| "exec1 Ret c = (let (a, c) = pop32 c in Some (c\<lparr>ip := a\<rparr>))"
| "exec1 Iret c = iret c"
| "exec1 (Lgdt r) c = Some (c\<lparr>gdtr := load_table (mem c) (gpr c r)\<rparr>)"
| "exec1 (Lidt r) c = Some (c\<lparr>idtr := load_table (mem c) (gpr c r)\<rparr>)"
| "exec1 (Ltr r) c = Some (c\<lparr>task_reg := ucast (gpr c r)\<rparr>)"
| "exec1 (JmpFar s) c = Some (set_seg CS s c)"

fun exec :: "instr list \<Rightarrow> cpu_t \<Rightarrow> cpu_t option" where
  "exec [] c = Some c"
| "exec (i # is) c = Option.bind (exec1 i c) (exec is)"

lemma exec_nil: "exec [] = Some"
  by (rule ext) simp

lemma exec_append: "exec (is @ js) c = Option.bind (exec is c) (exec js)"
  by (induction "is" arbitrary: c) (auto split: bind_splits)

section \<open>Reading what was written\<close>

lemma rd32_wr32 [simp]: "rd32 (wr32 m a v) a = v"
proof -
  have "rd32 (wr32 m a v) a = ucast (ucast v :: u8) OR push_bit 8 (ucast (ucast (drop_bit 8 v) :: u8))
      OR push_bit 16 (ucast (ucast (drop_bit 16 v) :: u8)) OR push_bit 24 (ucast (ucast (drop_bit 24 v) :: u8))"
    by (simp add: rd32_def wr32_def)
  also have "\<dots> = v"
  proof (rule bit_word_eqI)
    fix n assume "n < LENGTH(32)"
    then show "bit (ucast (ucast v :: u8) OR push_bit 8 (ucast (ucast (drop_bit 8 v) :: u8))
      OR push_bit 16 (ucast (ucast (drop_bit 16 v) :: u8)) OR push_bit 24 (ucast (ucast (drop_bit 24 v) :: u8)) :: u32) n = bit v n"
      by (cases "n < 24"; cases "n < 16") (auto simp: bit_simps)
  qed
  finally show ?thesis .
qed

lemma rd16_wr16 [simp]: "rd16 (wr16 m a v) a = v"
proof -
  have "rd16 (wr16 m a v) a = ucast (ucast v :: u8) OR push_bit 8 (ucast (ucast (drop_bit 8 v) :: u8))"
    by (simp add: rd16_def wr16_def)
  also have "\<dots> = v"
    by (rule bit_word_eqI) (auto simp: bit_simps)
  finally show ?thesis .
qed

text \<open>A write is seen only in its own bytes; addresses wrap around, so distances do.\<close>

lemma wr32_outside: "4 \<le> x - a \<Longrightarrow> wr32 m a v x = m x"
  by (auto simp: wr32_def word_le_nat_alt)

lemma wr16_outside: "2 \<le> x - a \<Longrightarrow> wr16 m a v x = m x"
  by (auto simp: wr16_def word_le_nat_alt)

lemma rd32_cong: "m b = m' b \<Longrightarrow> m (b + 1) = m' (b + 1) \<Longrightarrow> m (b + 2) = m' (b + 2) \<Longrightarrow> m (b + 3) = m' (b + 3) \<Longrightarrow>
    rd32 m b = rd32 m' b"
  by (simp add: rd32_def)

lemma rd16_cong: "m b = m' b \<Longrightarrow> m (b + 1) = m' (b + 1) \<Longrightarrow> rd16 m b = rd16 m' b"
  by (simp add: rd16_def)

lemma far_offset:
  fixes d :: u32
  assumes "l \<le> d" "k \<le> - d" "i < k" "0 < l"
  shows "l \<le> d + i"
proof -
  have "(unat d + unat (- d)) mod 4294967296 = 0" using unat_word_ariths(1) [of d "- d"] by simp
  then obtain n where n: "unat d + unat (- d) = 4294967296 * n" by (auto simp: mod_eq_0_iff_dvd elim!: dvdE)
  have "0 < unat d" using assms by (simp add: word_le_nat_alt word_less_nat_alt)
  then have "0 < n" using n by (cases n) simp_all
  moreover have "n < 2" using n unat_u32_less [of d] unat_u32_less [of "- d"] by linarith
  ultimately have "n = 1" by simp
  then have "unat d + unat (- d) = 4294967296" using n by simp
  then have "unat d + unat i < 4294967296" using assms by (simp add: word_le_nat_alt word_less_nat_alt)
  then have "unat (d + i) = unat d + unat i" by (rule unat_add_u32)
  then show ?thesis using assms by (simp add: word_le_nat_alt)
qed

text \<open>Two ranges are apart: the second starts \<open>l\<close> bytes or more after the first, and the first \<open>k\<close> bytes or more after the second.\<close>

definition apart :: "u32 \<Rightarrow> u32 \<Rightarrow> u32 \<Rightarrow> u32 \<Rightarrow> bool" where
  "apart a l b k \<longleftrightarrow> l \<le> b - a \<and> k \<le> a - b"

lemma apart_offset: "apart a l b k \<Longrightarrow> i < k \<Longrightarrow> 0 < l \<Longrightarrow> l \<le> b + i - a"
  using far_offset [of l "b - a" k i] by (simp add: apart_def algebra_simps)

lemma rd32_apart32: "apart a 4 b 4 \<Longrightarrow> rd32 (wr32 m a v) b = rd32 m b"
  using apart_offset [of a 4 b 4 0] apart_offset [of a 4 b 4 1] apart_offset [of a 4 b 4 2] apart_offset [of a 4 b 4 3]
  by (intro rd32_cong wr32_outside) (simp_all add: word_less_nat_alt)

lemma rd16_apart32: "apart a 4 b 2 \<Longrightarrow> rd16 (wr32 m a v) b = rd16 m b"
  using apart_offset [of a 4 b 2 0] apart_offset [of a 4 b 2 1]
  by (intro rd16_cong wr32_outside) (simp_all add: word_less_nat_alt)

lemma rd32_apart16: "apart a 2 b 4 \<Longrightarrow> rd32 (wr16 m a v) b = rd32 m b"
  using apart_offset [of a 2 b 4 0] apart_offset [of a 2 b 4 1] apart_offset [of a 2 b 4 2] apart_offset [of a 2 b 4 3]
  by (intro rd32_cong wr16_outside) (simp_all add: word_less_nat_alt)

lemma rd16_apart16: "apart a 2 b 2 \<Longrightarrow> rd16 (wr16 m a v) b = rd16 m b"
  using apart_offset [of a 2 b 2 0] apart_offset [of a 2 b 2 1]
  by (intro rd16_cong wr16_outside) (simp_all add: word_less_nat_alt)

lemma apart_same_base [simp]: "apart (p + a) l (p + b) k \<longleftrightarrow> l \<le> b - a \<and> k \<le> a - b"
  by (simp add: apart_def)

lemma apart_base [simp]:
  "apart p l (p + b) k \<longleftrightarrow> l \<le> b \<and> k \<le> - b"
  "apart (p + a) l p k \<longleftrightarrow> l \<le> - a \<and> k \<le> a"
  "apart (p - a) l p k \<longleftrightarrow> l \<le> a \<and> k \<le> - a"
  "apart p l (p - b) k \<longleftrightarrow> l \<le> - b \<and> k \<le> b"
  "apart (p - a) l (p - b) k \<longleftrightarrow> l \<le> a - b \<and> k \<le> b - a"
  "apart (p + a) l (p - b) k \<longleftrightarrow> l \<le> - a - b \<and> k \<le> a + b"
  "apart (p - a) l (p + b) k \<longleftrightarrow> l \<le> a + b \<and> k \<le> - a - b"
  by (auto simp: apart_def algebra_simps)

lemma apart_sub:
  assumes "apart a l b k" "i \<le> l" "l' \<le> l - i" "0 < l'" "j \<le> k" "k' \<le> k - j" "0 < k'"
  shows "apart (a + i) l' (b + j) k'"
proof -
  have "i < l" "j < k" using assms by (auto simp: word_less_nat_alt word_le_nat_alt unat_sub_u32)
  moreover from this have "0 < l" "0 < k" by (auto simp: word_less_nat_alt)
  ultimately have 1: "l \<le> b - a + j" and 2: "k \<le> a - b + i"
    using far_offset [of l "b - a" k j] far_offset [of k "a - b" l i] assms(1) by (auto simp: apart_def)
  have "l' \<le> b - a + j - i" using 1 assms(2,3) by (simp add: word_le_nat_alt unat_sub_u32)
  moreover have "k' \<le> a - b + i - j" using 2 assms(5,6) by (simp add: word_le_nat_alt unat_sub_u32)
  ultimately show ?thesis by (simp add: apart_def algebra_simps)
qed

lemma low_half [simp]: "ucast (low_update x v) = v"
proof -
  have "\<not> bit (push_bit 16 w :: u32) n" if "n < 16" for n and w :: u32 using that by (simp add: bit_simps)
  from this [of _ "0xFFFF"] have "\<not> bit (0xFFFF0000 :: u32) n" if "n < 16" for n using that by simp
  then show ?thesis by (intro bit_word_eqI) (auto simp: low_update_def bit_simps)
qed

lemmas cpu_ops = set_reg_def set_low_def set_seg_def push32_def pop32_def pop_reg_def load_seg_def set_status_def cpl_def Let_def

lemma apart_sym: "apart a l b k \<Longrightarrow> apart b k a l"
  by (simp add: apart_def)

lemmas rd_apart = rd32_apart32 rd16_apart32 rd32_apart16 rd16_apart16

lemma masked_update:
  fixes f :: u32
  assumes "c AND s = 0"
  shows "((f AND NOT s) OR (st AND s)) AND c = f AND c"
proof -
  have "\<not> bit (c AND s) n" for n using assms by simp
  then show ?thesis by (intro bit_word_eqI) (auto simp: bit_simps)
qed

lemma with_status_control: "with_status f st AND CONTROL_FLAGS = f AND CONTROL_FLAGS"
  unfolding with_status_def by (rule masked_update) simp

lemma zero_flag_logic [simp]: "zero_flag (set_status (logic_status v) c) \<longleftrightarrow> v = 0"
proof -
  have "bit STATUS_FLAGS 6" "\<not> bit (4 :: u32) 6" "bit (0x40 :: u32) 6" "\<not> bit (0x80 :: u32) 6"
    by (simp_all add: bit_iff_odd_drop_bit)
  then show ?thesis
    by (simp add: zero_flag_def set_status_def with_status_def logic_status_def status_of_def bit_simps)
qed

text \<open>Outside the last \<open>l\<close> bytes below \<open>e\<close> is outside every word pushed there.\<close>

lemma below_stack:
  fixes e :: u32
  assumes "l \<le> x - (e - l)" "k \<le> l" "4 \<le> k"
  shows "4 \<le> x - (e - k)" "2 \<le> x - (e - k)"
proof -
  have "unat (l - k) = unat l - unat k" using assms(2) by (simp add: word_le_nat_alt unat_sub_u32)
  moreover from this have "unat (l - k) \<le> unat (x - (e - l))" using assms(1) by (simp add: word_le_nat_alt)
  ultimately have "unat ((x - (e - l)) - (l - k)) = unat (x - (e - l)) - (unat l - unat k)"
    using unat_sub_u32 [of "l - k" "x - (e - l)"] by simp
  moreover have "(x - (e - l)) - (l - k) = x - (e - k)" by simp
  ultimately have "unat (x - (e - k)) = unat (x - (e - l)) - (unat l - unat k)" by simp
  then show "4 \<le> x - (e - k)" "2 \<le> x - (e - k)" using assms by (auto simp: word_le_nat_alt)
qed

lemma ucast_rd32 [simp]: "ucast (rd32 m a) = rd16 m a"
  by (rule bit_word_eqI) (auto simp: rd32_def rd16_def bit_simps)

lemma rd16_wr32 [simp]: "rd16 (wr32 m a v) a = ucast v"
  by (metis rd32_wr32 ucast_rd32)

end
