(* ===== verification/Context_Switch.thy ===== *)
theory Context_Switch
  imports Cpu Process
begin

text \<open>
  The context switch, \<open>kernel/switch.asm\<close>. The control block lies in memory as the packed \<open>cpu_state_t\<close> of \<open>process.h\<close> at offset
  40 of \<open>process_t\<close>; \<open>saved_state\<close> reads it. \<open>process_switch\<close> is the routine's instruction list with its two conditional
  jumps. It is proved to implement a specification on the record: what is captured of the old process and what is installed of
  the new one.
\<close>

section \<open>The control block in memory (process.h)\<close>

definition saved_state :: "(u32 \<Rightarrow> u8) \<Rightarrow> u32 \<Rightarrow> cpu_state_t" where
  "saved_state m p =
     \<lparr>c_eax = rd32 m (p + 40), c_ebx = rd32 m (p + 44), c_ecx = rd32 m (p + 48), c_edx = rd32 m (p + 52),
      c_esi = rd32 m (p + 56), c_edi = rd32 m (p + 60), c_esp = rd32 m (p + 64), c_ebp = rd32 m (p + 68),
      c_eip = rd32 m (p + 72), c_eflags = rd32 m (p + 76), c_cr3 = rd32 m (p + 80),
      c_cs = rd16 m (p + 84), c_ds = rd16 m (p + 86), c_es = rd16 m (p + 88), c_fs = rd16 m (p + 90),
      c_gs = rd16 m (p + 92), c_ss = rd16 m (p + 94)\<rparr>"

text \<open>The layout as a write, and that reading gives the record back: the fields do not overlap.\<close>

definition store_state :: "(u32 \<Rightarrow> u8) \<Rightarrow> u32 \<Rightarrow> cpu_state_t \<Rightarrow> u32 \<Rightarrow> u8" where
  "store_state m p st =
     (let m = wr32 m (p + 40) (c_eax st); m = wr32 m (p + 44) (c_ebx st); m = wr32 m (p + 48) (c_ecx st); m = wr32 m (p + 52) (c_edx st);
          m = wr32 m (p + 56) (c_esi st); m = wr32 m (p + 60) (c_edi st); m = wr32 m (p + 64) (c_esp st); m = wr32 m (p + 68) (c_ebp st);
          m = wr32 m (p + 72) (c_eip st); m = wr32 m (p + 76) (c_eflags st); m = wr32 m (p + 80) (c_cr3 st);
          m = wr16 m (p + 84) (c_cs st); m = wr16 m (p + 86) (c_ds st); m = wr16 m (p + 88) (c_es st); m = wr16 m (p + 90) (c_fs st);
          m = wr16 m (p + 92) (c_gs st)
      in wr16 m (p + 94) (c_ss st))"

lemma saved_store_state [simp]: "saved_state (store_state m p st) p = st"
  by (simp add: saved_state_def store_state_def Let_def rd_apart)

section \<open>The routine (switch.asm)\<close>

definition switch_params :: "instr list" where
  "switch_params = [Load EAX ESP 4, Load EDX ESP 8]"

definition switch_save :: "instr list" where
  "switch_save =
     [Store EAX 44 EBX, Store EAX 48 ECX, Store EAX 56 ESI, Store EAX 60 EDI,
      Mov ECX ESP, Add ECX 4, Store EAX 64 ECX,
      Store EAX 68 EBP,
      Load ECX ESP 0, Store EAX 72 ECX,
      Pushfd, Pop ECX, Store EAX 76 ECX,
      FromSeg ECX DS, StoreLow EAX 86 ECX, FromSeg ECX ES, StoreLow EAX 88 ECX, FromSeg ECX FS, StoreLow EAX 90 ECX,
      FromSeg ECX GS, StoreLow EAX 92 ECX, FromSeg ECX SS, StoreLow EAX 94 ECX]"

definition switch_load :: "instr list" where
  "switch_load =
     [LoadLow ECX EDX 86, ToSeg DS ECX, LoadLow ECX EDX 88, ToSeg ES ECX, LoadLow ECX EDX 90, ToSeg FS ECX,
      LoadLow ECX EDX 92, ToSeg GS ECX, LoadLow ECX EDX 94, ToSeg SS ECX,
      Load ESP EDX 64, Load EBP EDX 68,
      Load ECX EDX 76, Push ECX, Popfd,
      Load EBX EDX 44, Load ESI EDX 56, Load EDI EDX 60, Load ECX EDX 48,
      Load EAX EDX 72, Push EAX,
      Load EDX EDX 52]"

definition process_switch :: "cpu_t \<Rightarrow> cpu_t option" where
  "process_switch c =
     do { c \<leftarrow> exec switch_params c;
          c \<leftarrow> exec [Test EAX] c;
          c \<leftarrow> (if zero_flag c then Some c else exec switch_save c);
          c \<leftarrow> exec [Test EDX] c;
          c \<leftarrow> (if zero_flag c then Some c else exec switch_load c);
          exec [Ret] c }"

section \<open>Specification\<close>

text \<open>What the routine keeps of the running process. The arithmetic flags are those of its own addition.\<close>

definition capture :: "cpu_t \<Rightarrow> u32 \<Rightarrow> cpu_state_t \<Rightarrow> cpu_state_t" where
  "capture c fl st =
     st\<lparr>c_ebx := gpr c EBX, c_ecx := gpr c ECX, c_esi := gpr c ESI, c_edi := gpr c EDI, c_esp := gpr c ESP + 4,
        c_ebp := gpr c EBP, c_eip := rd32 (mem c) (gpr c ESP), c_eflags := fl,
        c_ds := seg c DS, c_es := seg c ES, c_fs := seg c FS, c_gs := seg c GS, c_ss := seg c SS\<rparr>"

text \<open>What the processor holds once a saved state is installed: the routine returns to \<open>c_eip\<close>.\<close>

definition running :: "cpu_state_t \<Rightarrow> cpu_t \<Rightarrow> bool" where
  "running st c \<longleftrightarrow>
     gpr c EBX = c_ebx st \<and> gpr c ECX = c_ecx st \<and> gpr c EDX = c_edx st \<and> gpr c ESI = c_esi st \<and> gpr c EDI = c_edi st \<and>
     gpr c ESP = c_esp st \<and> gpr c EBP = c_ebp st \<and> ip c = c_eip st \<and> flags c = (c_eflags st AND POPFD_FLAGS) OR 2 \<and>
     seg c DS = c_ds st \<and> seg c ES = c_es st \<and> seg c FS = c_fs st \<and> seg c GS = c_gs st \<and> seg c SS = c_ss st"

definition stack_segment_ok :: "u16 \<Rightarrow> cpu_t \<Rightarrow> bool" where
  "stack_segment_ok v c \<longleftrightarrow> v AND 0xFFFC \<noteq> 0 \<and> v AND 3 = cpl c"

lemma stack_apart:
  assumes "apart (e - 4) 16 p 144" "i \<le> 140"
  shows "apart (e - 4) 4 (p + i) 4" "apart (e - 4) 4 (p + i) 2" "apart (p + i) 4 e 4" "apart (p + i) 2 e 4"
proof -
  have i: "i \<le> 144" "4 \<le> 144 - i" "2 \<le> 144 - i" using assms(2) by (auto simp: word_le_nat_alt unat_sub_u32)
  show "apart (e - 4) 4 (p + i) 4" "apart (e - 4) 4 (p + i) 2"
    using apart_sub [OF assms(1), of 0 4 i] i by simp_all
  show "apart (p + i) 4 e 4" "apart (p + i) 2 e 4"
    using apart_sub [OF assms(1), of 4 4 i] i by (simp_all add: apart_sym)
qed

lemma outside_field:
  fixes p :: u32
  assumes "144 \<le> x - p" "i \<le> 140"
  shows "4 \<le> x - (p + i)" "2 \<le> x - (p + i)"
proof -
  have "unat (x - (p + i)) = unat (x - p) - unat i"
    using assms by (simp add: diff_diff_eq [symmetric] word_le_nat_alt unat_sub_u32)
  then show "4 \<le> x - (p + i)" "2 \<le> x - (p + i)" using assms by (auto simp: word_le_nat_alt)
qed

lemma exec_save:
  assumes "apart (gpr c ESP - 4) 16 (gpr c EAX) 144"
  obtains c' fl where "exec switch_save c = Some c'"
     "saved_state (mem c') (gpr c EAX) = capture c fl (saved_state (mem c) (gpr c EAX))"
     "fl AND CONTROL_FLAGS = flags c AND CONTROL_FLAGS" "seg c' = seg c" "gpr c' EDX = gpr c EDX" "gpr c' ESP = gpr c ESP"
     "\<And>x. 144 \<le> x - gpr c EAX \<Longrightarrow> 4 \<le> x - (gpr c ESP - 4) \<Longrightarrow> mem c' x = mem c x"
proof -
  note st = stack_apart [OF assms]
  let ?fl = "with_status (flags c) (add_status (gpr c ESP) 4) AND 0x00FCFFFF"
  obtain c' where c': "exec switch_save c = Some c'" by (simp add: switch_save_def cpu_ops)
  have "saved_state (mem c') (gpr c EAX) = capture c ?fl (saved_state (mem c) (gpr c EAX))"
    using c' by (auto simp: switch_save_def cpu_ops saved_state_def capture_def st rd_apart)
  moreover have "mem c' x = mem c x" if "144 \<le> x - gpr c EAX" "4 \<le> x - (gpr c ESP - 4)" for x
    using c' that by (auto simp: switch_save_def cpu_ops wr32_outside wr16_outside outside_field)
  moreover have "?fl AND CONTROL_FLAGS = flags c AND CONTROL_FLAGS"
    by (simp add: and.assoc with_status_control)
  moreover have "seg c' = seg c" "gpr c' EDX = gpr c EDX" "gpr c' ESP = gpr c ESP"
    using c' by (auto simp: switch_save_def cpu_ops)
  ultimately show ?thesis using that c' by blast
qed

lemma word_apart:
  assumes "apart e 4 p 144" "i \<le> 140"
  shows "apart e 4 (p + i) 4" "apart e 4 (p + i) 2"
proof -
  have i: "i \<le> 144" "4 \<le> 144 - i" "2 \<le> 144 - i" using assms(2) by (auto simp: word_le_nat_alt unat_sub_u32)
  show "apart e 4 (p + i) 4" "apart e 4 (p + i) 2" using apart_sub [OF assms(1), of 0 4 i] i by simp_all
qed

lemma exec_load:
  assumes st: "saved_state (mem c) (gpr c EDX) = st" and ss: "stack_segment_ok (c_ss st) c"
    and ap: "apart (c_esp st - 4) 4 (gpr c EDX) 144"
  obtains c' where "Option.bind (exec switch_load c) (exec [Ret]) = Some c'" "running st c'" "seg c' CS = seg c CS"
    "\<And>x. 4 \<le> x - (c_esp st - 4) \<Longrightarrow> mem c' x = mem c x"
proof -
  have f: "rd32 (mem c) (gpr c EDX + 44) = c_ebx st" "rd32 (mem c) (gpr c EDX + 48) = c_ecx st"
    "rd32 (mem c) (gpr c EDX + 52) = c_edx st" "rd32 (mem c) (gpr c EDX + 56) = c_esi st"
    "rd32 (mem c) (gpr c EDX + 60) = c_edi st" "rd32 (mem c) (gpr c EDX + 64) = c_esp st"
    "rd32 (mem c) (gpr c EDX + 68) = c_ebp st" "rd32 (mem c) (gpr c EDX + 72) = c_eip st"
    "rd32 (mem c) (gpr c EDX + 76) = c_eflags st"
    "rd16 (mem c) (gpr c EDX + 86) = c_ds st" "rd16 (mem c) (gpr c EDX + 88) = c_es st"
    "rd16 (mem c) (gpr c EDX + 90) = c_fs st" "rd16 (mem c) (gpr c EDX + 92) = c_gs st"
    "rd16 (mem c) (gpr c EDX + 94) = c_ss st"
    using st by (auto simp: saved_state_def)
  note ap' = word_apart [OF ap]
  have ss': "c_ss st AND 0xFFFC \<noteq> 0" "c_ss st AND 3 = seg c CS AND 3"
    using ss by (auto simp: stack_segment_ok_def cpl_def)
  obtain c' where c': "Option.bind (exec switch_load c) (exec [Ret]) = Some c'"
    by (simp add: switch_load_def cpu_ops f ss')
  moreover have "running st c'" "seg c' CS = seg c CS"
    using c' by (auto simp: switch_load_def cpu_ops f ss' ap' rd_apart running_def)
  moreover have "mem c' x = mem c x" if "4 \<le> x - (c_esp st - 4)" for x
    using c' that by (auto simp: switch_load_def cpu_ops f ss' ap' rd_apart wr32_outside)
  ultimately show ?thesis using that by blast
qed

lemma exec_load_faults:
  assumes "\<not> stack_segment_ok (c_ss (saved_state (mem c) (gpr c EDX))) c"
  shows "exec switch_load c = None"
  using assms by (auto simp: switch_load_def cpu_ops saved_state_def stack_segment_ok_def)

section \<open>The whole routine\<close>

text \<open>The machine at the first instruction: the processes passed on the stack and the control blocks away from the stack.\<close>

definition switch_call :: "u32 \<Rightarrow> u32 \<Rightarrow> cpu_t \<Rightarrow> bool" where
  "switch_call old new c \<longleftrightarrow>
     rd32 (mem c) (gpr c ESP + 4) = old \<and> rd32 (mem c) (gpr c ESP + 8) = new \<and>
     (old \<noteq> 0 \<longrightarrow> apart (gpr c ESP - 4) 16 old 144) \<and> (new \<noteq> 0 \<longrightarrow> apart (gpr c ESP - 4) 16 new 144) \<and>
     (old \<noteq> 0 \<and> new \<noteq> 0 \<longrightarrow> apart old 144 new 144)"

definition with_params :: "cpu_t \<Rightarrow> cpu_t" where
  "with_params c = set_status (logic_status (rd32 (mem c) (gpr c ESP + 4)))
     (set_reg EDX (rd32 (mem c) (gpr c ESP + 8)) (set_reg EAX (rd32 (mem c) (gpr c ESP + 4)) c))"

lemma with_params_simps [simp]:
  "mem (with_params c) = mem c" "seg (with_params c) = seg c" "gpr (with_params c) ESP = gpr c ESP"
  "gpr (with_params c) EAX = rd32 (mem c) (gpr c ESP + 4)" "gpr (with_params c) EDX = rd32 (mem c) (gpr c ESP + 8)"
  "flags (with_params c) AND CONTROL_FLAGS = flags c AND CONTROL_FLAGS"
  "capture (with_params c) fl st = capture c fl st" "zero_flag (with_params c) \<longleftrightarrow> rd32 (mem c) (gpr c ESP + 4) = 0"
  unfolding with_params_def by (simp_all add: set_reg_def) (simp_all add: set_status_def with_status_control capture_def)

lemma process_switch_unfold:
  "process_switch c =
     do { c1 \<leftarrow> (if rd32 (mem c) (gpr c ESP + 4) = 0 then Some (with_params c) else exec switch_save (with_params c));
          let c2 = set_status (logic_status (gpr c1 EDX)) c1;
          if gpr c1 EDX = 0 then exec [Ret] c2 else Option.bind (exec switch_load c2) (exec [Ret]) }"
proof -
  have "exec switch_params c = Some (set_reg EDX (rd32 (mem c) (gpr c ESP + 8)) (set_reg EAX (rd32 (mem c) (gpr c ESP + 4)) c))"
    (is "_ = Some ?p") by (simp add: switch_params_def set_reg_def)
  moreover have "exec [Test EAX] ?p = Some (with_params c)" by (simp add: with_params_def) (simp add: set_reg_def)
  moreover have "exec [Test EDX] d = Some (set_status (logic_status (gpr d EDX)) d)" for d by simp
  ultimately show ?thesis unfolding process_switch_def Let_def
    by (simp only: bind.simps with_params_simps zero_flag_logic if_distrib [of "\<lambda>x. Option.bind x _"])
qed

lemma saved_state_cong:
  assumes "\<And>i. i < 144 \<Longrightarrow> m (p + i) = m' (p + i)"
  shows "saved_state m p = saved_state m' p"
proof -
  have "rd32 m (p + i) = rd32 m' (p + i)" "rd16 m (p + i) = rd16 m' (p + i)" if "i \<le> 140" for i
  proof -
    have "i + j < 144" if "j < 4" for j
      using \<open>i \<le> 140\<close> that by (simp add: word_le_nat_alt word_less_nat_alt unat_add_u32)
    from this [of 0] this [of 1] this [of 2] this [of 3] show "rd32 m (p + i) = rd32 m' (p + i)" "rd16 m (p + i) = rd16 m' (p + i)"
      by (auto intro!: rd32_cong rd16_cong simp: add.assoc assms)
  qed
  then show ?thesis by (simp add: saved_state_def)
qed

lemma apart_block:
  assumes "apart a l b 144" "k \<le> l" "0 < k" "i < 144"
  shows "k \<le> b + i - a"
  using apart_offset [OF assms(1,4)] assms(2,3) by (meson order.trans less_le_trans)

lemma saved_state_kept:
  assumes "apart a l p 144" "k \<le> l" "0 < k" "\<And>x. k \<le> x - a \<Longrightarrow> m' x = m x"
  shows "saved_state m' p = saved_state m p"
  by (rule saved_state_cong) (rule assms(4), rule apart_block [OF assms(1-3)])

text \<open>Loading a process from any state of the registers: the tail of the routine.\<close>

lemma load_tail:
  assumes "gpr c1 EDX = new" "new \<noteq> 0" "saved_state (mem c1) new = st" "stack_segment_ok (c_ss st) c1" "apart (c_esp st - 4) 4 new 144"
  obtains c' where "Option.bind (exec switch_load (set_status (logic_status (gpr c1 EDX)) c1)) (exec [Ret]) = Some c'" "running st c'"
    "seg c' CS = seg c1 CS" "\<And>x. 4 \<le> x - (c_esp st - 4) \<Longrightarrow> mem c' x = mem c1 x"
  using assms exec_load [of "set_status (logic_status (gpr c1 EDX)) c1" st]
  by (auto simp: set_status_def stack_segment_ok_def cpl_def)

lemma switch_core:
  assumes call: "switch_call old new c" and nz: "old \<noteq> 0" "new \<noteq> 0"
    and st: "saved_state (mem c) new = st" "stack_segment_ok (c_ss st) c" "apart (c_esp st - 4) 4 new 144" "apart (c_esp st - 4) 4 old 144"
  obtains c' fl where "process_switch c = Some c'" "running st c'" "seg c' CS = seg c CS"
    "saved_state (mem c') old = capture c fl (saved_state (mem c) old)" "fl AND CONTROL_FLAGS = flags c AND CONTROL_FLAGS"
    "\<And>x. 144 \<le> x - old \<Longrightarrow> 4 \<le> x - (gpr c ESP - 4) \<Longrightarrow> 4 \<le> x - (c_esp st - 4) \<Longrightarrow> mem c' x = mem c x"
proof -
  from call nz have p: "rd32 (mem c) (gpr c ESP + 4) = old" "rd32 (mem c) (gpr c ESP + 8) = new"
    and ap: "apart (gpr c ESP - 4) 16 old 144" "apart (gpr c ESP - 4) 16 new 144" "apart old 144 new 144"
    by (auto simp: switch_call_def)
  have "apart (gpr (with_params c) ESP - 4) 16 (gpr (with_params c) EAX) 144" using ap(1) p by simp
  then obtain c1 fl where s: "exec switch_save (with_params c) = Some c1"
     "saved_state (mem c1) old = capture c fl (saved_state (mem c) old)"
     "fl AND CONTROL_FLAGS = flags c AND CONTROL_FLAGS" "seg c1 = seg c" "gpr c1 EDX = new"
     "\<And>x. 144 \<le> x - old \<Longrightarrow> 4 \<le> x - (gpr c ESP - 4) \<Longrightarrow> mem c1 x = mem c x"
    by (rule exec_save) (simp add: p)
  have "saved_state (mem c1) new = st"
    unfolding st(1) [symmetric]
    by (rule saved_state_cong, rule s(6), rule apart_block [OF ap(3)], simp_all add: apart_block [OF ap(2)])
  moreover have "stack_segment_ok (c_ss st) c1" using st(2) s(4) by (simp add: stack_segment_ok_def cpl_def)
  ultimately obtain c' where l: "Option.bind (exec switch_load (set_status (logic_status (gpr c1 EDX)) c1)) (exec [Ret]) = Some c'" "running st c'"
    "seg c' CS = seg c1 CS" "\<And>x. 4 \<le> x - (c_esp st - 4) \<Longrightarrow> mem c' x = mem c1 x"
    using load_tail [OF s(5) nz(2) _ _ st(3)] by blast
  have "process_switch c = Some c'" using p nz s(1,5) l(1) by (simp add: process_switch_unfold del: exec.simps)
  moreover have "saved_state (mem c') old = saved_state (mem c1) old"
    by (rule saved_state_kept [OF st(4), of 4]) (simp_all add: l(4))
  ultimately show ?thesis using that l(2,3,4) s by simp
qed

lemma switch_faults:
  assumes "switch_call old new c" "new \<noteq> 0" "\<not> stack_segment_ok (c_ss (saved_state (mem c) new)) c"
  shows "process_switch c = None"
proof -
  from assms have p: "rd32 (mem c) (gpr c ESP + 4) = old" "rd32 (mem c) (gpr c ESP + 8) = new"
    by (auto simp: switch_call_def)
  have *: "Option.bind (exec switch_load (set_status st c1)) (exec [Ret]) = None"
    if "gpr c1 EDX = new" "saved_state (mem c1) new = saved_state (mem c) new" "seg c1 = seg c" for st c1
    using assms(3) that by (simp add: exec_load_faults set_status_def stack_segment_ok_def cpl_def)
  show ?thesis
  proof (cases "old = 0")
    case True
    then show ?thesis using p assms(2) * [of "with_params c"] by (simp add: process_switch_unfold del: exec.simps)
  next
    case False
    with assms have ap: "apart (gpr c ESP - 4) 16 old 144" "apart (gpr c ESP - 4) 16 new 144" "apart old 144 new 144"
      by (auto simp: switch_call_def)
    have "apart (gpr (with_params c) ESP - 4) 16 (gpr (with_params c) EAX) 144" using ap(1) p by simp
    then obtain c1 where s: "exec switch_save (with_params c) = Some c1" "seg c1 = seg c" "gpr c1 EDX = new"
       "\<And>x. 144 \<le> x - old \<Longrightarrow> 4 \<le> x - (gpr c ESP - 4) \<Longrightarrow> mem c1 x = mem c x"
      by (rule exec_save) (simp add: p)
    have "saved_state (mem c1) new = saved_state (mem c) new"
      by (rule saved_state_cong, rule s(4), rule apart_block [OF ap(3)], simp_all add: apart_block [OF ap(2)])
    then show ?thesis using False p assms(2) s * [of c1] by (simp add: process_switch_unfold del: exec.simps)
  qed
qed

section \<open>The scheduler and the switch together\<close>

text \<open>Memory holds the saved states the scheduler's control blocks have; the blocks do not overlap; a word is outside all of them.\<close>

definition represents :: "proc_state \<Rightarrow> cpu_t \<Rightarrow> bool" where
  "represents s c \<longleftrightarrow> (\<forall>p\<in>set (process_table s). p \<noteq> 0 \<longrightarrow> saved_state (mem c) p = pr_cpu_state (pcbs s p))"

definition blocks_apart :: "proc_state \<Rightarrow> bool" where
  "blocks_apart s \<longleftrightarrow> (\<forall>p\<in>set (process_table s). \<forall>q\<in>set (process_table s). p \<noteq> 0 \<and> q \<noteq> 0 \<and> p \<noteq> q \<longrightarrow> apart p 144 q 144)"

definition outside_blocks :: "u32 \<Rightarrow> proc_state \<Rightarrow> bool" where
  "outside_blocks a s \<longleftrightarrow> (\<forall>p\<in>set (process_table s). p \<noteq> 0 \<longrightarrow> apart a 4 p 144)"

lemma schedule_keeps_saved:
  assumes "process_schedule s = (sw, s')"
  shows "pr_cpu_state (pcbs s' p) = pr_cpu_state (pcbs s p)" "process_table s' = process_table s"
  using assms by (auto simp: process_schedule_def upd_pcb_def Let_def split: if_splits)

lemma schedule_logs:
  assumes "process_schedule s = (True, s')"
  shows "switch_log s' = switch_log s @ [(current_process s, current_process s')]" "current_process s' \<noteq> current_process s"
  using assms by (auto simp: process_schedule_def upd_pcb_def Let_def split: if_splits)

section \<open>A machine for the witnesses\<close>

text \<open>A process with control block 0x2000 calls the switch to the one at 0x3000, whose stack is at 0x4000.\<close>

definition demo_cpu :: cpu_t where
  "demo_cpu = \<lparr>gpr = (\<lambda>r. 7)(ESP := 0x1000, EBX := 11, EBP := 0x1100), seg = (\<lambda>_. 0x10)(CS := 0x08), ip = 0x100, flags = 0x202,
     mem = wr16 (wr32 (wr32 (wr32 (wr32 (wr32 (\<lambda>_. 0) 0x1000 0x500) 0x1004 0x2000) 0x1008 0x3000) 0x3040 0x4000) 0x3048 0x600) 0x305E 0x10,
     gdtr = (0, 0), idtr = (0, 0), task_reg = 0\<rparr>"

lemma demo_call: "switch_call 0x2000 0x3000 demo_cpu"
  by (simp add: switch_call_def demo_cpu_def rd_apart apart_def)

lemma demo_new: "c_ss (saved_state (mem demo_cpu) 0x3000) = 0x10" "c_esp (saved_state (mem demo_cpu) 0x3000) = 0x4000"
  by (simp_all add: saved_state_def demo_cpu_def rd_apart apart_def)

lemma demo_ss: "stack_segment_ok 0x10 demo_cpu" "seg demo_cpu SS = 0x10" "gpr demo_cpu ESP = 0x1000"
  by (simp_all add: stack_segment_ok_def cpl_def demo_cpu_def)

lemma demo_apart: "apart 0x3FFC 4 0x3000 144" "apart 0x3FFC 4 0x2000 144"
  by (simp_all add: apart_def)

section \<open>Properties\<close>

text \<open>
  The context switch implements its specification: called with two control blocks that are apart from each other and from
  the stacks, it stores the registers, the return address, the stack pointer after the return and the
  segments of the running process in the old control block and leaves its other fields, it leaves the processor with the saved state of
  the new one, and it writes nothing else but one word below each of the two stack pointers.
\<close>

theorem process_switch_refines:
  assumes "switch_call old new c" "old \<noteq> 0" "new \<noteq> 0"
    and "saved_state (mem c) new = st" "stack_segment_ok (c_ss st) c"
    and "apart (c_esp st - 4) 4 new 144" "apart (c_esp st - 4) 4 old 144"
  shows "\<exists>c' fl. process_switch c = Some c' \<and> running st c' \<and> seg c' CS = seg c CS \<and>
    saved_state (mem c') old = capture c fl (saved_state (mem c) old) \<and> fl AND CONTROL_FLAGS = flags c AND CONTROL_FLAGS \<and>
    (\<forall>x. 144 \<le> x - old \<and> 4 \<le> x - (gpr c ESP - 4) \<and> 4 \<le> x - (c_esp st - 4) \<longrightarrow> mem c' x = mem c x)"
  using switch_core [OF assms] by metis

lemma process_switch_refines_witness:
  "\<exists>c' fl. process_switch demo_cpu = Some c' \<and> running (saved_state (mem demo_cpu) 0x3000) c' \<and>
    saved_state (mem c') 0x2000 = capture demo_cpu fl (saved_state (mem demo_cpu) 0x2000)"
  using process_switch_refines [OF demo_call _ _ refl] demo_new demo_ss(1) demo_apart by auto

text \<open>
  C36: A process that is switched away from and later switched to continues where it called: for any machine state in which its
  control block still holds what was saved, the switch back returns to the caller with the stack pointer, the frame pointer, the
  registers ebx, ecx, esi and edi, the segments and the control flags (interrupts, direction, privilege of ports) it had.
\<close>

theorem context_switch_roundtrip:
  assumes "switch_call a b c" "a \<noteq> 0" "b \<noteq> 0"
    and "stack_segment_ok (c_ss (saved_state (mem c) b)) c"
    and "apart (c_esp (saved_state (mem c) b) - 4) 4 b 144" "apart (c_esp (saved_state (mem c) b) - 4) 4 a 144"
    and "stack_segment_ok (seg c SS) c"
    and "process_switch c = Some c1" and "saved_state (mem c2) a = saved_state (mem c1) a"
    and "switch_call d a c2" "d \<noteq> 0" "seg c2 CS = seg c CS" "apart (gpr c ESP) 4 d 144"
  shows "\<exists>c3. process_switch c2 = Some c3 \<and> ip c3 = rd32 (mem c) (gpr c ESP) \<and> gpr c3 ESP = gpr c ESP + 4 \<and>
    (\<forall>r\<in>{EBX, ECX, ESI, EDI, EBP}. gpr c3 r = gpr c r) \<and> seg c3 = seg c \<and>
    flags c3 AND CONTROL_FLAGS = flags c AND CONTROL_FLAGS"
proof -
  from switch_core [OF assms(1-3) refl assms(4-6)] assms(8) obtain fl where
    sv: "saved_state (mem c1) a = capture c fl (saved_state (mem c) a)" and fl: "fl AND CONTROL_FLAGS = flags c AND CONTROL_FLAGS"
    by (metis option.inject)
  let ?st = "saved_state (mem c2) a"
  have st: "c_esp ?st - 4 = gpr c ESP" "c_ss ?st = seg c SS" "c_eflags ?st = fl" unfolding assms(9) sv by (simp_all add: capture_def)
  have ap: "apart (gpr c ESP) 4 a 144"
    using assms(1,2) apart_sub [of "gpr c ESP - 4" 16 a 144 4 4 0 144] by (simp add: switch_call_def)
  have ok: "stack_segment_ok (c_ss ?st) c2" using assms(7,12) st(2) by (simp add: stack_segment_ok_def cpl_def)
  obtain c3 where c3: "process_switch c2 = Some c3" "running ?st c3" "seg c3 CS = seg c2 CS"
    using switch_core [OF assms(10,11,2) refl ok] ap assms(13) st(1) by metis
  have "flags c3 AND CONTROL_FLAGS = fl AND CONTROL_FLAGS"
    using c3(2) st(3) by (simp add: running_def bit.conj_disj_distrib2 and.assoc)
  moreover have "seg c3 s = seg c s" for s
    using c3(2,3) assms(12) unfolding assms(9) sv by (cases s) (simp_all add: running_def capture_def)
  ultimately show ?thesis using c3(1,2) fl unfolding assms(9) sv by (auto simp: running_def capture_def)
qed

lemma context_switch_roundtrip_witness:
  "\<exists>c1 c3. process_switch demo_cpu = Some c1 \<and>
    process_switch (c1\<lparr>gpr := (gpr c1)(ESP := 0x3FF4), mem := wr32 (wr32 (mem c1) 0x3FFC 0x2000) 0x3FF8 0x3000\<rparr>) = Some c3 \<and>
    ip c3 = rd32 (mem demo_cpu) 0x1000 \<and> gpr c3 ESP = 0x1004 \<and> gpr c3 EBX = gpr demo_cpu EBX"
proof -
  obtain c1 where c1: "process_switch demo_cpu = Some c1" "seg c1 CS = seg demo_cpu CS"
    by (rule switch_core [OF demo_call _ _ refl]) (simp_all add: demo_new demo_ss demo_apart)
  let ?c2 = "c1\<lparr>gpr := (gpr c1)(ESP := 0x3FF4), mem := wr32 (wr32 (mem c1) 0x3FFC 0x2000) 0x3FF8 0x3000\<rparr>"
  have keep: "saved_state (wr32 m a v) 0x2000 = saved_state m 0x2000" if "apart a 4 0x2000 144" for m a v
    by (rule saved_state_kept [OF that, of 4]) (simp_all add: wr32_outside)
  have "saved_state (mem ?c2) 0x2000 = saved_state (mem c1) 0x2000"
    by (simp add: keep apart_def)
  moreover have "switch_call 0x3000 0x2000 ?c2" by (simp add: switch_call_def rd_apart apart_def)
  ultimately show ?thesis
    using context_switch_roundtrip [OF demo_call _ _ _ _ _ _ c1(1), of ?c2 "0x3000"] c1
    by (simp add: demo_new demo_ss demo_apart) (auto simp: apart_def)
qed

text \<open>
  C37: The scheduler's choice is carried out: when \<open>process_schedule\<close> switches and its call of \<open>process_switch\<close> runs on a machine whose memory
  represents the process table, the processor continues the process it picked, the one it left is saved in its control block, and the
  memory still represents the table, so the saved states of all other processes are untouched.
\<close>

theorem scheduled_switch_runs:
  assumes "process_schedule s = (True, s')" "switch_call (current_process s) (current_process s') c"
    and "current_process s \<in> set (process_table s) - {0}" "current_process s' \<in> set (process_table s) - {0}"
    and "represents s c" "blocks_apart s" "st = pr_cpu_state (pcbs s (current_process s'))" "stack_segment_ok (c_ss st) c"
    and "outside_blocks (gpr c ESP - 4) s" "outside_blocks (c_esp st - 4) s"
  shows "\<exists>c' fl. process_switch c = Some c' \<and> running st c' \<and> fl AND CONTROL_FLAGS = flags c AND CONTROL_FLAGS \<and>
    switch_log s' = switch_log s @ [(current_process s, current_process s')] \<and>
    represents (upd_pcb (current_process s) (\<lambda>b. b\<lparr>pr_cpu_state := capture c fl (pr_cpu_state b)\<rparr>) s') c'"
proof -
  let ?a = "current_process s" and ?b = "current_process s'"
  note sched = schedule_keeps_saved [OF assms(1)] schedule_logs [OF assms(1)]
  have nz: "?a \<noteq> 0" "?b \<noteq> 0" and st: "saved_state (mem c) ?b = st" "saved_state (mem c) ?a = pr_cpu_state (pcbs s ?a)"
    using assms(3-5,7) by (auto simp: represents_def)
  have ap: "apart (c_esp st - 4) 4 ?b 144" "apart (c_esp st - 4) 4 ?a 144" using assms(3,4,10) by (auto simp: outside_blocks_def)
  obtain c' fl where c': "process_switch c = Some c'" "running st c'"
    "saved_state (mem c') ?a = capture c fl (saved_state (mem c) ?a)" "fl AND CONTROL_FLAGS = flags c AND CONTROL_FLAGS"
    and fr: "\<And>x. 144 \<le> x - ?a \<Longrightarrow> 4 \<le> x - (gpr c ESP - 4) \<Longrightarrow> 4 \<le> x - (c_esp st - 4) \<Longrightarrow> mem c' x = mem c x"
    using switch_core [OF assms(2) nz st(1) assms(8) ap] by metis
  have "saved_state (mem c') p = pr_cpu_state (pcbs s p)" if "p \<in> set (process_table s)" "p \<noteq> 0" "p \<noteq> ?a" for p
  proof -
    have x: "apart ?a 144 p 144" "apart (gpr c ESP - 4) 4 p 144" "apart (c_esp st - 4) 4 p 144"
      using assms(3,6,9,10) that by (auto simp: blocks_apart_def outside_blocks_def)
    have "saved_state (mem c') p = saved_state (mem c) p"
      by (rule saved_state_cong) (intro fr; rule apart_block [OF x(1)] apart_block [OF x(2)] apart_block [OF x(3)]; simp)
    then show ?thesis using assms(5) that by (simp add: represents_def)
  qed
  then have "represents (upd_pcb ?a (\<lambda>b. b\<lparr>pr_cpu_state := capture c fl (pr_cpu_state b)\<rparr>) s') c'"
    using c'(3) st(2) sched(1,2) by (auto simp: represents_def upd_pcb_def)
  then show ?thesis using c'(1,2,4) sched(3) by blast
qed

text \<open>
  A process made by \<open>process_create\<close> starts at its entry point on the last word of its stack, in the kernel segments and with
  interrupts enabled. That word is the entry point again: a process function that returns is entered a second time, with the stack
  pointer at the end of its stack.
\<close>

lemma fresh_process_starts:
  assumes "switch_call old new c" "old \<noteq> 0" "new \<noteq> 0" "cpl c = 0"
    and "saved_state (mem c) new = kernel_cpu_state entry top st" "rd32 (mem c) top = entry"
    and "apart (top - 4) 8 new 144" "apart (top - 4) 8 old 144" "apart (gpr c ESP - 4) 4 top 4"
  shows "\<exists>c' c''. process_switch c = Some c' \<and> ip c' = entry \<and> gpr c' ESP = top \<and> bit (flags c') 9 \<and>
    (\<forall>s\<in>{DS, ES, FS, GS, SS}. seg c' s = 0x10) \<and> exec [Ret] c' = Some c'' \<and> ip c'' = entry \<and> gpr c'' ESP = top + 4"
proof -
  let ?st = "kernel_cpu_state entry top st"
  have st: "c_ss ?st = 0x10" "c_esp ?st = top" by (simp_all add: kernel_cpu_state_def)
  have ap: "apart (top - 4) 4 new 144" "apart (top - 4) 4 old 144" "apart top 4 old 144"
    using apart_sub [OF assms(7), of 0 4 0 144] apart_sub [OF assms(8), of 0 4 0 144] apart_sub [OF assms(8), of 4 4 0 144] by simp_all
  have ok: "stack_segment_ok (c_ss ?st) c" using assms(4) st(1) by (simp add: stack_segment_ok_def)
  obtain c' where c': "process_switch c = Some c'" "running ?st c'"
    and fr: "\<And>x. 144 \<le> x - old \<Longrightarrow> 4 \<le> x - (gpr c ESP - 4) \<Longrightarrow> 4 \<le> x - (top - 4) \<Longrightarrow> mem c' x = mem c x"
    using switch_core [OF assms(1-3,5) ok] ap(1,2) st(2) by metis
  have s: "apart old 144 top 4" "apart (top - 4) 4 top 4" using ap(3) by (simp_all add: apart_sym)
  have m: "mem c' (top + i) = mem c (top + i)" if "i < 4" for i
    by (rule fr) (rule apart_offset [OF s(1) that] apart_offset [OF assms(9) that] apart_offset [OF s(2) that], simp)+
  have "rd32 (mem c') top = entry"
    unfolding assms(6) [symmetric] by (rule rd32_cong) (use m [of 0] m [of 1] m [of 2] m [of 3] in \<open>simp_all add: word_less_nat_alt\<close>)
  then show ?thesis using c' by (auto simp: running_def kernel_cpu_state_def pop32_def set_reg_def bit_simps)
qed

text \<open>Two processes, the second one of higher priority, in the memory of \<open>demo_cpu\<close>.\<close>

definition pair_procs :: proc_state where
  "pair_procs = demo_procs\<lparr>process_table := [0x2000, 0x3000] @ replicate 14 0, process_count_val := 2, idle_process := 0x2000,
     pcbs := (\<lambda>p. (demo_pcb p)\<lparr>pr_priority := (if p = 0x3000 then 9 else 5), pr_cpu_state := saved_state (mem demo_cpu) p\<rparr>)\<rparr>"

lemma pair_table: "process_table pair_procs = [0x2000, 0x3000] @ replicate 14 0" "current_process pair_procs = 0x2000"
  "pr_cpu_state (pcbs pair_procs p) = saved_state (mem demo_cpu) p"
  by (simp_all add: pair_procs_def demo_procs_def)

lemma pair_schedule: "\<exists>s'. process_schedule pair_procs = (True, s') \<and> current_process s' = 0x3000"
proof -
  let ?s = "upd_pcb 0x2000 (\<lambda>b. b\<lparr>pr_state := READY\<rparr>) pair_procs"
  have t: "process_table ?s = [0x2000, 0x3000] @ replicate 14 0" by (simp add: upd_pcb_def pair_table)
  have p: "pcbs ?s 0x2000 = (pcbs pair_procs 0x2000)\<lparr>pr_state := READY\<rparr>" "pcbs ?s 0x3000 = pcbs pair_procs 0x3000"
    "pr_state (pcbs pair_procs 0x3000) = READY" "pr_state (pcbs pair_procs 0x2000) = RUNNING"
    "pr_priority (pcbs pair_procs 0x2000) = 5" "pr_priority (pcbs pair_procs 0x3000) = 9"
    by (simp_all add: upd_pcb_def pair_procs_def demo_pcb_def)
  have "fold (sched_step ?s) [2..<16] = id"
  proof (rule fold_id)
    fix i :: nat assume "i \<in> set [2..<16]"
    then have "2 \<le> i" "i < 16" by (simp_all del: upt_rec_numeral)
    then have "process_table ?s ! i = 0" unfolding t by (simp add: nth_append nth_Cons')
    then show "sched_step ?s i = id" by (auto simp: sched_step_def fun_eq_iff)
  qed
  moreover have "[0..<16] = 0 # 1 # [2..<16::nat]" by (simp add: upt_conv_Cons numeral_2_eq_2 del: upt_rec_numeral)
  ultimately have "sched_pick ?s = 0x3000" using p t by (simp add: sched_pick_def sched_step_def del: upt_rec_numeral)
  then show ?thesis using p pair_table(2) by (simp add: process_schedule_def Let_def) (simp add: pair_procs_def upd_pcb_def)
qed

lemma scheduled_switch_runs_witness:
  "\<exists>s' c' fl. process_schedule pair_procs = (True, s') \<and> process_switch demo_cpu = Some c' \<and> gpr c' ESP = 0x4000 \<and>
    represents (upd_pcb 0x2000 (\<lambda>b. b\<lparr>pr_cpu_state := capture demo_cpu fl (pr_cpu_state b)\<rparr>) s') c'"
proof -
  obtain s' where s': "process_schedule pair_procs = (True, s')" "current_process s' = 0x3000" using pair_schedule by blast
  have "represents pair_procs demo_cpu" by (simp add: represents_def pair_table)
  moreover have "blocks_apart pair_procs" "outside_blocks (gpr demo_cpu ESP - 4) pair_procs" "outside_blocks (0x4000 - 4) pair_procs"
    by (auto simp: blocks_apart_def outside_blocks_def pair_table demo_ss apart_def)
  ultimately show ?thesis
    using scheduled_switch_runs [OF s'(1), of demo_cpu] demo_call demo_new demo_ss(1)
    by (auto simp: s' pair_table running_def)
qed

end
