(* ===== verification/Usermode.thy ===== *)
theory Usermode
  imports Context_Switch Kprintf
begin

text \<open>
  User mode processes as the machine sees them: the wrapper \<open>user_mode_entry_wrapper\<close> of \<open>process.c\<close>, the assembly routine
  \<open>enter_usermode\<close> of \<open>usermode.asm\<close> it calls, and what the context switch makes of the saved state that
  \<open>process_create_user_mode\<close> prepares.
\<close>

section \<open>Entering ring 3 (usermode.asm)\<close>

definition enter_usermode :: "instr list" where
  "enter_usermode =
     [Cli, Load EAX ESP 4, Load EBX ESP 8,
      PushImm 0x23, Push EBX,
      Pushfd, Pop ECX, Or ECX 0x200, Push ECX,
      PushImm 0x1B, Push EAX,
      MovLow EAX 0x23, ToSeg DS EAX, ToSeg ES EAX, ToSeg FS EAX, ToSeg GS EAX,
      Iret]"

section \<open>The wrapper (process.c)\<close>

text \<open>Either the process exits, with the result of \<open>process_exit\<close>, or \<open>enter_usermode\<close> is called with an entry point and a stack.\<close>

datatype wrapper_outcome = Exits "bool option" proc_state screen_t | Enters u32 u32 screen_t

definition user_mode_entry_wrapper :: "u8 list \<Rightarrow> u8 list \<Rightarrow> proc_state \<Rightarrow> screen_t \<Rightarrow> wrapper_outcome option" where
  "user_mode_entry_wrapper buffer temp s scr =
     (let proc = current_process s in
      if proc = 0 \<or> pr_is_user_mode (pcbs s proc) = 0
      then do { scr \<leftarrow> kprintf_color (MAKE_COLOR 4 0) (lit (''[PROCESS ERROR] Invalid user mode process'' @ [CHR 10])) [] buffer temp scr;
                (r, s) \<leftarrow> process_exit s;
                Some (Exits r s scr) }
      else do { let entry_point = c_eip (pr_cpu_state (pcbs s proc));
                let user_stack = pr_user_stack (pcbs s proc);
                scr \<leftarrow> kprintf (lit (''[USERMODE] Switching to Ring 3: entry=0x%x, stack=0x%x'' @ [CHR 10]))
                  [Word entry_point, Word user_stack] buffer temp scr;
                Some (Enters entry_point user_stack scr) })"

section \<open>Ring 3 is entered with the right frame\<close>

text \<open>
  \<open>enter_usermode\<close> leaves the processor in ring 3 at the entry point, on the user stack, with the user segments in every
  segment register and interrupts enabled; it has written only the five words of the return frame below the kernel stack pointer.
\<close>

theorem enter_usermode_ring3:
  assumes "rd32 (mem c) (gpr c ESP + 4) = entry" "rd32 (mem c) (gpr c ESP + 8) = stack" "cpl c = 0"
  shows "\<exists>c'. exec enter_usermode c = Some c' \<and> ip c' = entry \<and> gpr c' ESP = stack \<and>
    seg c' = (\<lambda>_. 0x23)(CS := 0x1B) \<and> cpl c' = 3 \<and> bit (flags c') 9 \<and>
    (\<forall>x. 20 \<le> x - (gpr c ESP - 20) \<longrightarrow> mem c' x = mem c x)"
proof -
  obtain c' where c': "exec enter_usermode c = Some c'"
    using assms by (simp add: enter_usermode_def cpu_ops iret_def rd_apart)
  then have "ip c' = entry" "gpr c' ESP = stack" "cpl c' = 3"
    using assms by (auto simp: enter_usermode_def cpu_ops iret_def rd_apart)
  moreover have "seg c' s = ((\<lambda>_. 0x23)(CS := 0x1B)) s" for s
    using c' assms by (cases s) (auto simp: enter_usermode_def cpu_ops iret_def rd_apart)
  moreover have "bit (flags c') 9"
    using c' assms by (auto simp: enter_usermode_def cpu_ops iret_def rd_apart with_status_def bit_simps)
  moreover have "mem c' x = mem c x" if "20 \<le> x - (gpr c ESP - 20)" for x
    using c' assms below_stack [OF that] by (auto simp: enter_usermode_def cpu_ops iret_def rd_apart wr32_outside)
  ultimately show ?thesis using c' by auto
qed

lemma enter_usermode_ring3_witness:
  "\<exists>c'. exec enter_usermode demo_cpu = Some c' \<and> ip c' = 0x2000 \<and> gpr c' ESP = 0x3000 \<and> cpl c' = 3"
proof -
  have "rd32 (mem demo_cpu) (gpr demo_cpu ESP + 4) = 0x2000" "rd32 (mem demo_cpu) (gpr demo_cpu ESP + 8) = 0x3000" "cpl demo_cpu = 0"
    by (simp_all add: demo_cpu_def rd_apart apart_def cpl_def)
  from enter_usermode_ring3 [OF this] show ?thesis by blast
qed

section \<open>The control block of a user mode process\<close>

lemma process_get_upd:
  assumes "\<And>b. pr_pid (f b) = pr_pid b"
  shows "process_get pid (upd_pcb p f s) = process_get pid s"
proof -
  have "(\<lambda>x. x \<noteq> 0 \<and> pr_pid (pcbs (upd_pcb p f s) x) = pid) = (\<lambda>x. x \<noteq> 0 \<and> pr_pid (pcbs s x) = pid)"
    by (auto simp: upd_pcb_def assms)
  then show ?thesis by (simp add: process_get_def upd_pcb_def cong: option.case_cong)
qed

lemma process_get_paging [simp]: "process_get pid (s\<lparr>pr_paging := g\<rparr>) = process_get pid s"
  by (simp add: process_get_def)

lemma user_mode_pcb:
  assumes "process_create_user_mode name code wrapper n prio s = Some (pid, s')" "pid \<noteq> 0"
  shows "process_get pid s' \<noteq> 0 \<and> pr_is_user_mode (pcbs s' (process_get pid s')) = 1 \<and>
    c_eip (pr_cpu_state (pcbs s' (process_get pid s'))) = USER_CODE_BASE \<and> c_ss (pr_cpu_state (pcbs s' (process_get pid s'))) = 0x23"
  using assms
  by (auto simp: process_create_user_mode_def pr_alloc_page_def pr_paging_op_def pr_map_user_def Let_def process_get_upd
      split: bind_splits if_splits prod.splits)

text \<open>
  C38: A user mode process never starts: \<open>process_create_user_mode\<close> gives its saved state the stack segment of ring 3, and the context
  switch, which runs in ring 0 and does not change the code segment, faults when it loads it. The wrapper that would enter ring 3 is
  not reached.
\<close>

theorem user_process_switch_faults:
  assumes "process_create_user_mode name code wrapper n prio s = Some (pid, s')" "pid \<noteq> 0"
    and "switch_call old (process_get pid s') c" "cpl c = 0"
    and "saved_state (mem c) (process_get pid s') = pr_cpu_state (pcbs s' (process_get pid s'))"
  shows "process_switch c = None"
  using switch_faults [OF assms(3)] user_mode_pcb [OF assms(1,2)] assms(4,5) by (simp add: stack_segment_ok_def)

section \<open>Creation succeeds when pages are left\<close>

lemma map_page_total:
  assumes "pmm_inv (pg_pmm g)"
  shows "\<exists>g'. paging_map_page v a f g = Some g' \<and> pmm_inv (pg_pmm g')"
  using pages.alloc_total [OF assms] assms by (auto simp: paging_map_page_def Let_def)

lemma map_user_total:
  assumes "pmm_inv (pg_pmm (pr_paging s))"
  shows "\<exists>s'. pr_map_user dir v a s = Some s' \<and> pmm_inv (pg_pmm (pr_paging s'))"
proof -
  have "unat ((4096 + 4096 - 1) div 4096 :: u32) = 1" by simp
  then show ?thesis using map_page_total [of "(pr_paging s)\<lparr>current_directory := dir\<rparr>" v a 7] assms
    by (auto simp: pr_map_user_def paging_map_user_code_def Let_def)
qed

lemma map_user_twice:
  assumes "pmm_inv (pg_pmm (pr_paging s))"
  shows "\<exists>s'. Option.bind (pr_map_user dir v a s) (\<lambda>s. Option.bind (pr_map_user dir w b s) (\<lambda>s. Some (pid, F s))) = Some (pid, s')"
proof -
  from map_user_total [OF assms] obtain s1 where s1: "pr_map_user dir v a s = Some s1" "pmm_inv (pg_pmm (pr_paging s1))" by blast
  from map_user_total [OF s1(2)] obtain s2 where "pr_map_user dir w b s1 = Some s2" by blast
  then show ?thesis using s1(1) by simp
qed

lemma alloc_page_left:
  assumes "pmm_inv q" "card ({512..<4096} - used_set q) = Suc k"
  obtains a q' where "pmm_alloc_page q = Some (a, q')" "a \<noteq> 0" "pmm_inv q'" "card ({512..<4096} - used_set q') = k"
proof -
  obtain a q' where aq: "pmm_alloc_page q = Some (a, q')" using pages.alloc_total [OF assms(1)] by blast
  from assms(1) aq show ?thesis
  proof (cases rule: pages.alloc_cases)
    case 1
    then have "card ({512..<4096} - used_set q) = 0" by (simp add: Diff_eq_empty_iff [THEN iffD2])
    then show ?thesis using assms(2) by simp
  next
    case (2 p)
    have "{512..<4096} - used_set q' = ({512..<4096} - used_set q) - {p}" using 2(5) by auto
    then show ?thesis using that [OF aq 2(2,6)] assms(2) 2(3,4) by (simp add: card_Diff_singleton)
  qed
qed

lemma copy_kernel_entries_pmm [simp]: "pg_pmm (copy_kernel_entries dir i n g) = pg_pmm g"
  by (induction n arbitrary: i g) simp_all

lemma user_mode_create_ok:
  assumes "process_create name wrapper n s = Some (pid, s1)" "pid \<noteq> 0" "process_get pid s1 \<noteq> 0"
    and "pmm_inv (pg_pmm (pr_paging s1))" "card ({512..<4096} - used_set (pg_pmm (pr_paging s1))) = Suc (Suc (Suc k))"
  shows "\<exists>s'. process_create_user_mode name code wrapper n prio s = Some (pid, s')"
proof -
  obtain a1 q1 where a1: "pmm_alloc_page (pg_pmm (pr_paging s1)) = Some (a1, q1)" "a1 \<noteq> 0" "pmm_inv q1" "card ({512..<4096} - used_set q1) = Suc (Suc k)"
    using alloc_page_left [OF assms(4,5)] by blast
  obtain a2 q2 where a2: "pmm_alloc_page q1 = Some (a2, q2)" "a2 \<noteq> 0" "pmm_inv q2" "card ({512..<4096} - used_set q2) = Suc k"
    using alloc_page_left [OF a1(3,4)] by blast
  obtain a3 q3 where a3: "pmm_alloc_page q2 = Some (a3, q3)" "a3 \<noteq> 0" "pmm_inv q3"
    using alloc_page_left [OF a2(3,4)] by blast
  show ?thesis using assms(1-3) a1 a2 a3
    by (simp add: process_create_user_mode_def pr_alloc_page_def pr_paging_op_def paging_create_user_directory_def Let_def upd_pcb_def)
      (rule map_user_twice, simp)
qed

lemma process_create_paging: "process_create name entry n s = Some (pid, s') \<Longrightarrow> pr_paging s' = pr_paging s"
  by (auto simp: process_create_def enter_process_def pr_kmalloc_def pr_kfree_def poke32_def upd_pcb_def Let_def
      split: bind_splits if_splits prod.splits option.splits)

lemma process_get_nonzero:
  assumes "x \<in> set (process_table s)" "x \<noteq> 0" "pr_pid (pcbs s x) = pid"
  shows "process_get pid s \<noteq> 0"
proof -
  have "List.find (\<lambda>p. p \<noteq> 0 \<and> pr_pid (pcbs s p) = pid) (process_table s) \<noteq> None"
    using assms by (auto simp: find_None_iff)
  then show ?thesis by (auto simp: process_get_def dest: find_SomeD split: option.splits)
qed

lemma lone_user_create: "\<exists>s'. process_create_user_mode [112, 0] code 0x1234 4096 5 lone_procs = Some (4, s')"
proof -
  obtain s1 where s1: "process_create [112, 0] 0x1234 4096 lone_procs = Some (4, s1)" using lone_create by blast
  have slot: "\<exists>i < 16. process_table lone_procs ! i = 0" by (intro exI [of _ 0]) (simp add: lone_procs_def)
  obtain p base q i where i: "i < 16" "process_table s1 = (process_table lone_procs)[i := p]" and
    p: "0 \<notin> {p, base, q}" "pr_pid (pcbs s1 p) = 4"
    by (rule process_create_ok [OF lone_ok _ slot s1]) auto
  have "length (process_table lone_procs) = 16" by (simp add: lone_procs_def)
  with i have "p \<in> set (process_table s1)" by (simp add: set_update_memI)
  with p have g: "process_get 4 s1 \<noteq> 0" using process_get_nonzero by auto
  have pg: "pg_pmm (pr_paging s1) = boot_pmm"
    using process_create_paging [OF s1] by (simp add: lone_procs_def demo_procs_def boot_paging_def)
  have "{512..<4096} - {0..<512} = {512..<4096 :: nat}" by auto
  then have "card ({512..<4096} - used_set (pg_pmm (pr_paging s1))) = Suc (Suc (Suc 3581))" by (simp add: pg boot_pmm_used)
  from user_mode_create_ok [OF s1 _ g _ this] show ?thesis by (simp add: pg boot_pmm_inv)
qed

lemma user_process_switch_faults_witness:
  "\<exists>s' c. process_create_user_mode [112, 0] (\<lambda>_. 0) 0x1234 4096 5 lone_procs = Some (4, s') \<and>
    saved_state (mem c) (process_get 4 s') = pr_cpu_state (pcbs s' (process_get 4 s')) \<and> process_switch c = None"
proof -
  obtain s' where s': "process_create_user_mode [112, 0] (\<lambda>_. 0) 0x1234 4096 5 lone_procs = Some (4, s')"
    using lone_user_create by blast
  let ?p = "process_get 4 s'"
  define m where "m = wr32 (wr32 (store_state (\<lambda>_. 0) ?p (pr_cpu_state (pcbs s' ?p))) (?p + 0x1004) 0) (?p + 0x1008) ?p"
  define c where "c = demo_cpu\<lparr>gpr := (\<lambda>_. 0)(ESP := ?p + 0x1000), mem := m\<rparr>"
  have kept: "saved_state (wr32 f (?p + k) v) ?p = saved_state f ?p" if "apart (?p + k) 4 ?p 144" for f k v
    by (rule saved_state_kept [OF that, of 4]) (simp_all add: wr32_outside)
  have "saved_state (mem c) ?p = pr_cpu_state (pcbs s' ?p)" by (simp add: c_def m_def kept)
  moreover have "switch_call 0 ?p c" "cpl c = 0"
    by (simp_all add: c_def m_def switch_call_def rd_apart cpl_def demo_cpu_def apart_def add.commute [of ?p])
  ultimately show ?thesis using user_process_switch_faults [OF s', of 0 c] s' by auto
qed

end
