(* ===== verification/Stubs.thy ===== *)
theory Stubs
  imports Cpu Interrupts
begin

text \<open>
  The interrupt entries of \<open>kernel/interrupt.asm\<close> and the table loads of \<open>kernel/gdt.asm\<close>, as instruction lists. The C handlers are
  compiled code that the stubs call: they are an argument here, with the calling convention as hypotheses. The theorems say
  that the handler finds the structure \<open>registers\<close> of \<open>isr.c\<close> filled with the state of the interrupted program, and that the
  interrupted program continues with that state.
\<close>

section \<open>The frame as C sees it (isr.c)\<close>

record registers_t =
  rg_gs :: u32
  rg_fs :: u32
  rg_es :: u32
  rg_ds :: u32
  rg_edi :: u32
  rg_esi :: u32
  rg_ebp :: u32
  rg_esp :: u32
  rg_ebx :: u32
  rg_edx :: u32
  rg_ecx :: u32
  rg_eax :: u32
  rg_int_no :: u32
  rg_err_code :: u32
  rg_eip :: u32
  rg_cs :: u32
  rg_eflags :: u32
  rg_useresp :: u32
  rg_ss :: u32

definition read_registers :: "(u32 \<Rightarrow> u8) \<Rightarrow> u32 \<Rightarrow> registers_t" where
  "read_registers m p =
     \<lparr>rg_gs = rd32 m p, rg_fs = rd32 m (p + 4), rg_es = rd32 m (p + 8), rg_ds = rd32 m (p + 12),
      rg_edi = rd32 m (p + 16), rg_esi = rd32 m (p + 20), rg_ebp = rd32 m (p + 24), rg_esp = rd32 m (p + 28),
      rg_ebx = rd32 m (p + 32), rg_edx = rd32 m (p + 36), rg_ecx = rd32 m (p + 40), rg_eax = rd32 m (p + 44),
      rg_int_no = rd32 m (p + 48), rg_err_code = rd32 m (p + 52),
      rg_eip = rd32 m (p + 56), rg_cs = rd32 m (p + 60), rg_eflags = rd32 m (p + 64),
      rg_useresp = rd32 m (p + 68), rg_ss = rd32 m (p + 72)\<rparr>"

section \<open>What the processor does\<close>

text \<open>
  Delivery through an interrupt gate: from an outer ring the stack of the TSS is taken and the old one saved there; then flags,
  code segment, instruction pointer and, for some exceptions, an error code.
\<close>

definition take_interrupt :: "u16 \<times> u32 \<Rightarrow> idt_entry \<Rightarrow> u32 option \<Rightarrow> cpu_t \<Rightarrow> cpu_t" where
  "take_interrupt tss_stack g err c =
     (let c1 = (if cpl c = selector g AND 3 then c
                else push32 (gpr c ESP) (push32 (ucast (seg c SS)) (set_seg SS (fst tss_stack) (set_reg ESP (snd tss_stack) c))));
          c2 = push32 (ip c) (push32 (ucast (seg c CS)) (push32 (flags c) c1));
          c3 = (case err of None \<Rightarrow> c2 | Some e \<Rightarrow> push32 e c2)
      in set_seg CS (selector g) (c3\<lparr>ip := gate_target g, flags := flags c AND NOT 0x34300\<rparr>))"

text \<open>
  The vectors for which the processor pushes an error code, after the manuals of the two makers and independently of the stubs:
  double fault, invalid TSS, segment not present, stack fault, general protection, page fault, alignment check and control protection
  (Intel), VMM communication and security (AMD). Hardware interrupts push none.
\<close>

definition pushes_error_code :: "nat \<Rightarrow> bool" where
  "pushes_error_code v \<longleftrightarrow> v \<in> {8, 10, 11, 12, 13, 14, 17, 21, 29, 30}"

section \<open>The stubs (interrupt.asm)\<close>

definition stub_prologue :: "instr list" where
  "stub_prologue =
     [Pusha, PushSeg DS, PushSeg ES, PushSeg FS, PushSeg GS,
      MovLow EAX 0x10, ToSeg DS EAX, ToSeg ES EAX, ToSeg FS EAX, ToSeg GS EAX,
      Push ESP]"

definition stub_epilogue :: "instr list" where
  "stub_epilogue = [Add ESP 4, PopSeg GS, PopSeg FS, PopSeg ES, PopSeg DS, Popa, Add ESP 8, Iret]"

definition isr_common_stub :: "(cpu_t \<Rightarrow> cpu_t option) \<Rightarrow> cpu_t \<Rightarrow> cpu_t option" where
  "isr_common_stub handler c = do { c \<leftarrow> exec stub_prologue c; c \<leftarrow> handler c; exec stub_epilogue c }"

definition irq_common_stub :: "(cpu_t \<Rightarrow> cpu_t option) \<Rightarrow> cpu_t \<Rightarrow> cpu_t option" where
  "irq_common_stub handler c = do { c \<leftarrow> exec stub_prologue c; c \<leftarrow> handler c; exec stub_epilogue c }"

text \<open>The exceptions declared with \<open>ISR_ERROR\<close>.\<close>

definition has_error_code :: "nat \<Rightarrow> bool" where
  "has_error_code n \<longleftrightarrow> n \<in> {8, 10, 11, 12, 13, 14, 17, 30}"

definition isr_entry :: "nat \<Rightarrow> instr list" where
  "isr_entry n = (if has_error_code n then [PushImm (of_nat n)] else [PushImm 0, PushImm (of_nat n)])"

definition irq_entry :: "nat \<Rightarrow> instr list" where
  "irq_entry n = [PushImm 0, PushImm (of_nat (n + 32))]"

text \<open>The stub that \<open>idt_init\<close> installs for a vector: \<open>isr0\<close> to \<open>isr31\<close>, then \<open>irq0\<close> to \<open>irq15\<close>.\<close>

definition vector_stub :: "nat \<Rightarrow> (cpu_t \<Rightarrow> cpu_t option) \<Rightarrow> (cpu_t \<Rightarrow> cpu_t option) \<Rightarrow> cpu_t \<Rightarrow> cpu_t option" where
  "vector_stub v isr irq c =
     (if v < 32 then Option.bind (exec (isr_entry v) c) (isr_common_stub isr)
      else Option.bind (exec (irq_entry (v - 32)) c) (irq_common_stub irq))"

definition idt_load :: "instr list" where
  "idt_load = [Load EAX ESP 4, Lidt EAX, Ret]"

section \<open>Loading the descriptor tables (gdt.asm)\<close>

definition gdt_flush :: "instr list" where
  "gdt_flush =
     [Load EAX ESP 4, Lgdt EAX,
      MovLow EAX 0x10, ToSeg DS EAX, ToSeg ES EAX, ToSeg FS EAX, ToSeg GS EAX, ToSeg SS EAX,
      JmpFar 0x08, Ret]"

definition tss_flush :: "instr list" where
  "tss_flush = [MovLow EAX (0x28 OR 0x03), Ltr EAX, Ret]"

section \<open>The prologue and the epilogue\<close>

text \<open>What the structure must say of the interrupted program. A pushed segment register defines the low half of its word only.\<close>

definition describes :: "registers_t \<Rightarrow> cpu_t \<Rightarrow> bool" where
  "describes r c \<longleftrightarrow>
     ucast (rg_gs r) = seg c GS \<and> ucast (rg_fs r) = seg c FS \<and> ucast (rg_es r) = seg c ES \<and> ucast (rg_ds r) = seg c DS \<and>
     rg_edi r = gpr c EDI \<and> rg_esi r = gpr c ESI \<and> rg_ebp r = gpr c EBP \<and> rg_ebx r = gpr c EBX \<and> rg_edx r = gpr c EDX \<and>
     rg_ecx r = gpr c ECX \<and> rg_eax r = gpr c EAX \<and>
     rg_eip r = ip c \<and> rg_cs r = ucast (seg c CS) \<and> rg_eflags r = flags c"

text \<open>\<open>e\<close> is the stack pointer before the error code: the address of the interrupted instruction pointer.\<close>

lemma prologue_frame:
  assumes "gpr c ESP = e - 8"
  obtains ch where "exec stub_prologue c = Some ch" "gpr ch ESP = e - 60" "rd32 (mem ch) (e - 60) = e - 56"
    "seg ch = (\<lambda>_. 0x10)(CS := seg c CS, SS := seg c SS)"
    "\<And>x. 60 \<le> x - (e - 60) \<Longrightarrow> mem ch x = mem c x"
    "rd16 (mem ch) (e - 56) = seg c GS" "rd16 (mem ch) (e - 52) = seg c FS" "rd16 (mem ch) (e - 48) = seg c ES"
    "rd16 (mem ch) (e - 44) = seg c DS" "rd32 (mem ch) (e - 40) = gpr c EDI" "rd32 (mem ch) (e - 36) = gpr c ESI"
    "rd32 (mem ch) (e - 32) = gpr c EBP" "rd32 (mem ch) (e - 28) = e - 8" "rd32 (mem ch) (e - 24) = gpr c EBX"
    "rd32 (mem ch) (e - 20) = gpr c EDX" "rd32 (mem ch) (e - 16) = gpr c ECX" "rd32 (mem ch) (e - 12) = gpr c EAX"
    "rd32 (mem ch) (e - 8) = rd32 (mem c) (e - 8)" "rd32 (mem ch) (e - 4) = rd32 (mem c) (e - 4)"
proof -
  obtain ch where ch: "exec stub_prologue c = Some ch" by (simp add: stub_prologue_def cpu_ops)
  have "seg ch s = ((\<lambda>_. 0x10)(CS := seg c CS, SS := seg c SS)) s" for s
    using ch by (cases s) (auto simp: stub_prologue_def cpu_ops)
  then have "seg ch = (\<lambda>_. 0x10)(CS := seg c CS, SS := seg c SS)" by blast
  moreover have "mem ch x = mem c x" if "60 \<le> x - (e - 60)" for x
    using ch assms below_stack [OF that] by (auto simp: stub_prologue_def cpu_ops wr32_outside wr16_outside)
  moreover have "gpr ch ESP = e - 60" "rd32 (mem ch) (e - 60) = e - 56"
    "rd16 (mem ch) (e - 56) = seg c GS" "rd16 (mem ch) (e - 52) = seg c FS" "rd16 (mem ch) (e - 48) = seg c ES"
    "rd16 (mem ch) (e - 44) = seg c DS" "rd32 (mem ch) (e - 40) = gpr c EDI" "rd32 (mem ch) (e - 36) = gpr c ESI"
    "rd32 (mem ch) (e - 32) = gpr c EBP" "rd32 (mem ch) (e - 28) = e - 8" "rd32 (mem ch) (e - 24) = gpr c EBX"
    "rd32 (mem ch) (e - 20) = gpr c EDX" "rd32 (mem ch) (e - 16) = gpr c ECX" "rd32 (mem ch) (e - 12) = gpr c EAX"
    "rd32 (mem ch) (e - 8) = rd32 (mem c) (e - 8)" "rd32 (mem ch) (e - 4) = rd32 (mem c) (e - 4)"
    using ch assms by (auto simp: stub_prologue_def cpu_ops rd_apart)
  ultimately show ?thesis using that [OF ch] by blast
qed

lemma epilogue_frame:
  assumes "gpr c ESP = e - 60"
  shows "exec stub_epilogue c = iret (c\<lparr>
    seg := (seg c)(GS := rd16 (mem c) (e - 56), FS := rd16 (mem c) (e - 52), ES := rd16 (mem c) (e - 48), DS := rd16 (mem c) (e - 44)),
    gpr := (gpr c)(EDI := rd32 (mem c) (e - 40), ESI := rd32 (mem c) (e - 36), EBP := rd32 (mem c) (e - 32),
      EBX := rd32 (mem c) (e - 24), EDX := rd32 (mem c) (e - 20), ECX := rd32 (mem c) (e - 16), EAX := rd32 (mem c) (e - 12), ESP := e),
    flags := with_status (with_status (flags c) (add_status (e - 60) 4)) (add_status (e - 8) 8)\<rparr>)"
  using assms by (simp add: stub_epilogue_def cpu_ops exec_nil)

section \<open>Delivery\<close>

text \<open>The address of the saved instruction pointer.\<close>

definition frame_base :: "u16 \<times> u32 \<Rightarrow> idt_entry \<Rightarrow> cpu_t \<Rightarrow> u32" where
  "frame_base tss_stack g c = (if cpl c = selector g AND 3 then gpr c ESP - 12 else snd tss_stack - 20)"

definition vector_entry :: "nat \<Rightarrow> instr list" where
  "vector_entry v = (if v < 32 then isr_entry v else irq_entry (v - 32))"

lemma vector_stub_unfold:
  "vector_stub v h h c = do { c1 \<leftarrow> exec (vector_entry v) c; ch \<leftarrow> exec stub_prologue c1; c2 \<leftarrow> h ch; exec stub_epilogue c2 }"
  unfolding vector_stub_def vector_entry_def isr_common_stub_def [abs_def] irq_common_stub_def [abs_def] by simp

lemma vector_entry_eq:
  assumes "v < 48" "err = None \<longleftrightarrow> \<not> has_error_code v" "gpr c ESP = e - (if err = None then 0 else 4)"
    "\<And>x. err = Some x \<Longrightarrow> rd32 (mem c) (e - 4) = x"
  shows "\<exists>m. exec (vector_entry v) c = Some (c\<lparr>gpr := (gpr c)(ESP := e - 8), mem := m\<rparr>) \<and>
    rd32 m (e - 8) = of_nat v \<and> rd32 m (e - 4) = (case err of None \<Rightarrow> 0 | Some x \<Rightarrow> x) \<and>
    (\<forall>x. 8 \<le> x - (e - 8) \<longrightarrow> m x = mem c x)"
proof (cases err)
  case None
  let ?m = "wr32 (wr32 (mem c) (e - 4) 0) (e - 8) (of_nat v)"
  have "exec (vector_entry v) c = Some (c\<lparr>gpr := (gpr c)(ESP := e - 8), mem := ?m\<rparr>)"
    using assms None by (auto simp: vector_entry_def isr_entry_def irq_entry_def cpu_ops)
  moreover have "?m x = mem c x" if "8 \<le> x - (e - 8)" for x using below_stack [OF that] by (simp add: wr32_outside)
  ultimately show ?thesis using None by (auto simp: rd_apart)
next
  case (Some y)
  let ?m = "wr32 (mem c) (e - 8) (of_nat v)"
  have "v < 32" using assms(2) Some by (auto simp: has_error_code_def)
  then have "exec (vector_entry v) c = Some (c\<lparr>gpr := (gpr c)(ESP := e - 8), mem := ?m\<rparr>)"
    using assms Some by (auto simp: vector_entry_def isr_entry_def cpu_ops)
  moreover have "?m x = mem c x" if "8 \<le> x - (e - 8)" for x using below_stack [OF that] by (simp add: wr32_outside)
  ultimately show ?thesis using Some assms(4) by (auto simp: rd_apart)
qed

lemma take_interrupt_frame:
  fixes c :: cpu_t and tss :: "u16 \<times> u32" and g :: idt_entry and err :: "u32 option"
  defines "t \<equiv> take_interrupt tss g err c" and "e \<equiv> frame_base tss g c"
  shows "gpr t = (gpr c)(ESP := e - (if err = None then 0 else 4))" "\<And>x. err = Some x \<Longrightarrow> rd32 (mem t) (e - 4) = x"
    "rd32 (mem t) e = ip c" "rd32 (mem t) (e + 4) = ucast (seg c CS)" "rd32 (mem t) (e + 8) = flags c"
    "cpl c \<noteq> selector g AND 3 \<Longrightarrow> rd32 (mem t) (e + 12) = gpr c ESP \<and> rd32 (mem t) (e + 16) = ucast (seg c SS)"
    "seg t = (seg c)(CS := selector g, SS := (if cpl c = selector g AND 3 then seg c SS else fst tss))"
  unfolding t_def e_def
  by (auto simp: take_interrupt_def frame_base_def push32_def set_reg_def set_seg_def Let_def rd_apart split: option.splits)

text \<open>From the interrupt to the call of the handler.\<close>

lemma rd32_frame:
  assumes "\<And>x. k \<le> x - a \<Longrightarrow> m' x = m x" "apart a k b 4" "0 < k"
  shows "rd32 m' b = rd32 m b"
  using assms apart_offset [OF assms(2), of 0] apart_offset [OF assms(2), of 1] apart_offset [OF assms(2), of 2]
    apart_offset [OF assms(2), of 3]
  by (intro rd32_cong) (simp_all add: word_less_nat_alt)

lemma delivery:
  fixes c :: cpu_t and tss :: "u16 \<times> u32" and g :: idt_entry and err :: "u32 option"
  assumes "v < 48" "err = None \<longleftrightarrow> \<not> has_error_code v"
  defines "e \<equiv> frame_base tss g c"
  obtains c1 ch where "exec (vector_entry v) (take_interrupt tss g err c) = Some c1" "exec stub_prologue c1 = Some ch"
    "gpr ch ESP = e - 60" "rd32 (mem ch) (e - 60) = e - 56" "describes (read_registers (mem ch) (e - 56)) c"
    "rg_int_no (read_registers (mem ch) (e - 56)) = of_nat v"
    "rg_err_code (read_registers (mem ch) (e - 56)) = (case err of None \<Rightarrow> 0 | Some x \<Rightarrow> x)"
    "cpl c \<noteq> selector g AND 3 \<Longrightarrow> rg_useresp (read_registers (mem ch) (e - 56)) = gpr c ESP \<and>
       rg_ss (read_registers (mem ch) (e - 56)) = ucast (seg c SS)"
    "seg ch = (\<lambda>_. 0x10)(CS := selector g, SS := (if cpl c = selector g AND 3 then seg c SS else fst tss))"
proof -
  let ?t = "take_interrupt tss g err c"
  note t = take_interrupt_frame [where c = c and tss = tss and g = g and err = err, folded e_def]
  have "gpr ?t ESP = e - (if err = None then 0 else 4)" using t(1) by simp
  from vector_entry_eq [OF assms(1,2) this t(2)] obtain m where
    c1: "exec (vector_entry v) ?t = Some (?t\<lparr>gpr := (gpr ?t)(ESP := e - 8), mem := m\<rparr>)" (is "_ = Some ?c1") and
    m: "rd32 m (e - 8) = of_nat v" "rd32 m (e - 4) = (case err of None \<Rightarrow> 0 | Some x \<Rightarrow> x)" "\<And>x. 8 \<le> x - (e - 8) \<Longrightarrow> m x = mem ?t x"
    by blast
  have "gpr ?c1 ESP = e - 8" by simp
  then obtain ch where ch: "exec stub_prologue ?c1 = Some ch" "gpr ch ESP = e - 60" "rd32 (mem ch) (e - 60) = e - 56"
    "seg ch = (\<lambda>_. 0x10)(CS := seg ?c1 CS, SS := seg ?c1 SS)"
    "\<And>x. 60 \<le> x - (e - 60) \<Longrightarrow> mem ch x = mem ?c1 x"
    "rd16 (mem ch) (e - 56) = seg ?c1 GS" "rd16 (mem ch) (e - 52) = seg ?c1 FS" "rd16 (mem ch) (e - 48) = seg ?c1 ES"
    "rd16 (mem ch) (e - 44) = seg ?c1 DS" "rd32 (mem ch) (e - 40) = gpr ?c1 EDI" "rd32 (mem ch) (e - 36) = gpr ?c1 ESI"
    "rd32 (mem ch) (e - 32) = gpr ?c1 EBP" "rd32 (mem ch) (e - 28) = e - 8" "rd32 (mem ch) (e - 24) = gpr ?c1 EBX"
    "rd32 (mem ch) (e - 20) = gpr ?c1 EDX" "rd32 (mem ch) (e - 16) = gpr ?c1 ECX" "rd32 (mem ch) (e - 12) = gpr ?c1 EAX"
    "rd32 (mem ch) (e - 8) = rd32 (mem ?c1) (e - 8)" "rd32 (mem ch) (e - 4) = rd32 (mem ?c1) (e - 4)"
    by (rule prologue_frame) blast
  have up: "rd32 (mem ch) (e + k) = rd32 (mem ?t) (e + k)" if "k \<in> {0, 4, 8, 12, 16}" for k
  proof -
    have "apart (e - 60) 60 (e + k) 4" "apart (e - 8) 8 (e + k) 4" using that by auto
    then show ?thesis using rd32_frame [of 60 "e - 60" "mem ch" m "e + k"] rd32_frame [of 8 "e - 8" m "mem ?t" "e + k"] ch(5) m(3) by simp
  qed
  have "describes (read_registers (mem ch) (e - 56)) c"
    using ch(6-) t(1,7) t(3-5) up [of 0] up [of 4] up [of 8] by (simp add: describes_def read_registers_def add.commute [of _ e])
  moreover have "seg ch = (\<lambda>_. 0x10)(CS := selector g, SS := (if cpl c = selector g AND 3 then seg c SS else fst tss))"
    unfolding ch(4) using t(7) by simp
  ultimately show ?thesis
    using that [OF c1 ch(1-3)] m(1,2) ch(18,19) t(6) up [of 12] up [of 16] by (simp add: read_registers_def add.commute [of _ e])
qed

text \<open>
  The table of the stubs agrees with the processor on every vector but 21 and 29, which the file calls reserved. An exception with an
  error code through one of these leaves the structure shifted: the error code stands where the instruction pointer should.
\<close>

lemma error_codes_agree: "v \<notin> {21, 29} \<Longrightarrow> has_error_code v \<longleftrightarrow> pushes_error_code v"
  by (auto simp: has_error_code_def pushes_error_code_def)

lemma unlisted_error_code_misframed:
  assumes "v \<in> {21, 29}"
  shows "\<exists>c1 ch r. exec (vector_entry v) (take_interrupt tss g (Some x) c) = Some c1 \<and> exec stub_prologue c1 = Some ch \<and>
    r = read_registers (mem ch) (rd32 (mem ch) (gpr ch ESP)) \<and> rg_err_code r = 0 \<and> rg_eip r = x"
proof -
  define e where "e = frame_base tss g c - 4"
  let ?t = "take_interrupt tss g (Some x) c"
  have t: "gpr ?t ESP = e - (if (None :: u32 option) = None then 0 else 4)" "rd32 (mem ?t) e = x"
    using take_interrupt_frame(1,2) [where c = c and tss = tss and g = g and err = "Some x"] by (simp_all add: e_def)
  have v: "v < 48" "(None :: u32 option) = None \<longleftrightarrow> \<not> has_error_code v" using assms by (auto simp: has_error_code_def)
  from vector_entry_eq [OF v t(1)] obtain m where
    c1: "exec (vector_entry v) ?t = Some (?t\<lparr>gpr := (gpr ?t)(ESP := e - 8), mem := m\<rparr>)" (is "_ = Some ?c1") and
    m: "rd32 m (e - 4) = 0" "\<And>x. 8 \<le> x - (e - 8) \<Longrightarrow> m x = mem ?t x" by auto
  have "gpr ?c1 ESP = e - 8" by simp
  then obtain ch where ch: "exec stub_prologue ?c1 = Some ch" "gpr ch ESP = e - 60" "rd32 (mem ch) (e - 60) = e - 56"
    "\<And>x. 60 \<le> x - (e - 60) \<Longrightarrow> mem ch x = m x" "rd32 (mem ch) (e - 4) = rd32 m (e - 4)"
    by (rule prologue_frame) (use that in simp)
  have "apart (e - 60) 60 e 4" "apart (e - 8) 8 e 4" by auto
  then have "rd32 (mem ch) e = x"
    using rd32_frame [of 60 "e - 60" "mem ch" m e] rd32_frame [of 8 "e - 8" m "mem ?t" e] ch(4) m(2) t(2) by simp
  then show ?thesis using c1 ch m(1) by (auto simp: read_registers_def add.commute [of _ e])
qed

section \<open>Return\<close>

lemma rd_within:
  assumes "\<forall>x. 4 \<le> x - s \<and> x - s < 80 \<longrightarrow> m' x = m x" "4 \<le> b - s" "b - s \<le> 76"
  shows "rd32 m' b = rd32 m b" "rd16 m' b = rd16 m b"
proof -
  have "m' (b + j) = m (b + j)" if "j < 4" for j
  proof -
    have "unat ((b - s) + j) = unat (b - s) + unat j" using assms(3) that by (intro unat_add_u32) (simp add: word_le_nat_alt word_less_nat_alt)
    then have "4 \<le> (b - s) + j" "(b - s) + j < 80" using assms(2,3) that by (auto simp: word_le_nat_alt word_less_nat_alt)
    moreover have "b + j - s = (b - s) + j" by simp
    ultimately show ?thesis using assms(1) by presburger
  qed
  from this [of 0] this [of 1] this [of 2] this [of 3] show "rd32 m' b = rd32 m b" "rd16 m' b = rd16 m b"
    by (auto intro!: rd32_cong rd16_cong simp: word_less_nat_alt)
qed

lemma ucast_up_down [simp]: "ucast (ucast (x :: u16) :: u32) = x"
  by (rule bit_word_eqI) (auto simp: bit_simps)

lemma all_registers:
  "f(EDI := g EDI, ESI := g ESI, EBP := g EBP, EBX := g EBX, EDX := g EDX, ECX := g ECX, EAX := g EAX, ESP := g ESP) = g"
proof
  fix r show "(f(EDI := g EDI, ESI := g ESI, EBP := g EBP, EBX := g EBX, EDX := g EDX, ECX := g ECX, EAX := g EAX, ESP := g ESP)) r = g r"
    by (cases r) simp_all
qed

lemma all_segments:
  "f(SS := a, GS := h GS, FS := h FS, ES := h ES, DS := h DS, CS := h CS, SS := h SS) = h"
  "f(SS := h SS, GS := h GS, FS := h FS, ES := h ES, DS := h DS, CS := h CS) = h"
proof -
  have "(f(SS := a, GS := h GS, FS := h FS, ES := h ES, DS := h DS, CS := h CS, SS := h SS)) s = h s"
    "(f(SS := h SS, GS := h GS, FS := h FS, ES := h ES, DS := h DS, CS := h CS)) s = h s" for s by (cases s; simp)+
  then show "f(SS := a, GS := h GS, FS := h FS, ES := h ES, DS := h DS, CS := h CS, SS := h SS) = h"
    "f(SS := h SS, GS := h GS, FS := h FS, ES := h ES, DS := h DS, CS := h CS) = h"
    by blast+
qed

text \<open>The epilogue undoes what a structure on the stack describes.\<close>

lemma epilogue_returns:
  assumes "gpr c2 ESP = e - 60" "seg c2 = (\<lambda>_. 0x10)(CS := 0x08, SS := ss0)" "e = frame_base tss g c" "selector g = 0x08"
    and "describes (read_registers (mem c2) (e - 56)) c"
    and "cpl c \<noteq> 0 \<Longrightarrow> rd32 (mem c2) (e + 12) = gpr c ESP \<and> rd32 (mem c2) (e + 16) = ucast (seg c SS)"
    and "cpl c = 0 \<and> ss0 = seg c SS \<or> cpl c = 3 \<and> stack_ok" "stack_ok \<longleftrightarrow> seg c SS AND 3 = 3 \<and> seg c SS AND 0xFFFC \<noteq> 0"
    and "flags c = (flags c AND IRET_FLAGS) OR 2"
  shows "\<exists>c'. exec stub_epilogue c2 = Some c' \<and> ip c' = ip c \<and> gpr c' = gpr c \<and> seg c' = seg c \<and> flags c' = flags c"
proof -
  have r: "rd32 (mem c2) e = ip c" "rd32 (mem c2) (e + 4) = ucast (seg c CS)" "rd32 (mem c2) (e + 8) = flags c"
     "rd16 (mem c2) (e - 56) = seg c GS" "rd16 (mem c2) (e - 52) = seg c FS" "rd16 (mem c2) (e - 48) = seg c ES"
     "rd16 (mem c2) (e - 44) = seg c DS" "rd32 (mem c2) (e - 40) = gpr c EDI" "rd32 (mem c2) (e - 36) = gpr c ESI"
     "rd32 (mem c2) (e - 32) = gpr c EBP" "rd32 (mem c2) (e - 24) = gpr c EBX" "rd32 (mem c2) (e - 20) = gpr c EDX"
     "rd32 (mem c2) (e - 16) = gpr c ECX" "rd32 (mem c2) (e - 12) = gpr c EAX"
    using assms(5) by (auto simp: describes_def read_registers_def add.commute [of _ e])
  show ?thesis using assms(7)
  proof
    assume z: "cpl c = 0 \<and> ss0 = seg c SS"
    then show ?thesis
      using assms(3,4,9) r unfolding epilogue_frame [OF assms(1)] assms(2)
      by (simp add: iret_def pop32_def set_reg_def set_seg_def cpl_def frame_base_def Let_def all_registers all_segments)
  next
    assume z: "cpl c = 3 \<and> stack_ok"
    then have "rd32 (mem c2) (e + 16) = ucast (seg c SS)" using assms(6) by simp
    then have "ucast (rd32 (mem c2) (e + 16)) = seg c SS" by (simp del: ucast_rd32)
    then have "rd16 (mem c2) (e + 16) = seg c SS" by simp
    with z show ?thesis
      using assms(3,4,6,8,9) r unfolding epilogue_frame [OF assms(1)] assms(2)
      by (simp add: iret_def pop32_def set_reg_def set_seg_def load_seg_def cpl_def frame_base_def Let_def all_registers all_segments)
  qed
qed

section \<open>Properties\<close>

text \<open>
  C39: Every interrupt entry but those of vectors 21 and 29 hands the C handler a pointer to a structure \<open>registers\<close> that describes the interrupted program: its
  registers, segments, instruction pointer and flags, the number of the vector and the error code (0 where the processor pushes
  none), and, when it ran in an outer ring, its stack. The handler runs with the kernel data segments. Which vectors have an error code
  is the processor's documented set.
\<close>

theorem interrupt_frame_matches:
  assumes "v < 48" "v \<notin> {21, 29}" "err = None \<longleftrightarrow> \<not> pushes_error_code v"
  shows "\<exists>c1 ch r. exec (vector_entry v) (take_interrupt tss g err c) = Some c1 \<and> exec stub_prologue c1 = Some ch \<and>
    r = read_registers (mem ch) (rd32 (mem ch) (gpr ch ESP)) \<and> describes r c \<and> rg_int_no r = of_nat v \<and>
    rg_err_code r = (case err of None \<Rightarrow> 0 | Some x \<Rightarrow> x) \<and>
    (cpl c \<noteq> selector g AND 3 \<longrightarrow> rg_useresp r = gpr c ESP \<and> rg_ss r = ucast (seg c SS)) \<and>
    (\<forall>s\<in>{DS, ES, FS, GS}. seg ch s = 0x10)"
proof -
  obtain c1 ch where "exec (vector_entry v) (take_interrupt tss g err c) = Some c1" "exec stub_prologue c1 = Some ch"
    "gpr ch ESP = frame_base tss g c - 60" "rd32 (mem ch) (frame_base tss g c - 60) = frame_base tss g c - 56"
    "describes (read_registers (mem ch) (frame_base tss g c - 56)) c"
    "rg_int_no (read_registers (mem ch) (frame_base tss g c - 56)) = of_nat v"
    "rg_err_code (read_registers (mem ch) (frame_base tss g c - 56)) = (case err of None \<Rightarrow> 0 | Some x \<Rightarrow> x)"
    "cpl c \<noteq> selector g AND 3 \<Longrightarrow> rg_useresp (read_registers (mem ch) (frame_base tss g c - 56)) = gpr c ESP \<and>
       rg_ss (read_registers (mem ch) (frame_base tss g c - 56)) = ucast (seg c SS)"
    "seg ch = (\<lambda>_. 0x10)(CS := selector g, SS := (if cpl c = selector g AND 3 then seg c SS else fst tss))"
    using delivery [OF assms(1), of err tss g c] assms(3) unfolding error_codes_agree [OF assms(2)] by blast
  then show ?thesis by auto
qed

text \<open>
  C40: An interrupt, through any vector but 21 and 29 and with an error code exactly where the processor documents one, is invisible
  to the interrupted program, in ring 0 and in ring 3: if the handler returns as the C calling convention
  asks, with the stack pointer, the segments and the words of the frame above its argument as they were, then the stub returns to the
  interrupted instruction with all eight registers, all segments and the flags unchanged.
\<close>

theorem interrupt_returns:
  assumes "v < 48" "v \<notin> {21, 29}" "err = None \<longleftrightarrow> \<not> pushes_error_code v"
    and "selector g = 0x08" "cpl c = 0 \<or> cpl c = 3 \<and> seg c SS AND 3 = 3 \<and> seg c SS AND 0xFFFC \<noteq> 0"
    and "flags c = (flags c AND IRET_FLAGS) OR 2"
    and "\<And>ch. \<exists>c2. handler ch = Some c2 \<and> gpr c2 ESP = gpr ch ESP \<and> seg c2 = seg ch \<and>
      (\<forall>x. 4 \<le> x - gpr ch ESP \<and> x - gpr ch ESP < 80 \<longrightarrow> mem c2 x = mem ch x)"
  shows "\<exists>c'. vector_stub v handler handler (take_interrupt tss g err c) = Some c' \<and>
    ip c' = ip c \<and> gpr c' = gpr c \<and> seg c' = seg c \<and> flags c' = flags c"
proof -
  define e where "e = frame_base tss g c"
  have sel: "selector g AND 3 = 0" using assms(4) by simp
  obtain c1 ch where d: "exec (vector_entry v) (take_interrupt tss g err c) = Some c1" "exec stub_prologue c1 = Some ch"
    "gpr ch ESP = e - 60" "describes (read_registers (mem ch) (e - 56)) c"
    "cpl c \<noteq> 0 \<Longrightarrow> rg_useresp (read_registers (mem ch) (e - 56)) = gpr c ESP \<and> rg_ss (read_registers (mem ch) (e - 56)) = ucast (seg c SS)"
    "seg ch = (\<lambda>_. 0x10)(CS := selector g, SS := (if cpl c = 0 then seg c SS else fst tss))"
    using delivery [OF assms(1), of err tss g c] assms(3) unfolding error_codes_agree [OF assms(2)] sel e_def by blast
  from assms(7) [of ch] obtain c2 where c2: "handler ch = Some c2" "gpr c2 ESP = e - 60" "seg c2 = seg ch"
    and kept: "\<forall>x. 4 \<le> x - (e - 60) \<and> x - (e - 60) < 80 \<longrightarrow> mem c2 x = mem ch x" unfolding d(3) by blast
  note w = rd_within [OF kept]
  have r: "read_registers (mem c2) (e - 56) = read_registers (mem ch) (e - 56)"
    using w by (simp add: read_registers_def)
  have u: "rd32 (mem c2) (e + 12) = gpr c ESP \<and> rd32 (mem c2) (e + 16) = ucast (seg c SS)" if "cpl c \<noteq> 0"
    using d(5) [OF that] unfolding r [symmetric] by (simp add: read_registers_def add.commute [of _ e])
  have "\<exists>c'. exec stub_epilogue c2 = Some c' \<and> ip c' = ip c \<and> gpr c' = gpr c \<and> seg c' = seg c \<and> flags c' = flags c"
    by (rule epilogue_returns [OF c2(2) _ e_def assms(4) _ u _ refl assms(6)])
      (use assms(4,5) c2(3) d(4,6) r in auto)
  then show ?thesis unfolding vector_stub_unfold d(1) using d(2) c2(1) by auto
qed

text \<open>A timer interrupt in ring 3, the kernel stack at 0x9000, with a handler that overwrites the registers a C function may.\<close>

definition user_cpu :: cpu_t where
  "user_cpu = \<lparr>gpr = (\<lambda>_. 5)(ESP := 0x7FFFFFF0), seg = (\<lambda>_. 0x23)(CS := 0x1B), ip = 0x40000010, flags = 0x202,
     mem = (\<lambda>_. 0), gdtr = (0, 0), idtr = (0, 0), task_reg = 0x2B\<rparr>"

definition timer_gate :: idt_entry where
  "timer_gate = \<lparr>offset_low = 0x1234, selector = 0x08, i_zero = 0, type_attr = 0x8E, offset_high = 0\<rparr>"

lemma interrupt_frame_matches_witness:
  "\<exists>c1 ch. exec (vector_entry 14) (take_interrupt (0x10, 0x9000) timer_gate (Some 4) user_cpu) = Some c1 \<and>
    exec stub_prologue c1 = Some ch \<and> rg_int_no (read_registers (mem ch) (rd32 (mem ch) (gpr ch ESP))) = 14 \<and>
    rg_err_code (read_registers (mem ch) (rd32 (mem ch) (gpr ch ESP))) = 4 \<and>
    rg_useresp (read_registers (mem ch) (rd32 (mem ch) (gpr ch ESP))) = 0x7FFFFFF0"
proof -
  have "cpl user_cpu \<noteq> selector timer_gate AND 3" "gpr user_cpu ESP = 0x7FFFFFF0"
    by (simp_all add: cpl_def user_cpu_def timer_gate_def)
  then show ?thesis
    using interrupt_frame_matches [of 14 "Some 4" "(0x10, 0x9000)" timer_gate user_cpu] by (auto simp: pushes_error_code_def)
qed

lemma interrupt_returns_witness:
  "(\<exists>c'. vector_stub 32 (\<lambda>c. Some (set_reg EAX 1 (set_reg ECX 2 c))) (\<lambda>c. Some (set_reg EAX 1 (set_reg ECX 2 c)))
      (take_interrupt (0x10, 0x9000) timer_gate None user_cpu) = Some c' \<and>
    ip c' = 0x40000010 \<and> gpr c' EAX = 5 \<and> gpr c' ESP = 0x7FFFFFF0 \<and> seg c' CS = 0x1B) \<and>
   (\<exists>c'. vector_stub 13 (\<lambda>c. Some c) (\<lambda>c. Some c) (take_interrupt (0x10, 0x9000) timer_gate (Some 0x28) user_cpu) = Some c' \<and>
    ip c' = 0x40000010 \<and> gpr c' ESP = 0x7FFFFFF0)"
  using interrupt_returns [of 32 None timer_gate user_cpu "\<lambda>c. Some (set_reg EAX 1 (set_reg ECX 2 c))" "(0x10, 0x9000)"]
    interrupt_returns [of 13 "Some 0x28" timer_gate user_cpu "\<lambda>c. Some c" "(0x10, 0x9000)"]
  by (auto simp: pushes_error_code_def timer_gate_def user_cpu_def cpl_def set_reg_def)

section \<open>The descriptor tables in force\<close>

text \<open>\<open>gdt_flush\<close> loads the table whose limit and base lie at its argument and reloads every segment register; \<open>idt_load\<close> and \<open>tss_flush\<close>
  load the interrupt table and the task register.\<close>

lemma gdt_flush_loads:
  assumes "cpl c = 0"
  shows "\<exists>c'. exec gdt_flush c = Some c' \<and> gdtr c' = load_table (mem c) (rd32 (mem c) (gpr c ESP + 4)) \<and>
    seg c' = (\<lambda>_. 0x10)(CS := 0x08) \<and> ip c' = rd32 (mem c) (gpr c ESP) \<and> gpr c' ESP = gpr c ESP + 4 \<and> mem c' = mem c"
proof -
  obtain c' where c': "exec gdt_flush c = Some c'" using assms by (simp add: gdt_flush_def cpu_ops)
  have "seg c' s = ((\<lambda>_. 0x10)(CS := 0x08)) s" for s using c' assms by (cases s) (auto simp: gdt_flush_def cpu_ops)
  then have "seg c' = (\<lambda>_. 0x10)(CS := 0x08)" by blast
  moreover have "gdtr c' = load_table (mem c) (rd32 (mem c) (gpr c ESP + 4))" "ip c' = rd32 (mem c) (gpr c ESP)"
    "gpr c' ESP = gpr c ESP + 4" "mem c' = mem c"
    using c' assms by (auto simp: gdt_flush_def cpu_ops)
  ultimately show ?thesis using c' by blast
qed

lemma idt_load_loads:
  "\<exists>c'. exec idt_load c = Some c' \<and> idtr c' = load_table (mem c) (rd32 (mem c) (gpr c ESP + 4)) \<and> seg c' = seg c \<and> mem c' = mem c"
  by (simp add: idt_load_def cpu_ops)

lemma tss_flush_loads: "\<exists>c'. exec tss_flush c = Some c' \<and> task_reg c' = 0x2B \<and> seg c' = seg c \<and> mem c' = mem c"
  by (simp add: tss_flush_def cpu_ops)

end
