(* ===== verification/Spec2Isabelle.thy ===== *)
theory Spec2Isabelle
  imports Pmm Heap CString Ramdisk Fs Fs_Dir Fs_Unlink Paging Process Timer Keyboard Kprintf Interrupts Syscall
    Shell_Files Shell_Complete Userlib Kernel_Boot Kernel_Tasks Shell_Remove Context_Switch Usermode Stubs
begin

text \<open>
  Verification of the Wittche kernel (\<open>src/kernel\<close>, \<open>src/include\<close>), a 32-bit x86 kernel in C with a shell.

  \<^bold>\<open>The program.\<close> \<open>kernel_main\<close> sets up the screen, the descriptor tables, the system calls, the page allocator, the kernel
  heap, paging, a RAM disk, a file system on it, the processes, the timer and the keyboard, and then runs the shell for ever.
  The heap serves the RAM disk, the file system's buffers, the process control blocks, stacks and message queues; the page
  allocator serves paging and user processes; the timer interrupt wakes sleeping processes and schedules; user programs
  enter through interrupt 0x80.

  \<^bold>\<open>Conventions.\<close> Machine integers are words of their width, \<open>int\<close> values are \<open>int\<close> with the overflow written out. An operation
  whose C body can index out of bounds, overflow a signed integer, follow a bad pointer or loop for ever returns an option, and
  \<open>None\<close> stands for exactly these outcomes: a theorem that a result is \<open>Some\<close> says that the code is safe there and returns. Error
  codes and null pointers are ordinary results. A C string is the list of the bytes from its address to the end of its array;
  \<open>cstr\<close> is the text before the terminator. Static variables are fields of the component's record. The bytes of uninitialised
  arrays and registers are arguments, so the theorems hold for all of them.

  \<^bold>\<open>Theories\<close>, in the order of the layers:
  \<^item> \<open>Kernel_Prelude\<close>: the word types, bounded stores, lemmas shared by the components.
  \<^item> \<open>Pmm\<close> (\<open>pmm.c\<close>): the page bitmap. Reachable states keep the invariant between bitmap and count; a single page is the
    lowest free one, a run is the first fit of a reference search; the statistics count the bits; the unsigned bound of the run search overruns for
    oversized requests. The locale of page pools is interpreted on the allocator.
  \<^item> \<open>Heap\<close> (\<open>heap.c\<close>): the block list in memory, abstracted to a list of tiles that cover the heap. Every operation refines one on
    tiles and keeps the blocks apart; allocation is first fit, freeing coalesces, reallocation keeps the content. Headers and
    bytes are two views of memory; a store through a heap pointer (here, in \<open>Process\<close> and in \<open>Shell_Proc\<close>) that would leave the
    payload of its block is \<open>None\<close>, and exactly which calls do so is proved (\<open>kcalloc\<close> of a wrapping size, a stack of under 4 bytes).
    The locale of allocators is interpreted as \<open>kheap\<close> and is what the clients of the heap use.
  \<^item> \<open>CString\<close> (\<open>string.c\<close>): the string and memory functions, with the extent of every write.
  \<^item> \<open>Ramdisk\<close> (\<open>ramdisk.c\<close>); \<open>Fs\<close> (\<open>fs.c\<close>: layout, packed encodings, all operations), \<open>Fs_Inode\<close> (inodes and free maps),
    \<open>Fs_File\<close> (file contents), \<open>Fs_Mount\<close> (formatting, mounting), \<open>Fs_Dir\<close> (the root directory as a finite map, creation and
    lookup, writing and reading a file through its name), \<open>Fs_Unlink\<close> (deleting a file).
  \<^item> \<open>Paging\<close> (\<open>paging.c\<close>): directories and tables in frames, translation, mapping and unmapping, the identity map of the boot.
  \<^item> \<open>Process\<close> (\<open>process.c\<close>): control blocks, creation and termination on the heap, the priority scheduler, sleeping, message
    queues as lists.
  \<^item> \<open>Screen\<close>, \<open>Kprintf\<close> (\<open>screen.c\<close>, \<open>kprintf.c\<close>): text memory and cursor against a flat specification; the locale \<open>console\<close> of
    character devices is interpreted on the driver and carries all output; formatted output against a rendering function.
  \<^item> \<open>Keyboard\<close>, \<open>Timer\<close> (\<open>keyboard.c\<close>, \<open>timer.c\<close>): scan codes, ring buffer, the line editor against an editor on lists; ticks,
    uptime and waiting under wrap-around.
  \<^item> \<open>Interrupts\<close> (\<open>gdt.c\<close>, \<open>idt.c\<close>, \<open>isr.c\<close>), \<open>Syscall\<close> (\<open>syscall.c\<close>), \<open>Userlib\<close> (\<open>userlib.c\<close>, \<open>syscall.asm\<close>): descriptor tables, the
    order of handler and acknowledgement, the eight calls, the wrappers with the registers and the kernel stack.
  \<^item> \<open>Shell_Base\<close>, \<open>Shell_Info\<close>, \<open>Shell_Proc\<close>, \<open>Shell_Disk\<close>, \<open>Shell\<close> (\<open>shell.c\<close>): the kernel state the commands act on, every command, the
    history, the dispatch, completion, the line editor and the main loop. A command's console calls are collected in
    order (\<open>event\<close>) and \<open>play\<close> runs them on a screen.
  \<^item> \<open>Shell_History\<close> (the locale \<open>recent_log\<close>, interpreted on the history), \<open>Shell_Dispatch\<close> (a command line runs the command its first
    word names), \<open>Shell_Output\<close> (all console calls of all commands are well typed, so they reach the screen), \<open>Shell_Files\<close>
    (\<open>touch\<close> and \<open>cat\<close> on the file system), \<open>Shell_Remove\<close> (\<open>rm\<close> undoes \<open>touch\<close>), \<open>Shell_Complete\<close> (the tab key).
  \<^item> \<open>Kernel_Boot\<close>, \<open>Kernel_Tasks\<close> (\<open>kernel.c\<close>): the boot sequence, which establishes the invariants the shell needs, and the
    demonstration processes.
  \<^item> \<open>Cpu\<close>: the registers, memory and instructions the assembly files use. \<open>Context_Switch\<close> (\<open>switch.asm\<close>): the switch stores and loads exactly
    the saved state of \<open>process.h\<close>, a process resumes where it left, and what the scheduler chose is what runs.
    \<open>Usermode\<close> (\<open>usermode.asm\<close>, the entry wrapper of \<open>process.c\<close>): ring 3 is entered with the right frame, but the saved state of a
    user process faults in the switch before. \<open>Stubs\<close> (\<open>interrupt.asm\<close>, \<open>gdt.asm\<close>): handlers see the structure \<open>registers\<close> of
    the interrupted program, which continues unchanged, for every vector whose stub agrees with the processor on the error
    code (all but 21 and 29).

  \<^bold>\<open>Loops and fuel.\<close> No definition has fuel. Loops over memory that need not end on arbitrary contents (the walk of the heap's block list, the
  scans of strings) return \<open>None\<close> when they leave their array or their list; the other loops are structural or have a
  measure. Commands that wait for keys take the list of keys typed; a prefix that does not end a line is the outcome
  \<open>Waiting\<close>.

  \<^bold>\<open>Concurrency.\<close> A context switch is an outcome of the operation that makes it: \<open>process_schedule\<close> returns whether it switched, a
  system call returns or switches, the timer handler reports the switch to the interrupt handler. The sequences of operations
  between switches are the lists of the reachable-state and step definitions. No interrupt arrives inside a shell command or during the boot.

  \<^bold>\<open>The machine.\<close> The C components and the assembly are joined where a routine's effect is a change of C state: the layout of
  the control block and of the structure \<open>registers\<close>, the scheduler's call of the switch, the gates of \<open>idt_init\<close>. The compiled
  C handlers that the interrupt stubs call are an argument, with the calling convention as hypotheses. A general protection
  fault on the stack segment is \<open>None\<close>; the other descriptor checks are not made.

  \<^bold>\<open>Not modelled.\<close> The boot sector (\<open>boot.asm\<close>), which runs in real mode on BIOS services before any kernel state exists. The diagnostics that the memory, disk, file
  system and process layers print. Reading from ports: the byte read is an argument. The endless idle and halt loops.
\<close>

end
